(* ===== verification/Hvac_Prelude.thy ===== *)
theory Hvac_Prelude
  imports Main "HOL-Library.Word" "HOL-Library.Signed_Division"
begin

text \<open>
  The shared vocabulary of the development: the C integer types of
  \<^verbatim>\<open>applications/Includes/typedef.h\<close> as fixed-width words, the byte accessors
  the sources spell with shifts and casts, the two flag values \<^verbatim>\<open>YES\<close> and
  \<^verbatim>\<open>NO\<close>, and the lemmas on words, lists and bounded counters that the component
  theories share. The collections \<open>pin_defs\<close>, \<open>const_defs\<close> and
  \<open>frame_simps\<close> are filled by the components.
\<close>

unbundle bit_operations_syntax

section \<open>Integer types\<close>

type_synonym u8 = "8 word"
type_synonym u16 = "16 word"
type_synonym u32 = "32 word"
type_synonym u64 = "64 word"
type_synonym s16 = "16 word"

text \<open>
  \<^verbatim>\<open>s16\<close> values are kept as their 16-bit patterns and read with \<open>sint\<close>.
  \<^verbatim>\<open>int\<close> and \<^verbatim>\<open>time_t\<close> values are \<open>int\<close>; the components
  state where a width matters.
\<close>

abbreviation (input) NO :: u8 where "NO \<equiv> 0"
abbreviation (input) YES :: u8 where "YES \<equiv> 1"

abbreviation (input) RT_EOK :: int where "RT_EOK \<equiv> 0"
abbreviation (input) RT_ERROR :: int where "RT_ERROR \<equiv> 1"

section \<open>Named collections\<close>

named_theorems pin_defs \<open>numeric values of the GPIO pins\<close>
named_theorems const_defs \<open>values of the program's other constants\<close>
named_theorems frame_simps \<open>what an operation leaves unchanged\<close>

section \<open>Bytes of a 16-bit word\<close>

definition hi8 :: "u16 \<Rightarrow> u8" where
  "hi8 w = ucast (drop_bit 8 w)"

definition lo8 :: "u16 \<Rightarrow> u8" where
  "lo8 w = ucast w"

definition mk16 :: "u8 \<Rightarrow> u8 \<Rightarrow> u16" where
  "mk16 h l = push_bit 8 (ucast h) OR ucast l"

lemma lo8_mk16 [simp]: "lo8 (mk16 h l) = l"
  unfolding lo8_def mk16_def
  by (rule bit_word_eqI) (simp add: bit_simps)

lemma hi8_mk16 [simp]: "hi8 (mk16 h l) = h"
  unfolding hi8_def mk16_def
  by (rule bit_word_eqI) (auto simp: bit_simps dest: bit_imp_le_length)

lemma mk16_hi_lo [simp]: "mk16 (hi8 w) (lo8 w) = w"
  unfolding hi8_def lo8_def mk16_def
  by (rule bit_word_eqI) (auto simp: bit_simps)

lemma mk16_inject [simp]: "mk16 a b = mk16 c d \<longleftrightarrow> a = c \<and> b = d"
  by (metis hi8_mk16 lo8_mk16)

section \<open>Lists\<close>

lemma take_list_update_same: "n \<le> i \<Longrightarrow> take n (xs[i := v]) = take n xs"
  by simp

lemma list_eq_take_drop1:
  assumes "i < length xs"
  shows "xs = take i xs @ xs ! i # drop (Suc i) xs"
  using assms by (simp add: id_take_nth_drop)

lemma foldl_inj_eq:
  assumes inj: "\<And>b. inj (\<lambda>a. f a b)"
  shows "foldl f a xs = foldl f a' xs \<longleftrightarrow> a = a'"
proof (induction xs arbitrary: a a')
  case Nil
  show ?case by simp
next
  case (Cons x xs)
  have "f a x = f a' x \<longleftrightarrow> a = a'"
    using inj [of x] by (auto dest: injD)
  with Cons show ?case by simp
qed

section \<open>Arithmetic\<close>

lemma mod_Suc_le: "m mod Suc k \<le> (k :: nat)"
  by (simp flip: less_Suc_eq_le)

lemma sdiv_nonneg: "0 \<le> a \<Longrightarrow> 0 < b \<Longrightarrow> a sdiv b = a div (b :: int)"
  by (cases "a = 0") (simp_all add: signed_divide_int_def)

lemma smod_nonneg: "0 \<le> a \<Longrightarrow> 0 < b \<Longrightarrow> a smod b = a mod (b :: int)"
  by (cases "a = 0") (simp_all add: signed_modulo_int_def)

lemma all_le_upt: "(\<forall>i \<le> n. P i) \<longleftrightarrow> list_all P [0..<Suc n]"
  by (auto simp: list_all_iff)

lemma all_less_upt: "(\<forall>i < n. P i) \<longleftrightarrow> list_all P [0..<n]"
  by (auto simp: list_all_iff)

section \<open>Words\<close>

lemma unat_inc_less:
  fixes x y :: "'a::len word"
  assumes "x < y"
  shows "unat (x + 1) = unat x + 1"
proof -
  have "x \<noteq> - 1"
    using assms by (metis word_n1_ge linorder_not_le)
  then have "1 + x \<noteq> 0"
    by (simp add: add_eq_0_iff)
  then show ?thesis
    by (simp add: unatSuc add.commute)
qed

lemma word_xor_cancel_left [simp]:
  fixes a b c :: "'a::len word"
  shows "a XOR b = a XOR c \<longleftrightarrow> b = c"
proof
  assume "a XOR b = a XOR c"
  then have "a XOR (a XOR b) = a XOR (a XOR c)" by simp
  then show "b = c" by (simp flip: xor.assoc)
qed simp

lemma word_xor_cancel_right [simp]:
  fixes a b c :: "'a::len word"
  shows "b XOR a = c XOR a \<longleftrightarrow> b = c"
  by (simp add: xor.commute [of _ a])

lemma word_xor_eq_0 [simp]:
  fixes a b :: "'a::len word"
  shows "a XOR b = 0 \<longleftrightarrow> a = b"
  using word_xor_cancel_left [of a b a] by auto

end
