(* ===== verification/Hvac_List.thy ===== *)
theory Hvac_List
  imports Hvac_Prelude "HOL-Library.Monad_Syntax"
begin

text \<open>
  The linked lists of \<^verbatim>\<open>rt-thread/include/rtservice.h\<close> at pointer level: the doubly
  linked ring \<^verbatim>\<open>rt_list_t\<close> under the message lists and the single chain
  \<^verbatim>\<open>rt_slist_t\<close> under the sensor window. A node is its address; the store maps addresses to
  links. The \<^verbatim>\<open>while\<close> loops are \<open>partial_function (option)\<close>: a loop that never ends
  is \<open>None\<close>, and the lemmas prove that on well-formed chains every one of them ends. The
  locale \<open>linked_list\<close> states what the callers rely on; both kinds of list are instances.
\<close>

type_synonym addr_t = nat

section \<open>The ring rt\_list\<close>

record dlinks =
  dnext :: "addr_t \<Rightarrow> addr_t"
  dprev :: "addr_t \<Rightarrow> addr_t"

definition set_next :: "addr_t \<Rightarrow> addr_t \<Rightarrow> dlinks \<Rightarrow> dlinks" where
  "set_next a b h = h\<lparr>dnext := (dnext h)(a := b)\<rparr>"

definition set_prev :: "addr_t \<Rightarrow> addr_t \<Rightarrow> dlinks \<Rightarrow> dlinks" where
  "set_prev a b h = h\<lparr>dprev := (dprev h)(a := b)\<rparr>"

definition rt_list_init :: "addr_t \<Rightarrow> dlinks \<Rightarrow> dlinks" where
  "rt_list_init l h = set_next l l (set_prev l l h)"

definition rt_list_insert_after :: "addr_t \<Rightarrow> addr_t \<Rightarrow> dlinks \<Rightarrow> dlinks" where
  "rt_list_insert_after l n h =
     (let h = set_prev (dnext h l) n h;
          h = set_next n (dnext h l) h;
          h = set_next l n h
      in set_prev n l h)"

definition rt_list_insert_before :: "addr_t \<Rightarrow> addr_t \<Rightarrow> dlinks \<Rightarrow> dlinks" where
  "rt_list_insert_before l n h =
     (let h = set_next (dprev h l) n h;
          h = set_prev n (dprev h l) h;
          h = set_prev l n h
      in set_next n l h)"

definition rt_list_remove :: "addr_t \<Rightarrow> dlinks \<Rightarrow> dlinks" where
  "rt_list_remove n h =
     (let h = set_prev (dnext h n) (dprev h n) h;
          h = set_next (dprev h n) (dnext h n) h
      in set_next n n (set_prev n n h))"

definition rt_list_isempty :: "dlinks \<Rightarrow> addr_t \<Rightarrow> bool" where
  "rt_list_isempty h l \<longleftrightarrow> dnext h l = l"

partial_function (option) rt_list_len_loop :: "dlinks \<Rightarrow> addr_t \<Rightarrow> addr_t \<Rightarrow> nat \<Rightarrow> nat option" where [code]:
  "rt_list_len_loop h l p len =
     (if dnext h p \<noteq> l then rt_list_len_loop h l (dnext h p) (len + 1) else Some len)"

definition rt_list_len :: "dlinks \<Rightarrow> addr_t \<Rightarrow> nat option" where
  "rt_list_len h l = rt_list_len_loop h l l 0"

text \<open>The nodes \<^verbatim>\<open>rt_list_for_each_entry\<close> visits, in order.\<close>

partial_function (option) rt_list_for_each_loop :: "dlinks \<Rightarrow> addr_t \<Rightarrow> addr_t \<Rightarrow> addr_t list option" where [code]:
  "rt_list_for_each_loop h l pos =
     (if pos \<noteq> l then Option.bind (rt_list_for_each_loop h l (dnext h pos)) (\<lambda>xs. Some (pos # xs)) else Some [])"

definition rt_list_for_each :: "dlinks \<Rightarrow> addr_t \<Rightarrow> addr_t list option" where
  "rt_list_for_each h l = rt_list_for_each_loop h l (dnext h l)"

definition rt_list_first_entry :: "dlinks \<Rightarrow> addr_t \<Rightarrow> addr_t" where
  "rt_list_first_entry h l = dnext h l"

section \<open>The chain rt\_slist\<close>

type_synonym slinks = "addr_t \<Rightarrow> addr_t option"

definition rt_slist_init :: "addr_t \<Rightarrow> slinks \<Rightarrow> slinks" where
  "rt_slist_init l h = h(l := None)"

partial_function (option) rt_slist_tail :: "slinks \<Rightarrow> addr_t \<Rightarrow> addr_t option" where [code]:
  "rt_slist_tail h l = (case h l of Some n \<Rightarrow> rt_slist_tail h n | None \<Rightarrow> Some l)"

definition rt_slist_append :: "addr_t \<Rightarrow> addr_t \<Rightarrow> slinks \<Rightarrow> slinks option" where
  "rt_slist_append l n h =
     Option.bind (rt_slist_tail h l) (\<lambda>node. Some (h(node := Some n, n := None)))"

definition rt_slist_insert :: "addr_t \<Rightarrow> addr_t \<Rightarrow> slinks \<Rightarrow> slinks" where
  "rt_slist_insert l n h = (let h = h(n := h l) in h(l := Some n))"

partial_function (option) rt_slist_len_loop :: "slinks \<Rightarrow> addr_t option \<Rightarrow> nat \<Rightarrow> nat option" where [code]:
  "rt_slist_len_loop h list len =
     (case list of Some n \<Rightarrow> rt_slist_len_loop h (h n) (len + 1) | None \<Rightarrow> Some len)"

definition rt_slist_len :: "slinks \<Rightarrow> addr_t \<Rightarrow> nat option" where
  "rt_slist_len h l = rt_slist_len_loop h (h l) 0"

text \<open>\<^verbatim>\<open>while (node->next && node->next != n) node = node->next;\<close>\<close>

partial_function (option) rt_slist_remove_loop :: "slinks \<Rightarrow> addr_t \<Rightarrow> addr_t \<Rightarrow> addr_t option" where [code]:
  "rt_slist_remove_loop h node n =
     (case h node of
        Some m \<Rightarrow> if m \<noteq> n then rt_slist_remove_loop h m n else Some node
      | None \<Rightarrow> Some node)"

definition rt_slist_remove :: "addr_t \<Rightarrow> addr_t \<Rightarrow> slinks \<Rightarrow> slinks option" where
  "rt_slist_remove l n h =
     Option.bind (rt_slist_remove_loop h l n)
       (\<lambda>node. Some (case h node of Some m \<Rightarrow> h(node := h m) | None \<Rightarrow> h))"

definition rt_slist_first :: "slinks \<Rightarrow> addr_t \<Rightarrow> addr_t option" where
  "rt_slist_first h l = h l"

definition rt_slist_next :: "slinks \<Rightarrow> addr_t \<Rightarrow> addr_t option" where
  "rt_slist_next h n = h n"

definition rt_slist_isempty :: "slinks \<Rightarrow> addr_t \<Rightarrow> bool" where
  "rt_slist_isempty h l \<longleftrightarrow> h l = None"

partial_function (option) rt_slist_for_each :: "slinks \<Rightarrow> addr_t option \<Rightarrow> addr_t list option" where [code]:
  "rt_slist_for_each h pos =
     (case pos of Some n \<Rightarrow> Option.bind (rt_slist_for_each h (h n)) (\<lambda>xs. Some (n # xs)) | None \<Rightarrow> Some [])"

section \<open>Chains of nodes\<close>

text \<open>\<open>dseg h a xs b\<close>: the ring runs from \<open>a\<close> through \<open>xs\<close> to \<open>b\<close>, both ways.\<close>

fun dseg :: "dlinks \<Rightarrow> addr_t \<Rightarrow> addr_t list \<Rightarrow> addr_t \<Rightarrow> bool" where
  "dseg h a [] b \<longleftrightarrow> dnext h a = b \<and> dprev h b = a"
| "dseg h a (x # xs) b \<longleftrightarrow> dnext h a = x \<and> dprev h x = a \<and> dseg h x xs b"

definition dchain :: "dlinks \<Rightarrow> addr_t \<Rightarrow> addr_t list \<Rightarrow> bool" where
  "dchain h l xs \<longleftrightarrow> distinct (l # xs) \<and> dseg h l xs l"

fun sseg :: "slinks \<Rightarrow> addr_t \<Rightarrow> addr_t list \<Rightarrow> bool" where
  "sseg h a [] \<longleftrightarrow> h a = None"
| "sseg h a (x # xs) \<longleftrightarrow> h a = Some x \<and> sseg h x xs"

definition schain :: "slinks \<Rightarrow> addr_t \<Rightarrow> addr_t list \<Rightarrow> bool" where
  "schain h l xs \<longleftrightarrow> distinct (l # xs) \<and> sseg h l xs"

lemmas dlinks_defs = set_next_def set_prev_def

lemma dseg_append: "dseg h a (xs @ y # ys) b \<longleftrightarrow> dseg h a xs y \<and> dseg h y ys b"
  by (induction xs arbitrary: a) auto

text \<open>A segment depends on the next links of its start and nodes and the previous links of its
  nodes and end.\<close>

lemma dseg_cong:
  assumes "\<And>x. x \<in> set (a # xs) \<Longrightarrow> dnext h' x = dnext h x" "\<And>x. x \<in> set (xs @ [b]) \<Longrightarrow> dprev h' x = dprev h x"
  shows "dseg h' a xs b = dseg h a xs b"
  using assms by (induction xs arbitrary: a) auto

lemma sseg_cong: "(\<And>x. x \<in> set (a # xs) \<Longrightarrow> h' x = h x) \<Longrightarrow> sseg h' a xs = sseg h a xs"
  by (induction xs arbitrary: a) auto

section \<open>The loops end on chains\<close>

lemma rt_list_len_loop_dseg:
  "dseg h p xs l \<Longrightarrow> l \<notin> set xs \<Longrightarrow> rt_list_len_loop h l p k = Some (k + length xs)"
proof (induction xs arbitrary: p k)
  case Nil
  then show ?case by (subst rt_list_len_loop.simps) simp
next
  case (Cons x xs)
  then show ?case by (subst rt_list_len_loop.simps) auto
qed

lemma rt_list_for_each_loop_dseg:
  "dseg h p xs l \<Longrightarrow> l \<notin> set xs \<Longrightarrow> rt_list_for_each_loop h l (dnext h p) = Some xs"
proof (induction xs arbitrary: p)
  case Nil
  then show ?case by (subst rt_list_for_each_loop.simps) simp
next
  case (Cons x xs)
  then show ?case by (subst rt_list_for_each_loop.simps) auto
qed

lemma rt_slist_tail_sseg: "sseg h a xs \<Longrightarrow> rt_slist_tail h a = Some (last (a # xs))"
  by (induction xs arbitrary: a) (subst rt_slist_tail.simps, simp)+

lemma rt_slist_len_loop_sseg: "sseg h a xs \<Longrightarrow> rt_slist_len_loop h (h a) k = Some (k + length xs)"
  by (induction xs arbitrary: a k) (subst rt_slist_len_loop.simps, simp)+

lemma rt_slist_for_each_sseg: "sseg h a xs \<Longrightarrow> rt_slist_for_each h (h a) = Some xs"
  by (induction xs arbitrary: a) (subst rt_slist_for_each.simps, simp)+

section \<open>What each operation does to the chain\<close>

lemma dchain_init: "dchain (rt_list_init l h) l []"
  by (simp add: dchain_def rt_list_init_def dlinks_defs)

lemma dchain_insert_after:
  assumes "dchain h l xs" "n \<notin> set (l # xs)"
  shows "dchain (rt_list_insert_after l n h) l (n # xs)"
proof (cases xs)
  case Nil
  with assms show ?thesis by (auto simp: dchain_def rt_list_insert_after_def dlinks_defs)
next
  case (Cons y ys)
  let ?h = "rt_list_insert_after l n h"
  have "dseg ?h y ys l = dseg h y ys l"
    using assms Cons
    by (intro dseg_cong) (auto simp: dchain_def rt_list_insert_after_def dlinks_defs)
  with assms Cons show ?thesis
    by (auto simp: dchain_def rt_list_insert_after_def dlinks_defs)
qed

lemma dchain_prev_last: "dseg h a xs b \<Longrightarrow> dprev h b = last (a # xs)"
  by (induction xs arbitrary: a) auto

lemma dseg_snoc: "dseg h a (xs @ [y]) b \<longleftrightarrow> dseg h a xs y \<and> dnext h y = b \<and> dprev h b = y"
  by (simp add: dseg_append)

lemma dchain_insert_before:
  assumes "dchain h l xs" "n \<notin> set (l # xs)"
  shows "dchain (rt_list_insert_before l n h) l (xs @ [n])"
proof (cases xs rule: rev_cases)
  case Nil
  with assms show ?thesis by (auto simp: dchain_def rt_list_insert_before_def dlinks_defs)
next
  case (snoc ys y)
  let ?h = "rt_list_insert_before l n h"
  have "dseg ?h l ys y = dseg h l ys y"
    using assms snoc
    by (intro dseg_cong) (auto simp: dchain_def rt_list_insert_before_def dlinks_defs dseg_snoc)
  with assms snoc show ?thesis
    by (auto simp: dchain_def rt_list_insert_before_def dlinks_defs dseg_snoc dseg_append)
qed

lemma dchain_remove:
  assumes "dchain h l xs" "n \<in> set xs"
  shows "dchain (rt_list_remove n h) l (remove1 n xs)"
proof -
  obtain us vs where xs: "xs = us @ n # vs" using assms(2) by (auto dest: split_list)
  have d: "distinct (l # us @ n # vs)" and s: "dseg h l us n" "dseg h n vs l"
    using assms(1) by (auto simp: dchain_def xs dseg_append)
  have p: "dprev h n = last (l # us)" by (rule dchain_prev_last [OF s(1)])
  have lu: "last us \<notin> set vs" if "us \<noteq> []"
    using d last_in_set [OF that] by auto
  let ?h = "rt_list_remove n h"
  have vs: "dseg ?h (last (l # us)) vs l \<and> (\<forall>x \<in> set us. dprev ?h x = dprev h x)"
  proof (cases vs)
    case Nil
    with s d p show ?thesis by (auto simp: rt_list_remove_def dlinks_defs)
  next
    case (Cons v vs')
    have "dseg ?h v vs' l = dseg h v vs' l"
      using s d p Cons lu
      by (intro dseg_cong) (auto simp: rt_list_remove_def dlinks_defs split: if_splits)
    then show ?thesis
      using s d p Cons by (auto simp: rt_list_remove_def dlinks_defs)
  qed
  show ?thesis
  proof (cases us rule: rev_cases)
    case Nil
    with vs d xs show ?thesis by (simp add: dchain_def)
  next
    case (snoc us' u)
    have "dseg ?h l us' u = dseg h l us' u"
      using d p snoc vs by (intro dseg_cong) (auto simp: rt_list_remove_def dlinks_defs)
    then have "dseg ?h l us' u" using s(1) snoc by (simp add: dseg_append)
    then show ?thesis
      using d xs snoc vs by (simp add: dchain_def dseg_append remove1_append)
  qed
qed

lemma schain_init: "schain (rt_slist_init l h) l []"
  by (simp add: schain_def rt_slist_init_def)

lemma schain_insert:
  assumes "schain h l xs" "n \<notin> set (l # xs)"
  shows "schain (rt_slist_insert l n h) l (n # xs)"
proof (cases xs)
  case Nil
  with assms show ?thesis by (auto simp: schain_def rt_slist_insert_def)
next
  case (Cons y ys)
  have "sseg (rt_slist_insert l n h) y ys = sseg h y ys"
    using assms Cons by (intro sseg_cong) (auto simp: schain_def rt_slist_insert_def)
  with assms Cons show ?thesis by (auto simp: schain_def rt_slist_insert_def)
qed

lemma sseg_remove:
  assumes "sseg h a xs" "distinct (a # xs)" "n \<in> set xs"
  shows "\<exists>node \<in> set (a # xs) - {n}. \<exists>m. rt_slist_remove_loop h a n = Some node \<and> h node = Some m \<and>
    sseg (h(node := h m)) a (remove1 n xs)"
  using assms
proof (induction xs arbitrary: a)
  case (Cons x xs)
  show ?case
  proof (cases "x = n")
    case True
    have "sseg (h(a := h n)) a xs"
    proof (cases xs)
      case (Cons y ys)
      have "sseg (h(a := h n)) y ys = sseg h y ys"
        using Cons.prems Cons by (intro sseg_cong) auto
      with Cons.prems Cons True show ?thesis by simp
    qed (use Cons.prems True in simp)
    moreover have "rt_slist_remove_loop h a n = Some a"
      using Cons.prems True by (subst rt_slist_remove_loop.simps) simp
    ultimately show ?thesis
      using Cons.prems True by (intro bexI [of _ a] exI [of _ n]) (simp_all add: fun_upd_def)
  next
    case False
    then have "rt_slist_remove_loop h a n = rt_slist_remove_loop h x n"
      using Cons.prems by (subst rt_slist_remove_loop.simps) simp
    moreover obtain node m where "node \<in> set (x # xs) - {n}" "rt_slist_remove_loop h x n = Some node"
      "h node = Some m" "sseg (h(node := h m)) x (remove1 n xs)"
      using Cons.IH [of x] Cons.prems False by (auto simp: fun_upd_def)
    ultimately show ?thesis using Cons.prems False by (auto simp: fun_upd_def)
  qed
qed simp

lemma schain_remove:
  assumes "schain h l xs" "n \<in> set xs"
  shows "\<exists>h'. rt_slist_remove l n h = Some h' \<and> schain h' l (remove1 n xs)"
  using sseg_remove [of h l xs n] assms
  by (auto simp: schain_def rt_slist_remove_def distinct_remove1 dest: notin_set_remove1)

section \<open>The interface\<close>

text \<open>
  What a client of either list relies on: a new node goes first, a node that is in the list can be
  taken out, the length and the traversal see exactly the nodes.
\<close>

locale linked_list =
  fixes chain :: "'h \<Rightarrow> addr_t \<Rightarrow> addr_t list \<Rightarrow> bool"
    and push :: "addr_t \<Rightarrow> addr_t \<Rightarrow> 'h \<Rightarrow> 'h option"
    and delete :: "addr_t \<Rightarrow> addr_t \<Rightarrow> 'h \<Rightarrow> 'h option"
    and len :: "'h \<Rightarrow> addr_t \<Rightarrow> nat option"
    and walk :: "'h \<Rightarrow> addr_t \<Rightarrow> addr_t list option"
  assumes chain_distinct: "chain h l xs \<Longrightarrow> distinct (l # xs)"
    and chain_push: "chain h l xs \<Longrightarrow> n \<notin> set (l # xs) \<Longrightarrow> \<exists>h'. push l n h = Some h' \<and> chain h' l (n # xs)"
    and chain_delete: "chain h l xs \<Longrightarrow> n \<in> set xs \<Longrightarrow> \<exists>h'. delete l n h = Some h' \<and> chain h' l (remove1 n xs)"
    and chain_len: "chain h l xs \<Longrightarrow> len h l = Some (length xs)"
    and chain_walk: "chain h l xs \<Longrightarrow> walk h l = Some xs"
begin

lemma push_delete:
  assumes "chain h l xs" "n \<notin> set (l # xs)"
  shows "\<exists>h1 h2. push l n h = Some h1 \<and> delete l n h1 = Some h2 \<and> chain h2 l xs"
  using chain_push [OF assms] chain_delete [of _ l "n # xs" n] by fastforce

text \<open>A window: the oldest node leaves, a new one enters.\<close>

lemma slide:
  assumes "chain h l (xs @ [z])" "n \<notin> set (l # xs @ [z])"
  shows "\<exists>h1 h2. delete l z h = Some h1 \<and> push l n h1 = Some h2 \<and> chain h2 l (n # xs)"
proof -
  have d: "distinct (l # xs @ [z])" by (rule chain_distinct [OF assms(1)])
  then have "remove1 z (xs @ [z]) = xs" by (simp add: remove1_append)
  with chain_delete [OF assms(1), of z] obtain h1 where "delete l z h = Some h1" "chain h1 l xs"
    by auto
  with chain_push [of h1 l xs n] assms(2) show ?thesis by auto
qed

fun pushes :: "addr_t \<Rightarrow> addr_t list \<Rightarrow> 'h \<Rightarrow> 'h option" where
  "pushes l [] h = Some h"
| "pushes l (n # ns) h = Option.bind (push l n h) (pushes l ns)"

lemma pushes_chain:
  assumes "chain h l xs" "distinct (l # ns @ xs)"
  shows "\<exists>h'. pushes l ns h = Some h' \<and> chain h' l (rev ns @ xs) \<and> len h' l = Some (length ns + length xs)"
  using assms
proof (induction ns arbitrary: h xs)
  case Nil
  then show ?case by (simp add: chain_len)
next
  case (Cons n ns)
  from Cons.prems chain_push [of h l xs n] obtain h1 where h1: "push l n h = Some h1" "chain h1 l (n # xs)"
    by auto
  from Cons.IH [OF h1(2)] Cons.prems(2) show ?case by (auto simp: h1(1))
qed

end

definition ring_push :: "addr_t \<Rightarrow> addr_t \<Rightarrow> dlinks \<Rightarrow> dlinks option" where
  "ring_push l n h = Some (rt_list_insert_after l n h)"

definition ring_delete :: "addr_t \<Rightarrow> addr_t \<Rightarrow> dlinks \<Rightarrow> dlinks option" where
  "ring_delete l n h = Some (rt_list_remove n h)"

definition slist_push :: "addr_t \<Rightarrow> addr_t \<Rightarrow> slinks \<Rightarrow> slinks option" where
  "slist_push l n h = Some (rt_slist_insert l n h)"

definition slist_walk :: "slinks \<Rightarrow> addr_t \<Rightarrow> addr_t list option" where
  "slist_walk h l = rt_slist_for_each h (rt_slist_first h l)"

interpretation ring: linked_list dchain ring_push ring_delete rt_list_len rt_list_for_each
proof
  fix h l xs n
  assume c: "dchain h l xs"
  then show "distinct (l # xs)" by (simp add: dchain_def)
  show "rt_list_len h l = Some (length xs)"
    using c rt_list_len_loop_dseg [of h l xs l 0] by (simp add: dchain_def rt_list_len_def)
  show "rt_list_for_each h l = Some xs"
    using c rt_list_for_each_loop_dseg [of h l xs l] by (simp add: dchain_def rt_list_for_each_def)
  show "n \<notin> set (l # xs) \<Longrightarrow> \<exists>h'. ring_push l n h = Some h' \<and> dchain h' l (n # xs)"
    using dchain_insert_after [OF c] by (simp add: ring_push_def)
  show "n \<in> set xs \<Longrightarrow> \<exists>h'. ring_delete l n h = Some h' \<and> dchain h' l (remove1 n xs)"
    using dchain_remove [OF c] by (simp add: ring_delete_def)
qed

interpretation slist: linked_list schain slist_push rt_slist_remove rt_slist_len slist_walk
proof
  fix h l xs n
  assume c: "schain h l xs"
  then show "distinct (l # xs)" by (simp add: schain_def)
  show "rt_slist_len h l = Some (length xs)"
    using c rt_slist_len_loop_sseg [of h l xs 0] by (simp add: schain_def rt_slist_len_def)
  show "slist_walk h l = Some xs"
    using c rt_slist_for_each_sseg [of h l xs] by (simp add: schain_def slist_walk_def rt_slist_first_def)
  show "n \<notin> set (l # xs) \<Longrightarrow> \<exists>h'. slist_push l n h = Some h' \<and> schain h' l (n # xs)"
    using schain_insert [OF c] by (simp add: slist_push_def)
  show "n \<in> set xs \<Longrightarrow> \<exists>h'. rt_slist_remove l n h = Some h' \<and> schain h' l (remove1 n xs)"
    using schain_remove [OF c] .
qed

text \<open>
  C16. The ring implements lists. On any ring, the empty one included, that holds the nodes \<open>xs\<close>, the
  length loop and the traversal end with \<open>xs\<close>; inserting a fresh node after the head puts it first,
  inserting it before the head puts it last, and removing a node that is on the ring takes exactly that node
  out, each time leaving a well-formed ring. The ring is empty as \<^verbatim>\<open>rt_list_isempty\<close> says.
\<close>

theorem rt_list_implements_list:
  assumes "dchain h l xs"
  shows "rt_list_len h l = Some (length xs) \<and> rt_list_for_each h l = Some xs \<and> (rt_list_isempty h l \<longleftrightarrow> xs = []) \<and>
    (\<forall>n. n \<notin> set (l # xs) \<longrightarrow>
      rt_list_for_each (rt_list_insert_after l n h) l = Some (n # xs) \<and>
      rt_list_for_each (rt_list_insert_before l n h) l = Some (xs @ [n]) \<and>
      dchain (rt_list_insert_after l n h) l (n # xs) \<and> dchain (rt_list_insert_before l n h) l (xs @ [n])) \<and>
    (\<forall>m \<in> set xs. rt_list_for_each (rt_list_remove m h) l = Some (remove1 m xs) \<and>
      dchain (rt_list_remove m h) l (remove1 m xs))"
proof (intro conjI allI ballI impI)
  show "rt_list_len h l = Some (length xs)" by (rule ring.chain_len [OF assms])
  show "rt_list_for_each h l = Some xs" by (rule ring.chain_walk [OF assms])
  show "rt_list_isempty h l \<longleftrightarrow> xs = []" using assms by (cases xs) (auto simp: dchain_def rt_list_isempty_def)
next
  fix n assume n: "n \<notin> set (l # xs)"
  note a = dchain_insert_after [OF assms n] and b = dchain_insert_before [OF assms n]
  show "dchain (rt_list_insert_after l n h) l (n # xs)" "dchain (rt_list_insert_before l n h) l (xs @ [n])"
    by (rule a, rule b)
  show "rt_list_for_each (rt_list_insert_after l n h) l = Some (n # xs)" by (rule ring.chain_walk [OF a])
  show "rt_list_for_each (rt_list_insert_before l n h) l = Some (xs @ [n])" by (rule ring.chain_walk [OF b])
next
  fix m assume "m \<in> set xs"
  note c = dchain_remove [OF assms this]
  show "dchain (rt_list_remove m h) l (remove1 m xs)" by (rule c)
  show "rt_list_for_each (rt_list_remove m h) l = Some (remove1 m xs)" by (rule ring.chain_walk [OF c])
qed

definition ring_demo :: dlinks where
  "ring_demo = rt_list_insert_after 0 1 (rt_list_init 0 \<lparr>dnext = (\<lambda>_. 0), dprev = (\<lambda>_. 0)\<rparr>)"

theorem rt_list_implements_list_witness:
  "rt_list_len ring_demo 0 = Some 1 \<and> rt_list_for_each (rt_list_insert_before 0 2 ring_demo) 0 = Some [1, 2] \<and>
   rt_list_len (rt_list_init 0 \<lparr>dnext = (\<lambda>_. 0), dprev = (\<lambda>_. 0)\<rparr>) 0 = Some 0"
proof -
  have "dchain ring_demo 0 [1]"
    unfolding ring_demo_def by (rule dchain_insert_after [OF dchain_init]) simp
  then show ?thesis using rt_list_implements_list [of ring_demo 0 "[1]"] rt_list_implements_list [OF dchain_init] by simp
qed

text \<open>
  The sensor window at pointer level. On a chain whose last node is \<open>z\<close>,
  \<^verbatim>\<open>rt_slist_tail\<close> finds \<open>z\<close>; removing it and inserting a fresh node \<open>n\<close>
  leaves a chain of the same length whose traversal is \<open>n\<close> followed by the other nodes.
\<close>

theorem rt_slist_window:
  assumes "schain h l (xs @ [z])" and "n \<notin> set (l # xs @ [z])"
  shows "rt_slist_tail h l = Some z \<and>
    (\<exists>h1. rt_slist_remove l z h = Some h1 \<and> schain (rt_slist_insert l n h1) l (n # xs) \<and>
      slist_walk (rt_slist_insert l n h1) l = Some (n # xs) \<and>
      rt_slist_len (rt_slist_insert l n h1) l = rt_slist_len h l)"
proof -
  have "rt_slist_tail h l = Some z"
    using rt_slist_tail_sseg [of h l "xs @ [z]"] assms(1) by (simp add: schain_def)
  moreover obtain h1 h2 where "rt_slist_remove l z h = Some h1" "slist_push l n h1 = Some h2" "schain h2 l (n # xs)"
    using slist.slide [OF assms] by blast
  ultimately show ?thesis
    using slist.chain_walk [of h2] slist.chain_len [of h2] slist.chain_len [OF assms(1)]
    by (auto simp: slist_push_def)
qed

theorem rt_slist_window_witness:
  "rt_slist_tail [0 \<mapsto> 1, 1 \<mapsto> 2] 0 = Some (2 :: nat)"
  using rt_slist_window [of "[0 \<mapsto> 1, 1 \<mapsto> 2]" 0 "[1]" 2 3] by (simp add: schain_def)

end
