(* ===== verification/Hvac_Rings.thy ===== *)
theory Hvac_Rings
  imports Hvac_List
begin

text \<open>
  Several rings in one store. The kernel keeps thirty-two ready queues, the timer lists and the
  list of dead threads in the same memory, and the same node moves from one to another. The nodes
  get symbolic names and distinct addresses; \<open>rings h R\<close> says that the store \<open>h\<close>
  holds, for every head \<open>l\<close> with \<open>R l = Some xs\<close>, the ring from \<open>l\<close> through
  \<open>xs\<close>, and that no two rings share a node. A node that is in no list is a head with an
  empty ring, which is what \<^verbatim>\<open>rt_list_init\<close> and \<^verbatim>\<open>rt_list_remove\<close> leave.
\<close>

section \<open>The list nodes of the kernel\<close>

datatype node =
    Queue nat      \<comment> \<open>\<^verbatim>\<open>rt_thread_priority_table[i]\<close>\<close>
  | Defunct        \<comment> \<open>\<^verbatim>\<open>rt_thread_defunct\<close>\<close>
  | Hard_timers    \<comment> \<open>\<^verbatim>\<open>rt_timer_list[0]\<close>\<close>
  | Soft_timers    \<comment> \<open>\<^verbatim>\<open>rt_soft_timer_list[0]\<close>\<close>
  | Fired          \<comment> \<open>the local \<^verbatim>\<open>list\<close> of \<^verbatim>\<open>rt_timer_check\<close>\<close>
  | Tlist nat      \<comment> \<open>\<^verbatim>\<open>thread->tlist\<close>\<close>
  | Row nat        \<comment> \<open>\<^verbatim>\<open>timer->row[0]\<close>\<close>

fun addr :: "node \<Rightarrow> addr_t" where
  "addr (Queue p) = 5 * p"
| "addr (Tlist t) = 5 * t + 1"
| "addr (Row t) = 5 * t + 2"
| "addr Defunct = 3"
| "addr Hard_timers = 8"
| "addr Soft_timers = 13"
| "addr Fired = 18"

text \<open>\<^verbatim>\<open>rt_list_entry(node, struct rt_thread, tlist)\<close> and
  \<^verbatim>\<open>rt_list_entry(node, struct rt_timer, row[0])\<close>: the object around a node.\<close>

definition thread_entry :: "addr_t \<Rightarrow> nat" where
  "thread_entry a = (a - 1) div 5"

definition timer_entry :: "addr_t \<Rightarrow> nat" where
  "timer_entry a = (a - 2) div 5"

lemma addr_inject [simp]: "addr a = addr b \<longleftrightarrow> a = b"
proof
  assume e: "addr a = addr b"
  have "addr a mod 5 = addr b mod 5" using e by simp
  with e show "a = b" by (cases a; cases b) (simp_all, presburger+)
qed simp

lemma inj_addr [simp]: "inj_on addr S"
  by (auto simp: inj_on_def)

lemma addr_image [simp]: "addr n \<in> addr ` S \<longleftrightarrow> n \<in> S"
  by auto

lemma map_addr_remove1: "map addr (remove1 n xs) = remove1 (addr n) (map addr xs)"
  by (induction xs) auto

lemma entries [simp]: "thread_entry (addr (Tlist t)) = t" "timer_entry (addr (Row t)) = t"
  by (simp_all add: thread_entry_def timer_entry_def)

declare addr.simps [simp del]

section \<open>One ring\<close>

lemma dchain_frame:
  assumes "dchain h l xs" "\<And>x. x \<in> set (l # xs) \<Longrightarrow> dnext h' x = dnext h x \<and> dprev h' x = dprev h x"
  shows "dchain h' l xs"
proof -
  have "dseg h' l xs l = dseg h l xs l" by (rule dseg_cong) (use assms(2) in auto)
  with assms(1) show ?thesis by (simp add: dchain_def)
qed

lemma dseg_closed: "dseg h a xs b \<Longrightarrow> (\<forall>x \<in> set (a # xs). dnext h x \<in> set (xs @ [b])) \<and> (\<forall>x \<in> set (xs @ [b]). dprev h x \<in> set (a # xs))"
  by (induction xs arbitrary: a) auto

lemma dchain_closed: "dchain h l xs \<Longrightarrow> x \<in> set (l # xs) \<Longrightarrow> dnext h x \<in> set (l # xs) \<and> dprev h x \<in> set (l # xs)"
  using dseg_closed [of h l xs l] by (auto simp: dchain_def)

lemma dchain_insert_after_node:
  assumes c: "dchain h l (us @ vs)" and n: "n \<notin> set (l # us @ vs)"
  shows "dchain (rt_list_insert_after (last (l # us)) n h) l (us @ n # vs)"
proof (cases us rule: rev_cases)
  case Nil
  with assms show ?thesis using dchain_insert_after [of h l vs n] by simp
next
  case (snoc us' u)
  let ?h = "rt_list_insert_after u n h"
  have d: "distinct (l # us' @ u # vs)" and s: "dseg h l us' u" "dseg h u vs l"
    using c by (auto simp: dchain_def snoc dseg_append)
  have nx: "dnext h u = hd (vs @ [l])" using s(2) by (cases vs) auto
  have b: "hd (vs @ [l]) \<notin> set (us' @ [u])" using d by (cases vs) auto
  have "dseg ?h l us' u = dseg h l us' u"
    using d n snoc b nx by (intro dseg_cong) (auto simp: rt_list_insert_after_def dlinks_defs)
  moreover have "dseg ?h u (n # vs) l"
  proof (cases vs)
    case Nil
    with d n snoc nx s show ?thesis by (auto simp: rt_list_insert_after_def dlinks_defs)
  next
    case (Cons v vs')
    have "dseg ?h v vs' l = dseg h v vs' l"
      using d n snoc nx Cons by (intro dseg_cong) (auto simp: rt_list_insert_after_def dlinks_defs)
    with d n snoc nx Cons s show ?thesis by (auto simp: rt_list_insert_after_def dlinks_defs)
  qed
  ultimately show ?thesis using d n s snoc by (auto simp: dchain_def dseg_append)
qed

lemma insert_after_frame:
  "x \<notin> {l, n, dnext h l} \<Longrightarrow> dnext (rt_list_insert_after l n h) x = dnext h x \<and> dprev (rt_list_insert_after l n h) x = dprev h x"
  by (simp add: rt_list_insert_after_def dlinks_defs)

lemma insert_before_frame:
  "x \<notin> {l, n, dprev h l} \<Longrightarrow> dnext (rt_list_insert_before l n h) x = dnext h x \<and> dprev (rt_list_insert_before l n h) x = dprev h x"
  by (simp add: rt_list_insert_before_def dlinks_defs)

lemma remove_frame:
  "x \<notin> {n, dprev h n, dnext h n} \<Longrightarrow> dnext (rt_list_remove n h) x = dnext h x \<and> dprev (rt_list_remove n h) x = dprev h x"
  by (auto simp: rt_list_remove_def dlinks_defs)

lemma remove_self: "dchain (rt_list_remove n h) n []"
  by (simp add: dchain_def rt_list_remove_def dlinks_defs)

section \<open>The rings of the store\<close>

definition rings :: "dlinks \<Rightarrow> (node \<Rightarrow> node list option) \<Rightarrow> bool" where
  "rings h R \<longleftrightarrow>
     (\<forall>l xs. R l = Some xs \<longrightarrow> dchain h (addr l) (map addr xs)) \<and>
     (\<forall>l l' xs xs'. R l = Some xs \<longrightarrow> R l' = Some xs' \<longrightarrow> l \<noteq> l' \<longrightarrow> set (l # xs) \<inter> set (l' # xs') = {})"

lemma ringsD: "rings h R \<Longrightarrow> R l = Some xs \<Longrightarrow> dchain h (addr l) (map addr xs)"
  by (auto simp: rings_def)

lemma rings_disjoint: "rings h R \<Longrightarrow> R l = Some xs \<Longrightarrow> R l' = Some xs' \<Longrightarrow> l \<noteq> l' \<Longrightarrow> set (l # xs) \<inter> set (l' # xs') = {}"
  unfolding rings_def by blast

lemma rings_distinct: "rings h R \<Longrightarrow> R l = Some xs \<Longrightarrow> distinct (l # xs)"
  by (drule (1) ringsD) (auto simp: dchain_def distinct_map)

text \<open>An operation that writes only inside the rings of \<open>l\<close> and \<open>n\<close> keeps the others.\<close>

lemma rings_other:
  assumes R: "rings h R" and k: "R k = Some zs" "k \<noteq> l" "k \<noteq> n" and l: "R l = Some xs" and n: "R n = Some ys"
    and fr: "\<And>x. x \<notin> addr ` set (l # n # xs @ ys) \<Longrightarrow> dnext h' x = dnext h x \<and> dprev h' x = dprev h x"
  shows "dchain h' (addr k) (map addr zs)"
proof (rule dchain_frame [OF ringsD [OF R k(1)]])
  fix x assume "x \<in> set (addr k # map addr zs)"
  then obtain y where "x = addr y" "y \<in> set (k # zs)" by auto
  with rings_disjoint [OF R k(1) l k(2)] rings_disjoint [OF R k(1) n k(3)]
  have "x \<notin> addr ` set (l # n # xs @ ys)" by auto
  then show "dnext h' x = dnext h x \<and> dprev h' x = dprev h x" by (rule fr)
qed

lemma rings_insert_before:
  assumes R: "rings h R" and l: "R l = Some xs" and n: "R n = Some []" and ln: "l \<noteq> n"
  shows "rings (rt_list_insert_before (addr l) (addr n) h) (R(n := None, l \<mapsto> xs @ [n]))"
proof -
  let ?h = "rt_list_insert_before (addr l) (addr n) h"
  have nin: "n \<notin> set (l # xs)" using rings_disjoint [OF R l n ln] by auto
  have new: "dchain ?h (addr l) (map addr (xs @ [n]))"
    using dchain_insert_before [OF ringsD [OF R l], of "addr n"] nin by auto
  have pl: "dprev h (addr l) \<in> addr ` set (l # xs)"
    using dchain_closed [OF ringsD [OF R l], of "addr l"] by auto
  have fr: "dnext ?h x = dnext h x \<and> dprev ?h x = dprev h x" if "x \<notin> addr ` set (l # n # xs @ [])" for x
    by (rule insert_before_frame) (use that pl in auto)
  have old: "dchain ?h (addr k) (map addr zs)" if "R k = Some zs" "k \<noteq> l" "k \<noteq> n" for k zs
    by (rule rings_other [OF R that l n fr])
  have dj: "set (k # zs) \<inter> set (l # xs @ [n]) = {}" if "R k = Some zs" "k \<noteq> l" "k \<noteq> n" for k zs
    using rings_disjoint [OF R that(1) l that(2)] rings_disjoint [OF R that(1) n that(3)] by auto
  show ?thesis
    unfolding rings_def
  proof (intro conjI allI impI)
    fix k zs assume "(R(n := None, l \<mapsto> xs @ [n])) k = Some zs"
    then show "dchain ?h (addr k) (map addr zs)" using new old [of k zs] by (auto split: if_splits)
  next
    fix k k' zs zs' assume a: "(R(n := None, l \<mapsto> xs @ [n])) k = Some zs" "(R(n := None, l \<mapsto> xs @ [n])) k' = Some zs'" "k \<noteq> k'"
    then show "set (k # zs) \<inter> set (k' # zs') = {}"
      using dj [of k zs] dj [of k' zs'] rings_disjoint [OF R, of k zs k' zs']
      by (cases "k = l"; cases "k' = l") (auto split: if_splits)
  qed
qed

lemma rings_insert_after:
  assumes R: "rings h R" and l: "R l = Some (us @ vs)" and n: "R n = Some []" and ln: "l \<noteq> n"
  shows "rings (rt_list_insert_after (addr (last (l # us))) (addr n) h) (R(n := None, l \<mapsto> us @ n # vs))"
proof -
  let ?h = "rt_list_insert_after (addr (last (l # us))) (addr n) h"
  have nin: "n \<notin> set (l # us @ vs)" using rings_disjoint [OF R l n ln] by auto
  have la: "addr (last (l # us)) = last (addr l # map addr us)" by (simp add: last_map)
  have c: "dchain h (addr l) (map addr us @ map addr vs)" using ringsD [OF R l] by simp
  have new: "dchain ?h (addr l) (map addr (us @ n # vs))"
    using dchain_insert_after_node [OF c, of "addr n"] nin unfolding la by auto
  have lin: "last (l # us) \<in> set (l # us @ vs)" by (auto dest: last_in_set)
  have nl: "dnext h (addr (last (l # us))) \<in> addr ` set (l # us @ vs)"
    using dchain_closed [OF c, of "addr (last (l # us))"] lin by auto
  have fr: "dnext ?h x = dnext h x \<and> dprev ?h x = dprev h x" if "x \<notin> addr ` set (l # n # (us @ vs) @ [])" for x
    by (rule insert_after_frame) (use that nl lin in auto)
  have old: "dchain ?h (addr k) (map addr zs)" if "R k = Some zs" "k \<noteq> l" "k \<noteq> n" for k zs
    by (rule rings_other [OF R that l n fr])
  have dj: "set (k # zs) \<inter> set (l # us @ n # vs) = {}" if "R k = Some zs" "k \<noteq> l" "k \<noteq> n" for k zs
    using rings_disjoint [OF R that(1) l that(2)] rings_disjoint [OF R that(1) n that(3)] by auto
  show ?thesis
    unfolding rings_def
  proof (intro conjI allI impI)
    fix k zs assume "(R(n := None, l \<mapsto> us @ n # vs)) k = Some zs"
    then show "dchain ?h (addr k) (map addr zs)" using new old [of k zs] by (auto split: if_splits)
  next
    fix k k' zs zs' assume a: "(R(n := None, l \<mapsto> us @ n # vs)) k = Some zs" "(R(n := None, l \<mapsto> us @ n # vs)) k' = Some zs'" "k \<noteq> k'"
    then show "set (k # zs) \<inter> set (k' # zs') = {}"
      using dj [of k zs] dj [of k' zs'] rings_disjoint [OF R, of k zs k' zs']
      by (cases "k = l"; cases "k' = l") (auto split: if_splits)
  qed
qed

lemma rings_remove:
  assumes R: "rings h R" and l: "R l = Some xs" and n: "n \<in> set xs"
  shows "rings (rt_list_remove (addr n) h) (R(l \<mapsto> remove1 n xs, n \<mapsto> []))"
proof -
  let ?h = "rt_list_remove (addr n) h"
  have d: "distinct (l # xs)" by (rule rings_distinct [OF R l])
  have Rn: "R n = None"
  proof (rule ccontr)
    assume "R n \<noteq> None"
    then obtain ys where "R n = Some ys" by auto
    with rings_disjoint [OF R l this] n d show False by auto
  qed
  have "dchain ?h (addr l) (remove1 (addr n) (map addr xs))"
    by (rule dchain_remove [OF ringsD [OF R l]]) (use n in auto)
  then have new: "dchain ?h (addr l) (map addr (remove1 n xs))" by (simp add: map_addr_remove1)
  have cl: "dprev h (addr n) \<in> addr ` set (l # xs)" "dnext h (addr n) \<in> addr ` set (l # xs)"
    using dchain_closed [OF ringsD [OF R l], of "addr n"] n by auto
  have fr: "dnext ?h x = dnext h x \<and> dprev ?h x = dprev h x" if "x \<notin> addr ` set (l # l # xs @ xs)" for x
    by (rule remove_frame) (use that cl n in auto)
  have old: "dchain ?h (addr k) (map addr zs)" if "R k = Some zs" "k \<noteq> l" for k zs
    by (rule rings_other [OF R that(1,2,2) l l fr])
  have sx: "set (remove1 n xs) = set xs - {n}" using d by (simp add: set_remove1_eq)
  have dj: "set (k # zs) \<inter> set (l # xs) = {}" if "R k = Some zs" "k \<noteq> l" for k zs
    using rings_disjoint [OF R that(1) l that(2)] .
  show ?thesis
    unfolding rings_def
  proof (intro conjI allI impI)
    fix k zs assume "(R(l \<mapsto> remove1 n xs, n \<mapsto> [])) k = Some zs"
    then show "dchain ?h (addr k) (map addr zs)"
      using new old [of k zs] remove_self [of "addr n" h] by (auto split: if_splits)
  next
    fix k k' zs zs' assume a: "(R(l \<mapsto> remove1 n xs, n \<mapsto> [])) k = Some zs" "(R(l \<mapsto> remove1 n xs, n \<mapsto> [])) k' = Some zs'" "k \<noteq> k'"
    then show "set (k # zs) \<inter> set (k' # zs') = {}"
      using dj [of k zs] dj [of k' zs'] rings_disjoint [OF R, of k zs k' zs'] n d sx
      by (cases "k = n"; cases "k' = n"; cases "k = l"; cases "k' = l") (auto split: if_splits)
  qed
qed

text \<open>Taking a lone node out, or setting it up again, changes nothing.\<close>

lemma rings_remove_lone:
  assumes R: "rings h R" and n: "R n = Some []"
  shows "rings (rt_list_remove (addr n) h) R" "rings (rt_list_init (addr n) h) R"
proof -
  have s: "dnext h (addr n) = addr n" "dprev h (addr n) = addr n"
    using ringsD [OF R n] by (simp_all add: dchain_def)
  then have "rt_list_remove (addr n) h = h" "rt_list_init (addr n) h = h"
    by (simp_all add: rt_list_remove_def rt_list_init_def dlinks_defs fun_upd_idem)
  with R show "rings (rt_list_remove (addr n) h) R" "rings (rt_list_init (addr n) h) R" by simp_all
qed

lemma rings_isempty: "rings h R \<Longrightarrow> R l = Some xs \<Longrightarrow> rt_list_isempty h (addr l) \<longleftrightarrow> xs = []"
  by (drule (1) ringsD, cases xs) (auto simp: dchain_def rt_list_isempty_def)

lemma rings_first: "rings h R \<Longrightarrow> R l = Some (x # xs) \<Longrightarrow> dnext h (addr l) = addr x"
  by (drule (1) ringsD) (simp add: dchain_def)

lemma rings_last: "rings h R \<Longrightarrow> R l = Some xs \<Longrightarrow> dprev h (addr l) = addr (last (l # xs))"
  using dchain_prev_last [of h "addr l" "map addr xs" "addr l"] ringsD [of h R l xs]
  by (auto simp: dchain_def last_map)

lemma rings_next: "rings h R \<Longrightarrow> R l = Some (us @ v # vs) \<Longrightarrow> dnext h (addr (last (l # us))) = addr v"
  by (drule (1) ringsD, cases us rule: rev_cases) (auto simp: dchain_def dseg_append)

text \<open>A fresh node may be set up at any time.\<close>

lemma rings_init:
  assumes R: "rings h R" and n: "\<And>k zs. R k = Some zs \<Longrightarrow> n \<notin> set (k # zs)"
  shows "rings (rt_list_init (addr n) h) (R(n \<mapsto> []))"
proof -
  let ?h = "rt_list_init (addr n) h"
  have old: "dchain ?h (addr k) (map addr zs)" if "R k = Some zs" for k zs
    by (rule dchain_frame [OF ringsD [OF R that]])
      (use n [OF that] in \<open>auto simp: rt_list_init_def dlinks_defs\<close>)
  show ?thesis
    unfolding rings_def
  proof (intro conjI allI impI)
    fix k zs assume "(R(n \<mapsto> [])) k = Some zs"
    then show "dchain ?h (addr k) (map addr zs)"
      using old [of k zs] dchain_init [of "addr n" h] by (auto split: if_splits)
  next
    fix k k' zs zs' assume "(R(n \<mapsto> [])) k = Some zs" "(R(n \<mapsto> [])) k' = Some zs'" "k \<noteq> k'"
    then show "set (k # zs) \<inter> set (k' # zs') = {}"
      using n [of k zs] n [of k' zs'] rings_disjoint [OF R, of k zs k' zs'] by (auto split: if_splits)
  qed
qed

end
