(* ===== verification/Hvac_Kernel.thy ===== *)
theory Hvac_Kernel
  imports Hvac_Rings
begin

text \<open>
  The part of the RT-Thread kernel that runs the four tasks: the priority scheduler
  (\<^verbatim>\<open>rt-thread/src/scheduler.c\<close>, single core, thirty-two priorities), the thread
  operations (\<^verbatim>\<open>thread.c\<close>), the timer list (\<^verbatim>\<open>timer.c\<close>, one level) and the
  tick (\<^verbatim>\<open>clock.c\<close>, \<^verbatim>\<open>irq.c\<close>, \<^verbatim>\<open>SysTick_Handler\<close>). Every list is
  a ring of \<^verbatim>\<open>rt_list_t\<close> nodes in one store and the operations are those of
  \<open>Hvac_List\<close>.

  An operation returns \<open>None\<close> where the C code leaves its arrays (a priority of 32 or more),
  dereferences a null \<^verbatim>\<open>rt_current_thread\<close>, never leaves a loop, or stops for good in the
  stack check. \<^verbatim>\<open>RT_ASSERT\<close> is empty in this build (\<^verbatim>\<open>RT_DEBUG\<close> is not defined)
  and no hook is installed. A context switch is the change of \<^verbatim>\<open>rt_current_thread\<close>; the
  register save and restore of \<^verbatim>\<open>context_gcc.S\<close> is not modelled. Code that follows
  \<^verbatim>\<open>rt_schedule()\<close> in a blocking call runs when the thread is switched to again and is a
  definition of its own (\<open>sleep_return\<close>).
\<close>

section \<open>First set bit\<close>

definition lowest_bit_bitmap :: "u8 list" where
  "lowest_bit_bitmap =
    [0, 0, 1, 0, 2, 0, 1, 0, 3, 0, 1, 0, 2, 0, 1, 0,
     4, 0, 1, 0, 2, 0, 1, 0, 3, 0, 1, 0, 2, 0, 1, 0,
     5, 0, 1, 0, 2, 0, 1, 0, 3, 0, 1, 0, 2, 0, 1, 0,
     4, 0, 1, 0, 2, 0, 1, 0, 3, 0, 1, 0, 2, 0, 1, 0,
     6, 0, 1, 0, 2, 0, 1, 0, 3, 0, 1, 0, 2, 0, 1, 0,
     4, 0, 1, 0, 2, 0, 1, 0, 3, 0, 1, 0, 2, 0, 1, 0,
     5, 0, 1, 0, 2, 0, 1, 0, 3, 0, 1, 0, 2, 0, 1, 0,
     4, 0, 1, 0, 2, 0, 1, 0, 3, 0, 1, 0, 2, 0, 1, 0,
     7, 0, 1, 0, 2, 0, 1, 0, 3, 0, 1, 0, 2, 0, 1, 0,
     4, 0, 1, 0, 2, 0, 1, 0, 3, 0, 1, 0, 2, 0, 1, 0,
     5, 0, 1, 0, 2, 0, 1, 0, 3, 0, 1, 0, 2, 0, 1, 0,
     4, 0, 1, 0, 2, 0, 1, 0, 3, 0, 1, 0, 2, 0, 1, 0,
     6, 0, 1, 0, 2, 0, 1, 0, 3, 0, 1, 0, 2, 0, 1, 0,
     4, 0, 1, 0, 2, 0, 1, 0, 3, 0, 1, 0, 2, 0, 1, 0,
     5, 0, 1, 0, 2, 0, 1, 0, 3, 0, 1, 0, 2, 0, 1, 0,
     4, 0, 1, 0, 2, 0, 1, 0, 3, 0, 1, 0, 2, 0, 1, 0]"

definition rt_ffs :: "u32 \<Rightarrow> nat" where
  "rt_ffs value =
     (if value = 0 then 0
      else if value AND 0xff \<noteq> 0 then unat (lowest_bit_bitmap ! unat (value AND 0xff)) + 1
      else if value AND 0xff00 \<noteq> 0 then unat (lowest_bit_bitmap ! unat (drop_bit 8 (value AND 0xff00))) + 9
      else if value AND 0xff0000 \<noteq> 0 then unat (lowest_bit_bitmap ! unat (drop_bit 16 (value AND 0xff0000))) + 17
      else unat (lowest_bit_bitmap ! unat (drop_bit 24 (value AND 0xff000000))) + 25)"

section \<open>The state\<close>

type_synonym tid = nat

text \<open>The thread a timer belongs to, or a callback of some other client (a parameter of
  \<open>rt_timer_check\<close>; the firmware starts no timer of its own).\<close>

datatype timeout_fn = Thread_timeout tid | Callback nat

record timer_t =
  tm_flag :: u8
  timeout_func :: timeout_fn
  tm_init_tick :: u32
  timeout_tick :: u32

record thread_t =
  sp :: u32
  stack_addr :: u32
  stack_size :: u32
  stack_mark :: u8       \<comment> \<open>the byte at \<^verbatim>\<open>stack_addr\<close>\<close>
  thread_error :: int
  stat :: u8
  current_priority :: u8
  init_priority :: u8
  number_mask :: u32
  init_tick :: u32
  remaining_tick :: u32

record kernel_t =
  threads :: "tid \<Rightarrow> thread_t"
  timers :: "tid \<Rightarrow> timer_t"     \<comment> \<open>timer \<open>t\<close> is \<^verbatim>\<open>thread_timer\<close> of thread \<open>t\<close>\<close>
  links :: dlinks
  thread_objects :: "tid list"    \<comment> \<open>the thread list of the object container\<close>
  rt_thread_ready_priority_group :: u32
  rt_scheduler_lock_nest :: s16
  rt_current_thread :: "tid option"
  rt_current_priority :: u8
  rt_interrupt_nest :: u8
  rt_tick :: u32
  uwTick :: u32
  random_nr :: u32
  soft_timer_status :: u8
  timer_thread :: tid

abbreviation (input) RT_THREAD_INIT :: u8 where "RT_THREAD_INIT \<equiv> 0"
abbreviation (input) RT_THREAD_READY :: u8 where "RT_THREAD_READY \<equiv> 1"
abbreviation (input) RT_THREAD_SUSPEND :: u8 where "RT_THREAD_SUSPEND \<equiv> 2"
abbreviation (input) RT_THREAD_RUNNING :: u8 where "RT_THREAD_RUNNING \<equiv> 3"
abbreviation (input) RT_THREAD_STAT_MASK :: u8 where "RT_THREAD_STAT_MASK \<equiv> 7"
abbreviation (input) RT_THREAD_STAT_YIELD :: u8 where "RT_THREAD_STAT_YIELD \<equiv> 8"
abbreviation (input) RT_TIMER_FLAG_ACTIVATED :: u8 where "RT_TIMER_FLAG_ACTIVATED \<equiv> 1"
abbreviation (input) RT_TIMER_FLAG_PERIODIC :: u8 where "RT_TIMER_FLAG_PERIODIC \<equiv> 2"
abbreviation (input) RT_TIMER_FLAG_SOFT_TIMER :: u8 where "RT_TIMER_FLAG_SOFT_TIMER \<equiv> 4"
abbreviation (input) RT_TICK_MAX :: u32 where "RT_TICK_MAX \<equiv> 0xffffffff"
abbreviation (input) HALF_TICK_MAX :: u32 where "HALF_TICK_MAX \<equiv> 0x7fffffff"

definition upd_thread :: "tid \<Rightarrow> (thread_t \<Rightarrow> thread_t) \<Rightarrow> kernel_t \<Rightarrow> kernel_t" where
  "upd_thread t f k = k\<lparr>threads := (threads k)(t := f (threads k t))\<rparr>"

definition upd_timer :: "tid \<Rightarrow> (timer_t \<Rightarrow> timer_t) \<Rightarrow> kernel_t \<Rightarrow> kernel_t" where
  "upd_timer t f k = k\<lparr>timers := (timers k)(t := f (timers k t))\<rparr>"

definition on_links :: "(dlinks \<Rightarrow> dlinks) \<Rightarrow> kernel_t \<Rightarrow> kernel_t" where
  "on_links f k = k\<lparr>links := f (links k)\<rparr>"

text \<open>\<^verbatim>\<open>thread->stat & RT_THREAD_STAT_MASK\<close>\<close>

definition thread_stat :: "kernel_t \<Rightarrow> tid \<Rightarrow> u8" where
  "thread_stat k t = stat (threads k t) AND RT_THREAD_STAT_MASK"

text \<open>\<^verbatim>\<open>thread->stat = s | (thread->stat & ~RT_THREAD_STAT_MASK)\<close>\<close>

definition set_stat :: "tid \<Rightarrow> u8 \<Rightarrow> kernel_t \<Rightarrow> kernel_t" where
  "set_stat t s = upd_thread t (\<lambda>th. th\<lparr>stat := s OR (stat th AND NOT RT_THREAD_STAT_MASK)\<rparr>)"

section \<open>scheduler.c\<close>

definition rt_scheduler_stack_check :: "tid \<Rightarrow> kernel_t \<Rightarrow> kernel_t option" where
  "rt_scheduler_stack_check t k =
     (let th = threads k t in
      if stack_mark th \<noteq> 0x23 \<or> sp th \<le> stack_addr th \<or> stack_addr th + stack_size th < sp th
      then None else Some k)"

definition get_highest_priority_thread :: "kernel_t \<Rightarrow> (tid \<times> nat) option" where
  "get_highest_priority_thread k =
     (if rt_thread_ready_priority_group k = 0 then None
      else let highest_ready_priority = rt_ffs (rt_thread_ready_priority_group k) - 1
           in Some (thread_entry (dnext (links k) (addr (Queue highest_ready_priority))), highest_ready_priority))"

definition rt_system_scheduler_init :: "kernel_t \<Rightarrow> kernel_t" where
  "rt_system_scheduler_init k =
     (let k = k\<lparr>rt_scheduler_lock_nest := 0\<rparr>;
          k = on_links (fold (\<lambda>offset. rt_list_init (addr (Queue offset))) [0..<32]) k;
          k = k\<lparr>rt_thread_ready_priority_group := 0\<rparr>
      in on_links (rt_list_init (addr Defunct)) k)"

definition rt_schedule_insert_thread :: "tid \<Rightarrow> kernel_t \<Rightarrow> kernel_t option" where
  "rt_schedule_insert_thread t k =
     (if rt_current_thread k = Some t then Some (set_stat t RT_THREAD_RUNNING k)
      else let k = set_stat t RT_THREAD_READY k;
               p = unat (current_priority (threads k t))
           in if 32 \<le> p then None
              else let k = on_links (rt_list_insert_before (addr (Queue p)) (addr (Tlist t))) k
                   in Some (k\<lparr>rt_thread_ready_priority_group :=
                                rt_thread_ready_priority_group k OR number_mask (threads k t)\<rparr>))"

definition rt_schedule_remove_thread :: "tid \<Rightarrow> kernel_t \<Rightarrow> kernel_t option" where
  "rt_schedule_remove_thread t k =
     (let k = on_links (rt_list_remove (addr (Tlist t))) k;
          p = unat (current_priority (threads k t))
      in if 32 \<le> p then None
         else if rt_list_isempty (links k) (addr (Queue p))
         then Some (k\<lparr>rt_thread_ready_priority_group :=
                       rt_thread_ready_priority_group k AND NOT (number_mask (threads k t))\<rparr>)
         else Some k)"

definition rt_schedule :: "kernel_t \<Rightarrow> kernel_t option" where
  "rt_schedule k =
     (if rt_scheduler_lock_nest k \<noteq> 0 \<or> rt_thread_ready_priority_group k = 0 then Some k
      else do {
        (to_thread, highest_ready_priority) \<leftarrow> get_highest_priority_thread k;
        cur \<leftarrow> rt_current_thread k;
        let running = (thread_stat k cur = RT_THREAD_RUNNING);
        let p = unat (current_priority (threads k cur));
        let stay = (p < highest_ready_priority \<or>
                    p = highest_ready_priority \<and> stat (threads k cur) AND RT_THREAD_STAT_YIELD = 0);
        let to_thread = (if running \<and> stay then cur else to_thread);
        let need_insert_from_thread = (running \<and> \<not> stay);
        let k = (if running then upd_thread cur (\<lambda>th. th\<lparr>stat := stat th AND NOT RT_THREAD_STAT_YIELD\<rparr>) k else k);
        if to_thread \<noteq> cur then do {
          let k = k\<lparr>rt_current_priority := word_of_nat highest_ready_priority, rt_current_thread := Some to_thread\<rparr>;
          k \<leftarrow> (if need_insert_from_thread then rt_schedule_insert_thread cur k else Some k);
          k \<leftarrow> rt_schedule_remove_thread to_thread k;
          rt_scheduler_stack_check to_thread (set_stat to_thread RT_THREAD_RUNNING k)
        } else do {
          k \<leftarrow> rt_schedule_remove_thread cur k;
          Some (set_stat cur RT_THREAD_RUNNING k)
        }
      })"

definition rt_system_scheduler_start :: "kernel_t \<Rightarrow> kernel_t option" where
  "rt_system_scheduler_start k = do {
     (to_thread, _) \<leftarrow> get_highest_priority_thread k;
     let k = k\<lparr>rt_current_thread := Some to_thread\<rparr>;
     k \<leftarrow> rt_schedule_remove_thread to_thread k;
     Some (upd_thread to_thread (\<lambda>th. th\<lparr>stat := RT_THREAD_RUNNING\<rparr>) k)
   }"

definition rt_enter_critical :: "kernel_t \<Rightarrow> kernel_t" where
  "rt_enter_critical k = k\<lparr>rt_scheduler_lock_nest := rt_scheduler_lock_nest k + 1\<rparr>"

definition rt_exit_critical :: "kernel_t \<Rightarrow> kernel_t option" where
  "rt_exit_critical k =
     (let k = k\<lparr>rt_scheduler_lock_nest := rt_scheduler_lock_nest k - 1\<rparr> in
      if sint (rt_scheduler_lock_nest k) \<le> 0
      then let k = k\<lparr>rt_scheduler_lock_nest := 0\<rparr>
           in if rt_current_thread k \<noteq> None then rt_schedule k else Some k
      else Some k)"

definition rt_critical_level :: "kernel_t \<Rightarrow> u16" where
  "rt_critical_level k = rt_scheduler_lock_nest k"

section \<open>timer.c and the thread operations it calls\<close>

definition rt_timer_init :: "tid \<Rightarrow> timeout_fn \<Rightarrow> u32 \<Rightarrow> u8 \<Rightarrow> kernel_t \<Rightarrow> kernel_t" where
  "rt_timer_init t f time flag k =
     (let k = upd_timer t (\<lambda>tm. tm\<lparr>tm_flag := flag AND NOT RT_TIMER_FLAG_ACTIVATED, timeout_func := f,
                                   timeout_tick := 0, tm_init_tick := time\<rparr>) k
      in on_links (rt_list_init (addr (Row t))) k)"

definition rt_timer_remove :: "tid \<Rightarrow> kernel_t \<Rightarrow> kernel_t" where
  "rt_timer_remove t = on_links (rt_list_remove (addr (Row t)))"

definition clear_activated :: "tid \<Rightarrow> kernel_t \<Rightarrow> kernel_t" where
  "clear_activated t = upd_timer t (\<lambda>tm. tm\<lparr>tm_flag := tm_flag tm AND NOT RT_TIMER_FLAG_ACTIVATED\<rparr>)"

definition rt_timer_list_next_timeout :: "node \<Rightarrow> kernel_t \<Rightarrow> u32" where
  "rt_timer_list_next_timeout l k =
     (if rt_list_isempty (links k) (addr l) then RT_TICK_MAX
      else timeout_tick (timers k (timer_entry (dnext (links k) (addr l)))))"

definition rt_timer_next_timeout_tick :: "kernel_t \<Rightarrow> u32" where
  "rt_timer_next_timeout_tick k = rt_timer_list_next_timeout Hard_timers k"

definition rt_timer_stop :: "tid \<Rightarrow> kernel_t \<Rightarrow> int \<times> kernel_t" where
  "rt_timer_stop t k =
     (if tm_flag (timers k t) AND RT_TIMER_FLAG_ACTIVATED = 0 then (- RT_ERROR, k)
      else (RT_EOK, clear_activated t (rt_timer_remove t k)))"

definition rt_timer_control :: "tid \<Rightarrow> nat \<Rightarrow> u32 \<Rightarrow> kernel_t \<Rightarrow> u32 \<times> kernel_t" where
  "rt_timer_control t cmd arg k =
     (if cmd = 1 then (tm_init_tick (timers k t), k)
      else if cmd = 0 then (arg, upd_timer t (\<lambda>tm. tm\<lparr>tm_init_tick := arg\<rparr>) k)
      else if cmd = 2 then (arg, upd_timer t (\<lambda>tm. tm\<lparr>tm_flag := tm_flag tm AND NOT RT_TIMER_FLAG_PERIODIC\<rparr>) k)
      else if cmd = 3 then (arg, upd_timer t (\<lambda>tm. tm\<lparr>tm_flag := tm_flag tm OR RT_TIMER_FLAG_PERIODIC\<rparr>) k)
      else if cmd = 4 then (if tm_flag (timers k t) AND RT_TIMER_FLAG_ACTIVATED \<noteq> 0 then 1 else 0, k)
      else (arg, k))"

definition rt_thread_resume :: "tid \<Rightarrow> kernel_t \<Rightarrow> (int \<times> kernel_t) option" where
  "rt_thread_resume t k =
     (if thread_stat k t \<noteq> RT_THREAD_SUSPEND then Some (- RT_ERROR, k)
      else do {
        let k = on_links (rt_list_remove (addr (Tlist t))) k;
        let k = snd (rt_timer_stop t k);
        k \<leftarrow> rt_schedule_insert_thread t k;
        Some (RT_EOK, k)
      })"

definition rt_thread_suspend :: "tid \<Rightarrow> kernel_t \<Rightarrow> (int \<times> kernel_t) option" where
  "rt_thread_suspend t k =
     (if thread_stat k t \<noteq> RT_THREAD_READY \<and> thread_stat k t \<noteq> RT_THREAD_RUNNING then Some (- RT_ERROR, k)
      else do {
        k \<leftarrow> rt_schedule_remove_thread t k;
        let k = set_stat t RT_THREAD_SUSPEND k;
        Some (RT_EOK, snd (rt_timer_stop t k))
      })"

text \<open>The walk of \<^verbatim>\<open>rt_timer_start\<close> to the node after which the timer goes; the first
  timer that is due later ends it, timers due at the same tick are passed.\<close>

partial_function (option) timer_slot :: "dlinks \<Rightarrow> (tid \<Rightarrow> u32) \<Rightarrow> addr_t \<Rightarrow> u32 \<Rightarrow> addr_t \<Rightarrow> addr_t option" where [code]:
  "timer_slot h due l tout row_head =
     (if row_head \<noteq> dprev h l
      then let t = timer_entry (dnext h row_head) in
           if due t - tout = 0 then timer_slot h due l tout (dnext h row_head)
           else if due t - tout < HALF_TICK_MAX then Some row_head
           else timer_slot h due l tout (dnext h row_head)
      else Some row_head)"

definition rt_timer_start :: "tid \<Rightarrow> kernel_t \<Rightarrow> kernel_t option" where
  "rt_timer_start t k = do {
     let k = clear_activated t (rt_timer_remove t k);
     let k = upd_timer t (\<lambda>tm. tm\<lparr>timeout_tick := rt_tick k + tm_init_tick tm\<rparr>) k;
     let soft = (tm_flag (timers k t) AND RT_TIMER_FLAG_SOFT_TIMER \<noteq> 0);
     let timer_list = (if soft then addr Soft_timers else addr Hard_timers);
     row_head \<leftarrow> timer_slot (links k) (\<lambda>u. timeout_tick (timers k u)) timer_list (timeout_tick (timers k t)) timer_list;
     let k = k\<lparr>random_nr := random_nr k + 1\<rparr>;
     let k = on_links (rt_list_insert_after row_head (addr (Row t))) k;
     let k = upd_timer t (\<lambda>tm. tm\<lparr>tm_flag := tm_flag tm OR RT_TIMER_FLAG_ACTIVATED\<rparr>) k;
     if soft \<and> soft_timer_status k = 1 \<and> thread_stat k (timer_thread k) = RT_THREAD_SUSPEND then do {
       (_, k) \<leftarrow> rt_thread_resume (timer_thread k) k;
       rt_schedule k
     } else Some k
   }"

definition rt_thread_timeout :: "tid \<Rightarrow> kernel_t \<Rightarrow> kernel_t option" where
  "rt_thread_timeout t k = do {
     let k = upd_thread t (\<lambda>th. th\<lparr>thread_error := -2\<rparr>) k;
     let k = on_links (rt_list_remove (addr (Tlist t))) k;
     k \<leftarrow> rt_schedule_insert_thread t k;
     rt_schedule k
   }"

definition run_timeout :: "(nat \<Rightarrow> kernel_t \<Rightarrow> kernel_t option) \<Rightarrow> timeout_fn \<Rightarrow> kernel_t \<Rightarrow> kernel_t option" where
  "run_timeout cb f k = (case f of Thread_timeout t \<Rightarrow> rt_thread_timeout t k | Callback n \<Rightarrow> cb n k)"

partial_function (option) timer_check_loop ::
  "(nat \<Rightarrow> kernel_t \<Rightarrow> kernel_t option) \<Rightarrow> u32 \<Rightarrow> kernel_t \<Rightarrow> kernel_t option" where [code]:
  "timer_check_loop cb current_tick k =
     (if rt_list_isempty (links k) (addr Hard_timers) then Some k
      else let t = timer_entry (dnext (links k) (addr Hard_timers)) in
        if current_tick - timeout_tick (timers k t) < HALF_TICK_MAX
        then let k = rt_timer_remove t k;
                 k = (if tm_flag (timers k t) AND RT_TIMER_FLAG_PERIODIC = 0 then clear_activated t k else k);
                 k = on_links (rt_list_insert_after (addr Fired) (addr (Row t))) k
             in Option.bind (run_timeout cb (timeout_func (timers k t)) k) (\<lambda>k.
                  if rt_list_isempty (links k) (addr Fired) then timer_check_loop cb (rt_tick k) k
                  else let k1 = on_links (rt_list_remove (addr (Row t))) k in
                    Option.bind
                      (if tm_flag (timers k1 t) AND RT_TIMER_FLAG_PERIODIC \<noteq> 0 \<and> tm_flag (timers k1 t) AND RT_TIMER_FLAG_ACTIVATED \<noteq> 0
                       then rt_timer_start t (clear_activated t k1) else Some k1)
                      (\<lambda>k2. timer_check_loop cb (rt_tick k) k2))
        else Some k)"

definition rt_timer_check :: "(nat \<Rightarrow> kernel_t \<Rightarrow> kernel_t option) \<Rightarrow> kernel_t \<Rightarrow> kernel_t option" where
  "rt_timer_check cb k = timer_check_loop cb (rt_tick k) (on_links (rt_list_init (addr Fired)) k)"

definition rt_system_timer_init :: "kernel_t \<Rightarrow> kernel_t" where
  "rt_system_timer_init = on_links (rt_list_init (addr Hard_timers))"

section \<open>clock.c, irq.c and the tick interrupt\<close>

definition rt_tick_set :: "u32 \<Rightarrow> kernel_t \<Rightarrow> kernel_t" where
  "rt_tick_set tick k = k\<lparr>rt_tick := tick\<rparr>"

definition rt_tick_increase :: "(nat \<Rightarrow> kernel_t \<Rightarrow> kernel_t option) \<Rightarrow> kernel_t \<Rightarrow> kernel_t option" where
  "rt_tick_increase cb k = do {
     let k = k\<lparr>rt_tick := rt_tick k + 1\<rparr>;
     t \<leftarrow> rt_current_thread k;
     let k = upd_thread t (\<lambda>th. th\<lparr>remaining_tick := remaining_tick th - 1\<rparr>) k;
     k \<leftarrow> (if remaining_tick (threads k t) = 0
           then rt_schedule (upd_thread t (\<lambda>th. th\<lparr>remaining_tick := init_tick th, stat := stat th OR RT_THREAD_STAT_YIELD\<rparr>) k)
           else Some k);
     rt_timer_check cb k
   }"

text \<open>\<^verbatim>\<open>ms\<close> is an \<^verbatim>\<open>rt_int32_t\<close>; a second has 1000 ticks.\<close>

definition rt_tick_from_millisecond :: "u32 \<Rightarrow> u32" where
  "rt_tick_from_millisecond ms =
     (if sint ms < 0 then -1
      else word_of_int (1000 * (sint ms sdiv 1000)) + word_of_int ((1000 * (sint ms smod 1000) + 999) sdiv 1000))"

definition rt_interrupt_enter :: "kernel_t \<Rightarrow> kernel_t" where
  "rt_interrupt_enter k = k\<lparr>rt_interrupt_nest := rt_interrupt_nest k + 1\<rparr>"

definition rt_interrupt_leave :: "kernel_t \<Rightarrow> kernel_t" where
  "rt_interrupt_leave k = k\<lparr>rt_interrupt_nest := rt_interrupt_nest k - 1\<rparr>"

definition HAL_IncTick :: "kernel_t \<Rightarrow> kernel_t" where
  "HAL_IncTick k = k\<lparr>uwTick := uwTick k + 1\<rparr>"

definition SysTick_Handler :: "(nat \<Rightarrow> kernel_t \<Rightarrow> kernel_t option) \<Rightarrow> kernel_t \<Rightarrow> kernel_t option" where
  "SysTick_Handler cb k = do {
     let k = HAL_IncTick (rt_interrupt_enter k);
     k \<leftarrow> rt_tick_increase cb k;
     Some (rt_interrupt_leave k)
   }"

section \<open>thread.c\<close>

text \<open>The stack pointer \<^verbatim>\<open>rt_hw_stack_init\<close> of \<^verbatim>\<open>cpuport.c\<close> returns for the
  stack's last word: below it, aligned to 8, the 64 bytes of the first frame.\<close>

definition rt_hw_stack_init :: "u32 \<Rightarrow> u32" where
  "rt_hw_stack_init a = ((a + 4) AND NOT 7) - 64"

definition rt_thread_init :: "tid \<Rightarrow> u32 \<Rightarrow> u32 \<Rightarrow> u8 \<Rightarrow> u32 \<Rightarrow> kernel_t \<Rightarrow> kernel_t" where
  "rt_thread_init t stack_start sz priority tick k =
     (let k = k\<lparr>thread_objects := t # thread_objects k\<rparr>;
          k = on_links (rt_list_init (addr (Tlist t))) k;
          k = upd_thread t (\<lambda>th. th\<lparr>stack_addr := stack_start, stack_size := sz, stack_mark := 0x23,
                sp := rt_hw_stack_init (stack_start + sz - 4),
                init_priority := priority, current_priority := priority, number_mask := 0,
                init_tick := tick, remaining_tick := tick, thread_error := RT_EOK, stat := RT_THREAD_INIT\<rparr>) k
      in rt_timer_init t (Thread_timeout t) 0 0 k)"

definition rt_thread_startup :: "tid \<Rightarrow> kernel_t \<Rightarrow> kernel_t option" where
  "rt_thread_startup t k = do {
     let k = upd_thread t (\<lambda>th. th\<lparr>current_priority := init_priority th,
               number_mask := push_bit (unat (init_priority th)) 1, stat := RT_THREAD_SUSPEND\<rparr>) k;
     (_, k) \<leftarrow> rt_thread_resume t k;
     if rt_current_thread k \<noteq> None then rt_schedule k else Some k
   }"

definition rt_thread_yield :: "kernel_t \<Rightarrow> kernel_t option" where
  "rt_thread_yield k = do {
     t \<leftarrow> rt_current_thread k;
     rt_schedule (upd_thread t (\<lambda>th. th\<lparr>remaining_tick := init_tick th, stat := stat th OR RT_THREAD_STAT_YIELD\<rparr>) k)
   }"

text \<open>\<^verbatim>\<open>rt_thread_sleep\<close>: the part under the interrupt lock, the whole call up to the
  switch, and what the thread does when it runs again.\<close>

definition sleep_begin :: "u32 \<Rightarrow> kernel_t \<Rightarrow> kernel_t option" where
  "sleep_begin tick k = do {
     t \<leftarrow> rt_current_thread k;
     (_, k) \<leftarrow> rt_thread_suspend t k;
     rt_timer_start t (snd (rt_timer_control t 0 tick k))
   }"

definition rt_thread_sleep :: "u32 \<Rightarrow> kernel_t \<Rightarrow> kernel_t option" where
  "rt_thread_sleep tick k = Option.bind (sleep_begin tick k) rt_schedule"

definition sleep_return :: "tid \<Rightarrow> kernel_t \<Rightarrow> kernel_t" where
  "sleep_return t k =
     (if thread_error (threads k t) = -2 then upd_thread t (\<lambda>th. th\<lparr>thread_error := RT_EOK\<rparr>) k else k)"

definition rt_thread_mdelay :: "u32 \<Rightarrow> kernel_t \<Rightarrow> kernel_t option" where
  "rt_thread_mdelay ms = rt_thread_sleep (rt_tick_from_millisecond ms)"

text \<open>\<^verbatim>\<open>RT_THREAD_CTRL_CHANGE_PRIORITY\<close> of \<^verbatim>\<open>rt_thread_control\<close>.\<close>

definition change_priority :: "tid \<Rightarrow> u8 \<Rightarrow> kernel_t \<Rightarrow> kernel_t option" where
  "change_priority t p k =
     (let set_prio = upd_thread t (\<lambda>th. th\<lparr>current_priority := p, number_mask := push_bit (unat p) 1\<rparr>) in
      if thread_stat k t = RT_THREAD_READY then do {
        k \<leftarrow> rt_schedule_remove_thread t k;
        rt_schedule_insert_thread t (set_prio k)
      } else Some (set_prio k))"

section \<open>Start-up\<close>

text \<open>The software timer thread: with no software timer it suspends itself, else it sleeps until
  the next one is due; \<^verbatim>\<open>rt_soft_timer_check\<close> follows when it runs again.\<close>

definition timer_entry_wait :: "kernel_t \<Rightarrow> kernel_t option" where
  "timer_entry_wait k =
     (let next_timeout = rt_timer_list_next_timeout Soft_timers k in
      if next_timeout = RT_TICK_MAX then do {
        t \<leftarrow> rt_current_thread k;
        (_, k) \<leftarrow> rt_thread_suspend t k;
        rt_schedule k
      } else if next_timeout - rt_tick k < HALF_TICK_MAX then rt_thread_sleep (next_timeout - rt_tick k) k
      else Some k)"

text \<open>\<^verbatim>\<open>rt_thread_create\<close> takes the thread object and the stack from the heap and
  then initialises the thread as \<^verbatim>\<open>rt_thread_init\<close> does; \<open>t\<close> and
  \<open>stack_start\<close> are what the two allocations returned.\<close>

definition rt_application_init :: "tid \<Rightarrow> u32 \<Rightarrow> kernel_t \<Rightarrow> kernel_t option" where
  "rt_application_init t stack_start k = rt_thread_startup t (rt_thread_init t stack_start 2048 10 20 k)"

definition rt_system_timer_thread_init :: "u32 \<Rightarrow> kernel_t \<Rightarrow> kernel_t option" where
  "rt_system_timer_thread_init stack_start k =
     (let k = on_links (rt_list_init (addr Soft_timers)) k
      in rt_thread_startup (timer_thread k) (rt_thread_init (timer_thread k) stack_start 512 4 10 k))"

definition rt_thread_idle_init :: "tid \<Rightarrow> u32 \<Rightarrow> kernel_t \<Rightarrow> kernel_t option" where
  "rt_thread_idle_init t stack_start k = rt_thread_startup t (rt_thread_init t stack_start 256 31 32 k)"

text \<open>\<^verbatim>\<open>rtthread_startup\<close> after the board's own initialisation: \<open>m\<close> and \<open>i\<close> are
  the main and the idle thread, the three addresses their stacks and the timer thread's.\<close>

definition rtthread_startup :: "tid \<Rightarrow> tid \<Rightarrow> u32 \<Rightarrow> u32 \<Rightarrow> u32 \<Rightarrow> kernel_t \<Rightarrow> kernel_t option" where
  "rtthread_startup m i main_stack timer_stack idle_stack k = do {
     let k = rt_system_scheduler_init (rt_system_timer_init k);
     k \<leftarrow> rt_application_init m main_stack k;
     k \<leftarrow> rt_system_timer_thread_init timer_stack k;
     k \<leftarrow> rt_thread_idle_init i idle_stack k;
     rt_system_scheduler_start k
   }"

end
