(* ===== verification/Hvac_Sched.thy ===== *)
theory Hvac_Sched
  imports Hvac_Kernel
begin

text \<open>
  The kernel's invariant and what the scheduler and the timer list do. \<open>lists_ok\<close> ties the
  rings of the store to a queue of threads for every priority and a queue of sleepers;
  \<open>kernel_ok\<close> adds the thread states, the bitmap of the ready priorities and the order of the
  timers. Every operation is total on such states and is described on the queues.
\<close>

section \<open>The first set bit\<close>

text \<open>The table from entry \<open>b\<close> on.\<close>

primrec bitmap_ok :: "nat \<Rightarrow> u8 list \<Rightarrow> bool" where
  "bitmap_ok b [] \<longleftrightarrow> True"
| "bitmap_ok b (x # xs) \<longleftrightarrow> (let i = unat x in i < 8 \<and> b mod 2 ^ i = 0 \<and> odd (b div 2 ^ i)) \<and> bitmap_ok (b + 1) xs"

lemma bitmap_entries: "bitmap_ok 1 (tl lowest_bit_bitmap)"
  by (simp add: lowest_bit_bitmap_def)

lemma bitmap_ok_nth:
  "bitmap_ok b xs \<Longrightarrow> n < length xs \<Longrightarrow> i = unat (xs ! n) \<Longrightarrow> i < 8 \<and> (b + n) mod 2 ^ i = 0 \<and> odd ((b + n) div 2 ^ i)"
proof (induction xs arbitrary: b n)
  case (Cons x xs)
  then show ?case using Cons.IH [of "Suc b" "n - 1"] by (cases n) (simp_all add: Let_def)
qed simp

lemma bitmap_entry:
  assumes "(w :: u32) \<noteq> 0" "w < 256" "i = unat (lowest_bit_bitmap ! unat w)"
  shows "i < 8" "bit w i" "j < i \<Longrightarrow> \<not> bit w j"
proof -
  have u: "unat w < 256" "1 \<le> unat w"
    using assms by (simp_all add: word_less_nat_alt unat_gt_0 Suc_le_eq)
  have "lowest_bit_bitmap ! unat w = tl lowest_bit_bitmap ! (unat w - 1)"
    using u by (subst nth_tl) (simp_all add: lowest_bit_bitmap_def)
  then have e: "i < 8" "unat w mod 2 ^ i = 0" "odd (unat w div 2 ^ i)"
    using bitmap_ok_nth [OF bitmap_entries, of "unat w - 1" i] u assms(3)
    by (simp_all add: lowest_bit_bitmap_def)
  have b: "bit (unat w) n \<longleftrightarrow> bit w n" for n by (auto simp: bit_simps dest: bit_imp_le_length)
  show "i < 8" by (rule e)
  show "bit w i" using e(3) b [of i] by (simp add: bit_iff_odd)
  show "\<not> bit w j" if "j < i"
  proof -
    obtain q where "unat w = 2 ^ i * q" using e(2) by auto
    moreover have "(2::nat) ^ i = 2 ^ j * 2 ^ (i - j)" using that by (simp add: power_add [symmetric])
    ultimately have "unat w div 2 ^ j = 2 ^ (i - j) * q" by simp
    with that b [of j] show ?thesis by (simp add: bit_iff_odd)
  qed
qed

text \<open>One byte of the word, moved down.\<close>

lemma byte_field:
  assumes m: "(m :: u32) = push_bit s (mask 8)" and s: "s \<le> 24" and nz: "value AND m \<noteq> 0"
  defines "w \<equiv> drop_bit s (value AND m)"
  shows "w \<noteq> 0" "w < 256" "bit w i \<longleftrightarrow> bit value (s + i) \<and> i < 8"
proof -
  have b: "bit w i \<longleftrightarrow> bit value (s + i) \<and> i < 8" for i
    using s unfolding w_def m by (auto simp: bit_simps dest: bit_imp_le_length)
  then show "bit w i \<longleftrightarrow> bit value (s + i) \<and> i < 8" .
  have "w = take_bit 8 w"
    by (rule bit_word_eqI) (auto simp: bit_take_bit_iff b)
  then have "unat w = unat (take_bit 8 w)" by (rule arg_cong)
  then have "unat w = take_bit 8 (unat w)" by (simp only: unsigned_take_bit_eq)
  then have "unat w < 256" using take_bit_nat_less_exp [of 8 "unat w"] by simp
  then show "w < 256" by (simp add: word_less_nat_alt)
  have "\<exists>i. bit (value AND m) i"
  proof (rule ccontr)
    assume "\<not> ?thesis"
    then have "value AND m = 0" by (intro bit_word_eqI) simp
    with nz show False by simp
  qed
  then obtain i where "bit value i" "s \<le> i" "i < s + 8" unfolding m by (auto simp: bit_simps)
  then have "bit w (i - s)" by (simp add: b)
  then show "w \<noteq> 0" by auto
qed

lemma byte_clear: "value AND push_bit s (mask 8) = 0 \<Longrightarrow> s \<le> j \<Longrightarrow> j < s + 8 \<Longrightarrow> j < 32 \<Longrightarrow> \<not> bit (value :: u32) j"
  by (drule arg_cong [where f = "\<lambda>w. bit w j"]) (auto simp: bit_simps)

definition first_bit :: "u32 \<Rightarrow> nat \<Rightarrow> bool" where
  "first_bit v i \<longleftrightarrow> i < 32 \<and> bit v i \<and> (\<forall>j < i. \<not> bit v j)"

lemma first_bit_byte:
  assumes "m = push_bit s (mask 8)" "s \<le> 24" "value AND m \<noteq> 0" "\<And>j. j < s \<Longrightarrow> \<not> bit value j"
  shows "first_bit value (s + unat (lowest_bit_bitmap ! unat (drop_bit s (value AND m))))"
proof -
  define w where "w = drop_bit s (value AND m)"
  note f = byte_field [OF assms(1-3), folded w_def]
  note e = bitmap_entry [OF f(1,2) refl]
  have "\<not> bit value j" if "j < s + unat (lowest_bit_bitmap ! unat w)" for j
  proof (cases "j < s")
    case False
    with that e(1) e(3) [of "j - s"] f(3) [of "j - s"] show ?thesis by simp
  qed (use assms(4) in simp)
  with e(1,2) f(3) assms(2) show ?thesis unfolding w_def [symmetric] by (simp add: first_bit_def)
qed

lemma byte_masks: "(0xff :: u32) = push_bit 0 (mask 8)" "(0xff00 :: u32) = push_bit 8 (mask 8)"
  "(0xff0000 :: u32) = push_bit 16 (mask 8)" "(0xff000000 :: u32) = push_bit 24 (mask 8)"
  by (simp_all add: mask_eq_exp_minus_1)

lemma rt_ffs_first:
  assumes "value \<noteq> 0"
  shows "0 < rt_ffs value \<and> first_bit value (rt_ffs value - 1)"
proof -
  note clear = byte_clear [of "value"]
  have top: "value AND push_bit 24 (mask 8) \<noteq> 0"
    if "\<And>j. j < 24 \<Longrightarrow> \<not> bit value j"
  proof
    assume a: "value AND push_bit 24 (mask 8) = 0"
    have "\<not> bit value j" for j
      using that [of j] clear [OF a, of j] by (cases "j < 24"; cases "j < 32") (auto dest: bit_imp_le_length)
    then have "value = 0" by (intro bit_word_eqI) simp
    with assms show False by simp
  qed
  have c1: "\<not> bit value j" if "value AND push_bit 0 (mask 8) = 0" "j < 8" for j
    using clear [OF that(1)] that(2) by simp
  have c2: "\<not> bit value j" if "value AND push_bit 0 (mask 8) = 0" "value AND push_bit 8 (mask 8) = 0" "j < 16" for j
    using c1 [OF that(1), of j] clear [OF that(2), of j] that(3) by (cases "j < 8") simp_all
  have c3: "\<not> bit value j" if "value AND push_bit 0 (mask 8) = 0" "value AND push_bit 8 (mask 8) = 0"
    "value AND push_bit 16 (mask 8) = 0" "j < 24" for j
    using c2 [OF that(1,2), of j] clear [OF that(3), of j] that(4) by (cases "j < 16") simp_all
  show ?thesis
  proof (cases "value AND push_bit 0 (mask 8) = 0")
    case False
    with assms first_bit_byte [OF refl _ False] show ?thesis
      unfolding rt_ffs_def byte_masks by simp
  next
    case z1: True
    show ?thesis
    proof (cases "value AND push_bit 8 (mask 8) = 0")
      case False
      with assms z1 first_bit_byte [OF refl _ False c1 [OF z1]] show ?thesis
        unfolding rt_ffs_def byte_masks by (simp add: add.commute)
    next
      case z2: True
      show ?thesis
      proof (cases "value AND push_bit 16 (mask 8) = 0")
        case False
        with assms z1 z2 first_bit_byte [OF refl _ False c2 [OF z1 z2]] show ?thesis
          unfolding rt_ffs_def byte_masks by (simp add: add.commute)
      next
        case z3: True
        with assms z1 z2 first_bit_byte [OF refl _ top [OF c3 [OF z1 z2 z3]] c3 [OF z1 z2 z3]] show ?thesis
          unfolding rt_ffs_def byte_masks by (simp add: add.commute)
      qed
    qed
  qed
qed

section \<open>Queues and rings\<close>

definition in_queue :: "(nat \<Rightarrow> tid list) \<Rightarrow> tid \<Rightarrow> bool" where
  "in_queue Q t \<longleftrightarrow> (\<exists>p < 32. t \<in> set (Q p))"

text \<open>The rings of the threads \<open>T\<close> with the ready queues \<open>Q\<close>, the sleepers \<open>W\<close> in
  the order of their timers and, inside \<open>rt_timer_check\<close>, the fired timers \<open>L\<close>.\<close>

fun ring_of :: "tid set \<Rightarrow> (nat \<Rightarrow> tid list) \<Rightarrow> tid list \<Rightarrow> tid list option \<Rightarrow> node \<Rightarrow> node list option" where
  "ring_of T Q W L (Queue p) = (if p < 32 then Some (map Tlist (Q p)) else None)"
| "ring_of T Q W L Defunct = Some []"
| "ring_of T Q W L Hard_timers = Some (map Row W)"
| "ring_of T Q W L Soft_timers = Some []"
| "ring_of T Q W L Fired = map_option (map Row) L"
| "ring_of T Q W L (Tlist t) = (if t \<in> T \<and> \<not> in_queue Q t then Some [] else None)"
| "ring_of T Q W L (Row t) = (if t \<in> T \<and> t \<notin> set W \<and> (\<forall>l. L = Some l \<longrightarrow> t \<notin> set l) then Some [] else None)"

definition mask_ok :: "thread_t \<Rightarrow> bool" where
  "mask_ok th \<longleftrightarrow> unat (current_priority th) < 32 \<and> number_mask th = push_bit (unat (current_priority th)) 1"

definition lists_ok :: "tid set \<Rightarrow> (nat \<Rightarrow> tid list) \<Rightarrow> tid list \<Rightarrow> tid list option \<Rightarrow> kernel_t \<Rightarrow> bool" where
  "lists_ok T Q W L k \<longleftrightarrow>
     rings (links k) (ring_of T Q W L) \<and>
     (\<forall>p < 32. bit (rt_thread_ready_priority_group k) p \<longleftrightarrow> Q p \<noteq> []) \<and>
     (\<forall>p < 32. \<forall>t \<in> set (Q p). t \<in> T \<and> mask_ok (threads k t) \<and> unat (current_priority (threads k t)) = p)"

lemmas kernel_defs = upd_thread_def upd_timer_def on_links_def set_stat_def

lemma lists_ok_cong:
  assumes "links k' = links k" "rt_thread_ready_priority_group k' = rt_thread_ready_priority_group k"
    "\<And>t. current_priority (threads k' t) = current_priority (threads k t)"
    "\<And>t. number_mask (threads k' t) = number_mask (threads k t)"
  shows "lists_ok T Q W L k' = lists_ok T Q W L k"
  using assms by (simp add: lists_ok_def mask_ok_def)

lemma queue_unique: "lists_ok T Q W L k \<Longrightarrow> p < 32 \<Longrightarrow> t \<in> set (Q p) \<Longrightarrow> q < 32 \<Longrightarrow> t \<in> set (Q q) \<Longrightarrow> p = q"
  unfolding lists_ok_def by metis

lemma queue_only: "lists_ok T Q W L k \<Longrightarrow> p < 32 \<Longrightarrow> t \<in> set (Q p) \<Longrightarrow> \<forall>q < 32. t \<in> set (Q q) \<longrightarrow> p = q"
  using queue_unique by blast

lemma queue_distinct:
  assumes "lists_ok T Q W L k" "p < 32"
  shows "distinct (Q p)"
  using rings_distinct [of "links k" "ring_of T Q W L" "Queue p" "map Tlist (Q p)"] assms
  by (auto simp: lists_ok_def distinct_map)

text \<open>One bit of the group.\<close>

lemma bit_group: "q < 32 \<Longrightarrow> bit ((2 :: u32) ^ p) q \<longleftrightarrow> p = q"
  by (auto simp: bit_exp_iff)

lemma ring_of_enqueue:
  assumes "t \<in> T" "\<not> in_queue Q t" "p < 32"
  shows "ring_of T (Q(p := Q p @ [t])) W L =
    (ring_of T Q W L)(Tlist t := None, Queue p \<mapsto> map Tlist (Q p) @ [Tlist t])"
proof
  fix n
  show "ring_of T (Q(p := Q p @ [t])) W L n =
    ((ring_of T Q W L)(Tlist t := None, Queue p \<mapsto> map Tlist (Q p) @ [Tlist t])) n"
    using assms by (cases n) (auto simp: in_queue_def)
qed

lemma in_queue_remove:
  assumes "t \<in> set (Q p)" "p < 32" "distinct (Q p)" "\<forall>q < 32. t \<in> set (Q q) \<longrightarrow> p = q"
  shows "in_queue (Q(p := remove1 t (Q p))) u \<longleftrightarrow> in_queue Q u \<and> u \<noteq> t"
proof -
  have s: "set ((Q(p := remove1 t (Q p))) q) = (if q = p then set (Q p) - {t} else set (Q q))" for q
    using assms(3) by (simp add: set_remove1_eq)
  show ?thesis
  proof (cases "u = t")
    case True
    then show ?thesis using assms(4) unfolding in_queue_def s by auto
  next
    case False
    then have "u \<in> (if q = p then set (Q p) - {t} else set (Q q)) \<longleftrightarrow> u \<in> set (Q q)" for q by simp
    with False show ?thesis unfolding in_queue_def s by simp
  qed
qed

lemma ring_of_dequeue:
  assumes "t \<in> T" "t \<in> set (Q p)" "p < 32" "distinct (Q p)" "\<forall>q < 32. t \<in> set (Q q) \<longrightarrow> p = q"
  shows "ring_of T (Q(p := remove1 t (Q p))) W L =
    (ring_of T Q W L)(Queue p \<mapsto> remove1 (Tlist t) (map Tlist (Q p)), Tlist t \<mapsto> [])"
proof
  fix n
  have m: "remove1 (Tlist t) (map Tlist xs) = map Tlist (remove1 t xs)" for xs
    by (induction xs) auto
  show "ring_of T (Q(p := remove1 t (Q p))) W L n =
    ((ring_of T Q W L)(Queue p \<mapsto> remove1 (Tlist t) (map Tlist (Q p)), Tlist t \<mapsto> [])) n"
    using assms(1,3) by (cases n) (simp_all add: in_queue_remove [OF assms(2-5)] m)
qed

lemma insert_thread:
  assumes ok: "lists_ok T Q W L k" and t: "t \<in> T" "\<not> in_queue Q t" "rt_current_thread k \<noteq> Some t"
    and m: "mask_ok (threads k t)" and p: "p = unat (current_priority (threads k t))"
  shows "\<exists>h g. rt_schedule_insert_thread t k =
      Some ((set_stat t RT_THREAD_READY k)\<lparr>links := h, rt_thread_ready_priority_group := g\<rparr>) \<and>
    lists_ok T (Q(p := Q p @ [t])) W L ((set_stat t RT_THREAD_READY k)\<lparr>links := h, rt_thread_ready_priority_group := g\<rparr>)"
proof -
  define h where "h = rt_list_insert_before (addr (Queue p)) (addr (Tlist t)) (links k)"
  define g where "g = rt_thread_ready_priority_group k OR push_bit p 1"
  have lt: "p < 32" and nm: "number_mask (threads k t) = push_bit p 1" using m p by (simp_all add: mask_ok_def)
  have e: "rt_schedule_insert_thread t k = Some ((set_stat t RT_THREAD_READY k)\<lparr>links := h, rt_thread_ready_priority_group := g\<rparr>)"
    using t(3) lt nm by (simp add: rt_schedule_insert_thread_def Let_def kernel_defs h_def g_def p)
  have R: "rings (links k) (ring_of T Q W L)" using ok by (simp add: lists_ok_def)
  have "rings h (ring_of T (Q(p := Q p @ [t])) W L)"
    unfolding ring_of_enqueue [OF t(1,2) lt] h_def
    by (rule rings_insert_before [OF R]) (use lt t in simp_all)
  moreover have "bit g q \<longleftrightarrow> (Q(p := Q p @ [t])) q \<noteq> []" if "q < 32" for q
    using ok that by (simp add: lists_ok_def g_def bit_or_iff bit_group)
  moreover have "u \<in> T \<and> mask_ok (threads (set_stat t RT_THREAD_READY k) u) \<and>
    unat (current_priority (threads (set_stat t RT_THREAD_READY k) u)) = q"
    if "q < 32" "u \<in> set ((Q(p := Q p @ [t])) q)" for q u
  proof -
    have "u \<in> T \<and> mask_ok (threads k u) \<and> unat (current_priority (threads k u)) = q"
      using ok that m p t(1) unfolding lists_ok_def by (cases "q = p") auto
    then show ?thesis by (cases "u = t") (simp_all add: kernel_defs mask_ok_def)
  qed
  ultimately have "lists_ok T (Q(p := Q p @ [t])) W L ((set_stat t RT_THREAD_READY k)\<lparr>links := h, rt_thread_ready_priority_group := g\<rparr>)"
    unfolding lists_ok_def by simp
  with e show ?thesis by blast
qed

lemma remove_thread:
  assumes ok: "lists_ok T Q W L k" and t: "t \<in> set (Q p)" "p < 32"
  shows "\<exists>h g. rt_schedule_remove_thread t k = Some (k\<lparr>links := h, rt_thread_ready_priority_group := g\<rparr>) \<and>
    lists_ok T (Q(p := remove1 t (Q p))) W L (k\<lparr>links := h, rt_thread_ready_priority_group := g\<rparr>)"
proof -
  define h where "h = rt_list_remove (addr (Tlist t)) (links k)"
  define g where "g = (if remove1 t (Q p) = [] then rt_thread_ready_priority_group k AND NOT (push_bit p 1)
    else rt_thread_ready_priority_group k)"
  have m: "t \<in> T" "mask_ok (threads k t)" "unat (current_priority (threads k t)) = p"
    using ok t by (auto simp: lists_ok_def)
  have d: "distinct (Q p)" by (rule queue_distinct [OF ok t(2)])
  have R: "rings (links k) (ring_of T Q W L)" using ok by (simp add: lists_ok_def)
  have u: "\<forall>q < 32. t \<in> set (Q q) \<longrightarrow> p = q" by (rule queue_only [OF ok t(2,1)])
  have h: "rings h (ring_of T (Q(p := remove1 t (Q p))) W L)"
    unfolding h_def ring_of_dequeue [where Q = Q, OF m(1) t d u]
    by (rule rings_remove [OF R]) (use t in simp_all)
  have "rt_list_isempty h (addr (Queue p)) \<longleftrightarrow> remove1 t (Q p) = []"
    by (subst rings_isempty [OF h, of "Queue p" "map Tlist (remove1 t (Q p))"]) (use t(2) in simp_all)
  then have e: "rt_schedule_remove_thread t k = Some (k\<lparr>links := h, rt_thread_ready_priority_group := g\<rparr>)"
    using m t(2) by (simp add: rt_schedule_remove_thread_def Let_def kernel_defs h_def g_def mask_ok_def)
  have "bit g q \<longleftrightarrow> (Q(p := remove1 t (Q p))) q \<noteq> []" if "q < 32" for q
    using ok that t by (auto simp: lists_ok_def g_def bit_and_iff bit_not_iff bit_group)
  moreover have "set (remove1 t (Q p)) \<subseteq> set (Q p)" by (rule set_remove1_subset)
  ultimately have "lists_ok T (Q(p := remove1 t (Q p))) W L (k\<lparr>links := h, rt_thread_ready_priority_group := g\<rparr>)"
    using ok h by (auto simp: lists_ok_def)
  with e show ?thesis by blast
qed

text \<open>A thread that is in no queue: only its own lone node is written.\<close>

lemma remove_lone_thread:
  assumes ok: "lists_ok T Q W L k" and t: "t \<in> T" "\<not> in_queue Q t" and m: "mask_ok (threads k t)"
  shows "\<exists>h g. rt_schedule_remove_thread t k = Some (k\<lparr>links := h, rt_thread_ready_priority_group := g\<rparr>) \<and>
    lists_ok T Q W L (k\<lparr>links := h, rt_thread_ready_priority_group := g\<rparr>)"
proof -
  define p where "p = unat (current_priority (threads k t))"
  define h where "h = rt_list_remove (addr (Tlist t)) (links k)"
  define g where "g = (if Q p = [] then rt_thread_ready_priority_group k AND NOT (push_bit p 1)
    else rt_thread_ready_priority_group k)"
  have lt: "p < 32" and nm: "number_mask (threads k t) = push_bit p 1" using m by (simp_all add: mask_ok_def p_def)
  have R: "rings (links k) (ring_of T Q W L)" using ok by (simp add: lists_ok_def)
  have h: "rings h (ring_of T Q W L)" unfolding h_def
    by (rule rings_remove_lone [OF R]) (use t in simp)
  have "rt_list_isempty h (addr (Queue p)) \<longleftrightarrow> Q p = []"
    by (subst rings_isempty [OF h, of "Queue p" "map Tlist (Q p)"]) (use lt in simp_all)
  then have e: "rt_schedule_remove_thread t k = Some (k\<lparr>links := h, rt_thread_ready_priority_group := g\<rparr>)"
    using lt nm by (simp add: rt_schedule_remove_thread_def Let_def kernel_defs h_def g_def p_def)
  have "bit g q \<longleftrightarrow> Q q \<noteq> []" if "q < 32" for q
    using ok that by (auto simp: lists_ok_def g_def bit_and_iff bit_not_iff bit_group)
  then have "lists_ok T Q W L (k\<lparr>links := h, rt_thread_ready_priority_group := g\<rparr>)"
    using ok h by (auto simp: lists_ok_def)
  with e show ?thesis by blast
qed

section \<open>Thread states\<close>

definition thread_ok :: "thread_t \<Rightarrow> bool" where
  "thread_ok th \<longleftrightarrow> mask_ok th \<and> stack_mark th = 0x23 \<and> stack_addr th < sp th \<and> sp th \<le> stack_addr th + stack_size th"

text \<open>A thread is ready exactly when it is in a queue, at most the current thread is running; once
  the scheduler has started there is a current thread, which is in no queue.\<close>

definition threads_ok :: "tid set \<Rightarrow> (nat \<Rightarrow> tid list) \<Rightarrow> kernel_t \<Rightarrow> bool" where
  "threads_ok T Q k \<longleftrightarrow>
     (\<forall>t \<in> T. thread_ok (threads k t)) \<and>
     (\<forall>t \<in> T. thread_stat k t \<in> {1, 2, 3}) \<and>
     (\<forall>t \<in> T. thread_stat k t = 1 \<longleftrightarrow> in_queue Q t) \<and>
     (\<forall>t \<in> T. thread_stat k t = 3 \<longrightarrow> rt_current_thread k = Some t)"

definition current_ok :: "tid set \<Rightarrow> kernel_t \<Rightarrow> bool" where
  "current_ok T k \<longleftrightarrow> (\<exists>c \<in> T. rt_current_thread k = Some c \<and> thread_stat k c \<noteq> 1)"

definition states_ok :: "tid set \<Rightarrow> (nat \<Rightarrow> tid list) \<Rightarrow> kernel_t \<Rightarrow> bool" where
  "states_ok T Q k \<longleftrightarrow> threads_ok T Q k \<and> current_ok T k"

lemmas states_defs = states_ok_def threads_ok_def current_ok_def

lemma stat_mask: "(s OR (x AND NOT m)) AND m = s AND (m :: u8)"
  by (rule bit_word_eqI) (auto simp: bit_simps)

lemma stat_mask_7: "(s OR (x AND - 8)) AND 7 = s AND (7 :: u8)"
  using stat_mask [of s x 7] by simp

lemma stat_yield: "(x AND NOT 8) AND 7 = x AND (7 :: u8)" "(x OR 8) AND 7 = x AND (7 :: u8)"
proof -
  have "(x AND NOT 8) AND 7 = x AND (NOT 8 AND 7)" by (simp only: and.assoc)
  then show "(x AND NOT 8) AND 7 = x AND (7 :: u8)" by simp
  have "(x OR 8) AND 7 = (x AND 7) OR (8 AND 7)" by (rule bit.conj_disj_distrib2)
  then show "(x OR 8) AND 7 = x AND (7 :: u8)" by simp
qed

lemma thread_stat_set:
  "s AND 7 = s \<Longrightarrow> thread_stat (set_stat t s k) u = (if u = t then s else thread_stat k u)"
  by (simp add: thread_stat_def kernel_defs stat_mask_7)

section \<open>rt\_schedule\<close>

text \<open>
  The specification on the queues: the thread that has run keeps the processor when it may run and
  no ready thread is more important, nor equally important if it gives up its turn; else it goes to
  the end of its queue and the head of the most important queue follows.
\<close>

definition schedule_spec :: "tid \<Rightarrow> bool \<Rightarrow> bool \<Rightarrow> nat \<Rightarrow> (nat \<Rightarrow> tid list) \<Rightarrow> tid \<times> (nat \<Rightarrow> tid list)" where
  "schedule_spec c running yields prio Q =
     (case List.find (\<lambda>p. Q p \<noteq> []) [0..<32] of
        None \<Rightarrow> (c, Q)
      | Some p \<Rightarrow>
          if running \<and> (prio < p \<or> prio = p \<and> \<not> yields) then (c, Q)
          else (hd (Q p), let Q = (if running then Q(prio := Q prio @ [c]) else Q) in Q(p := tl (Q p))))"

text \<open>What scheduling never touches.\<close>

definition sched_same :: "kernel_t \<Rightarrow> kernel_t \<Rightarrow> bool" where
  "sched_same k k' \<longleftrightarrow>
     timers k' = timers k \<and> thread_objects k' = thread_objects k \<and> rt_scheduler_lock_nest k' = rt_scheduler_lock_nest k \<and>
     rt_interrupt_nest k' = rt_interrupt_nest k \<and> rt_tick k' = rt_tick k \<and> uwTick k' = uwTick k \<and>
     random_nr k' = random_nr k \<and> soft_timer_status k' = soft_timer_status k \<and> timer_thread k' = timer_thread k \<and>
     (\<forall>t. threads k' t = (threads k t)\<lparr>stat := stat (threads k' t)\<rparr>)"

lemma sched_same_refl: "sched_same k k"
  by (simp add: sched_same_def)

lemma sched_same_trans: "sched_same k k1 \<Longrightarrow> sched_same k1 k2 \<Longrightarrow> sched_same k k2"
  by (simp add: sched_same_def) (metis thread_t.surjective thread_t.update_convs(6))

lemma sched_same_set_stat: "sched_same k k1 \<Longrightarrow> sched_same k (set_stat t s k1)"
  by (erule sched_same_trans) (simp add: sched_same_def kernel_defs)

lemma sched_same_links: "sched_same k (k1\<lparr>links := h, rt_thread_ready_priority_group := g\<rparr>) = sched_same k k1"
  by (simp add: sched_same_def)

lemma sched_same_ok:
  assumes "sched_same k k'"
  shows "thread_ok (threads k' t) = thread_ok (threads k t)" "mask_ok (threads k' t) = mask_ok (threads k t)"
    "current_priority (threads k' t) = current_priority (threads k t)" "number_mask (threads k' t) = number_mask (threads k t)"
proof -
  have e: "threads k' t = (threads k t)\<lparr>stat := stat (threads k' t)\<rparr>" using assms by (simp add: sched_same_def)
  show "current_priority (threads k' t) = current_priority (threads k t)" by (subst e) simp
  show "number_mask (threads k' t) = number_mask (threads k t)" by (subst e) simp
  show "mask_ok (threads k' t) = mask_ok (threads k t)" by (subst e) (simp add: mask_ok_def)
  show "thread_ok (threads k' t) = thread_ok (threads k t)" by (subst e) (simp add: thread_ok_def mask_ok_def)
qed

lemma ready_group:
  assumes "lists_ok T Q W L k"
  shows "List.find (\<lambda>p. Q p \<noteq> []) [0..<32] =
    (if rt_thread_ready_priority_group k = 0 then None else Some (rt_ffs (rt_thread_ready_priority_group k) - 1))"
proof (cases "rt_thread_ready_priority_group k = 0")
  case True
  have "bit (rt_thread_ready_priority_group k) p \<longleftrightarrow> Q p \<noteq> []" if "p < 32" for p
    using assms that by (simp add: lists_ok_def)
  with True show ?thesis by (simp add: find_None_iff)
next
  case False
  define i where "i = rt_ffs (rt_thread_ready_priority_group k) - 1"
  have f: "first_bit (rt_thread_ready_priority_group k) i" using rt_ffs_first [OF False] by (simp add: i_def)
  then have "i < 32" "Q i \<noteq> []" "\<forall>j < i. Q j = []"
    using assms by (auto simp: lists_ok_def first_bit_def)
  then have "List.find (\<lambda>p. Q p \<noteq> []) [0..<32] = Some i"
    unfolding find_Some_iff by (intro exI [of _ i]) simp
  with False show ?thesis by (simp add: i_def)
qed

lemma highest_thread:
  assumes "lists_ok T Q W L k" "rt_thread_ready_priority_group k \<noteq> 0"
  shows "\<exists>p t ts. p < 32 \<and> Q p = t # ts \<and> (\<forall>q < p. Q q = []) \<and> List.find (\<lambda>p. Q p \<noteq> []) [0..<32] = Some p \<and>
    get_highest_priority_thread k = Some (t, p)"
proof -
  define p where "p = rt_ffs (rt_thread_ready_priority_group k) - 1"
  have f: "List.find (\<lambda>p. Q p \<noteq> []) [0..<32] = Some p" using ready_group [OF assms(1)] assms(2) by (simp add: p_def)
  then obtain i where "i < 32" "[0..<32] ! i = p" "Q p \<noteq> []" "\<forall>j < i. Q ([0..<32] ! j) = []"
    by (auto simp: find_Some_iff)
  then have p: "p < 32" "Q p \<noteq> []" "\<forall>q < p. Q q = []" by auto
  then obtain t ts where Q: "Q p = t # ts" by (cases "Q p") auto
  have "dnext (links k) (addr (Queue p)) = addr (Tlist t)"
    by (rule rings_first [where R = "ring_of T Q W L" and xs = "map Tlist ts"]) (use assms(1) p Q in \<open>simp_all add: lists_ok_def\<close>)
  then have "get_highest_priority_thread k = Some (t, p)"
    using assms(2) unfolding get_highest_priority_thread_def Let_def p_def [symmetric] by simp
  with p Q f show ?thesis by blast
qed

lemma in_queue_insert: "p < 32 \<Longrightarrow> in_queue (Q(p := Q p @ [c])) u \<longleftrightarrow> in_queue Q u \<or> u = c"
  by (auto simp: in_queue_def)

lemma states_current: "states_ok T Q k \<Longrightarrow> rt_current_thread k = Some c \<Longrightarrow> c \<in> T \<and> thread_stat k c \<noteq> 1 \<and> \<not> in_queue Q c"
  by (auto simp: states_defs)

lemma states_okI:
  assumes "sched_same k k'" "states_ok T Q k" "rt_current_thread k' = Some t" "t \<in> T" "thread_stat k' t = 3"
    and "\<And>u. u \<in> T \<Longrightarrow> u \<noteq> t \<Longrightarrow> thread_stat k' u \<in> {1, 2}"
    and "\<And>u. u \<in> T \<Longrightarrow> thread_stat k' u = 1 \<longleftrightarrow> in_queue Q' u"
  shows "states_ok T Q' k'"
  unfolding states_defs
proof (intro conjI ballI impI)
  fix u assume "u \<in> T"
  then show "thread_ok (threads k' u)" using assms(2) sched_same_ok [OF assms(1)] by (simp add: states_defs)
  show "thread_stat k' u \<in> {1, 2, 3}" using assms(5) assms(6) [of u] \<open>u \<in> T\<close> by (cases "u = t") auto
  show "thread_stat k' u = 1 \<longleftrightarrow> in_queue Q' u" by (rule assms(7) [OF \<open>u \<in> T\<close>])
  show "rt_current_thread k' = Some u" if "thread_stat k' u = 3"
    using assms(3) assms(6) [of u] \<open>u \<in> T\<close> that by (cases "u = t") auto
qed (use assms(3,4,5) in auto)

text \<open>The head of the most important queue leaves it and runs; every other thread keeps its
  state.\<close>

lemma take_head:
  assumes ok: "lists_ok T Q W L k" and Q: "Q p = t # ts" "p < 32" and s: "thread_ok (threads k t)"
  obtains k' where
    "Option.bind (rt_schedule_remove_thread t k) (\<lambda>k. rt_scheduler_stack_check t (set_stat t RT_THREAD_RUNNING k)) = Some k'"
    "lists_ok T (Q(p := ts)) W L k'" "sched_same k k'" "rt_current_thread k' = rt_current_thread k"
    "\<forall>u. thread_stat k' u = (if u = t then 3 else thread_stat k u)"
proof -
  obtain h g where e: "rt_schedule_remove_thread t k = Some (k\<lparr>links := h, rt_thread_ready_priority_group := g\<rparr>)"
    and l: "lists_ok T (Q(p := remove1 t (Q p))) W L (k\<lparr>links := h, rt_thread_ready_priority_group := g\<rparr>)"
    using remove_thread [OF ok, of t p] Q by auto
  define k' where "k' = set_stat t RT_THREAD_RUNNING (k\<lparr>links := h, rt_thread_ready_priority_group := g\<rparr>)"
  have l': "lists_ok T (Q(p := ts)) W L k'"
    using l Q(1) lists_ok_cong [of k' "k\<lparr>links := h, rt_thread_ready_priority_group := g\<rparr>" T "Q(p := ts)" W L]
    by (simp add: k'_def kernel_defs)
  have "rt_scheduler_stack_check t k' = Some k'"
    using s by (simp add: rt_scheduler_stack_check_def Let_def thread_ok_def k'_def kernel_defs not_less not_le)
  then have run: "Option.bind (rt_schedule_remove_thread t k) (\<lambda>k. rt_scheduler_stack_check t (set_stat t RT_THREAD_RUNNING k)) = Some k'"
    using e by (simp add: k'_def)
  have same: "sched_same k k'" by (simp add: k'_def sched_same_set_stat sched_same_links sched_same_refl)
  have "thread_stat k' u = (if u = t then 3 else thread_stat k u)" for u
    using thread_stat_set [of 3 t "k\<lparr>links := h, rt_thread_ready_priority_group := g\<rparr>" u] by (simp add: k'_def thread_stat_def)
  then show thesis using that [OF run l' same] by (simp add: k'_def kernel_defs)
qed

lemma in_queue_tl:
  assumes "lists_ok T Q W L k" "Q p = t # ts" "p < 32"
  shows "in_queue (Q(p := ts)) u \<longleftrightarrow> in_queue Q u \<and> u \<noteq> t"
proof -
  have t: "t \<in> set (Q p)" using assms(2) by simp
  show ?thesis
    using in_queue_remove [OF t assms(3) queue_distinct [OF assms(1,3)] queue_only [OF assms(1,3) t]] assms(2) by simp
qed

text \<open>The two halves of \<^verbatim>\<open>rt_schedule\<close>: the yield flag of a running thread is cleared, then
  either it stays or the processor is handed over.\<close>

definition clear_yield :: "tid \<Rightarrow> kernel_t \<Rightarrow> kernel_t" where
  "clear_yield c k = (if thread_stat k c = RT_THREAD_RUNNING
     then upd_thread c (\<lambda>th. th\<lparr>stat := stat th AND NOT RT_THREAD_STAT_YIELD\<rparr>) k else k)"

definition hand_over :: "tid \<Rightarrow> nat \<Rightarrow> kernel_t \<Rightarrow> kernel_t" where
  "hand_over t p k = k\<lparr>rt_current_priority := word_of_nat p, rt_current_thread := Some t\<rparr>"

definition stays :: "kernel_t \<Rightarrow> tid \<Rightarrow> nat \<Rightarrow> bool" where
  "stays k c p \<longleftrightarrow> thread_stat k c = RT_THREAD_RUNNING \<and>
     (unat (current_priority (threads k c)) < p \<or>
      unat (current_priority (threads k c)) = p \<and> stat (threads k c) AND RT_THREAD_STAT_YIELD = 0)"

lemma rt_schedule_eq:
  assumes "rt_scheduler_lock_nest k = 0" "rt_thread_ready_priority_group k \<noteq> 0" "rt_current_thread k = Some c"
    "get_highest_priority_thread k = Some (t, p)" "t \<noteq> c"
  shows "rt_schedule k =
    (if stays k c p
     then do { k \<leftarrow> rt_schedule_remove_thread c (clear_yield c k); Some (set_stat c RT_THREAD_RUNNING k) }
     else do { k \<leftarrow> (if thread_stat k c = RT_THREAD_RUNNING then rt_schedule_insert_thread c (hand_over t p (clear_yield c k))
                     else Some (hand_over t p (clear_yield c k)));
               k \<leftarrow> rt_schedule_remove_thread t k;
               rt_scheduler_stack_check t (set_stat t RT_THREAD_RUNNING k) })"
  using assms by (auto simp: rt_schedule_def Let_def stays_def clear_yield_def hand_over_def)

lemma clear_yield_ok:
  "lists_ok T Q W L (clear_yield c k) = lists_ok T Q W L k" "thread_stat (clear_yield c k) u = thread_stat k u"
  "sched_same k (clear_yield c k)" "rt_current_thread (clear_yield c k) = rt_current_thread k"
proof -
  show "lists_ok T Q W L (clear_yield c k) = lists_ok T Q W L k"
    by (rule lists_ok_cong) (simp_all add: clear_yield_def kernel_defs)
  show "thread_stat (clear_yield c k) u = thread_stat k u"
    by (simp add: clear_yield_def thread_stat_def kernel_defs stat_yield [unfolded word_not_def, simplified])
  show "sched_same k (clear_yield c k)" by (simp add: clear_yield_def sched_same_def kernel_defs)
  show "rt_current_thread (clear_yield c k) = rt_current_thread k" by (simp add: clear_yield_def kernel_defs)
qed

lemma hand_over_ok:
  "lists_ok T Q W L (hand_over t p k) = lists_ok T Q W L k" "thread_stat (hand_over t p k) u = thread_stat k u"
  "sched_same k' (hand_over t p k) = sched_same k' k" "rt_current_thread (hand_over t p k) = Some t"
proof -
  show "lists_ok T Q W L (hand_over t p k) = lists_ok T Q W L k"
    by (rule lists_ok_cong) (simp_all add: hand_over_def)
qed (simp_all add: hand_over_def thread_stat_def sched_same_def)

lemma schedule_stays:
  assumes ok: "lists_ok T Q W L k" and st: "states_ok T Q k" and c: "rt_current_thread k = Some c" "thread_stat k c = 3"
  obtains k' where
    "Option.bind (rt_schedule_remove_thread c (clear_yield c k)) (\<lambda>k. Some (set_stat c RT_THREAD_RUNNING k)) = Some k'"
    "rt_current_thread k' = Some c" "lists_ok T Q W L k'" "states_ok T Q k'" "sched_same k k'"
    "\<forall>t. thread_stat k' t = thread_stat k t"
proof -
  define k1 where "k1 = clear_yield c k"
  have ok1: "lists_ok T Q W L k1" using ok by (simp add: k1_def clear_yield_ok)
  have cT: "c \<in> T" "\<not> in_queue Q c" using states_current [OF st c(1)] by simp_all
  have same1: "sched_same k k1" unfolding k1_def by (rule clear_yield_ok)
  have m: "mask_ok (threads k1 c)" using st cT sched_same_ok [OF same1] by (auto simp: states_defs thread_ok_def)
  obtain h g where rm: "rt_schedule_remove_thread c k1 = Some (k1\<lparr>links := h, rt_thread_ready_priority_group := g\<rparr>)"
    "lists_ok T Q W L (k1\<lparr>links := h, rt_thread_ready_priority_group := g\<rparr>)"
    using remove_lone_thread [OF ok1 cT m] by blast
  define k' where "k' = set_stat c RT_THREAD_RUNNING (k1\<lparr>links := h, rt_thread_ready_priority_group := g\<rparr>)"
  have s': "thread_stat k' u = thread_stat k u" for u
  proof -
    have "thread_stat k' u = (if u = c then 3 else thread_stat k1 u)"
      unfolding k'_def by (subst thread_stat_set) (simp_all add: thread_stat_def)
    then show ?thesis using c(2) by (simp add: k1_def clear_yield_ok)
  qed
  have same: "sched_same k k'" using same1 by (simp add: k'_def sched_same_set_stat sched_same_links)
  have l': "lists_ok T Q W L k'"
    using rm(2) lists_ok_cong [of k' "k1\<lparr>links := h, rt_thread_ready_priority_group := g\<rparr>" T Q W L]
    by (simp add: k'_def kernel_defs)
  have cur: "rt_current_thread k' = Some c" using c(1) by (simp add: k'_def k1_def kernel_defs clear_yield_ok)
  have "states_ok T Q k' = states_ok T Q k"
    unfolding states_defs by (simp only: s' cur c(1) sched_same_ok [OF same])
  then show thesis using that [OF _ cur l' _ same] rm(1) st s' by (simp add: k'_def k1_def)
qed

text \<open>The processor goes from \<open>c\<close> to the head \<open>t\<close> of queue \<open>p\<close>; a running \<open>c\<close>
  becomes the last of its queue.\<close>

lemma schedule_switches:
  assumes ok: "lists_ok T Q W L k" and st: "states_ok T Q k" and c: "rt_current_thread k = Some c"
    and p: "Q p = t # ts" "p < 32"
  defines "Q3 \<equiv> (if thread_stat k c = 3 then Q(unat (current_priority (threads k c)) := Q (unat (current_priority (threads k c))) @ [c]) else Q)"
  obtains k' where
    "do { k \<leftarrow> (if thread_stat k c = 3 then rt_schedule_insert_thread c (hand_over t p (clear_yield c k))
                else Some (hand_over t p (clear_yield c k)));
          k \<leftarrow> rt_schedule_remove_thread t k;
          rt_scheduler_stack_check t (set_stat t RT_THREAD_RUNNING k) } = Some k'"
    "rt_current_thread k' = Some t" "lists_ok T (Q3(p := tl (Q3 p))) W L k'" "states_ok T (Q3(p := tl (Q3 p))) k'"
    "sched_same k k'" "\<forall>t. thread_stat k' t = 2 \<longleftrightarrow> thread_stat k t = 2"
proof -
  define r where "r \<longleftrightarrow> thread_stat k c = 3"
  define k2 where "k2 = hand_over t p (clear_yield c k)"
  have cT: "c \<in> T" "\<not> in_queue Q c" "thread_stat k c \<noteq> 1" using states_current [OF st c] by simp_all
  have tq: "in_queue Q t" using p by (auto simp: in_queue_def)
  have tT: "t \<in> T" "t \<noteq> c" "thread_stat k t = 1" "thread_ok (threads k t)"
    using ok p cT st tq by (auto simp: lists_ok_def states_defs)
  have k2: "lists_ok T Q W L k2" "sched_same k k2" "rt_current_thread k2 = Some t" "\<And>u. thread_stat k2 u = thread_stat k u"
    using ok by (simp_all add: k2_def hand_over_ok clear_yield_ok)
  have m: "mask_ok (threads k2 c)" using st cT sched_same_ok [OF k2(2)] by (auto simp: states_defs thread_ok_def)
  have nt: "thread_stat k u \<noteq> 3" if "u \<in> T" "u \<noteq> c" for u using st c that by (auto simp: states_defs)
  obtain k3 where k3: "(if r then rt_schedule_insert_thread c k2 else Some k2) = Some k3" "lists_ok T Q3 W L k3"
    "sched_same k k3" "rt_current_thread k3 = Some t" "\<forall>u. thread_stat k3 u = (if u = c \<and> r then 1 else thread_stat k u)"
    "\<forall>u. in_queue Q3 u \<longleftrightarrow> in_queue Q u \<or> u = c \<and> r" "Q3 p = t # tl (Q3 p)"
  proof (cases r)
    case True
    define q where "q = unat (current_priority (threads k c))"
    have q2: "q = unat (current_priority (threads k2 c))" using sched_same_ok [OF k2(2)] by (simp add: q_def)
    have nc: "rt_current_thread k2 \<noteq> Some c" using tT(2) k2(3) by simp
    have Q3: "Q3 = Q(q := Q q @ [c])" using True by (simp add: Q3_def q_def r_def)
    obtain h g where ins: "rt_schedule_insert_thread c k2 =
        Some ((set_stat c RT_THREAD_READY k2)\<lparr>links := h, rt_thread_ready_priority_group := g\<rparr>)"
      "lists_ok T (Q(q := Q q @ [c])) W L ((set_stat c RT_THREAD_READY k2)\<lparr>links := h, rt_thread_ready_priority_group := g\<rparr>)"
      using insert_thread [OF k2(1) cT(1,2) nc m q2] by blast
    have "in_queue (Q(q := Q q @ [c])) u \<longleftrightarrow> in_queue Q u \<or> u = c" for u
      by (rule in_queue_insert) (use m q2 in \<open>simp add: mask_ok_def\<close>)
    moreover have "thread_stat ((set_stat c RT_THREAD_READY k2)\<lparr>links := h, rt_thread_ready_priority_group := g\<rparr>) u =
        (if u = c then 1 else thread_stat k u)" for u
      using thread_stat_set [of 1 c k2 u] k2(4) by (simp add: thread_stat_def)
    moreover have "Q3 p = t # tl (Q3 p)" using p(1) by (cases "p = q") (auto simp: Q3)
    moreover have "sched_same k ((set_stat c RT_THREAD_READY k2)\<lparr>links := h, rt_thread_ready_priority_group := g\<rparr>)"
      using k2(2) by (simp add: sched_same_links sched_same_set_stat)
    moreover have "rt_current_thread ((set_stat c RT_THREAD_READY k2)\<lparr>links := h, rt_thread_ready_priority_group := g\<rparr>) = Some t"
      using k2(3) by (simp add: kernel_defs)
    ultimately show thesis
      using that [OF _ ins(2) [folded Q3]] True ins(1) unfolding Q3 by simp
  next
    case False
    then have "Q3 = Q" by (simp add: Q3_def r_def)
    with False show thesis using that [of k2] k2 p by simp
  qed
  have t3: "thread_ok (threads k3 t)" using tT sched_same_ok [OF k3(3)] by simp
  obtain k' where k':
    "Option.bind (rt_schedule_remove_thread t k3) (\<lambda>k. rt_scheduler_stack_check t (set_stat t RT_THREAD_RUNNING k)) = Some k'"
    "lists_ok T (Q3(p := tl (Q3 p))) W L k'" "sched_same k3 k'" "rt_current_thread k' = rt_current_thread k3"
    "\<forall>u. thread_stat k' u = (if u = t then 3 else thread_stat k3 u)"
    by (rule take_head [OF k3(2,7) p(2) t3])
  have same: "sched_same k k'" by (rule sched_same_trans [OF k3(3) k'(3)])
  have cur: "rt_current_thread k' = Some t" using k'(4) k3(4) by simp
  have s': "thread_stat k' u = (if u = t then 3 else if u = c \<and> r then 1 else thread_stat k u)" for u
    using k'(5) k3(5) by simp
  have "states_ok T (Q3(p := tl (Q3 p))) k'"
  proof (rule states_okI [OF same st cur tT(1)])
    show "thread_stat k' t = 3" by (simp add: s')
    show "thread_stat k' u \<in> {1, 2}" if "u \<in> T" "u \<noteq> t" for u
      using s' [of u] st nt [OF that(1)] that by (cases "u = c") (auto simp: states_defs r_def)
    show "thread_stat k' u = 1 \<longleftrightarrow> in_queue (Q3(p := tl (Q3 p))) u" if "u \<in> T" for u
      using in_queue_tl [OF k3(2,7) p(2), of u] k3(6) st that cT(3) by (cases "u = c"; cases r) (simp_all add: s' states_defs)
  qed
  moreover have "\<forall>u. thread_stat k' u = 2 \<longleftrightarrow> thread_stat k u = 2" using tT(3) by (auto simp: s' r_def)
  ultimately show thesis
    by (intro that [OF _ cur k'(2) _ same]) (simp_all only: r_def [symmetric] k2_def [symmetric] k3(1) Option.bind.bind_lunit k'(1) simp_thms)
qed

definition schedule_result :: "kernel_t \<Rightarrow> tid \<Rightarrow> (nat \<Rightarrow> tid list) \<Rightarrow> tid \<times> (nat \<Rightarrow> tid list)" where
  "schedule_result k c Q =
     (if rt_scheduler_lock_nest k \<noteq> 0 then (c, Q)
      else schedule_spec c (thread_stat k c = RT_THREAD_RUNNING) (stat (threads k c) AND RT_THREAD_STAT_YIELD \<noteq> 0)
             (unat (current_priority (threads k c))) Q)"

lemma schedule_ok:
  assumes ok: "lists_ok T Q W L k" and st: "states_ok T Q k" and c: "rt_current_thread k = Some c"
    and res: "schedule_result k c Q = (c', Q')"
  shows "\<exists>k'. rt_schedule k = Some k' \<and> rt_current_thread k' = Some c' \<and> lists_ok T Q' W L k' \<and> states_ok T Q' k' \<and>
    sched_same k k' \<and> (\<forall>t. thread_stat k' t = 2 \<longleftrightarrow> thread_stat k t = 2)"
proof (cases "rt_scheduler_lock_nest k \<noteq> 0 \<or> rt_thread_ready_priority_group k = 0")
  case True
  then have "rt_schedule k = Some k" by (simp add: rt_schedule_def)
  moreover have "c' = c" "Q' = Q"
    using True res ready_group [OF ok] by (auto simp: schedule_result_def schedule_spec_def split: if_splits)
  ultimately show ?thesis using assms by (simp add: sched_same_refl)
next
  case False
  then have lock: "rt_scheduler_lock_nest k = 0" and g: "rt_thread_ready_priority_group k \<noteq> 0" by simp_all
  obtain p t ts where p: "p < 32" "Q p = t # ts" "List.find (\<lambda>p. Q p \<noteq> []) [0..<32] = Some p"
    "get_highest_priority_thread k = Some (t, p)"
    using highest_thread [OF ok g] by blast
  have "in_queue Q t" using p by (auto simp: in_queue_def)
  then have tc: "t \<noteq> c" using states_current [OF st c] by auto
  note e = rt_schedule_eq [OF lock g c p(4) tc]
  have spec: "(c', Q') = (if stays k c p then (c, Q)
    else (t, let Q = (if thread_stat k c = 3 then Q(unat (current_priority (threads k c)) := Q (unat (current_priority (threads k c))) @ [c]) else Q)
             in Q(p := tl (Q p))))"
    using res lock p by (auto simp: schedule_result_def schedule_spec_def stays_def Let_def split: if_splits)
  show ?thesis
  proof (cases "stays k c p")
    case True
    then have run: "thread_stat k c = 3" by (simp add: stays_def)
    obtain k' where k': "Option.bind (rt_schedule_remove_thread c (clear_yield c k)) (\<lambda>k. Some (set_stat c RT_THREAD_RUNNING k)) = Some k'"
      "rt_current_thread k' = Some c" "lists_ok T Q W L k'" "states_ok T Q k'" "sched_same k k'"
      "\<forall>t. thread_stat k' t = thread_stat k t"
      by (rule schedule_stays [OF ok st c run])
    have "rt_schedule k = Some k'" unfolding e using True k'(1) by (simp only: if_True)
    moreover have "c' = c" "Q' = Q" using spec True by simp_all
    ultimately show ?thesis using k' by (intro exI [of _ k']) simp
  next
    case False
    define Q3 where "Q3 = (if thread_stat k c = 3 then Q(unat (current_priority (threads k c)) := Q (unat (current_priority (threads k c))) @ [c]) else Q)"
    obtain k' where k': "do { k \<leftarrow> (if thread_stat k c = 3 then rt_schedule_insert_thread c (hand_over t p (clear_yield c k))
                else Some (hand_over t p (clear_yield c k)));
          k \<leftarrow> rt_schedule_remove_thread t k;
          rt_scheduler_stack_check t (set_stat t RT_THREAD_RUNNING k) } = Some k'"
      "rt_current_thread k' = Some t" "lists_ok T (Q3(p := tl (Q3 p))) W L k'" "states_ok T (Q3(p := tl (Q3 p))) k'"
      "sched_same k k'" "\<forall>t. thread_stat k' t = 2 \<longleftrightarrow> thread_stat k t = 2"
      unfolding Q3_def by (rule schedule_switches [OF ok st c p(2,1)])
    have "rt_schedule k = Some k'" unfolding e using False k'(1) by (simp only: if_False)
    moreover have "c' = t" "Q' = Q3(p := tl (Q3 p))"
      using spec False by (simp_all only: Q3_def [symmetric] Let_def if_False prod.inject)
    ultimately show ?thesis using k'(2-6) by (intro exI [of _ k']) simp
  qed
qed

end
