(* ===== verification/Hvac_Tick.thy ===== *)
theory Hvac_Tick
  imports Hvac_Sched
begin

text \<open>
  The timers of sleeping threads and the tick. The sleepers stand in the timer list in the order in
  which they are due, measured from the last tick, so that the order survives the wrap of the
  counter; the tick interrupt wakes exactly those that are due, and scheduling keeps the most
  important ready thread on the processor.
\<close>

section \<open>Waking a thread\<close>

lemma set_stat_running: "thread_stat (set_stat t RT_THREAD_RUNNING k) u = (if u = t then 3 else thread_stat k u)"
  by (rule thread_stat_set) simp

lemma set_stat_suspend: "thread_stat (set_stat t RT_THREAD_SUSPEND k) u = (if u = t then 2 else thread_stat k u)"
  by (rule thread_stat_set) simp

lemma set_stat_ready: "thread_stat (set_stat t RT_THREAD_READY k) u = (if u = t then 1 else thread_stat k u)"
  by (rule thread_stat_set) simp

lemmas set_stat_stats = set_stat_running set_stat_suspend set_stat_ready

lemma thread_stat_links: "thread_stat (k\<lparr>links := h, rt_thread_ready_priority_group := g\<rparr>) u = thread_stat k u"
  by (simp add: thread_stat_def)

lemma threads_okI:
  assumes "sched_same k k'" "threads_ok T Q k"
    and "\<And>u. u \<in> T \<Longrightarrow> thread_stat k' u \<in> {1, 2, 3} \<and> (thread_stat k' u = 1 \<longleftrightarrow> in_queue Q' u) \<and>
      (thread_stat k' u = 3 \<longrightarrow> rt_current_thread k' = Some u)"
  shows "threads_ok T Q' k'"
  using assms(2,3) sched_same_ok(1) [OF assms(1)] unfolding threads_ok_def by metis

lemma threads_okD:
  assumes "threads_ok T Q k" "u \<in> T"
  shows "thread_ok (threads k u)" "thread_stat k u = 1 \<or> thread_stat k u = 2 \<or> thread_stat k u = 3"
    "thread_stat k u = 1 \<longleftrightarrow> in_queue Q u" "thread_stat k u = 3 \<Longrightarrow> rt_current_thread k = Some u"
  using assms by (auto simp: threads_ok_def)

text \<open>\<^verbatim>\<open>rt_schedule_insert_thread\<close> on a suspended thread: it becomes ready at the end of
  its queue, or goes on running if it never left the processor.\<close>

lemma make_ready:
  assumes ok: "lists_ok T Q W L k" and st: "threads_ok T Q k" and t: "t \<in> T" "thread_stat k t = 2"
  shows "\<exists>k' Q'. rt_schedule_insert_thread t k = Some k' \<and> lists_ok T Q' W L k' \<and> threads_ok T Q' k' \<and>
    sched_same k k' \<and> rt_current_thread k' = rt_current_thread k \<and>
    (\<forall>u. thread_stat k' u = (if u = t then (if rt_current_thread k = Some t then 3 else 1) else thread_stat k u))"
proof (cases "rt_current_thread k = Some t")
  case True
  define k' where "k' = set_stat t RT_THREAD_RUNNING k"
  have same: "sched_same k k'" unfolding k'_def by (rule sched_same_set_stat [OF sched_same_refl])
  have s: "thread_stat k' u = (if u = t then 3 else thread_stat k u)" for u
    unfolding k'_def by (rule set_stat_running)
  have "lists_ok T Q W L k'" using ok lists_ok_cong [of k' k T Q W L] by (simp add: k'_def kernel_defs)
  moreover have cur: "rt_current_thread k' = rt_current_thread k" by (simp add: k'_def kernel_defs)
  moreover have "threads_ok T Q k'"
  proof (rule threads_okI [OF same st], intro conjI impI)
    fix u assume u: "u \<in> T"
    show "thread_stat k' u \<in> {1, 2, 3}" using threads_okD(2) [OF st u] by (auto simp: s)
    show "thread_stat k' u = 1 \<longleftrightarrow> in_queue Q u"
      using threads_okD(3) [OF st u] t(2) by (cases "u = t") (simp_all add: s)
    show "rt_current_thread k' = Some u" if "thread_stat k' u = 3"
      using threads_okD(4) [OF st u] that True cur by (cases "u = t") (simp_all add: s)
  qed
  moreover have "rt_schedule_insert_thread t k = Some k'" using True by (simp add: rt_schedule_insert_thread_def k'_def)
  ultimately show ?thesis using same s True by (intro exI [of _ k'] exI [of _ Q]) simp
next
  case False
  have m: "mask_ok (threads k t)" "unat (current_priority (threads k t)) < 32"
    using st t by (auto simp: threads_ok_def thread_ok_def mask_ok_def)
  have nq: "\<not> in_queue Q t" using st t by (auto simp: threads_ok_def)
  define p where "p = unat (current_priority (threads k t))"
  obtain h g where e: "rt_schedule_insert_thread t k =
      Some ((set_stat t RT_THREAD_READY k)\<lparr>links := h, rt_thread_ready_priority_group := g\<rparr>)"
    and l: "lists_ok T (Q(p := Q p @ [t])) W L ((set_stat t RT_THREAD_READY k)\<lparr>links := h, rt_thread_ready_priority_group := g\<rparr>)"
    using insert_thread [OF ok t(1) nq False m(1) p_def] by blast
  define k' where "k' = (set_stat t RT_THREAD_READY k)\<lparr>links := h, rt_thread_ready_priority_group := g\<rparr>"
  have same: "sched_same k k'"
    unfolding k'_def sched_same_links by (rule sched_same_set_stat [OF sched_same_refl])
  have s: "thread_stat k' u = (if u = t then 1 else thread_stat k u)" for u
    unfolding k'_def thread_stat_links by (rule set_stat_ready)
  have cur: "rt_current_thread k' = rt_current_thread k" by (simp add: k'_def kernel_defs)
  have iq: "in_queue (Q(p := Q p @ [t])) u \<longleftrightarrow> in_queue Q u \<or> u = t" for u
    by (rule in_queue_insert) (use m(2) p_def in simp)
  have "threads_ok T (Q(p := Q p @ [t])) k'"
  proof (rule threads_okI [OF same st], intro conjI impI)
    fix u assume u: "u \<in> T"
    show "thread_stat k' u \<in> {1, 2, 3}" using threads_okD(2) [OF st u] by (auto simp: s)
    show "thread_stat k' u = 1 \<longleftrightarrow> in_queue (Q(p := Q p @ [t])) u"
      using threads_okD(3) [OF st u] unfolding iq s by simp
    show "rt_current_thread k' = Some u" if "thread_stat k' u = 3"
      using threads_okD(4) [OF st u] that cur by (cases "u = t") (simp_all add: s)
  qed
  with e l same cur s False show ?thesis
    unfolding k'_def [symmetric] by (intro exI [of _ k'] exI [of _ "Q(p := Q p @ [t])"]) simp
qed

section \<open>The most important ready thread runs\<close>

definition top_runs :: "tid set \<Rightarrow> kernel_t \<Rightarrow> bool" where
  "top_runs T k \<longleftrightarrow>
     (rt_scheduler_lock_nest k = 0 \<longrightarrow>
       (\<forall>c u. rt_current_thread k = Some c \<longrightarrow> thread_stat k c = 3 \<longrightarrow> u \<in> T \<longrightarrow> thread_stat k u = 1 \<longrightarrow>
          current_priority (threads k c) \<le> current_priority (threads k u)))"

text \<open>A ready thread is in the queue of its priority.\<close>

lemma ready_in_queue:
  assumes "lists_ok T Q W L k" "threads_ok T Q k" "u \<in> T" "thread_stat k u = 1"
  shows "u \<in> set (Q (unat (current_priority (threads k u)))) \<and> unat (current_priority (threads k u)) < 32"
proof -
  obtain p where p: "p < 32" "u \<in> set (Q p)" using assms by (auto simp: threads_ok_def in_queue_def)
  with assms(1) have "unat (current_priority (threads k u)) = p" by (auto simp: lists_ok_def)
  with p show ?thesis by simp
qed

lemma schedule_spec_cases:
  assumes "schedule_spec c r y pc Q = (c', Q')" "List.find (\<lambda>p. Q p \<noteq> []) [0..<32] = Some p"
  obtains (stay) "c' = c" "Q' = Q" "pc \<le> p"
    | (go) "c' = hd (Q p)" "Q' = (if r then Q(pc := Q pc @ [c]) else Q)(p := tl ((if r then Q(pc := Q pc @ [c]) else Q) p))"
        "r \<longrightarrow> p \<le> pc"
proof (cases "r \<and> (pc < p \<or> pc = p \<and> \<not> y)")
  case True
  then show thesis using assms stay by (simp add: schedule_spec_def) linarith
next
  case False
  have e: "(c', Q') = (hd (Q p), (if r then Q(pc := Q pc @ [c]) else Q)(p := tl ((if r then Q(pc := Q pc @ [c]) else Q) p)))"
    using assms(1) unfolding schedule_spec_def assms(2) Let_def option.case by (simp only: False if_False)
  show thesis by (rule go) (use e False in auto)
qed

lemma find_queue: "List.find (\<lambda>p. Q p \<noteq> []) [0..<32] = Some p \<Longrightarrow> p < 32 \<and> Q p \<noteq> [] \<and> (\<forall>j < p. Q j = [])"
  by (auto simp: find_Some_iff)

lemma schedule_top:
  assumes ok: "lists_ok T Q W L k" and st: "states_ok T Q k"
  obtains k' Q' where "rt_schedule k = Some k'" "lists_ok T Q' W L k'" "states_ok T Q' k'" "sched_same k k'"
    "\<forall>t. thread_stat k' t = 2 \<longleftrightarrow> thread_stat k t = 2" "top_runs T k'"
proof -
  obtain c where c: "rt_current_thread k = Some c" "c \<in> T" using st by (auto simp: states_defs)
  obtain c' Q' where res: "schedule_result k c Q = (c', Q')" by fastforce
  obtain k' where k': "rt_schedule k = Some k'" "rt_current_thread k' = Some c'" "lists_ok T Q' W L k'"
    "states_ok T Q' k'" "sched_same k k'" "\<forall>t. thread_stat k' t = 2 \<longleftrightarrow> thread_stat k t = 2"
    using schedule_ok [OF ok st c(1) res] by blast
  note pr = sched_same_ok(3) [OF k'(5)]
  have st': "threads_ok T Q' k'" using k'(4) by (simp add: states_ok_def)
  have "top_runs T k'"
    unfolding top_runs_def
  proof (intro impI allI)
    fix d u
    assume l: "rt_scheduler_lock_nest k' = 0" and d: "rt_current_thread k' = Some d" "thread_stat k' d = 3"
      and u: "u \<in> T" "thread_stat k' u = 1"
    have lock: "rt_scheduler_lock_nest k = 0" using l k'(5) by (simp add: sched_same_def)
    have d': "d = c'" using d(1) k'(2) by simp
    define q where "q = unat (current_priority (threads k' u))"
    have q: "u \<in> set (Q' q)" "q < 32" using ready_in_queue [OF k'(3) st' u] by (simp_all add: q_def)
    have "unat (current_priority (threads k c')) \<le> q"
    proof (cases "List.find (\<lambda>p. Q p \<noteq> []) [0..<32]")
      case None
      have "Q' = Q" using res lock by (simp add: schedule_result_def schedule_spec_def None)
      moreover have "Q q = []" using None q(2) by (simp add: find_None_iff)
      ultimately show ?thesis using q(1) by simp
    next
      case (Some p)
      have p: "p < 32" "Q p \<noteq> []" "\<forall>j < p. Q j = []" using find_queue [OF Some] by simp_all
      have hd: "hd (Q p) \<in> set (Q p)" using p(2) by simp
      have hp: "unat (current_priority (threads k (hd (Q p)))) = p" using ok p(1) hd by (auto simp: lists_ok_def)
      have "schedule_spec c (thread_stat k c = 3) (stat (threads k c) AND 8 \<noteq> 0) (unat (current_priority (threads k c))) Q = (c', Q')"
        using res lock by (simp add: schedule_result_def)
      then show ?thesis using Some
      proof (cases rule: schedule_spec_cases)
        case stay
        have "p \<le> q" using p(3) q(1) stay(2) by (cases "q < p") auto
        with stay show ?thesis by simp
      next
        case go
        have "p \<le> q"
        proof (rule ccontr)
          assume "\<not> p \<le> q"
          then have "q < p" "Q q = []" using p(3) by auto
          with go q(1) show False by (auto split: if_splits)
        qed
        with go hp show ?thesis by simp
      qed
    qed
    then show "current_priority (threads k' d) \<le> current_priority (threads k' u)"
      by (simp add: d' pr q_def word_le_nat_alt)
  qed
  then show thesis using that k' by blast
qed

section \<open>The timer list\<close>

lemma lists_ok_rings: "lists_ok T Q W L k \<Longrightarrow> rings (links k) (ring_of T Q W L)"
  by (simp add: lists_ok_def)

lemma lists_ok_on_links:
  assumes "lists_ok T Q W L k" "rings (f (links k)) (ring_of T Q W' L')"
  shows "lists_ok T Q W' L' (on_links f k)"
  using assms by (simp add: lists_ok_def on_links_def)

lemma sleepers_distinct: "lists_ok T Q W L k \<Longrightarrow> distinct W"
  by (drule lists_ok_rings, drule rings_distinct [where l = Hard_timers and xs = "map Row W"]) (auto simp: distinct_map)

text \<open>A timer leaves the list; one that is in no list may be removed too.\<close>

lemma row_remove:
  assumes ok: "lists_ok T Q W L k" and t: "t \<in> T" "t \<in> set W" and L: "L = None \<or> L = Some []"
  shows "lists_ok T Q (remove1 t W) L (rt_timer_remove t k)"
  unfolding rt_timer_remove_def
proof (rule lists_ok_on_links [OF ok])
  have d: "distinct W" by (rule sleepers_distinct [OF ok])
  have m: "remove1 (Row t) (map Row W) = map Row (remove1 t W)" by (induction W) auto
  have "ring_of T Q (remove1 t W) L n = ((ring_of T Q W L)(Hard_timers \<mapsto> remove1 (Row t) (map Row W), Row t \<mapsto> [])) n" for n
    using t L d m by (cases n) (auto simp: set_remove1_eq)
  then have e: "ring_of T Q (remove1 t W) L = (ring_of T Q W L)(Hard_timers \<mapsto> remove1 (Row t) (map Row W), Row t \<mapsto> [])"
    by (rule ext)
  show "rings (rt_list_remove (addr (Row t)) (links k)) (ring_of T Q (remove1 t W) L)"
    unfolding e by (rule rings_remove [OF lists_ok_rings [OF ok]]) (use t in simp_all)
qed

lemma row_remove_lone:
  assumes ok: "lists_ok T Q W L k" and t: "t \<in> T" "t \<notin> set W" and L: "L = None \<or> L = Some []"
  shows "lists_ok T Q W L (rt_timer_remove t k)"
  unfolding rt_timer_remove_def
  by (rule lists_ok_on_links [OF ok], rule rings_remove_lone(1) [OF lists_ok_rings [OF ok]]) (use t L in auto)

lemma row_insert:
  assumes ok: "lists_ok T Q (us @ vs) L k" and t: "t \<in> T" "t \<notin> set (us @ vs)" and L: "L = None \<or> L = Some []"
  shows "lists_ok T Q (us @ t # vs) L
    (on_links (rt_list_insert_after (addr (last (Hard_timers # map Row us))) (addr (Row t))) k)"
proof (rule lists_ok_on_links [OF ok])
  have "ring_of T Q (us @ t # vs) L n =
    ((ring_of T Q (us @ vs) L)(Row t := None, Hard_timers \<mapsto> map Row us @ Row t # map Row vs)) n" for n
    using t L by (cases n) auto
  then have e: "ring_of T Q (us @ t # vs) L =
    (ring_of T Q (us @ vs) L)(Row t := None, Hard_timers \<mapsto> map Row us @ Row t # map Row vs)"
    by (rule ext)
  show "rings (rt_list_insert_after (addr (last (Hard_timers # map Row us))) (addr (Row t)) (links k)) (ring_of T Q (us @ t # vs) L)"
    unfolding e by (rule rings_insert_after [OF lists_ok_rings [OF ok]]) (use t L in auto)
qed

text \<open>The list of fired timers, local to \<^verbatim>\<open>rt_timer_check\<close>.\<close>

lemma fired_init:
  assumes ok: "lists_ok T Q W None k"
  shows "lists_ok T Q W (Some []) (on_links (rt_list_init (addr Fired)) k)"
proof (rule lists_ok_on_links [OF ok])
  have "ring_of T Q W (Some []) n = ((ring_of T Q W None)(Fired \<mapsto> [])) n" for n by (cases n) auto
  then have e: "ring_of T Q W (Some []) = (ring_of T Q W None)(Fired \<mapsto> [])" by (rule ext)
  show "rings (rt_list_init (addr Fired) (links k)) (ring_of T Q W (Some []))"
    unfolding e
  proof (rule rings_init [OF lists_ok_rings [OF ok]])
    fix n zs assume "ring_of T Q W None n = Some zs"
    then show "Fired \<notin> set (n # zs)" by (cases n) (auto split: if_splits)
  qed
qed

lemma fired_drop:
  assumes "lists_ok T Q W (Some []) k"
  shows "lists_ok T Q W None k"
proof -
  have R: "rings (links k) (ring_of T Q W (Some []))" by (rule lists_ok_rings [OF assms])
  have e: "ring_of T Q W (Some []) l = Some xs" if "ring_of T Q W None l = Some xs" for l xs
    using that by (cases l) auto
  have "rings (links k) (ring_of T Q W None)"
    unfolding rings_def using ringsD [OF R e] rings_disjoint [OF R e e] by blast
  then show ?thesis using assms by (simp add: lists_ok_def)
qed

lemma fired_insert:
  assumes ok: "lists_ok T Q W (Some []) k" and t: "t \<in> T" "t \<notin> set W"
  shows "lists_ok T Q W (Some [t]) (on_links (rt_list_insert_after (addr Fired) (addr (Row t))) k)"
proof (rule lists_ok_on_links [OF ok])
  have "ring_of T Q W (Some [t]) n = ((ring_of T Q W (Some []))(Row t := None, Fired \<mapsto> [] @ Row t # [])) n" for n
    using t by (cases n) auto
  then have e: "ring_of T Q W (Some [t]) = (ring_of T Q W (Some []))(Row t := None, Fired \<mapsto> [] @ Row t # [])" by (rule ext)
  show "rings (rt_list_insert_after (addr Fired) (addr (Row t)) (links k)) (ring_of T Q W (Some [t]))"
    unfolding e using rings_insert_after [OF lists_ok_rings [OF ok], of Fired "[]" "[]" "Row t"] t by simp
qed

lemma fired_remove:
  assumes ok: "lists_ok T Q W (Some [t]) k" and t: "t \<in> T" "t \<notin> set W"
  shows "lists_ok T Q W (Some []) (on_links (rt_list_remove (addr (Row t))) k)"
proof (rule lists_ok_on_links [OF ok])
  have "ring_of T Q W (Some []) n = ((ring_of T Q W (Some [t]))(Fired \<mapsto> remove1 (Row t) [Row t], Row t \<mapsto> [])) n" for n
    using t by (cases n) auto
  then have e: "ring_of T Q W (Some []) = (ring_of T Q W (Some [t]))(Fired \<mapsto> remove1 (Row t) [Row t], Row t \<mapsto> [])" by (rule ext)
  show "rings (rt_list_remove (addr (Row t)) (links k)) (ring_of T Q W (Some []))"
    unfolding e by (rule rings_remove [OF lists_ok_rings [OF ok]]) simp_all
qed

lemma fired_empty: "lists_ok T Q W (Some l) k \<Longrightarrow> rt_list_isempty (links k) (addr Fired) \<longleftrightarrow> l = []"
  by (subst rings_isempty [OF lists_ok_rings, of T Q W "Some l" k Fired "map Row l"]) simp_all

lemma hard_empty: "lists_ok T Q W L k \<Longrightarrow> rt_list_isempty (links k) (addr Hard_timers) \<longleftrightarrow> W = []"
  by (subst rings_isempty [OF lists_ok_rings, of T Q W L k Hard_timers "map Row W"]) simp_all

lemma hard_first: "lists_ok T Q (t # W) L k \<Longrightarrow> timer_entry (dnext (links k) (addr Hard_timers)) = t"
  by (subst rings_first [OF lists_ok_rings, of T Q "t # W" L k Hard_timers "Row t" "map Row W"]) simp_all

section \<open>The place of a timer\<close>

definition due :: "u32 \<Rightarrow> kernel_t \<Rightarrow> tid \<Rightarrow> nat" where
  "due b k t = unat (timeout_tick (timers k t) - b)"

lemma later_iff:
  assumes "x < HALF_TICK_MAX" "n < HALF_TICK_MAX"
  shows "x - n \<noteq> 0 \<and> x - n < HALF_TICK_MAX \<longleftrightarrow> unat n < unat x"
  using assms by (auto simp: word_less_nat_alt unat_sub_if' word_unat_eq_iff)

lemma timer_slot_walk:
  assumes R: "rings h R" and W: "R Hard_timers = Some (map Row (us @ vs))"
  shows "timer_slot h f (addr Hard_timers) tout (addr (last (Hard_timers # map Row us))) =
    Some (addr (last (Hard_timers # map Row (us @ takeWhile (\<lambda>t. \<not> (f t - tout \<noteq> 0 \<and> f t - tout < HALF_TICK_MAX)) vs))))"
  using W
proof (induction vs arbitrary: us)
  case Nil
  then have "dprev h (addr Hard_timers) = addr (last (Hard_timers # map Row us))" using rings_last [OF R] by simp
  then show ?case by (subst timer_slot.simps) simp
next
  case (Cons v vs)
  have d: "distinct (Hard_timers # map Row (us @ v # vs))" by (rule rings_distinct [OF R Cons.prems])
  have p: "dprev h (addr Hard_timers) = addr (last (Hard_timers # map Row (us @ v # vs)))"
    by (rule rings_last [OF R Cons.prems])
  have "last (Hard_timers # map Row (us @ v # vs)) \<in> set (map Row (v # vs))" by (simp add: last_map)
  moreover have "last (Hard_timers # map Row us) \<in> set (Hard_timers # map Row us)" by (rule last_in_set) simp
  ultimately have ne: "last (Hard_timers # map Row us) \<noteq> last (Hard_timers # map Row (us @ v # vs))"
    using d by (auto simp: distinct_map)
  have nx: "dnext h (addr (last (Hard_timers # map Row us))) = addr (Row v)"
    by (rule rings_next [OF R, of _ _ _ "map Row vs"]) (use Cons.prems in simp)
  have ih: "timer_slot h f (addr Hard_timers) tout (addr (Row v)) =
    Some (addr (last (Hard_timers # map Row ((us @ [v]) @ takeWhile (\<lambda>t. \<not> (f t - tout \<noteq> 0 \<and> f t - tout < HALF_TICK_MAX)) vs))))"
    using Cons.IH [of "us @ [v]"] Cons.prems by simp
  show ?case
    by (subst timer_slot.simps) (use ih ne in \<open>simp add: p nx Let_def del: last.simps\<close>)
qed

text \<open>
  The sleepers: suspended, with a running one-shot timer, in the order in which they are due after
  the tick \<open>b\<close>, all within half of the counter's range.
\<close>

definition timers_ok :: "tid set \<Rightarrow> tid list \<Rightarrow> u32 \<Rightarrow> kernel_t \<Rightarrow> bool" where
  "timers_ok T W b k \<longleftrightarrow>
     set W \<subseteq> T \<and> sorted (map (due b k) W) \<and>
     (\<forall>t \<in> set W. due b k t < 0x7fffffff \<and> thread_stat k t = 2) \<and>
     (\<forall>t \<in> T. tm_flag (timers k t) = (if t \<in> set W then 1 else 0) \<and> timeout_func (timers k t) = Thread_timeout t)"

lemma timers_ok_cong:
  assumes "timers k' = timers k" "\<And>t. t \<in> set W \<Longrightarrow> thread_stat k' t = 2 \<longleftrightarrow> thread_stat k t = 2"
  shows "timers_ok T W b k' = timers_ok T W b k"
proof -
  have "due b k' = due b k" by (rule ext) (simp add: due_def assms(1))
  with assms show ?thesis by (auto simp: timers_ok_def)
qed

text \<open>Where \<^verbatim>\<open>rt_timer_start\<close> puts a timer that is due after \<open>n\<close> ticks: behind
  those that are due no later.\<close>

definition sleep_in :: "(tid \<Rightarrow> nat) \<Rightarrow> tid \<Rightarrow> nat \<Rightarrow> tid list \<Rightarrow> tid list" where
  "sleep_in d t n W = takeWhile (\<lambda>u. d u \<le> n) W @ t # dropWhile (\<lambda>u. d u \<le> n) W"

lemma set_sleep_in [simp]: "set (sleep_in d t n W) = insert t (set W)"
proof -
  have "set W = set (takeWhile (\<lambda>u. d u \<le> n) W) \<union> set (dropWhile (\<lambda>u. d u \<le> n) W)"
    by (metis set_append takeWhile_dropWhile_id)
  then show ?thesis by (auto simp: sleep_in_def)
qed

lemma sorted_sleep_in:
  assumes "sorted (map d W)" "e t = n" "\<And>u. u \<in> set W \<Longrightarrow> e u = d u"
  shows "sorted (map e (sleep_in d t n W))"
proof -
  define xs where "xs = takeWhile (\<lambda>u. d u \<le> n) W"
  define ys where "ys = dropWhile (\<lambda>u. d u \<le> n) W"
  have W: "W = xs @ ys" by (simp add: xs_def ys_def)
  have x: "d u \<le> n" if "u \<in> set xs" for u using that unfolding xs_def by (auto dest: set_takeWhileD)
  have s: "sorted (map d xs)" "sorted (map d ys)" "\<And>u v. u \<in> set xs \<Longrightarrow> v \<in> set ys \<Longrightarrow> d u \<le> d v"
    using assms(1) by (auto simp: W sorted_append)
  have y: "n \<le> d u" if "u \<in> set ys" for u
  proof (cases ys)
    case (Cons v vs)
    have "\<not> d v \<le> n" using Cons by (simp add: ys_def dropWhile_eq_Cons_conv)
    moreover have "d v \<le> d u" using s(2) that Cons by auto
    ultimately show ?thesis by simp
  qed (use that in simp)
  have me: "map e xs = map d xs" "map e ys = map d ys" using assms(3) by (simp_all add: W)
  have m: "sorted (map e xs)" "sorted (map e ys)" using s(1,2) by (simp_all only: me)
  show ?thesis
    unfolding sleep_in_def xs_def [symmetric] ys_def [symmetric]
    using s x y m assms(2,3) by (auto simp: sorted_append W)
qed

lemma rt_timer_start_ok:
  assumes ok: "lists_ok T Q W L k" and L: "L = None \<or> L = Some []" and tm: "timers_ok T W (rt_tick k) k"
    and t: "t \<in> T" "t \<notin> set W" "thread_stat k t = 2" and n: "tm_init_tick (timers k t) < HALF_TICK_MAX"
  shows "\<exists>h k'. rt_timer_start t k = Some k' \<and>
    k' = k\<lparr>random_nr := random_nr k + 1, links := h, timers := (timers k)(t := (timers k t)
           \<lparr>timeout_tick := rt_tick k + tm_init_tick (timers k t), tm_flag := 1\<rparr>)\<rparr> \<and>
    lists_ok T Q (sleep_in (due (rt_tick k) k) t (unat (tm_init_tick (timers k t))) W) L k' \<and>
    timers_ok T (sleep_in (due (rt_tick k) k) t (unat (tm_init_tick (timers k t))) W) (rt_tick k) k'"
proof -
  define n' where "n' = tm_init_tick (timers k t)"
  define tout where "tout = rt_tick k + n'"
  define d where "d = due (rt_tick k) k"
  define us where "us = takeWhile (\<lambda>u. d u \<le> unat n') W"
  define vs where "vs = dropWhile (\<lambda>u. d u \<le> unat n') W"
  have W: "W = us @ vs" by (simp add: us_def vs_def)
  have W': "sleep_in d t (unat n') W = us @ t # vs" by (simp add: sleep_in_def us_def vs_def)
  have fl: "tm_flag (timers k t) = 0" using tm t by (simp add: timers_ok_def)
  define k0 where "k0 = clear_activated t (rt_timer_remove t k)"
  define k1 where "k1 = upd_timer t (\<lambda>tm. tm\<lparr>timeout_tick := rt_tick k0 + tm_init_tick tm\<rparr>) k0"
  have k1: "k1 = k\<lparr>links := rt_list_remove (addr (Row t)) (links k), timers := (timers k)(t := (timers k t)\<lparr>tm_flag := 0, timeout_tick := tout\<rparr>)\<rparr>"
    using fl by (simp add: k1_def k0_def clear_activated_def rt_timer_remove_def kernel_defs tout_def n'_def)
  have ok1: "lists_ok T Q W L k1"
    using row_remove_lone [OF ok t(1,2) L] lists_ok_cong [of k1 "rt_timer_remove t k" T Q W L]
    by (simp add: k1 rt_timer_remove_def on_links_def)
  have fu: "(\<not> (timeout_tick (timers k1 u) - tout \<noteq> 0 \<and> timeout_tick (timers k1 u) - tout < HALF_TICK_MAX)) \<longleftrightarrow> d u \<le> unat n'"
    if "u \<in> set W" for u
  proof -
    have "u \<noteq> t" using that t(2) by auto
    then have e: "timeout_tick (timers k1 u) - tout = (timeout_tick (timers k u) - rt_tick k) - n'"
      by (simp add: k1 tout_def)
    have "timeout_tick (timers k u) - rt_tick k < HALF_TICK_MAX"
      using tm that by (simp add: timers_ok_def due_def word_less_nat_alt)
    with later_iff [of "timeout_tick (timers k u) - rt_tick k" n'] n show ?thesis
      unfolding e by (auto simp: d_def due_def n'_def)
  qed
  have us: "takeWhile (\<lambda>u. \<not> (timeout_tick (timers k1 u) - tout \<noteq> 0 \<and> timeout_tick (timers k1 u) - tout < HALF_TICK_MAX)) W = us"
    unfolding us_def by (rule takeWhile_cong [OF refl fu])
  have slot: "timer_slot (links k1) (\<lambda>u. timeout_tick (timers k1 u)) (addr Hard_timers) tout (addr Hard_timers) =
    Some (addr (last (Hard_timers # map Row us)))"
    using timer_slot_walk [OF lists_ok_rings [OF ok1], of "[]" W "\<lambda>u. timeout_tick (timers k1 u)" tout]
    by (simp only: us append_Nil list.map last_ConsL ring_of.simps)
  define k' where "k' = k\<lparr>random_nr := random_nr k + 1,
    links := rt_list_insert_after (addr (last (Hard_timers # map Row us))) (addr (Row t)) (links k1),
    timers := (timers k)(t := (timers k t)\<lparr>timeout_tick := tout, tm_flag := 1\<rparr>)\<rparr>"
  have run: "rt_timer_start t k = Some k'"
    unfolding rt_timer_start_def Let_def k0_def [symmetric] k1_def [symmetric]
    using slot fl by (simp add: k1 k'_def kernel_defs)
  have "lists_ok T Q (us @ t # vs) L (on_links (rt_list_insert_after (addr (last (Hard_timers # map Row us))) (addr (Row t))) k1)"
    by (rule row_insert) (use ok1 t L W in auto)
  then have l': "lists_ok T Q (us @ t # vs) L k'"
    using lists_ok_cong [of k' "on_links (rt_list_insert_after (addr (last (Hard_timers # map Row us))) (addr (Row t))) k1" T Q "us @ t # vs" L]
    by (simp add: k'_def k1 on_links_def)
  have du: "due (rt_tick k) k' u = d u" if "u \<in> set W" for u
    using that t(2) by (auto simp: d_def due_def k'_def)
  have dt: "due (rt_tick k) k' t = unat n'" by (simp add: due_def k'_def tout_def)
  have "sorted (map (due (rt_tick k) k') (sleep_in d t (unat n') W))"
    by (rule sorted_sleep_in) (use tm dt du d_def in \<open>auto simp: timers_ok_def\<close>)
  moreover have "due (rt_tick k) k' u < 0x7fffffff \<and> thread_stat k' u = 2" if "u \<in> insert t (set W)" for u
    using that tm du [of u] dt t(3) n by (auto simp: timers_ok_def d_def n'_def k'_def thread_stat_def word_less_nat_alt)
  moreover have "tm_flag (timers k' u) = (if u \<in> insert t (set W) then 1 else 0) \<and> timeout_func (timers k' u) = Thread_timeout u"
    if "u \<in> T" for u
    using that tm by (auto simp: timers_ok_def k'_def)
  ultimately have "timers_ok T (sleep_in d t (unat n') W) (rt_tick k) k'"
    using tm t(1) by (simp add: timers_ok_def)
  with run l' W' show ?thesis by (auto simp: k'_def tout_def n'_def d_def)
qed

section \<open>The timer interrupt\<close>

text \<open>What waking threads leaves alone.\<close>

definition clock_same :: "kernel_t \<Rightarrow> kernel_t \<Rightarrow> bool" where
  "clock_same k k' \<longleftrightarrow>
     rt_tick k' = rt_tick k \<and> rt_scheduler_lock_nest k' = rt_scheduler_lock_nest k \<and> thread_objects k' = thread_objects k \<and>
     timer_thread k' = timer_thread k \<and> (\<forall>t. timeout_tick (timers k' t) = timeout_tick (timers k t))"

lemma clock_same_refl: "clock_same k k"
  by (simp add: clock_same_def)

lemma clock_same_trans: "clock_same k k1 \<Longrightarrow> clock_same k1 k2 \<Longrightarrow> clock_same k k2"
  by (simp add: clock_same_def)

lemma sched_same_clock: "sched_same k k' \<Longrightarrow> clock_same k k' \<and> timers k' = timers k"
  by (simp add: sched_same_def clock_same_def)

lemma lone_tlist:
  assumes ok: "lists_ok T Q W L k" and t: "t \<in> T" "\<not> in_queue Q t"
  shows "lists_ok T Q W L (on_links (rt_list_remove (addr (Tlist t))) k)"
  by (rule lists_ok_on_links [OF ok], rule rings_remove_lone(1) [OF lists_ok_rings [OF ok]]) (use t in simp)

text \<open>Threads whose scheduling data is the same.\<close>

lemma threads_ok_cong:
  assumes "\<And>t. t \<in> T \<Longrightarrow> thread_ok (threads k' t) = thread_ok (threads k t)" "\<And>t. t \<in> T \<Longrightarrow> thread_stat k' t = thread_stat k t"
    "rt_current_thread k' = rt_current_thread k"
  shows "threads_ok T Q k' = threads_ok T Q k"
  using assms by (simp add: threads_ok_def)

lemma states_ok_cong:
  assumes "\<And>t. t \<in> T \<Longrightarrow> thread_ok (threads k' t) = thread_ok (threads k t)" "\<And>t. t \<in> T \<Longrightarrow> thread_stat k' t = thread_stat k t"
    "rt_current_thread k' = rt_current_thread k"
  shows "states_ok T Q k' = states_ok T Q k"
proof -
  have "threads_ok T Q k' = threads_ok T Q k" by (rule threads_ok_cong [OF assms])
  moreover have "current_ok T k' = current_ok T k" using assms by (simp add: current_ok_def)
  ultimately show ?thesis by (simp add: states_ok_def)
qed

text \<open>A suspended thread is made ready and the scheduler asked: what a time-out and a resume end with.\<close>

lemma ready_and_schedule:
  assumes ok: "lists_ok T Q W L k" and st: "states_ok T Q k" and t: "t \<in> T" "thread_stat k t = 2"
  obtains k1 k' Q' where "rt_schedule_insert_thread t k = Some k1" "rt_schedule k1 = Some k'"
    "lists_ok T Q' W L k'" "states_ok T Q' k'" "top_runs T k'" "sched_same k k'"
    "\<forall>u. thread_stat k' u = 2 \<longleftrightarrow> thread_stat k u = 2 \<and> u \<noteq> t"
proof -
  have th: "threads_ok T Q k" "current_ok T k" using st by (simp_all add: states_ok_def)
  obtain k1 Q1 where k1: "rt_schedule_insert_thread t k = Some k1" "lists_ok T Q1 W L k1" "threads_ok T Q1 k1"
    "sched_same k k1" "rt_current_thread k1 = rt_current_thread k"
    "\<forall>u. thread_stat k1 u = (if u = t then (if rt_current_thread k = Some t then 3 else 1) else thread_stat k u)"
    using make_ready [OF ok th(1) t] by blast
  obtain c where c: "c \<in> T" "rt_current_thread k = Some c" "thread_stat k c \<noteq> 1"
    using th(2) by (auto simp: current_ok_def)
  have "thread_stat k1 c \<noteq> 1" using k1(6) [rule_format, of c] c by (cases "c = t") auto
  then have "current_ok T k1" using c k1(5) by (auto simp: current_ok_def)
  with k1(3) have st1: "states_ok T Q1 k1" by (simp add: states_ok_def)
  obtain k' Q' where k': "rt_schedule k1 = Some k'" "lists_ok T Q' W L k'" "states_ok T Q' k'" "sched_same k1 k'"
    "\<forall>t. thread_stat k' t = 2 \<longleftrightarrow> thread_stat k1 t = 2" "top_runs T k'"
    by (rule schedule_top [OF k1(2) st1])
  have "thread_stat k' u = 2 \<longleftrightarrow> thread_stat k u = 2 \<and> u \<noteq> t" for u
    using k'(5) [rule_format, of u] k1(6) [rule_format, of u] by (cases "u = t") (simp_all split: if_splits)
  then show thesis using that [OF k1(1) k'(1-3,6) sched_same_trans [OF k1(4) k'(4)]] by simp
qed

lemma rt_thread_timeout_ok:
  assumes ok: "lists_ok T Q W L k" and st: "states_ok T Q k" and t: "t \<in> T" "thread_stat k t = 2"
  shows "\<exists>k' Q'. rt_thread_timeout t k = Some k' \<and> lists_ok T Q' W L k' \<and> states_ok T Q' k' \<and> top_runs T k' \<and>
    clock_same k k' \<and> timers k' = timers k \<and> (\<forall>u. thread_stat k' u = 2 \<longleftrightarrow> thread_stat k u = 2 \<and> u \<noteq> t)"
proof -
  define k0 where "k0 = upd_thread t (\<lambda>th. th\<lparr>thread_error := -2\<rparr>) k"
  define k1 where "k1 = on_links (rt_list_remove (addr (Tlist t))) k0"
  have th: "threads_ok T Q k" "current_ok T k" using st by (simp_all add: states_ok_def)
  have nq: "\<not> in_queue Q t" using threads_okD(3) [OF th(1) t(1)] t(2) by simp
  have ok0: "lists_ok T Q W L k0" using ok lists_ok_cong [of k0 k T Q W L] by (simp add: k0_def kernel_defs)
  have ok1: "lists_ok T Q W L k1" unfolding k1_def by (rule lone_tlist [OF ok0 t(1) nq])
  have s1: "thread_stat k1 u = thread_stat k u" for u by (simp add: k1_def k0_def kernel_defs thread_stat_def)
  have c1: "rt_current_thread k1 = rt_current_thread k" by (simp add: k1_def k0_def kernel_defs)
  have "thread_ok (threads k1 u) = thread_ok (threads k u)" for u
    by (simp add: k1_def k0_def kernel_defs thread_ok_def mask_ok_def)
  then have st1: "states_ok T Q k1" using st states_ok_cong [of T k1 k Q] s1 c1 by simp
  have s1t: "thread_stat k1 t = 2" using s1 t(2) by simp
  obtain k2 k' Q' where k': "rt_schedule_insert_thread t k1 = Some k2" "rt_schedule k2 = Some k'"
    "lists_ok T Q' W L k'" "states_ok T Q' k'" "top_runs T k'" "sched_same k1 k'"
    "\<forall>u. thread_stat k' u = 2 \<longleftrightarrow> thread_stat k1 u = 2 \<and> u \<noteq> t"
    by (rule ready_and_schedule [OF ok1 st1 t(1) s1t])
  have run: "rt_thread_timeout t k = Some k'"
    using k'(1,2) by (simp add: rt_thread_timeout_def Let_def flip: k0_def k1_def)
  have "clock_same k k1" "timers k1 = timers k" by (simp_all add: k1_def k0_def kernel_defs clock_same_def)
  then have "clock_same k k'" "timers k' = timers k"
    using sched_same_clock [OF k'(6)] clock_same_trans by (blast, simp)
  then show ?thesis using run k'(3-5,7) s1 by (intro exI [of _ k'] exI [of _ Q']) simp
qed

text \<open>The timers that are due when the tick \<open>b + 1\<close> has come.\<close>

lemma due_now_iff:
  fixes x b :: u32
  assumes "unat (x - b) < 0x7fffffff"
  shows "(b + 1) - x < HALF_TICK_MAX \<longleftrightarrow> unat (x - b) \<le> (1 :: nat)"
proof -
  define y where "y = x - b"
  have e: "(b + 1) - x = 1 - y" by (simp add: y_def)
  have "unat y < 0x7fffffff" using assms by (simp add: y_def)
  then have "1 - y < HALF_TICK_MAX \<longleftrightarrow> unat y \<le> 1"
    by (auto simp: word_less_nat_alt unat_sub_if')
  then show ?thesis unfolding e y_def .
qed

text \<open>The check of the tick interrupt. \<open>d\<close> says that a call of \<^verbatim>\<open>rt_schedule\<close>
  may still be due, so that nothing is claimed of the thread that runs.\<close>

lemma timer_check_loop_ok:
  assumes "lists_ok T Q W (Some []) k" "states_ok T Q k" "timers_ok T W b k" "rt_tick k = b + 1" "d \<or> top_runs T k"
  shows "\<exists>k' Q'. timer_check_loop cb (rt_tick k) k = Some k' \<and>
    lists_ok T Q' (dropWhile (\<lambda>t. due b k t \<le> 1) W) (Some []) k' \<and> states_ok T Q' k' \<and>
    timers_ok T (dropWhile (\<lambda>t. due b k t \<le> 1) W) b k' \<and> (d \<or> top_runs T k') \<and> clock_same k k' \<and>
    (\<forall>u. thread_stat k' u = 2 \<longleftrightarrow> thread_stat k u = 2 \<and> \<not> (u \<in> set W \<and> due b k u \<le> 1))"
  using assms
proof (induction W arbitrary: k Q)
  case Nil
  then have "timer_check_loop cb (rt_tick k) k = Some k"
    by (subst timer_check_loop.simps) (simp add: hard_empty)
  with Nil show ?case by (auto simp: clock_same_refl)
next
  case (Cons t W)
  note ok = Cons.prems(1) and st = Cons.prems(2) and tm = Cons.prems(3) and tick = Cons.prems(4) and top = Cons.prems(5)
  have ne: "\<not> rt_list_isempty (links k) (addr Hard_timers)" using hard_empty [OF ok] by simp
  have en: "timer_entry (dnext (links k) (addr Hard_timers)) = t" by (rule hard_first [OF ok])
  have du0: "due b k t < 0x7fffffff" "t \<in> T" "thread_stat k t = 2" "tm_flag (timers k t) = 1"
    "timeout_func (timers k t) = Thread_timeout t" and nW: "t \<notin> set W"
    using tm sleepers_distinct [OF ok] by (auto simp: timers_ok_def)
  have cmp: "rt_tick k - timeout_tick (timers k t) < HALF_TICK_MAX \<longleftrightarrow> due b k t \<le> 1"
    unfolding tick due_def by (rule due_now_iff) (use du0(1) in \<open>simp add: due_def\<close>)
  show ?case
  proof (cases "due b k t \<le> 1")
    case False
    then have "timer_check_loop cb (rt_tick k) k = Some k"
      using ne en cmp by (subst timer_check_loop.simps) simp
    moreover have "\<forall>u \<in> set W. 1 < due b k u"
      using tm False by (auto simp: timers_ok_def)
    ultimately show ?thesis
      using Cons.prems False by (intro exI [of _ k] exI [of _ Q]) (auto simp: clock_same_refl dest: leD)
  next
    case True
    define k1 where "k1 = on_links (rt_list_insert_after (addr Fired) (addr (Row t))) (clear_activated t (rt_timer_remove t k))"
    have k1: "k1 = k\<lparr>links := links k1, timers := (timers k)(t := (timers k t)\<lparr>tm_flag := 0\<rparr>)\<rparr>"
      using du0(4) by (simp add: k1_def rt_timer_remove_def clear_activated_def kernel_defs)
    have "lists_ok T Q W (Some []) (rt_timer_remove t k)"
      using row_remove [OF ok du0(2)] by simp
    then have "lists_ok T Q W (Some []) (clear_activated t (rt_timer_remove t k))"
      using lists_ok_cong [of "clear_activated t (rt_timer_remove t k)" "rt_timer_remove t k" T Q W "Some []"]
      by (simp add: clear_activated_def kernel_defs)
    then have ok1: "lists_ok T Q W (Some [t]) k1"
      unfolding k1_def by (rule fired_insert [OF _ du0(2) nW])
    have f1: "threads k1 = threads k" "rt_current_thread k1 = rt_current_thread k" "rt_tick k1 = rt_tick k"
      "timers k1 = (timers k)(t := (timers k t)\<lparr>tm_flag := 0\<rparr>)" "clock_same k k1"
      by (subst k1, simp add: clock_same_def)+
    have s1: "thread_stat k1 u = thread_stat k u" for u by (simp add: thread_stat_def f1)
    have st1: "states_ok T Q k1" using st states_ok_cong [of T k1 k Q] by (simp add: s1 f1)
    obtain k2 Q2 where k2: "rt_thread_timeout t k1 = Some k2" "lists_ok T Q2 W (Some [t]) k2" "states_ok T Q2 k2"
      "top_runs T k2" "clock_same k1 k2" "timers k2 = timers k1"
      "\<forall>u. thread_stat k2 u = 2 \<longleftrightarrow> thread_stat k1 u = 2 \<and> u \<noteq> t"
      using rt_thread_timeout_ok [OF ok1 st1 du0(2)] du0(3) s1 by (metis (no_types, lifting))
    define k3 where "k3 = on_links (rt_list_remove (addr (Row t))) k2"
    have f3: "threads k3 = threads k2" "timers k3 = timers k2" "rt_current_thread k3 = rt_current_thread k2"
      "rt_tick k3 = rt_tick k2" "rt_scheduler_lock_nest k3 = rt_scheduler_lock_nest k2" "clock_same k2 k3"
      by (simp_all add: k3_def on_links_def clock_same_def)
    have s3: "thread_stat k3 u = thread_stat k2 u" for u by (simp add: thread_stat_def f3)
    have ok3: "lists_ok T Q2 W (Some []) k3" unfolding k3_def by (rule fired_remove [OF k2(2) du0(2) nW])
    have st3: "states_ok T Q2 k3" using k2(3) states_ok_cong [of T k3 k2 Q2] by (simp add: s3 f3)
    have cl: "clock_same k k3" using clock_same_trans [OF f1(5) clock_same_trans [OF k2(5) f3(6)]] .
    have dk: "due b k3 = due b k" by (rule ext) (use cl in \<open>simp add: due_def clock_same_def\<close>)
    then have du: "due b k3 u = due b k u" for u by simp
    have sl: "thread_stat k3 u = 2 \<longleftrightarrow> thread_stat k u = 2 \<and> u \<noteq> t" for u using k2(7) s1 s3 by simp
    have tm3: "timers_ok T W b k3"
    proof -
      have "sorted (map (due b k3) W)" using tm by (simp add: timers_ok_def dk)
      moreover have "due b k3 u < 0x7fffffff \<and> thread_stat k3 u = 2" if "u \<in> set W" for u
        using that tm nW sl [of u] du [of u] by (auto simp: timers_ok_def)
      moreover have "tm_flag (timers k3 u) = (if u \<in> set W then 1 else 0) \<and> timeout_func (timers k3 u) = Thread_timeout u"
        if "u \<in> T" for u
        using that tm nW f3(2) k2(6) f1(4) by (auto simp: timers_ok_def)
      ultimately show ?thesis using tm by (simp add: timers_ok_def)
    qed
    have tick3: "rt_tick k3 = rt_tick k" "rt_tick k2 = rt_tick k" using cl f3(4) by (simp_all add: clock_same_def)
    have top3: "d \<or> top_runs T k3" using k2(4) by (simp add: top_runs_def s3 f3)
    obtain k' Q' where ih: "timer_check_loop cb (rt_tick k3) k3 = Some k'"
      "lists_ok T Q' (dropWhile (\<lambda>t. due b k3 t \<le> 1) W) (Some []) k'" "states_ok T Q' k'"
      "timers_ok T (dropWhile (\<lambda>t. due b k3 t \<le> 1) W) b k'" "d \<or> top_runs T k'" "clock_same k3 k'"
      "\<forall>u. thread_stat k' u = 2 \<longleftrightarrow> thread_stat k3 u = 2 \<and> \<not> (u \<in> set W \<and> due b k3 u \<le> 1)"
      using Cons.IH [OF ok3 st3 tm3 _ top3] tick tick3 by auto
    have per: "tm_flag (timers (rt_timer_remove t k) t) AND 2 = 0" using du0(4) by (simp add: rt_timer_remove_def on_links_def)
    have fn: "timeout_func (timers k1 t) = Thread_timeout t" using du0(5) by (simp add: f1(4))
    have fe: "\<not> rt_list_isempty (links k2) (addr Fired)" using fired_empty [OF k2(2)] by simp
    have fl: "tm_flag (timers k3 t) AND 2 = 0" using f3(2) k2(6) f1(4) by simp
    have fn0: "timeout_func (timers (on_links (rt_list_insert_after (addr Fired) (addr (Row t)))
      (clear_activated t (rt_timer_remove t k))) t) = Thread_timeout t"
      using fn by (simp add: k1_def)
    have "timer_check_loop cb (rt_tick k) k = timer_check_loop cb (rt_tick k2) k3"
      by (subst timer_check_loop.simps)
        (use ne en cmp True per k2(1) fe fl fn in \<open>simp add: Let_def run_timeout_def k1_def [symmetric] k3_def [symmetric]\<close>)
    then have "timer_check_loop cb (rt_tick k) k = Some k'" using ih(1) tick3 by simp
    moreover have "dropWhile (\<lambda>t. due b k t \<le> 1) (t # W) = dropWhile (\<lambda>t. due b k3 t \<le> 1) W" using True by (simp add: du)
    moreover have "thread_stat k' u = 2 \<longleftrightarrow> thread_stat k u = 2 \<and> \<not> (u \<in> set (t # W) \<and> due b k u \<le> 1)" for u
      using ih(7) sl [of u] du [of u] True by auto
    ultimately show ?thesis using ih clock_same_trans [OF cl ih(6)] by auto
  qed
qed

end
