(* ===== verification/Hvac_Threads.thy ===== *)
theory Hvac_Threads
  imports Hvac_Tick
begin

text \<open>
  The kernel as its clients see it. The tick interrupt and the sections of the calls that run with
  interrupts disabled are events, and \<open>kernel_inv\<close> holds after \<^verbatim>\<open>rtthread_startup\<close>
  and after every event, in any order. No event corrupts a list or fails to return, the most important
  ready thread runs once \<^verbatim>\<open>rt_schedule\<close> has been called, and a sleeping thread wakes at its tick.
\<close>

section \<open>The invariant\<close>

definition kernel_ok :: "tid set \<Rightarrow> (nat \<Rightarrow> tid list) \<Rightarrow> tid list \<Rightarrow> kernel_t \<Rightarrow> bool" where
  "kernel_ok T Q W k \<longleftrightarrow> lists_ok T Q W None k \<and> states_ok T Q k \<and> timers_ok T W (rt_tick k) k"

text \<open>
  Between a section that makes a thread ready and the \<^verbatim>\<open>rt_schedule\<close> that follows it, a
  more important thread may be ready than the one that runs. \<open>kernel_at d\<close> demands
  \<open>top_runs\<close> unless such a call is due.
\<close>

definition kernel_at :: "bool \<Rightarrow> tid set \<Rightarrow> (nat \<Rightarrow> tid list) \<Rightarrow> tid list \<Rightarrow> kernel_t \<Rightarrow> bool" where
  "kernel_at d T Q W k \<longleftrightarrow> kernel_ok T Q W k \<and> (d \<or> top_runs T k)"

lemmas kernel_at_defs = kernel_at_def kernel_ok_def

lemma kernel_at_weaken: "kernel_at False T Q W k \<Longrightarrow> kernel_at d T Q W k" "kernel_at d T Q W k \<Longrightarrow> kernel_at True T Q W k"
  by (simp_all add: kernel_at_def)

text \<open>Fields the scheduler does not look at.\<close>

definition plain_same :: "kernel_t \<Rightarrow> kernel_t \<Rightarrow> bool" where
  "plain_same k k' \<longleftrightarrow>
     links k' = links k \<and> rt_thread_ready_priority_group k' = rt_thread_ready_priority_group k \<and> timers k' = timers k \<and>
     rt_current_thread k' = rt_current_thread k \<and> rt_scheduler_lock_nest k' = rt_scheduler_lock_nest k \<and>
     (\<forall>t. current_priority (threads k' t) = current_priority (threads k t) \<and> number_mask (threads k' t) = number_mask (threads k t) \<and>
          thread_ok (threads k' t) = thread_ok (threads k t) \<and> thread_stat k' t = thread_stat k t)"

lemma plain_same_lists: "plain_same k k' \<Longrightarrow> lists_ok T Q W L k' = lists_ok T Q W L k"
  by (rule lists_ok_cong) (simp_all add: plain_same_def)

lemma plain_same_states: "plain_same k k' \<Longrightarrow> states_ok T Q k' = states_ok T Q k"
  by (rule states_ok_cong) (simp_all add: plain_same_def)

lemma plain_same_timers: "plain_same k k' \<Longrightarrow> timers_ok T W b k' = timers_ok T W b k"
  by (rule timers_ok_cong) (simp_all add: plain_same_def)

lemma plain_same_top: "plain_same k k' \<Longrightarrow> top_runs T k' = top_runs T k"
  by (simp add: plain_same_def top_runs_def)

lemmas plain_same_all = plain_same_lists plain_same_states plain_same_timers plain_same_top

lemma kernel_at_plain: "plain_same k k' \<Longrightarrow> rt_tick k' = rt_tick k \<Longrightarrow> kernel_at d T Q W k' = kernel_at d T Q W k"
  by (simp add: kernel_at_defs plain_same_all)

text \<open>The end of a time slice: the thread gives up its turn.\<close>

definition renew_slice :: "tid \<Rightarrow> kernel_t \<Rightarrow> kernel_t" where
  "renew_slice t = upd_thread t (\<lambda>th. th\<lparr>remaining_tick := init_tick th, stat := stat th OR RT_THREAD_STAT_YIELD\<rparr>)"

lemma plain_same_renew: "plain_same k (renew_slice t k)"
  by (simp add: plain_same_def renew_slice_def upd_thread_def thread_stat_def stat_yield thread_ok_def mask_ok_def)

section \<open>The tick\<close>

lemma due_shift:
  assumes "1 < unat (x - b)"
  shows "unat (x - (b + 1)) = unat (x - b :: u32) - 1"
proof -
  have "x - (b + 1) = (x - b) - 1" by simp
  then show ?thesis using assms by (simp only: unat_sub_if' unat_1) simp
qed

lemma timers_ok_shift:
  assumes "timers_ok T W b k" "\<And>t. t \<in> set W \<Longrightarrow> 1 < due b k t"
  shows "timers_ok T W (b + 1) k"
proof -
  have d: "due (b + 1) k t = due b k t - 1" if "t \<in> set W" for t
    using assms(2) [OF that] unfolding due_def by (rule due_shift)
  have "sorted (map (due (b + 1) k) W)"
    using assms(1) d by (auto simp: timers_ok_def sorted_iff_nth_mono intro: diff_le_mono)
  moreover have "due (b + 1) k t < 0x7fffffff" if "t \<in> set W" for t
    using assms(1) that d [OF that] by (auto simp: timers_ok_def)
  ultimately show ?thesis using assms(1) by (simp add: timers_ok_def)
qed

lemma rest_not_due:
  assumes "timers_ok T W b k" "u \<in> set (dropWhile (\<lambda>t. due b k t \<le> 1) W)"
  shows "1 < due b k u"
proof -
  define ds where "ds = dropWhile (\<lambda>t. due b k t \<le> 1) W"
  obtain v vs where "ds = v # vs" using assms(2) unfolding ds_def [symmetric] by (cases ds) auto
  then have v: "dropWhile (\<lambda>t. due b k t \<le> 1) W = v # vs" by (simp only: ds_def)
  then have W: "W = takeWhile (\<lambda>t. due b k t \<le> 1) W @ v # vs" "\<not> due b k v \<le> 1"
    by (simp_all add: dropWhile_eq_Cons_conv)
  have "sorted (map (due b k) (takeWhile (\<lambda>t. due b k t \<le> 1) W @ v # vs))"
    using assms(1) W(1) by (simp add: timers_ok_def)
  then have "\<forall>x \<in> set vs. due b k v \<le> due b k x" by (auto simp: sorted_append)
  with W(2) v assms(2) show ?thesis by auto
qed

lemma SysTick_Handler_ok:
  assumes k: "kernel_at d T Q W k"
  obtains k' Q' where "SysTick_Handler cb k = Some k'"
    "kernel_at d T Q' (dropWhile (\<lambda>t. due (rt_tick k) k t \<le> 1) W) k'" "rt_tick k' = rt_tick k + 1"
    "thread_objects k' = thread_objects k" "\<forall>t. timeout_tick (timers k' t) = timeout_tick (timers k t)"
    "\<forall>u. thread_stat k' u = 2 \<longleftrightarrow> thread_stat k u = 2 \<and> \<not> (u \<in> set W \<and> due (rt_tick k) k u \<le> 1)"
proof -
  note ok = k [unfolded kernel_at_defs]
  obtain c where c: "rt_current_thread k = Some c" using ok by (auto simp: states_ok_def current_ok_def)
  define b where "b = rt_tick k"
  define ka where "ka = HAL_IncTick (rt_interrupt_enter k)"
  define kb where "kb = ka\<lparr>rt_tick := rt_tick ka + 1\<rparr>"
  define k1 where "k1 = upd_thread c (\<lambda>th. th\<lparr>remaining_tick := remaining_tick th - 1\<rparr>) kb"
  have cur: "rt_current_thread kb = Some c" using c by (simp add: kb_def ka_def HAL_IncTick_def rt_interrupt_enter_def)
  have f1: "rt_tick k1 = b + 1" "thread_objects k1 = thread_objects k" "plain_same k k1" "timers k1 = timers k"
    by (simp_all add: k1_def kb_def ka_def HAL_IncTick_def rt_interrupt_enter_def upd_thread_def plain_same_def thread_stat_def
        thread_ok_def mask_ok_def b_def)
  obtain k2 Q2 where k2: "(if remaining_tick (threads k1 c) = 0 then rt_schedule (renew_slice c k1) else Some k1) = Some k2"
    "lists_ok T Q2 W None k2" "states_ok T Q2 k2" "clock_same k1 k2" "timers k2 = timers k1" "d \<or> top_runs T k2"
    "\<forall>u. thread_stat k2 u = 2 \<longleftrightarrow> thread_stat k1 u = 2"
  proof (cases "remaining_tick (threads k1 c) = 0")
    case True
    define k1' where "k1' = renew_slice c k1"
    have ps: "plain_same k1 k1'" "clock_same k1 k1'" "timers k1' = timers k1"
      unfolding k1'_def by (rule plain_same_renew) (simp_all add: renew_slice_def upd_thread_def clock_same_def)
    have l: "lists_ok T Q W None k1'" "states_ok T Q k1'" using ok f1(3) ps(1) by (simp_all add: plain_same_all)
    obtain k2 Q2 where s: "rt_schedule k1' = Some k2" "lists_ok T Q2 W None k2" "states_ok T Q2 k2" "sched_same k1' k2"
      "\<forall>t. thread_stat k2 t = 2 \<longleftrightarrow> thread_stat k1' t = 2" "top_runs T k2"
      by (rule schedule_top [OF l])
    have "clock_same k1 k2" "timers k2 = timers k1"
      using sched_same_clock [OF s(4)] clock_same_trans [OF ps(2)] ps(3) by simp_all
    moreover have "thread_stat k1' u = thread_stat k1 u" for u using ps(1) by (simp add: plain_same_def)
    ultimately show thesis using that [of k2 Q2] s True by (simp add: k1'_def)
  next
    case False
    then show thesis using that [of k1 Q] ok f1(3) by (simp add: plain_same_all clock_same_refl)
  qed
  have t2: "rt_tick k2 = b + 1" using k2(4) f1 by (simp add: clock_same_def)
  define k3 where "k3 = on_links (rt_list_init (addr Fired)) k2"
  have l3: "lists_ok T Q2 W (Some []) k3" unfolding k3_def by (rule fired_init [OF k2(2)])
  have s3: "thread_stat k3 u = thread_stat k2 u" for u by (simp add: k3_def on_links_def thread_stat_def)
  have st3: "states_ok T Q2 k3" using k2(3) states_ok_cong [of T k3 k2 Q2] s3 by (simp add: k3_def on_links_def)
  have f3: "timers k3 = timers k" "rt_tick k3 = b + 1" "thread_objects k3 = thread_objects k" "clock_same k2 k3"
    using k2(4,5) f1 t2 by (simp_all add: k3_def on_links_def clock_same_def)
  have sl: "thread_stat k3 u = 2 \<longleftrightarrow> thread_stat k u = 2" for u
    using k2(7) s3 f1(3) by (simp add: plain_same_def)
  have tm3: "timers_ok T W b k3" using ok f3(1) sl timers_ok_cong [of k3 k W T b] by (simp add: b_def)
  have top3: "d \<or> top_runs T k3" using k2(6) s3 by (simp add: top_runs_def k3_def on_links_def thread_stat_def)
  have dk: "due b k3 = due b k" by (rule ext) (simp add: due_def f3(1))
  obtain k4 Q4 where k4: "timer_check_loop cb (rt_tick k3) k3 = Some k4"
    "lists_ok T Q4 (dropWhile (\<lambda>t. due b k t \<le> 1) W) (Some []) k4" "states_ok T Q4 k4"
    "timers_ok T (dropWhile (\<lambda>t. due b k t \<le> 1) W) b k4" "d \<or> top_runs T k4" "clock_same k3 k4"
    "\<forall>u. thread_stat k4 u = 2 \<longleftrightarrow> thread_stat k3 u = 2 \<and> \<not> (u \<in> set W \<and> due b k u \<le> 1)"
    using timer_check_loop_ok [OF l3 st3 tm3 f3(2) top3, of cb] unfolding dk by (elim exE conjE) (rule that)
  define k' where "k' = rt_interrupt_leave k4"
  have ps: "plain_same k4 k'" "rt_tick k' = b + 1" "thread_objects k' = thread_objects k"
    "\<forall>t. timeout_tick (timers k' t) = timeout_tick (timers k t)"
    using k4(6) f3 by (simp_all add: k'_def rt_interrupt_leave_def plain_same_def thread_stat_def clock_same_def)
  have dk4: "due b k4 = due b k" by (rule ext) (use k4(6) f3(1) in \<open>simp add: due_def clock_same_def\<close>)
  have "timers_ok T (dropWhile (\<lambda>t. due b k t \<le> 1) W) (b + 1) k4"
  proof (rule timers_ok_shift [OF k4(4)])
    fix u assume "u \<in> set (dropWhile (\<lambda>t. due b k t \<le> 1) W)"
    then show "1 < due b k4 u" unfolding dk4 by (rule rest_not_due [of T, rotated]) (use ok b_def in simp)
  qed
  then have "kernel_at d T Q4 (dropWhile (\<lambda>t. due b k t \<le> 1) W) k'"
    using k4(3,5) fired_drop [OF k4(2)] ps by (simp add: kernel_at_defs plain_same_all)
  moreover have "SysTick_Handler cb k = Some k'"
    unfolding SysTick_Handler_def rt_tick_increase_def Let_def ka_def [symmetric] kb_def [symmetric]
    using k2(1) k4(1) t2 f3(2)
    by (cases "remaining_tick (threads k1 c) = 0") (simp_all add: cur k1_def [symmetric] renew_slice_def [symmetric] rt_timer_check_def k3_def [symmetric] k'_def)
  moreover have "thread_stat k' u = thread_stat k4 u" for u using ps(1) by (simp add: plain_same_def)
  ultimately show thesis using that [of k' Q4] ps k4(7) sl by (simp add: b_def)
qed

section \<open>Going to sleep\<close>

lemma current_running:
  assumes "kernel_at d T Q W k" "rt_current_thread k = Some c" "thread_stat k c = 3"
  shows "c \<in> T" "c \<notin> set W" "\<not> in_queue Q c" "mask_ok (threads k c)" "tm_flag (timers k c) = 0"
proof -
  have st: "threads_ok T Q k" "current_ok T k" and tm: "timers_ok T W (rt_tick k) k"
    using assms(1) by (simp_all add: kernel_at_defs states_ok_def)
  show c: "c \<in> T" using st(2) assms(2) by (auto simp: current_ok_def)
  show w: "c \<notin> set W" using tm assms(3) by (auto simp: timers_ok_def)
  show "\<not> in_queue Q c" using threads_okD(3) [OF st(1) c] assms(3) by simp
  show "mask_ok (threads k c)" using threads_okD(1) [OF st(1) c] by (simp add: thread_ok_def)
  show "tm_flag (timers k c) = 0" using tm c w by (simp add: timers_ok_def)
qed

text \<open>The running thread suspends itself; it stays the current thread until the next
  \<^verbatim>\<open>rt_schedule\<close>.\<close>

lemma suspend_current:
  assumes k: "kernel_at d T Q W k" and c: "rt_current_thread k = Some c" "thread_stat k c = 3"
  obtains k' where "rt_thread_suspend c k = Some (RT_EOK, k')" "kernel_at d T Q W k'" "sched_same k k'"
    "rt_current_thread k' = Some c" "\<forall>u. thread_stat k' u = (if u = c then 2 else thread_stat k u)"
proof -
  note r = current_running [OF k c]
  have ok: "lists_ok T Q W None k" "threads_ok T Q k" "timers_ok T W (rt_tick k) k"
    using k by (simp_all add: kernel_at_defs states_ok_def)
  obtain h g where e: "rt_schedule_remove_thread c k = Some (k\<lparr>links := h, rt_thread_ready_priority_group := g\<rparr>)"
    "lists_ok T Q W None (k\<lparr>links := h, rt_thread_ready_priority_group := g\<rparr>)"
    using remove_lone_thread [OF ok(1) r(1,3,4)] by blast
  define k' where "k' = set_stat c RT_THREAD_SUSPEND (k\<lparr>links := h, rt_thread_ready_priority_group := g\<rparr>)"
  have s: "thread_stat k' u = (if u = c then 2 else thread_stat k u)" for u
    unfolding k'_def set_stat_suspend thread_stat_links ..
  have same: "sched_same k k'"
    unfolding k'_def by (rule sched_same_set_stat) (simp add: sched_same_links sched_same_refl)
  have cur: "rt_current_thread k' = Some c" using c by (simp add: k'_def kernel_defs)
  have tmr: "timers k' = timers k" "rt_tick k' = rt_tick k" using same by (simp_all add: sched_same_def)
  have "rt_timer_stop c k' = (- RT_ERROR, k')" using r(5) by (simp add: rt_timer_stop_def tmr)
  then have run: "rt_thread_suspend c k = Some (RT_EOK, k')"
    using c(2) e(1) by (simp add: rt_thread_suspend_def k'_def)
  have "lists_ok T Q W None k'"
    using e(2) lists_ok_cong [of k' "k\<lparr>links := h, rt_thread_ready_priority_group := g\<rparr>" T Q W None]
    by (simp add: k'_def kernel_defs)
  moreover have "threads_ok T Q k'"
  proof (rule threads_okI [OF same ok(2)], intro conjI impI)
    fix u assume u: "u \<in> T"
    show "thread_stat k' u \<in> {1, 2, 3}" using threads_okD(2) [OF ok(2) u] by (auto simp: s)
    show "thread_stat k' u = 1 \<longleftrightarrow> in_queue Q u"
      using threads_okD(3) [OF ok(2) u] r(3) by (cases "u = c") (simp_all add: s)
    show "rt_current_thread k' = Some u" if "thread_stat k' u = 3"
      using threads_okD(4) [OF ok(2) u] that c cur by (cases "u = c") (simp_all add: s)
  qed
  moreover have "current_ok T k'" using r(1) cur s by (auto simp: current_ok_def)
  moreover have "timers_ok T W (rt_tick k') k' = timers_ok T W (rt_tick k) k"
    unfolding tmr by (rule timers_ok_cong) (use r(2) in \<open>auto simp: tmr s\<close>)
  moreover have "top_runs T k'" using cur s by (simp add: top_runs_def)
  ultimately have "kernel_at d T Q W k'" using ok(3) by (simp add: kernel_at_defs states_ok_def)
  then show thesis using that [OF run _ same cur] s by simp
qed

lemma sleep_begin_ok:
  assumes k: "kernel_at d T Q W k" and c: "rt_current_thread k = Some c" "thread_stat k c = 3" and n: "n < HALF_TICK_MAX"
  obtains k' W' where "sleep_begin n k = Some k'" "kernel_at d T Q W' k'" "set W' = insert c (set W)"
    "rt_tick k' = rt_tick k" "thread_objects k' = thread_objects k" "rt_current_thread k' = Some c"
    "\<forall>u. timeout_tick (timers k' u) = (if u = c then rt_tick k + n else timeout_tick (timers k u))"
    "\<forall>u. thread_stat k' u = (if u = c then 2 else thread_stat k u)"
proof -
  obtain k1 where s: "rt_thread_suspend c k = Some (RT_EOK, k1)" "kernel_at d T Q W k1" "sched_same k k1"
    "rt_current_thread k1 = Some c" "\<forall>u. thread_stat k1 u = (if u = c then 2 else thread_stat k u)"
    by (rule suspend_current [OF k c])
  note r = current_running [OF k c]
  define k2 where "k2 = upd_timer c (\<lambda>tm. tm\<lparr>tm_init_tick := n\<rparr>) k1"
  have f: "threads k2 = threads k1" "rt_tick k2 = rt_tick k" "rt_current_thread k2 = Some c" "thread_objects k2 = thread_objects k"
    "\<And>u. timeout_tick (timers k2 u) = timeout_tick (timers k u)" "rt_scheduler_lock_nest k2 = rt_scheduler_lock_nest k1"
    using s(3,4) by (simp_all add: k2_def upd_timer_def sched_same_def)
  have st2: "thread_stat k2 u = thread_stat k1 u" for u by (simp add: thread_stat_def f)
  have l2: "lists_ok T Q W None k2"
    using s(2) lists_ok_cong [of k2 k1 T Q W None] by (simp add: kernel_at_defs k2_def upd_timer_def)
  have tick1: "rt_tick k1 = rt_tick k" "timers k1 = timers k" using s(3) by (simp_all add: sched_same_def)
  have d2: "due b k2 = due b k1" for b by (rule ext) (simp add: due_def k2_def upd_timer_def)
  have "timers_ok T W (rt_tick k2) k1" using s(2) tick1 f(2) by (simp add: kernel_at_defs)
  then have tm2: "timers_ok T W (rt_tick k2) k2"
    unfolding timers_ok_def d2 st2 by (auto simp: k2_def upd_timer_def)
  have c2: "thread_stat k2 c = 2" using s(5) st2 by simp
  have i2: "tm_init_tick (timers k2 c) = n" by (simp add: k2_def upd_timer_def)
  define W' where "W' = sleep_in (due (rt_tick k2) k2) c (unat n) W"
  obtain h k' where k': "rt_timer_start c k2 = Some k'"
    "k' = k2\<lparr>random_nr := random_nr k2 + 1, links := h, timers := (timers k2)(c := (timers k2 c)
       \<lparr>timeout_tick := rt_tick k2 + tm_init_tick (timers k2 c), tm_flag := 1\<rparr>)\<rparr>"
    "lists_ok T Q W' None k'" "timers_ok T W' (rt_tick k2) k'"
    using rt_timer_start_ok [OF l2 _ tm2 r(1,2) c2] n unfolding i2 W'_def by blast
  have f': "threads k' = threads k1" "rt_tick k' = rt_tick k" "rt_current_thread k' = Some c" "thread_objects k' = thread_objects k"
    "rt_scheduler_lock_nest k' = rt_scheduler_lock_nest k1"
    "timeout_tick (timers k' u) = (if u = c then rt_tick k + n else timeout_tick (timers k u))" for u
    using f i2 by (simp_all add: k'(2))
  have st': "thread_stat k' u = thread_stat k1 u" for u by (simp add: thread_stat_def f')
  have "states_ok T Q k'" using s(2,4) states_ok_cong [of T k' k1 Q] st' f' by (simp add: kernel_at_defs)
  moreover have "top_runs T k'" using s(5) st' f'(3) by (simp add: top_runs_def)
  ultimately have ok': "kernel_at d T Q W' k'" using k'(3,4) f'(2) f(2) by (simp add: kernel_at_defs)
  have run: "sleep_begin n k = Some k'"
    using c(1) s(1) k'(1) by (simp add: sleep_begin_def rt_timer_control_def k2_def)
  show thesis by (rule that [OF run ok']) (use f' st' s(5) in \<open>simp_all add: W'_def\<close>)
qed

section \<open>Scheduling calls\<close>

lemma kernel_schedule:
  assumes k: "lists_ok T Q W None k" "states_ok T Q k" "timers_ok T W (rt_tick k) k"
  obtains k' Q' where "rt_schedule k = Some k'" "kernel_at False T Q' W k'" "sched_same k k'"
    "\<forall>u. thread_stat k' u = 2 \<longleftrightarrow> thread_stat k u = 2"
proof -
  obtain k' Q' where s: "rt_schedule k = Some k'" "lists_ok T Q' W None k'" "states_ok T Q' k'" "sched_same k k'"
    "\<forall>t. thread_stat k' t = 2 \<longleftrightarrow> thread_stat k t = 2" "top_runs T k'"
    by (rule schedule_top [OF k(1,2)])
  have "timers k' = timers k" "rt_tick k' = rt_tick k" using s(4) by (simp_all add: sched_same_def)
  then have "timers_ok T W (rt_tick k') k'" using k(3) timers_ok_cong [of k' k W T "rt_tick k"] s(5) by simp
  then show thesis using that [OF s(1) _ s(4)] s by (simp add: kernel_at_defs)
qed

text \<open>The locked part of \<^verbatim>\<open>rt_exit_critical\<close>; the \<^verbatim>\<open>rt_schedule\<close> after
  the lock count has come down to 0 runs after interrupts have been enabled again.\<close>

definition exit_unlock :: "kernel_t \<Rightarrow> kernel_t" where
  "exit_unlock k =
     (let k = k\<lparr>rt_scheduler_lock_nest := rt_scheduler_lock_nest k - 1\<rparr>
      in if sint (rt_scheduler_lock_nest k) \<le> 0 then k\<lparr>rt_scheduler_lock_nest := 0\<rparr> else k)"

lemma rt_exit_critical_sections:
  "rt_exit_critical k =
     (let k' = exit_unlock k
      in if rt_scheduler_lock_nest k' = 0 \<and> rt_current_thread k' \<noteq> None then rt_schedule k' else Some k')"
  by (cases "sint (rt_scheduler_lock_nest k - 1) \<le> 0") (auto simp: rt_exit_critical_def exit_unlock_def Let_def)

lemma lock_fields:
  assumes "kernel_ok T Q W k"
  shows "kernel_ok T Q W (k\<lparr>rt_scheduler_lock_nest := l\<rparr>)"
proof -
  let ?k = "k\<lparr>rt_scheduler_lock_nest := l\<rparr>"
  have s: "thread_stat ?k u = thread_stat k u" for u by (simp add: thread_stat_def)
  show ?thesis
    using assms lists_ok_cong [of ?k k T Q W None] states_ok_cong [of T ?k k Q] timers_ok_cong [of ?k k W T "rt_tick k"] s
    by (simp add: kernel_ok_def)
qed

lemma exit_unlock_ok: "kernel_at d T Q W k \<Longrightarrow> kernel_at True T Q W (exit_unlock k)"
  by (simp add: kernel_at_def exit_unlock_def Let_def lock_fields)

text \<open>A thread that is resumed leaves the timer list and is made ready.\<close>

lemma timer_stopped:
  assumes ok: "lists_ok T Q W None k" "timers_ok T W b k" and t: "t \<in> T"
  shows "lists_ok T Q (remove1 t W) None (snd (rt_timer_stop t k)) \<and> timers_ok T (remove1 t W) b (snd (rt_timer_stop t k))"
proof (cases "t \<in> set W")
  case True
  define k1 where "k1 = clear_activated t (rt_timer_remove t k)"
  have "tm_flag (timers k t) = 1" using ok(2) t True by (simp add: timers_ok_def)
  then have e: "snd (rt_timer_stop t k) = k1" by (simp add: rt_timer_stop_def k1_def)
  have "lists_ok T Q (remove1 t W) None (rt_timer_remove t k)" by (rule row_remove [OF ok(1) t True]) simp
  then have "lists_ok T Q (remove1 t W) None k1"
    using lists_ok_cong [of k1 "rt_timer_remove t k"] by (simp add: k1_def clear_activated_def kernel_defs)
  moreover have "distinct W" by (rule sleepers_distinct [OF ok(1)])
  moreover have "due b k1 = due b k" by (rule ext) (simp add: due_def k1_def clear_activated_def kernel_defs rt_timer_remove_def)
  moreover have "sorted (map (due b k) (remove1 t W))" using ok(2) by (simp add: timers_ok_def sorted_map_remove1)
  moreover have "thread_stat k1 u = thread_stat k u" for u
    by (simp add: thread_stat_def k1_def clear_activated_def kernel_defs rt_timer_remove_def)
  moreover have "tm_flag (timers k1 u) = (if u = t then 0 else tm_flag (timers k u))"
    "timeout_func (timers k1 u) = timeout_func (timers k u)" for u
    using ok(2) t True by (simp_all add: k1_def clear_activated_def kernel_defs rt_timer_remove_def timers_ok_def)
  ultimately show ?thesis using ok(2) unfolding e by (auto simp: timers_ok_def)
next
  case False
  then have "tm_flag (timers k t) = 0" using ok(2) t by (simp add: timers_ok_def)
  then show ?thesis using ok False by (simp add: rt_timer_stop_def remove1_idem)
qed

lemma rt_timer_stop_fields:
  "threads (snd (rt_timer_stop t k)) = threads k" "rt_current_thread (snd (rt_timer_stop t k)) = rt_current_thread k"
  "rt_tick (snd (rt_timer_stop t k)) = rt_tick k" "thread_objects (snd (rt_timer_stop t k)) = thread_objects k"
  "timeout_tick (timers (snd (rt_timer_stop t k)) u) = timeout_tick (timers k u)"
  by (simp_all add: rt_timer_stop_def rt_timer_remove_def clear_activated_def kernel_defs)

text \<open>The locked part of \<^verbatim>\<open>rt_thread_resume\<close>. Interrupts are enabled between it and
  \<^verbatim>\<open>rt_schedule_insert_thread\<close>, which has a lock of its own.\<close>

definition resume_unlink :: "tid \<Rightarrow> kernel_t \<Rightarrow> kernel_t" where
  "resume_unlink t k = snd (rt_timer_stop t (on_links (rt_list_remove (addr (Tlist t))) k))"

lemma rt_thread_resume_sections:
  "rt_thread_resume t k =
     (if thread_stat k t \<noteq> RT_THREAD_SUSPEND then Some (- RT_ERROR, k)
      else map_option (Pair RT_EOK) (rt_schedule_insert_thread t (resume_unlink t k)))"
  by (cases "rt_schedule_insert_thread t (resume_unlink t k)") (simp_all add: rt_thread_resume_def resume_unlink_def Let_def)

lemma unlink_ok:
  assumes k: "kernel_at d T Q W k" and t: "t \<in> T" "thread_stat k t = 2"
  shows "kernel_at d T Q (remove1 t W) (resume_unlink t k)" "rt_tick (resume_unlink t k) = rt_tick k"
    "thread_objects (resume_unlink t k) = thread_objects k" "timeout_tick (timers (resume_unlink t k) u) = timeout_tick (timers k u)"
    "thread_stat (resume_unlink t k) u = thread_stat k u"
proof -
  have ok: "lists_ok T Q W None k" "states_ok T Q k" "threads_ok T Q k" "timers_ok T W (rt_tick k) k" "d \<or> top_runs T k"
    using k by (simp_all add: kernel_at_defs states_ok_def)
  define k1 where "k1 = on_links (rt_list_remove (addr (Tlist t))) k"
  define k2 where "k2 = resume_unlink t k"
  have k2: "k2 = snd (rt_timer_stop t k1)" by (simp add: k2_def k1_def resume_unlink_def)
  have nq: "\<not> in_queue Q t" using threads_okD(3) [OF ok(3) t(1)] t(2) by simp
  have f: "threads k2 = threads k" "rt_current_thread k2 = rt_current_thread k" "rt_tick k2 = rt_tick k"
    "thread_objects k2 = thread_objects k" "timeout_tick (timers k2 u) = timeout_tick (timers k u)"
    "rt_scheduler_lock_nest k2 = rt_scheduler_lock_nest k" for u
    by (simp_all add: k2 k1_def rt_timer_stop_fields kernel_defs)
      (simp add: rt_timer_stop_def rt_timer_remove_def clear_activated_def kernel_defs)
  have s: "thread_stat k2 u = thread_stat k u" for u by (simp add: thread_stat_def f)
  have "timers k1 = timers k" "\<And>u. thread_stat k1 u = thread_stat k u" by (simp_all add: k1_def kernel_defs thread_stat_def)
  then have tm1: "timers_ok T W (rt_tick k) k1" using ok(4) timers_ok_cong [of k1 k W T "rt_tick k"] by simp
  note st = timer_stopped [OF lone_tlist [OF ok(1) t(1) nq, folded k1_def] tm1 t(1), folded k2]
  have "states_ok T Q k2" using ok(2) states_ok_cong [of T k2 k Q] by (simp add: s f)
  moreover have "d \<or> top_runs T k2" using ok(5) by (simp add: top_runs_def s f)
  ultimately have "kernel_at d T Q (remove1 t W) k2" using st by (simp add: kernel_at_defs f)
  then show "kernel_at d T Q (remove1 t W) (resume_unlink t k)" "rt_tick (resume_unlink t k) = rt_tick k"
    "thread_objects (resume_unlink t k) = thread_objects k" "timeout_tick (timers (resume_unlink t k) u) = timeout_tick (timers k u)"
    "thread_stat (resume_unlink t k) u = thread_stat k u"
    using f s by (simp_all add: k2_def)
qed

text \<open>The second part: the thread, suspended and with its timer off, is made ready.\<close>

lemma insert_ok:
  assumes k: "kernel_at d T Q W k" and t: "t \<in> T" "thread_stat k t = 2" "t \<notin> set W"
  obtains k' Q' where "rt_schedule_insert_thread t k = Some k'" "kernel_at True T Q' W k'" "sched_same k k'"
    "\<forall>u. thread_stat k' u = 2 \<longleftrightarrow> thread_stat k u = 2 \<and> u \<noteq> t"
proof -
  have ok: "lists_ok T Q W None k" "threads_ok T Q k" "current_ok T k" "timers_ok T W (rt_tick k) k"
    using k by (simp_all add: kernel_at_defs states_ok_def)
  obtain k1 Q1 where k1: "rt_schedule_insert_thread t k = Some k1" "lists_ok T Q1 W None k1" "threads_ok T Q1 k1"
    "sched_same k k1" "rt_current_thread k1 = rt_current_thread k"
    "\<forall>u. thread_stat k1 u = (if u = t then (if rt_current_thread k = Some t then 3 else 1) else thread_stat k u)"
    using make_ready [OF ok(1,2) t(1,2)] by blast
  obtain c where c: "c \<in> T" "rt_current_thread k = Some c" "thread_stat k c \<noteq> 1" using ok(3) by (auto simp: current_ok_def)
  have "thread_stat k1 c \<noteq> 1" using k1(6) [rule_format, of c] c by (cases "c = t") auto
  then have "current_ok T k1" using c k1(5) by (auto simp: current_ok_def)
  moreover have s: "thread_stat k1 u = 2 \<longleftrightarrow> thread_stat k u = 2 \<and> u \<noteq> t" for u
    using k1(6) [rule_format, of u] by (cases "u = t") (simp_all split: if_splits)
  moreover have "timers k1 = timers k" "rt_tick k1 = rt_tick k" using k1(4) by (simp_all add: sched_same_def)
  moreover from this have "timers_ok T W (rt_tick k1) k1 = timers_ok T W (rt_tick k) k"
    using timers_ok_cong [of k1 k W T "rt_tick k"] s t(3) by auto
  ultimately have "kernel_at True T Q1 W k1" using k1(2,3) ok(4) by (simp add: kernel_at_defs states_ok_def)
  then show thesis using that [OF k1(1) _ k1(4)] s by simp
qed

section \<open>Suspending another thread, changing a priority\<close>

lemma suspend_ready:
  assumes k: "kernel_at d T Q W k" and t: "t \<in> T" "thread_stat k t = 1"
  obtains k' Q' where "rt_thread_suspend t k = Some (RT_EOK, k')" "kernel_at d T Q' W k'" "sched_same k k'"
    "\<forall>u. thread_stat k' u = (if u = t then 2 else thread_stat k u)"
proof -
  have ok: "lists_ok T Q W None k" "threads_ok T Q k" "current_ok T k" "timers_ok T W (rt_tick k) k" "d \<or> top_runs T k"
    using k by (simp_all add: kernel_at_defs states_ok_def)
  define p where "p = unat (current_priority (threads k t))"
  have q: "t \<in> set (Q p)" "p < 32" using ready_in_queue [OF ok(1,2) t] by (simp_all add: p_def)
  have w: "t \<notin> set W" using ok(4) t(2) by (auto simp: timers_ok_def)
  let ?Q = "Q(p := remove1 t (Q p))"
  obtain h g where e: "rt_schedule_remove_thread t k = Some (k\<lparr>links := h, rt_thread_ready_priority_group := g\<rparr>)"
    "lists_ok T ?Q W None (k\<lparr>links := h, rt_thread_ready_priority_group := g\<rparr>)"
    using remove_thread [OF ok(1) q] by blast
  define k' where "k' = set_stat t RT_THREAD_SUSPEND (k\<lparr>links := h, rt_thread_ready_priority_group := g\<rparr>)"
  have s: "thread_stat k' u = (if u = t then 2 else thread_stat k u)" for u
    unfolding k'_def set_stat_suspend thread_stat_links ..
  have same: "sched_same k k'" unfolding k'_def by (rule sched_same_set_stat) (simp add: sched_same_links sched_same_refl)
  have cur: "rt_current_thread k' = rt_current_thread k" by (simp add: k'_def kernel_defs)
  have tmr: "timers k' = timers k" "rt_tick k' = rt_tick k" "rt_scheduler_lock_nest k' = rt_scheduler_lock_nest k"
    using same by (simp_all add: sched_same_def)
  have "tm_flag (timers k t) = 0" using ok(4) t(1) w by (simp add: timers_ok_def)
  then have "rt_timer_stop t k' = (- RT_ERROR, k')" by (simp add: rt_timer_stop_def tmr)
  then have run: "rt_thread_suspend t k = Some (RT_EOK, k')" using t(2) e(1) by (simp add: rt_thread_suspend_def k'_def)
  have iq: "in_queue ?Q u \<longleftrightarrow> in_queue Q u \<and> u \<noteq> t" for u
    by (rule in_queue_remove [OF q queue_distinct [OF ok(1) q(2)] queue_only [OF ok(1) q(2,1)]])
  have l: "lists_ok T ?Q W None k'"
    using e(2) lists_ok_cong [of k' "k\<lparr>links := h, rt_thread_ready_priority_group := g\<rparr>" T ?Q W None]
    by (simp add: k'_def kernel_defs)
  have "threads_ok T ?Q k'"
  proof (rule threads_okI [OF same ok(2)], intro conjI impI)
    fix u assume u: "u \<in> T"
    show "thread_stat k' u \<in> {1, 2, 3}" using threads_okD(2) [OF ok(2) u] by (auto simp: s)
    show "thread_stat k' u = 1 \<longleftrightarrow> in_queue ?Q u" using threads_okD(3) [OF ok(2) u] unfolding iq by (simp add: s)
    show "rt_current_thread k' = Some u" if "thread_stat k' u = 3"
      using threads_okD(4) [OF ok(2) u] that cur by (cases "u = t") (simp_all add: s)
  qed
  moreover have "current_ok T k'" using ok(3) s t(2) cur by (auto simp: current_ok_def)
  moreover have "timers_ok T W (rt_tick k) k' = timers_ok T W (rt_tick k) k"
    by (rule timers_ok_cong) (use w s tmr(1) in auto)
  moreover have "d \<or> top_runs T k'"
  proof (cases d)
    case False
    then have top: "top_runs T k" using ok(5) by simp
    have "top_runs T k'"
      unfolding top_runs_def tmr cur
    proof (intro impI allI)
      fix c u
      assume a: "rt_scheduler_lock_nest k = 0" "rt_current_thread k = Some c" "thread_stat k' c = 3" "u \<in> T" "thread_stat k' u = 1"
      then have "thread_stat k c = 3" "thread_stat k u = 1" by (auto simp: s split: if_splits)
      with top a show "current_priority (threads k' c) \<le> current_priority (threads k' u)"
        unfolding sched_same_ok(3) [OF same] by (simp add: top_runs_def)
    qed
    then show ?thesis by simp
  qed simp
  ultimately have "kernel_at d T ?Q W k'" using l ok(4) tmr(2) by (simp add: kernel_at_defs states_ok_def)
  then show thesis using that [OF run _ same] s by simp
qed

text \<open>A new priority and its mask.\<close>

definition with_priority :: "tid \<Rightarrow> u8 \<Rightarrow> kernel_t \<Rightarrow> kernel_t" where
  "with_priority t p = upd_thread t (\<lambda>th. th\<lparr>current_priority := p, number_mask := push_bit (unat p) 1\<rparr>)"

lemma with_priority_fields:
  "links (with_priority t p k) = links k" "rt_thread_ready_priority_group (with_priority t p k) = rt_thread_ready_priority_group k"
  "timers (with_priority t p k) = timers k" "rt_tick (with_priority t p k) = rt_tick k"
  "thread_objects (with_priority t p k) = thread_objects k" "rt_current_thread (with_priority t p k) = rt_current_thread k"
  "thread_stat (with_priority t p k) u = thread_stat k u"
  "threads (with_priority t p k) u = (if u = t then (threads k t)\<lparr>current_priority := p, number_mask := push_bit (unat p) 1\<rparr> else threads k u)"
  by (simp_all add: with_priority_def upd_thread_def thread_stat_def)

lemma with_priority_thread_ok:
  "unat p < 32 \<Longrightarrow> thread_ok (threads k u) \<Longrightarrow> thread_ok (threads (with_priority t p k) u)"
  by (cases "u = t") (simp_all add: with_priority_fields thread_ok_def mask_ok_def)

lemma with_priority_lists:
  assumes "lists_ok T Q W L k" "\<not> in_queue Q t"
  shows "lists_ok T Q W L (with_priority t p k)"
proof -
  have "u \<noteq> t" if "q < 32" "u \<in> set (Q q)" for q u using assms(2) that by (auto simp: in_queue_def)
  then show ?thesis using assms(1) by (auto simp: lists_ok_def with_priority_fields)
qed

lemma change_priority_ok:
  assumes k: "kernel_at d T Q W k" and t: "t \<in> T" "unat p < 32"
  obtains k' Q' where "change_priority t p k = Some k'" "kernel_at True T Q' W k'" "rt_tick k' = rt_tick k"
    "thread_objects k' = thread_objects k" "timers k' = timers k" "\<forall>u. thread_stat k' u = thread_stat k u"
proof -
  have ok: "lists_ok T Q W None k" "threads_ok T Q k" "current_ok T k" "timers_ok T W (rt_tick k) k"
    using k by (simp_all add: kernel_at_defs states_ok_def)
  have tm: "timers_ok T W (rt_tick k') k'" if "timers k' = timers k" "rt_tick k' = rt_tick k" "\<forall>u. thread_stat k' u = thread_stat k u" for k'
    using ok(4) that timers_ok_cong [of k' k W T "rt_tick k"] by simp
  have cur: "current_ok T k'" if "rt_current_thread k' = rt_current_thread k" "\<forall>u. thread_stat k' u = thread_stat k u" for k'
    using ok(3) that by (simp add: current_ok_def)
  show thesis
  proof (cases "thread_stat k t = 1")
    case False
    define k' where "k' = with_priority t p k"
    have "\<not> in_queue Q t" using threads_okD(3) [OF ok(2) t(1)] False by simp
    then have "lists_ok T Q W None k'" unfolding k'_def by (rule with_priority_lists [OF ok(1)])
    moreover have "threads_ok T Q k'"
      using ok(2) with_priority_thread_ok [OF t(2)] unfolding k'_def threads_ok_def with_priority_fields(6,7) by blast
    ultimately have "kernel_at True T Q W k'" using tm [of k'] cur [of k']
      by (simp add: kernel_at_defs states_ok_def k'_def with_priority_fields)
    moreover have "change_priority t p k = Some k'" using False by (simp add: change_priority_def k'_def with_priority_def)
    ultimately show thesis using that [of k' Q] by (simp add: k'_def with_priority_fields)
  next
    case True
    define q where "q = unat (current_priority (threads k t))"
    have q: "t \<in> set (Q q)" "q < 32" using ready_in_queue [OF ok(1,2) t(1) True] by (simp_all add: q_def)
    let ?Q = "Q(q := remove1 t (Q q))"
    obtain h g where e: "rt_schedule_remove_thread t k = Some (k\<lparr>links := h, rt_thread_ready_priority_group := g\<rparr>)"
      "lists_ok T ?Q W None (k\<lparr>links := h, rt_thread_ready_priority_group := g\<rparr>)"
      using remove_thread [OF ok(1) q] by blast
    have iq: "in_queue ?Q u \<longleftrightarrow> in_queue Q u \<and> u \<noteq> t" for u
      by (rule in_queue_remove [OF q queue_distinct [OF ok(1) q(2)] queue_only [OF ok(1) q(2,1)]])
    define k1 where "k1 = with_priority t p (k\<lparr>links := h, rt_thread_ready_priority_group := g\<rparr>)"
    have s1: "thread_stat k1 u = thread_stat k u" for u by (simp add: k1_def with_priority_fields thread_stat_def)
    have f1: "rt_current_thread k1 = rt_current_thread k" "timers k1 = timers k" "rt_tick k1 = rt_tick k" "thread_objects k1 = thread_objects k"
      "threads k1 u = (if u = t then (threads k t)\<lparr>current_priority := p, number_mask := push_bit (unat p) 1\<rparr> else threads k u)" for u
      by (simp_all add: k1_def with_priority_fields)
    have l1: "lists_ok T ?Q W None k1" unfolding k1_def by (rule with_priority_lists [OF e(2)]) (simp add: iq)
    have nc: "rt_current_thread k1 \<noteq> Some t" using ok(3) True f1(1) by (auto simp: current_ok_def)
    have m1: "mask_ok (threads k1 t)" "unat p = unat (current_priority (threads k1 t))" using t(2) by (simp_all add: f1 mask_ok_def)
    let ?P = "?Q(unat p := ?Q (unat p) @ [t])"
    obtain h' g' where i: "rt_schedule_insert_thread t k1 =
        Some ((set_stat t RT_THREAD_READY k1)\<lparr>links := h', rt_thread_ready_priority_group := g'\<rparr>)"
      "lists_ok T ?P W None ((set_stat t RT_THREAD_READY k1)\<lparr>links := h', rt_thread_ready_priority_group := g'\<rparr>)"
      using insert_thread [OF l1 t(1) _ nc m1] iq by blast
    define k' where "k' = (set_stat t RT_THREAD_READY k1)\<lparr>links := h', rt_thread_ready_priority_group := g'\<rparr>"
    have "thread_stat k' u = (if u = t then 1 else thread_stat k1 u)" for u unfolding k'_def thread_stat_links by (rule set_stat_ready)
    then have s: "\<forall>u. thread_stat k' u = thread_stat k u" using s1 True by simp
    have f: "rt_current_thread k' = rt_current_thread k" "timers k' = timers k" "rt_tick k' = rt_tick k" "thread_objects k' = thread_objects k"
      by (simp_all add: k'_def kernel_defs f1)
    have iq': "in_queue ?P u \<longleftrightarrow> in_queue Q u" for u
      using iq [of u] in_queue_insert [OF t(2), of ?Q t u] q by (auto simp: in_queue_def)
    have "sched_same k1 k'" unfolding k'_def sched_same_links by (rule sched_same_set_stat [OF sched_same_refl])
    then have "thread_ok (threads k' u) = thread_ok (threads k1 u)" for u by (rule sched_same_ok(1))
    moreover have "thread_ok (threads k1 u)" if "u \<in> T" for u
      using with_priority_thread_ok [OF t(2), of "k\<lparr>links := h, rt_thread_ready_priority_group := g\<rparr>" u t] threads_okD(1) [OF ok(2) that]
      by (simp add: k1_def)
    ultimately have "threads_ok T ?P k'" using threads_okD [OF ok(2)] s f(1) iq' unfolding threads_ok_def by auto
    then have "kernel_at True T ?P W k'" using i(2) tm [OF f(2,3) s] cur [OF f(1) s] by (simp add: kernel_at_defs states_ok_def k'_def)
    moreover have "change_priority t p k = Some k'"
      unfolding change_priority_def with_priority_def [symmetric] Let_def using True e(1) i(1) by (simp add: k1_def [symmetric] k'_def)
    ultimately show thesis using that f s by blast
  qed
qed

section \<open>Starting threads\<close>

definition stack_fits :: "u32 \<Rightarrow> u32 \<Rightarrow> bool" where
  "stack_fits a sz \<longleftrightarrow> a < rt_hw_stack_init (a + sz - 4) \<and> rt_hw_stack_init (a + sz - 4) \<le> a + sz"

lemma ring_of_new_thread:
  assumes "t \<notin> T" "\<not> in_queue Q t" "t \<notin> set W"
  shows "ring_of (insert t T) Q W None = (ring_of T Q W None)(Tlist t \<mapsto> [], Row t \<mapsto> [])"
proof
  fix n
  show "ring_of (insert t T) Q W None n = ((ring_of T Q W None)(Tlist t \<mapsto> [], Row t \<mapsto> [])) n"
    using assms by (cases n) auto
qed

lemma ring_of_member:
  assumes "ring_of T Q W None n = Some zs" "m \<in> set (n # zs)" "\<forall>p < 32. set (Q p) \<subseteq> T" "set W \<subseteq> T"
  shows "m = Tlist t \<Longrightarrow> t \<in> T" "m = Row t \<Longrightarrow> t \<in> T"
  using assms by (cases n; auto split: if_splits)+

text \<open>\<^verbatim>\<open>rt_thread_init\<close> and the first half of \<^verbatim>\<open>rt_thread_startup\<close>: the new
  thread is suspended, in no list, with its priority mask set.\<close>

definition created :: "tid \<Rightarrow> u32 \<Rightarrow> u32 \<Rightarrow> u8 \<Rightarrow> u32 \<Rightarrow> kernel_t \<Rightarrow> kernel_t" where
  "created t a sz p n k = upd_thread t (\<lambda>th. th\<lparr>current_priority := init_priority th,
     number_mask := push_bit (unat (init_priority th)) 1, stat := RT_THREAD_SUSPEND\<rparr>) (rt_thread_init t a sz p n k)"

lemma created_fields:
  "thread_objects (created t a sz p n k) = t # thread_objects k"
  "rt_current_thread (created t a sz p n k) = rt_current_thread k"
  "rt_scheduler_lock_nest (created t a sz p n k) = rt_scheduler_lock_nest k"
  "rt_thread_ready_priority_group (created t a sz p n k) = rt_thread_ready_priority_group k"
  "rt_tick (created t a sz p n k) = rt_tick k" "timer_thread (created t a sz p n k) = timer_thread k"
  "links (created t a sz p n k) = rt_list_init (addr (Row t)) (rt_list_init (addr (Tlist t)) (links k))"
  "thread_stat (created t a sz p n k) u = (if u = t then 2 else thread_stat k u)"
  "u \<noteq> t \<Longrightarrow> threads (created t a sz p n k) u = threads k u"
  "timers (created t a sz p n k) u = (if u = t
     then (timers k t)\<lparr>tm_flag := 0, timeout_func := Thread_timeout t, timeout_tick := 0, tm_init_tick := 0\<rparr> else timers k u)"
  by (simp_all add: created_def rt_thread_init_def rt_timer_init_def Let_def kernel_defs thread_stat_def)

lemma created_thread_ok: "unat p < 32 \<Longrightarrow> stack_fits a sz \<Longrightarrow> thread_ok (threads (created t a sz p n k) t)"
  by (simp add: created_def rt_thread_init_def rt_timer_init_def Let_def kernel_defs thread_ok_def mask_ok_def stack_fits_def)

lemma created_ok:
  assumes ok: "lists_ok T Q W None k" "threads_ok T Q k" "timers_ok T W b k" and t: "t \<notin> T" and p: "unat p < 32" "stack_fits a sz"
    and cur: "rt_current_thread k \<noteq> Some t"
  shows "lists_ok (insert t T) Q W None (created t a sz p n k)" "threads_ok (insert t T) Q (created t a sz p n k)"
    "timers_ok (insert t T) W b (created t a sz p n k)"
proof -
  have qT: "u \<in> T" if "q < 32" "u \<in> set (Q q)" for q u using ok(1) that by (auto simp: lists_ok_def)
  then have qs: "\<forall>q < 32. set (Q q) \<subseteq> T" by blast
  have nq: "\<not> in_queue Q t" using qT t by (auto simp: in_queue_def)
  have wT: "set W \<subseteq> T" using ok(3) by (simp add: timers_ok_def)
  then have nW: "t \<notin> set W" using t by auto
  note R = lists_ok_rings [OF ok(1)]
  have R1: "rings (rt_list_init (addr (Tlist t)) (links k)) ((ring_of T Q W None)(Tlist t \<mapsto> []))"
  proof (rule rings_init [OF R])
    fix m zs assume "ring_of T Q W None m = Some zs"
    from ring_of_member(1) [where m = "Tlist t" and t = t, OF this _ qs wT] t show "Tlist t \<notin> set (m # zs)" by blast
  qed
  have R2: "rings (links (created t a sz p n k)) (ring_of (insert t T) Q W None)"
    unfolding ring_of_new_thread [OF t nq nW] created_fields
  proof (rule rings_init [OF R1])
    fix m zs assume a: "((ring_of T Q W None)(Tlist t \<mapsto> [])) m = Some zs"
    show "Row t \<notin> set (m # zs)"
    proof (cases "m = Tlist t")
      case False
      then have "ring_of T Q W None m = Some zs" using a by simp
      from ring_of_member(2) [where m = "Row t" and t = t, OF this _ qs wT] t show ?thesis by blast
    qed (use a in simp)
  qed
  have ne: "u \<noteq> t" if "q < 32" "u \<in> set (Q q)" for q u using qT [OF that] t by auto
  show "lists_ok (insert t T) Q W None (created t a sz p n k)"
    using R2 ok(1) ne by (auto simp: lists_ok_def created_fields)
  show "threads_ok (insert t T) Q (created t a sz p n k)"
    unfolding threads_ok_def
  proof (intro conjI ballI impI)
    fix u assume u: "u \<in> insert t T"
    show "thread_ok (threads (created t a sz p n k) u)"
      using u t threads_okD(1) [OF ok(2)] created_thread_ok [OF p] by (cases "u = t") (auto simp: created_fields)
    show "thread_stat (created t a sz p n k) u \<in> {1, 2, 3}"
      using u t threads_okD(2) [OF ok(2), of u] by (auto simp: created_fields)
    show "thread_stat (created t a sz p n k) u = 1 \<longleftrightarrow> in_queue Q u"
      using u t nq threads_okD(3) [OF ok(2), of u] by (cases "u = t") (auto simp: created_fields)
    show "rt_current_thread (created t a sz p n k) = Some u" if "thread_stat (created t a sz p n k) u = 3"
      using u t that threads_okD(4) [OF ok(2), of u] by (cases "u = t") (auto simp: created_fields)
  qed
  have d: "due b (created t a sz p n k) u = due b k u" if "u \<in> set W" for u
    using that nW by (auto simp: due_def created_fields)
  have "map (due b (created t a sz p n k)) W = map (due b k) W" by (rule map_cong [OF refl d])
  then have "sorted (map (due b (created t a sz p n k)) W)" using ok(3) by (simp only: timers_ok_def)
  then show "timers_ok (insert t T) W b (created t a sz p n k)"
    using ok(3) nW t d unfolding timers_ok_def by (auto simp: created_fields)
qed

text \<open>The new thread becomes ready; once the scheduler runs, the most important thread is chosen.\<close>

lemma startup_ready:
  assumes ok: "lists_ok T Q W None k" "threads_ok T Q k" "timers_ok T W b k" and t: "t \<notin> T" and p: "unat p < 32" "stack_fits a sz"
    and cur: "rt_current_thread k \<noteq> Some t"
  obtains k1 Q1 where
    "rt_thread_startup t (rt_thread_init t a sz p n k) = (if rt_current_thread k \<noteq> None then rt_schedule k1 else Some k1)"
    "lists_ok (insert t T) Q1 W None k1" "threads_ok (insert t T) Q1 k1" "timers_ok (insert t T) W b k1"
    "sched_same (created t a sz p n k) k1" "rt_current_thread k1 = rt_current_thread k"
    "\<forall>u. thread_stat k1 u = (if u = t then 1 else thread_stat k u)"
proof -
  define k0 where "k0 = created t a sz p n k"
  note c = created_ok [OF assms, of n, folded k0_def]
  have tT: "t \<in> insert t T" by simp
  have s0: "thread_stat k0 u = (if u = t then 2 else thread_stat k u)" for u by (simp add: k0_def created_fields)
  have c0: "rt_current_thread k0 = rt_current_thread k" by (simp add: k0_def created_fields)
  have nq: "\<not> in_queue Q t" using threads_okD(3) [OF c(2) tT] s0 by simp
  define k0' where "k0' = on_links (rt_list_remove (addr (Tlist t))) k0"
  have l0: "lists_ok (insert t T) Q W None k0'" unfolding k0'_def by (rule lone_tlist [OF c(1) tT nq])
  have f0: "threads k0' = threads k0" "timers k0' = timers k0" "rt_current_thread k0' = rt_current_thread k0" "sched_same k0 k0'"
    by (simp_all add: k0'_def on_links_def sched_same_def)
  have s0': "thread_stat k0' u = thread_stat k0 u" for u by (simp add: thread_stat_def f0)
  have st0: "threads_ok (insert t T) Q k0'" using c(2) threads_ok_cong [of "insert t T" k0' k0 Q] s0' f0 by simp
  have s2: "thread_stat k0' t = 2" using s0 s0' by simp
  have fl: "tm_flag (timers k0' t) = 0" by (simp add: f0 k0_def created_fields)
  obtain k1 Q1 where k1: "rt_schedule_insert_thread t k0' = Some k1" "lists_ok (insert t T) Q1 W None k1"
    "threads_ok (insert t T) Q1 k1" "sched_same k0' k1" "rt_current_thread k1 = rt_current_thread k0'"
    "\<forall>u. thread_stat k1 u = (if u = t then (if rt_current_thread k0' = Some t then 3 else 1) else thread_stat k0' u)"
    using make_ready [OF l0 st0 tT s2] by (elim exE conjE) (rule that)
  have "rt_thread_resume t k0 = Some (RT_EOK, k1)"
    using s0 [of t] k1(1) fl
    by (simp add: rt_thread_resume_def Let_def k0'_def [symmetric] rt_timer_stop_def)
  then have run: "rt_thread_startup t (rt_thread_init t a sz p n k) = (if rt_current_thread k1 \<noteq> None then rt_schedule k1 else Some k1)"
    unfolding rt_thread_startup_def Let_def created_def [symmetric] k0_def [symmetric] by simp
  have st1: "\<forall>u. thread_stat k1 u = (if u = t then 1 else thread_stat k u)"
    using k1(6) s0 s0' c0 f0(3) cur by simp
  have tm: "timers k1 = timers k0" using k1(4) f0 by (simp add: sched_same_def)
  have nW: "t \<notin> set W" using ok(3) t by (auto simp: timers_ok_def)
  have "timers_ok (insert t T) W b k1 = timers_ok (insert t T) W b k0"
    by (rule timers_ok_cong [OF tm]) (use st1 s0 nW in auto)
  then show thesis
    using that [OF _ k1(2,3)] run c(3) c0 k1(5) f0(3,4) sched_same_trans [OF f0(4) k1(4)] st1 by (simp add: k0_def)
qed

lemma rt_thread_startup_sections:
  "rt_thread_startup t (rt_thread_init t a sz p n k) =
     Option.bind (rt_schedule_insert_thread t (resume_unlink t (created t a sz p n k)))
       (\<lambda>k. if rt_current_thread k \<noteq> None then rt_schedule k else Some k)"
  unfolding rt_thread_startup_def Let_def created_def [symmetric] rt_thread_resume_sections
  by (cases "rt_schedule_insert_thread t (resume_unlink t (created t a sz p n k))") (simp_all add: created_fields)

lemma create_ok:
  assumes k: "kernel_at d T Q W k" and t: "t \<notin> T" and p: "unat p < 32" "stack_fits a sz"
  shows "kernel_at d (insert t T) Q W (created t a sz p n k)"
proof -
  have ok: "lists_ok T Q W None k" "threads_ok T Q k" "current_ok T k" "timers_ok T W (rt_tick k) k" "d \<or> top_runs T k"
    using k by (simp_all add: kernel_at_defs states_ok_def)
  obtain c where c: "rt_current_thread k = Some c" "c \<in> T" "thread_stat k c \<noteq> 1" using ok(3) by (auto simp: current_ok_def)
  have ct: "rt_current_thread k \<noteq> Some t" "c \<noteq> t" using c t by auto
  have "current_ok (insert t T) (created t a sz p n k)" using c ct by (simp add: current_ok_def created_fields)
  moreover have "d \<or> top_runs (insert t T) (created t a sz p n k)"
    using ok(5) c ct by (auto simp: top_runs_def created_fields split: if_splits)
  ultimately show ?thesis
    using created_ok [OF ok(1,2,4) t p ct(1), of n] by (simp add: kernel_at_defs states_ok_def created_fields(5))
qed

section \<open>Events\<close>

text \<open>
  What happens to the kernel, in steps that are atomic in the source: the tick interrupt, and of the calls
  of the threads every section between \<^verbatim>\<open>rt_hw_interrupt_disable\<close> and
  \<^verbatim>\<open>rt_hw_interrupt_enable\<close>. Between the sections of one call any other step may come. The calls are:
  \<^item> \<^verbatim>\<open>rt_thread_sleep\<close>: \<open>Sleep\<close>, then \<open>Schedule\<close>;
  \<^item> \<^verbatim>\<open>rt_thread_resume\<close>: \<open>Unlink\<close>, then \<open>Insert\<close>
    (\<open>rt_thread_resume_sections\<close>), and no more: its caller calls \<^verbatim>\<open>rt_schedule\<close>;
  \<^item> \<^verbatim>\<open>rt_thread_startup\<close>: \<open>Create\<close>, \<open>Unlink\<close>, \<open>Insert\<close>, then
    \<open>Schedule\<close> (\<open>rt_thread_startup_sections\<close>); \<open>Create\<close> is \<^verbatim>\<open>rt_thread_init\<close> and
    the assignments that make the new thread a suspended one, which no other code can see before;
  \<^item> \<^verbatim>\<open>rt_exit_critical\<close>: \<open>Exit_unlock\<close>, then \<open>Schedule\<close> when the count is 0
    (\<open>rt_exit_critical_sections\<close>);
  \<^item> \<^verbatim>\<open>rt_thread_suspend\<close>, \<^verbatim>\<open>rt_thread_yield\<close>, \<^verbatim>\<open>rt_enter_critical\<close>,
    \<^verbatim>\<open>rt_schedule\<close> and the change of a priority by \<^verbatim>\<open>rt_thread_control\<close>: one section each.

  \<^verbatim>\<open>rt_thread_resume\<close> and \<^verbatim>\<open>rt_thread_suspend\<close> look at the state of the thread before
  they disable interrupts; \<open>legal\<close> asks for that state in the section itself.
\<close>

datatype kevent =
    Tick
  | Sleep u32
  | Suspend tid
  | Schedule
  | Yield
  | Enter_critical
  | Exit_unlock
  | Unlink tid
  | Insert tid
  | Change_priority tid u8
  | Create tid u32 u32 u8 u32

fun kernel_step :: "(nat \<Rightarrow> kernel_t \<Rightarrow> kernel_t option) \<Rightarrow> kevent \<Rightarrow> kernel_t \<Rightarrow> kernel_t option" where
  "kernel_step cb Tick k = SysTick_Handler cb k"
| "kernel_step cb (Sleep n) k = sleep_begin n k"
| "kernel_step cb (Suspend t) k = map_option snd (rt_thread_suspend t k)"
| "kernel_step cb Schedule k = rt_schedule k"
| "kernel_step cb Yield k = rt_thread_yield k"
| "kernel_step cb Enter_critical k = Some (rt_enter_critical k)"
| "kernel_step cb Exit_unlock k = Some (exit_unlock k)"
| "kernel_step cb (Unlink t) k = Some (resume_unlink t k)"
| "kernel_step cb (Insert t) k = rt_schedule_insert_thread t k"
| "kernel_step cb (Change_priority t p) k = change_priority t p k"
| "kernel_step cb (Create t a sz p n) k = Some (created t a sz p n k)"

definition current_runs :: "kernel_t \<Rightarrow> bool" where
  "current_runs k = (case rt_current_thread k of Some c \<Rightarrow> thread_stat k c = RT_THREAD_RUNNING | None \<Rightarrow> False)"

text \<open>What the calls demand: a thread that sleeps or yields is running, a sleep is shorter than half of the
  counter's range, the lock counter does not overflow; a thread to be suspended is ready or running, one to be
  resumed is suspended, and when it is inserted its timer is off; a priority is below 32; a new thread has a
  stack for its first frame.\<close>

fun legal :: "kevent \<Rightarrow> kernel_t \<Rightarrow> bool" where
  "legal Tick k \<longleftrightarrow> True"
| "legal (Sleep n) k \<longleftrightarrow> current_runs k \<and> n < HALF_TICK_MAX"
| "legal (Suspend t) k \<longleftrightarrow> t \<in> set (thread_objects k) \<and> thread_stat k t \<in> {RT_THREAD_READY, RT_THREAD_RUNNING}"
| "legal Schedule k \<longleftrightarrow> True"
| "legal Yield k \<longleftrightarrow> current_runs k"
| "legal Enter_critical k \<longleftrightarrow> 0 \<le> sint (rt_scheduler_lock_nest k) \<and> sint (rt_scheduler_lock_nest k) < 0x7fff"
| "legal Exit_unlock k \<longleftrightarrow> True"
| "legal (Unlink t) k \<longleftrightarrow> t \<in> set (thread_objects k) \<and> thread_stat k t = RT_THREAD_SUSPEND"
| "legal (Insert t) k \<longleftrightarrow> t \<in> set (thread_objects k) \<and> thread_stat k t = RT_THREAD_SUSPEND \<and>
     tm_flag (timers k t) AND RT_TIMER_FLAG_ACTIVATED = 0"
| "legal (Change_priority t p) k \<longleftrightarrow> t \<in> set (thread_objects k) \<and> unat p < 32"
| "legal (Create t a sz p n) k \<longleftrightarrow> t \<notin> set (thread_objects k) \<and> unat p < 32 \<and> stack_fits a sz"

text \<open>Whether \<^verbatim>\<open>rt_schedule\<close> has to be called before the most important ready thread runs: a thread
  was made ready, a priority changed or the scheduler unlocked since its last call.\<close>

fun decision_due :: "kevent \<Rightarrow> bool \<Rightarrow> bool" where
  "decision_due Schedule d = False"
| "decision_due Yield d = False"
| "decision_due Exit_unlock d = True"
| "decision_due (Insert t) d = True"
| "decision_due (Change_priority t p) d = True"
| "decision_due _ d = d"

fun kernel_run :: "(nat \<Rightarrow> kernel_t \<Rightarrow> kernel_t option) \<Rightarrow> kevent list \<Rightarrow> kernel_t \<Rightarrow> kernel_t option" where
  "kernel_run cb [] k = Some k"
| "kernel_run cb (e # es) k = (if legal e k then Option.bind (kernel_step cb e k) (kernel_run cb es) else None)"

definition kernel_inv :: "kernel_t \<Rightarrow> bool" where
  "kernel_inv k \<longleftrightarrow> (\<exists>Q W. kernel_ok (set (thread_objects k)) Q W k)"

lemma current_runs_Some: "current_runs k \<Longrightarrow> \<exists>c. rt_current_thread k = Some c \<and> thread_stat k c = 3"
  by (auto simp: current_runs_def split: option.splits)

lemma lock_up: "0 \<le> sint (l :: s16) \<Longrightarrow> l + 1 \<noteq> 0"
proof
  assume "0 \<le> sint l" "l + 1 = 0"
  then have "l = -1" by (simp add: add_eq_0_iff2)
  with \<open>0 \<le> sint l\<close> show False by simp
qed

lemma enter_ok:
  assumes k: "kernel_at d T Q W k" and l: "0 \<le> sint (rt_scheduler_lock_nest k)"
  shows "kernel_at d T Q W (rt_enter_critical k)"
  using k lock_up [OF l] by (simp add: kernel_at_def rt_enter_critical_def lock_fields top_runs_def)

lemma yield_ok:
  assumes k: "kernel_at d T Q W k"
  obtains k' Q' where "rt_thread_yield k = Some k'" "kernel_at False T Q' W k'" "rt_tick k' = rt_tick k"
    "thread_objects k' = thread_objects k" "timers k' = timers k" "\<forall>u. thread_stat k' u = 2 \<longleftrightarrow> thread_stat k u = 2"
proof -
  obtain c where c: "rt_current_thread k = Some c" using k by (auto simp: kernel_at_defs states_ok_def current_ok_def)
  define k1 where "k1 = renew_slice c k"
  have ps: "plain_same k k1" unfolding k1_def by (rule plain_same_renew)
  have f: "rt_tick k1 = rt_tick k" "thread_objects k1 = thread_objects k" by (simp_all add: k1_def renew_slice_def upd_thread_def)
  have l: "lists_ok T Q W None k1" "states_ok T Q k1" "timers_ok T W (rt_tick k1) k1"
    using k f by (simp_all add: kernel_at_defs plain_same_all [OF ps])
  obtain k' Q' where k': "rt_schedule k1 = Some k'" "kernel_at False T Q' W k'" "sched_same k1 k'"
    "\<forall>u. thread_stat k' u = 2 \<longleftrightarrow> thread_stat k1 u = 2"
    by (rule kernel_schedule [OF l])
  have "rt_thread_yield k = Some k'" using c k'(1) by (simp add: rt_thread_yield_def renew_slice_def [symmetric] k1_def)
  then show thesis using that [OF _ k'(2)] k'(3,4) ps f by (simp add: sched_same_def plain_same_def)
qed

text \<open>One event: the kernel stays well-formed, the clock moves with the ticks, and of the sleepers
  exactly those that are due leave.\<close>

definition event_result :: "bool \<Rightarrow> kevent \<Rightarrow> tid list \<Rightarrow> kernel_t \<Rightarrow> kernel_t \<Rightarrow> bool" where
  "event_result d e W k k' \<longleftrightarrow> rt_tick k' = rt_tick k + (if e = Tick then 1 else 0) \<and>
     (\<forall>u \<in> set W. timeout_tick (timers k' u) = timeout_tick (timers k u)) \<and>
     (\<exists>Q' W'. kernel_at (decision_due e d) (set (thread_objects k')) Q' W' k' \<and>
       (\<forall>u \<in> set W. u \<in> set W' \<longleftrightarrow> (e = Tick \<longrightarrow> 1 < due (rt_tick k) k u) \<and> e \<noteq> Unlink u))"

lemma event_resultI:
  assumes "kernel_at (decision_due e d) (set (thread_objects k')) Q' W' k'" "e \<noteq> Tick" "rt_tick k' = rt_tick k"
    "\<And>u. u \<in> set W \<Longrightarrow> timeout_tick (timers k' u) = timeout_tick (timers k u)"
    "\<And>u. u \<in> set W \<Longrightarrow> u \<in> set W' \<longleftrightarrow> e \<noteq> Unlink u"
  shows "event_result d e W k k'"
  using assms unfolding event_result_def by auto

lemma tick_event:
  assumes k: "kernel_at d (set (thread_objects k)) Q W k"
  shows "\<exists>k'. kernel_step cb Tick k = Some k' \<and> event_result d Tick W k k'"
proof -
  have tm: "timers_ok (set (thread_objects k)) W (rt_tick k) k" using k by (simp add: kernel_at_defs)
  obtain k' Q' where k': "SysTick_Handler cb k = Some k'"
    "kernel_at d (set (thread_objects k)) Q' (dropWhile (\<lambda>t. due (rt_tick k) k t \<le> 1) W) k'" "rt_tick k' = rt_tick k + 1"
    "thread_objects k' = thread_objects k" "\<forall>t. timeout_tick (timers k' t) = timeout_tick (timers k t)"
    "\<forall>u. thread_stat k' u = 2 \<longleftrightarrow> thread_stat k u = 2 \<and> \<not> (u \<in> set W \<and> due (rt_tick k) k u \<le> 1)"
    by (rule SysTick_Handler_ok [OF k])
  define W' where "W' = dropWhile (\<lambda>t. due (rt_tick k) k t \<le> 1) W"
  have in': "u \<in> set W' \<longleftrightarrow> 1 < due (rt_tick k) k u" if "u \<in> set W" for u
  proof
    assume "u \<in> set W'"
    then show "1 < due (rt_tick k) k u" unfolding W'_def by (rule rest_not_due [OF tm])
  next
    assume "1 < due (rt_tick k) k u"
    moreover have "u \<in> set (takeWhile (\<lambda>t. due (rt_tick k) k t \<le> 1) W) \<or> u \<in> set W'"
      using that unfolding W'_def by (metis Un_iff set_append takeWhile_dropWhile_id)
    ultimately show "u \<in> set W'" by (auto dest: set_takeWhileD)
  qed
  have "kernel_at d (set (thread_objects k')) Q' W' k'" using k'(2,4) by (simp add: W'_def)
  then have "event_result d Tick W k k'" unfolding event_result_def using k'(3,5) in' by auto
  then show ?thesis using k'(1) by simp
qed

lemma plain_event:
  assumes "kernel_step cb e k = Some k'" "kernel_at (decision_due e d) (set (thread_objects k)) Q' W k'" "e \<noteq> Tick" "\<And>u. e \<noteq> Unlink u"
    "sched_same k k' \<or> rt_tick k' = rt_tick k \<and> thread_objects k' = thread_objects k \<and> timers k' = timers k"
  shows "\<exists>k'. kernel_step cb e k = Some k' \<and> event_result d e W k k'"
proof -
  have "rt_tick k' = rt_tick k" "thread_objects k' = thread_objects k" "timers k' = timers k" using assms(5) by (auto simp: sched_same_def)
  then have "event_result d e W k k'" using assms(2-4) by (intro event_resultI [of e d k' Q' W]) simp_all
  then show ?thesis using assms(1) by blast
qed

lemma create_event:
  assumes k: "kernel_at d (set (thread_objects k)) Q W k" and e: "legal (Create t a sz p n) k"
  shows "\<exists>k'. kernel_step cb (Create t a sz p n) k = Some k' \<and> event_result d (Create t a sz p n) W k k'"
proof -
  have t: "t \<notin> set (thread_objects k)" "unat p < 32" "stack_fits a sz" using e by simp_all
  have "t \<notin> set W" using k t(1) by (auto simp: kernel_at_defs timers_ok_def)
  then have "event_result d (Create t a sz p n) W k (created t a sz p n k)"
    using create_ok [OF k t, of n] by (intro event_resultI [of _ _ _ Q W]) (auto simp: created_fields)
  then show ?thesis by simp
qed

lemma unlink_event:
  assumes k: "kernel_at d (set (thread_objects k)) Q W k" and e: "legal (Unlink t) k"
  shows "\<exists>k'. kernel_step cb (Unlink t) k = Some k' \<and> event_result d (Unlink t) W k k'"
proof -
  have t: "t \<in> set (thread_objects k)" "thread_stat k t = 2" using e by simp_all
  note u = unlink_ok [OF k t]
  have "distinct W" using k sleepers_distinct by (auto simp: kernel_at_defs)
  then have "event_result d (Unlink t) W k (resume_unlink t k)"
    using u by (intro event_resultI [of _ _ _ Q "remove1 t W"]) auto
  then show ?thesis by simp
qed

lemma sleep_event:
  assumes k: "kernel_at d (set (thread_objects k)) Q W k" and e: "legal (Sleep n) k"
  shows "\<exists>k'. kernel_step cb (Sleep n) k = Some k' \<and> event_result d (Sleep n) W k k'"
proof -
  obtain c where c: "rt_current_thread k = Some c" "thread_stat k c = 3" and n: "n < HALF_TICK_MAX"
    using e current_runs_Some by auto
  obtain k' W' where k': "sleep_begin n k = Some k'" "kernel_at d (set (thread_objects k)) Q W' k'" "set W' = insert c (set W)"
    "rt_tick k' = rt_tick k" "thread_objects k' = thread_objects k" "rt_current_thread k' = Some c"
    "\<forall>u. timeout_tick (timers k' u) = (if u = c then rt_tick k + n else timeout_tick (timers k u))"
    "\<forall>u. thread_stat k' u = (if u = c then 2 else thread_stat k u)"
    by (rule sleep_begin_ok [OF k c n])
  have "c \<notin> set W" by (rule current_running(2) [OF k c])
  then have "event_result d (Sleep n) W k k'"
    using k' by (intro event_resultI [of _ _ _ Q W']) auto
  then show ?thesis using k'(1) by simp
qed

lemma suspend_event:
  assumes k: "kernel_at d (set (thread_objects k)) Q W k" and e: "legal (Suspend t) k"
  shows "\<exists>k'. kernel_step cb (Suspend t) k = Some k' \<and> event_result d (Suspend t) W k k'"
proof -
  have t: "t \<in> set (thread_objects k)" using e by simp
  consider "thread_stat k t = 1" | "thread_stat k t = 3" using e by auto
  then show ?thesis
  proof cases
    case 1
    obtain k' Q' where k': "rt_thread_suspend t k = Some (RT_EOK, k')" "kernel_at d (set (thread_objects k)) Q' W k'" "sched_same k k'"
      "\<forall>u. thread_stat k' u = (if u = t then 2 else thread_stat k u)"
      by (rule suspend_ready [OF k t 1])
    then show ?thesis by (intro plain_event [of _ _ _ k' _ Q']) simp_all
  next
    case 2
    have "threads_ok (set (thread_objects k)) Q k" using k by (simp add: kernel_at_defs states_ok_def)
    then have c: "rt_current_thread k = Some t" using threads_okD(4) t 2 by blast
    obtain k' where k': "rt_thread_suspend t k = Some (RT_EOK, k')" "kernel_at d (set (thread_objects k)) Q W k'" "sched_same k k'"
      "rt_current_thread k' = Some t" "\<forall>u. thread_stat k' u = (if u = t then 2 else thread_stat k u)"
      by (rule suspend_current [OF k c 2])
    then show ?thesis by (intro plain_event [of _ _ _ k' _ Q]) simp_all
  qed
qed

lemma insert_event:
  assumes k: "kernel_at d (set (thread_objects k)) Q W k" and e: "legal (Insert t) k"
  shows "\<exists>k'. kernel_step cb (Insert t) k = Some k' \<and> event_result d (Insert t) W k k'"
proof -
  have t: "t \<in> set (thread_objects k)" "thread_stat k t = 2" "tm_flag (timers k t) AND 1 = 0" using e by simp_all
  have w: "t \<notin> set W" using k t(1,3) by (auto simp: kernel_at_defs timers_ok_def split: if_splits)
  obtain k' Q' where k': "rt_schedule_insert_thread t k = Some k'" "kernel_at True (set (thread_objects k)) Q' W k'" "sched_same k k'"
    "\<forall>u. thread_stat k' u = 2 \<longleftrightarrow> thread_stat k u = 2 \<and> u \<noteq> t"
    by (rule insert_ok [OF k t(1,2) w])
  then show ?thesis by (intro plain_event [of _ _ _ k' _ Q']) simp_all
qed

lemma event_ok:
  assumes k: "kernel_at d (set (thread_objects k)) Q W k" and e: "legal e k"
  shows "\<exists>k'. kernel_step cb e k = Some k' \<and> event_result d e W k k'"
proof (cases e)
  case Tick
  then show ?thesis using tick_event [OF k] by simp
next
  case (Sleep n)
  then show ?thesis using sleep_event [OF k] e by simp
next
  case (Suspend t)
  then show ?thesis using suspend_event [OF k] e by simp
next
  case Schedule
  have l: "lists_ok (set (thread_objects k)) Q W None k" "states_ok (set (thread_objects k)) Q k"
    "timers_ok (set (thread_objects k)) W (rt_tick k) k"
    using k by (simp_all add: kernel_at_defs)
  obtain k' Q' where "rt_schedule k = Some k'" "kernel_at False (set (thread_objects k)) Q' W k'" "sched_same k k'"
    "\<forall>u. thread_stat k' u = 2 \<longleftrightarrow> thread_stat k u = 2"
    by (rule kernel_schedule [OF l])
  then show ?thesis unfolding Schedule by (intro plain_event [of _ _ _ k' _ Q']) simp_all
next
  case Yield
  obtain k' Q' where "rt_thread_yield k = Some k'" "kernel_at False (set (thread_objects k)) Q' W k'" "rt_tick k' = rt_tick k"
    "thread_objects k' = thread_objects k" "timers k' = timers k" "\<forall>u. thread_stat k' u = 2 \<longleftrightarrow> thread_stat k u = 2"
    by (rule yield_ok [OF k])
  then show ?thesis unfolding Yield by (intro plain_event [of _ _ _ k' _ Q']) simp_all
next
  case Enter_critical
  have "kernel_at d (set (thread_objects k)) Q W (rt_enter_critical k)" by (rule enter_ok [OF k]) (use e Enter_critical in simp)
  then show ?thesis unfolding Enter_critical
    by (intro plain_event [of _ _ _ "rt_enter_critical k" _ Q]) (simp_all add: rt_enter_critical_def)
next
  case Exit_unlock
  show ?thesis unfolding Exit_unlock using exit_unlock_ok [OF k]
    by (intro plain_event [of _ _ _ "exit_unlock k" _ Q]) (simp_all, simp add: exit_unlock_def Let_def)
next
  case (Unlink t)
  then show ?thesis using unlink_event [OF k] e by simp
next
  case (Insert t)
  then show ?thesis using insert_event [OF k] e by simp
next
  case (Change_priority t p)
  then have t: "t \<in> set (thread_objects k)" "unat p < 32" using e by simp_all
  obtain k' Q' where "change_priority t p k = Some k'" "kernel_at True (set (thread_objects k)) Q' W k'" "rt_tick k' = rt_tick k"
    "thread_objects k' = thread_objects k" "timers k' = timers k" "\<forall>u. thread_stat k' u = thread_stat k u"
    by (rule change_priority_ok [OF k t])
  then show ?thesis unfolding Change_priority by (intro plain_event [of _ _ _ k' _ Q']) simp_all
next
  case (Create t a sz p n)
  then show ?thesis using create_event [OF k] e by simp
qed

end
