(* ===== verification/Hvac_Boot.thy ===== *)
theory Hvac_Boot
  imports Hvac_Threads
begin

text \<open>
  The start of the kernel and what it promises from then on: \<^verbatim>\<open>rtthread_startup\<close>
  establishes the invariant and switches to the timer thread, every event keeps it, the most important
  ready thread runs once \<^verbatim>\<open>rt_schedule\<close> has been called, and a thread that sleeps wakes at its tick.
\<close>

section \<open>Start-up\<close>

text \<open>The rings before the list of software timers is set up.\<close>

definition early_rings :: "tid set \<Rightarrow> (nat \<Rightarrow> tid list) \<Rightarrow> node \<Rightarrow> node list option" where
  "early_rings T Q = (ring_of T Q [] None)(Soft_timers := None)"

lemma queue_rings:
  assumes "rings h R" "\<And>l xs p. R l = Some xs \<Longrightarrow> Queue p \<notin> set (l # xs)"
  shows "rings (fold (\<lambda>i. rt_list_init (addr (Queue i))) [0..<n] h)
    (\<lambda>l. case l of Queue p \<Rightarrow> if p < n then Some [] else None | _ \<Rightarrow> R l)"
proof (induction n)
  case 0
  have "(\<lambda>l. case l of Queue p \<Rightarrow> if p < 0 then Some [] else None | _ \<Rightarrow> R l) = R"
  proof
    fix l show "(case l of Queue p \<Rightarrow> if p < 0 then Some [] else None | _ \<Rightarrow> R l) = R l"
      using assms(2) [of l _ _] by (cases l) (auto, metis list.set_intros(1) option.exhaust)
  qed
  with assms(1) show ?case by simp
next
  case (Suc n)
  let ?R = "\<lambda>n l. case l of Queue p \<Rightarrow> if p < n then Some [] else None | _ \<Rightarrow> R l"
  have "?R (Suc n) l = ((?R n)(Queue n \<mapsto> [])) l" for l by (cases l) auto
  then have e: "?R (Suc n) = (?R n)(Queue n \<mapsto> [])" by (rule ext)
  have "rings (rt_list_init (addr (Queue n)) (fold (\<lambda>i. rt_list_init (addr (Queue i))) [0..<n] h)) ((?R n)(Queue n \<mapsto> []))"
  proof (rule rings_init [OF Suc.IH])
    fix k zs assume "?R n k = Some zs"
    then show "Queue n \<notin> set (k # zs)" using assms(2) [of k zs n] by (cases k) (auto split: if_splits)
  qed
  then show ?case unfolding e by simp
qed

lemma scheduler_rings:
  "rings (links (rt_system_scheduler_init (rt_system_timer_init k))) (early_rings {} (\<lambda>_. []))"
proof -
  define h0 where "h0 = rt_list_init (addr Hard_timers) (links k)"
  define h1 where "h1 = fold (\<lambda>i. rt_list_init (addr (Queue i))) [0..<32] h0"
  have "rings (links k) (\<lambda>_. None)" by (simp add: rings_def)
  then have r0: "rings h0 ((\<lambda>_. None)(Hard_timers \<mapsto> []))" unfolding h0_def by (rule rings_init) simp
  let ?R = "\<lambda>l :: node. case l of Queue p \<Rightarrow> if p < 32 then Some ([] :: node list) else None | _ \<Rightarrow> ((\<lambda>_. None)(Hard_timers \<mapsto> [])) l"
  have r1: "rings h1 ?R" unfolding h1_def by (rule queue_rings [OF r0]) (auto split: if_splits)
  have r2: "rings (rt_list_init (addr Defunct) h1) (?R(Defunct \<mapsto> []))"
  proof (rule rings_init [OF r1])
    fix l zs assume "?R l = Some zs"
    then show "Defunct \<notin> set (l # zs)" by (cases l) (auto split: if_splits)
  qed
  have "early_rings {} (\<lambda>_. []) l = (?R(Defunct \<mapsto> [])) l" for l
    by (cases l) (auto simp: early_rings_def)
  then have e: "early_rings {} (\<lambda>_. []) = ?R(Defunct \<mapsto> [])" by (rule ext)
  show ?thesis
    unfolding e using r2
    by (simp add: rt_system_scheduler_init_def rt_system_timer_init_def Let_def on_links_def h1_def h0_def)
qed

text \<open>The main thread is the first to be started; then the software timer list is set up.\<close>

lemma main_thread_ready:
  fixes k m main_stack
  defines "k1 \<equiv> rt_system_scheduler_init (rt_system_timer_init k)"
  assumes cur: "rt_current_thread k = None" and st: "stack_fits main_stack 2048"
  obtains k2 where "rt_application_init m main_stack k1 = Some k2"
    "lists_ok {m} (\<lambda>p. if p = 10 then [m] else []) [] None (on_links (rt_list_init (addr Soft_timers)) k2)"
    "threads_ok {m} (\<lambda>p. if p = 10 then [m] else []) k2" "timers_ok {m} [] b k2"
    "rt_current_thread k2 = None" "thread_objects k2 = m # thread_objects k" "timer_thread k2 = timer_thread k"
    "rt_tick k2 = rt_tick k" "rt_scheduler_lock_nest k2 = 0" "unat (current_priority (threads k2 m)) = 10"
proof -
  let ?Q = "\<lambda>p :: nat. if p = 10 then [m] else []"
  define k0 where "k0 = created m main_stack 2048 10 20 k1"
  define h where "h = rt_list_remove (addr (Tlist m)) (links k0)"
  define k2 where "k2 = (set_stat m RT_THREAD_READY (k0\<lparr>links := h\<rparr>))\<lparr>links := rt_list_insert_before (addr (Queue 10)) (addr (Tlist m)) h,
    rt_thread_ready_priority_group := push_bit 10 1\<rparr>"
  have f1: "rt_current_thread k1 = None" "thread_objects k1 = thread_objects k" "timer_thread k1 = timer_thread k"
    "rt_tick k1 = rt_tick k" "rt_scheduler_lock_nest k1 = 0" "rt_thread_ready_priority_group k1 = 0"
    using cur by (simp_all add: k1_def rt_system_scheduler_init_def rt_system_timer_init_def Let_def on_links_def)
  have f0: "rt_current_thread k0 = None" "thread_stat k0 m = 2" "rt_thread_ready_priority_group k0 = 0"
    "tm_flag (timers k0 m) = 0" "current_priority (threads k0 m) = 10" "number_mask (threads k0 m) = push_bit 10 1"
    by (simp_all add: k0_def created_fields f1)
      (simp_all add: created_def rt_thread_init_def rt_timer_init_def Let_def kernel_defs)
  have run: "rt_application_init m main_stack k1 = Some k2"
    unfolding rt_application_init_def rt_thread_startup_def Let_def created_def [symmetric] k0_def [symmetric]
    using f0 by (simp add: rt_thread_resume_def Let_def on_links_def rt_timer_stop_def h_def [symmetric]
        rt_schedule_insert_thread_def k2_def set_stat_def upd_thread_def)
  have r1: "rings (links k1) (early_rings {} (\<lambda>_. []))" unfolding k1_def by (rule scheduler_rings)
  let ?E = "early_rings {} (\<lambda>_. [])"
  have E: "?E l = Some xs \<Longrightarrow> xs = [] \<and> l \<noteq> Tlist m \<and> l \<noteq> Row m \<and> l \<noteq> Soft_timers" for l xs
    by (cases l) (auto simp: early_rings_def split: if_splits)
  have "rings (rt_list_init (addr (Tlist m)) (links k1)) (?E(Tlist m \<mapsto> []))"
    by (rule rings_init [OF r1]) (auto dest: E)
  then have "rings (links k0) (?E(Tlist m \<mapsto> [], Row m \<mapsto> []))"
    unfolding k0_def created_fields by (rule rings_init) (auto dest: E split: if_splits)
  then have "rings h (?E(Tlist m \<mapsto> [], Row m \<mapsto> []))"
    unfolding h_def by (rule rings_remove_lone) simp
  then have "rings (rt_list_insert_before (addr (Queue 10)) (addr (Tlist m)) h)
    (?E(Tlist m \<mapsto> [], Row m \<mapsto> [], Tlist m := None, Queue 10 \<mapsto> [] @ [Tlist m]))"
    by (rule rings_insert_before) (simp_all add: early_rings_def)
  then have r2: "rings (rt_list_init (addr Soft_timers) (links k2))
    (?E(Tlist m \<mapsto> [], Row m \<mapsto> [], Tlist m := None, Queue 10 \<mapsto> [] @ [Tlist m], Soft_timers \<mapsto> []))"
    unfolding k2_def by simp (rule rings_init, assumption, auto dest: E split: if_splits)
  have "ring_of {m} ?Q [] None l =
    (?E(Tlist m \<mapsto> [], Row m \<mapsto> [], Tlist m := None, Queue 10 \<mapsto> [] @ [Tlist m], Soft_timers \<mapsto> [])) l" for l
    by (cases l) (auto simp: early_rings_def in_queue_def)
  then have e: "ring_of {m} ?Q [] None =
    ?E(Tlist m \<mapsto> [], Row m \<mapsto> [], Tlist m := None, Queue 10 \<mapsto> [] @ [Tlist m], Soft_timers \<mapsto> [])" by (rule ext)
  have f2: "threads k2 m = (threads k0 m)\<lparr>stat := stat (threads k2 m)\<rparr>" "timers k2 = timers k0"
    by (simp_all add: k2_def kernel_defs)
  have th: "thread_ok (threads k2 m)"
    using created_thread_ok [of 10 main_stack 2048 m 20 k1] st
    by (subst f2(1)) (simp add: k0_def [symmetric] thread_ok_def mask_ok_def)
  have pr: "current_priority (threads k2 m) = 10" using f0(5) by (subst f2(1)) simp
  have s2: "thread_stat k2 m = 1"
    using set_stat_ready [of m "k0\<lparr>links := h\<rparr>" m] by (simp add: k2_def thread_stat_def)
  have b10: "bit (1024 :: u32) p \<longleftrightarrow> p = 10" if "p < 32" for p using bit_group [OF that, of 10] by auto
  have "lists_ok {m} ?Q [] None (on_links (rt_list_init (addr Soft_timers)) k2)"
    unfolding lists_ok_def e
  proof (intro conjI allI impI ballI)
    fix q :: nat and u :: tid assume q: "q < 32"
    show "bit (rt_thread_ready_priority_group (on_links (rt_list_init (addr Soft_timers)) k2)) q \<longleftrightarrow> ?Q q \<noteq> []"
      using b10 [OF q] by (simp add: on_links_def k2_def)
    assume u: "u \<in> set (?Q q)"
    then have "u = m" "q = 10" by (auto split: if_splits)
    then show "u \<in> {m}" "mask_ok (threads (on_links (rt_list_init (addr Soft_timers)) k2) u)"
      "unat (current_priority (threads (on_links (rt_list_init (addr Soft_timers)) k2) u)) = q"
      using th pr by (simp_all add: on_links_def thread_ok_def)
  qed (use r2 in \<open>simp add: on_links_def\<close>)
  moreover have "threads_ok {m} ?Q k2"
    using th s2 by (auto simp: threads_ok_def in_queue_def)
  moreover have "timers_ok {m} [] b k2"
    by (simp add: timers_ok_def f2(2) k0_def created_fields)
  ultimately show thesis
    using that [OF run] f0 f1 pr by (simp add: k2_def kernel_defs) (simp add: k0_def created_fields)
qed

text \<open>A thread that was created and made ready keeps the priority it was created with.\<close>

lemma created_priority:
  assumes "sched_same (created t a sz p n k) k'"
  shows "current_priority (threads k' t) = p" "u \<noteq> t \<Longrightarrow> current_priority (threads k' u) = current_priority (threads k u)"
  using sched_same_ok(3) [OF assms]
  by (simp_all add: created_fields) (simp add: created_def rt_thread_init_def rt_timer_init_def Let_def kernel_defs)

text \<open>The first switch: the head of the most important queue runs.\<close>

lemma scheduler_start_ok:
  assumes ok: "lists_ok T Q [] None k" "threads_ok T Q k" "timers_ok T [] (rt_tick k) k" and cur: "rt_current_thread k = None"
    and t: "t \<in> T" "thread_stat k t = 1"
    and top: "\<And>u. u \<in> T \<Longrightarrow> u \<noteq> t \<Longrightarrow> current_priority (threads k t) < current_priority (threads k u)"
  obtains k' Q' where "rt_system_scheduler_start k = Some k'" "kernel_at False T Q' [] k'" "rt_current_thread k' = Some t"
    "\<forall>u. thread_stat k' u = (if u = t then 3 else thread_stat k u)" "thread_objects k' = thread_objects k"
    "rt_scheduler_lock_nest k' = rt_scheduler_lock_nest k"
proof -
  have tq: "t \<in> set (Q (unat (current_priority (threads k t))))" "unat (current_priority (threads k t)) < 32"
    using ready_in_queue [OF ok(1,2) t] by simp_all
  have g: "rt_thread_ready_priority_group k \<noteq> 0" using ok(1) tq by (auto simp: lists_ok_def)
  obtain p v ts where p: "p < 32" "Q p = v # ts" "\<forall>q < p. Q q = []" "get_highest_priority_thread k = Some (v, p)"
    using highest_thread [OF ok(1) g] by blast
  have v: "v \<in> T" "unat (current_priority (threads k v)) = p" using ok(1) p(1,2) by (auto simp: lists_ok_def)
  have "p \<le> unat (current_priority (threads k t))" using p(3) tq(1) by (cases "unat (current_priority (threads k t)) < p") auto
  then have vt: "v = t" using top [OF v(1)] v(2) by (auto simp: word_less_nat_alt)
  define k1 where "k1 = k\<lparr>rt_current_thread := Some t\<rparr>"
  have l1: "lists_ok T Q [] None k1" using ok(1) lists_ok_cong [of k1 k T Q "[]" None] by (simp add: k1_def)
  obtain h g where e: "rt_schedule_remove_thread t k1 = Some (k1\<lparr>links := h, rt_thread_ready_priority_group := g\<rparr>)"
    "lists_ok T (Q(p := remove1 t (Q p))) [] None (k1\<lparr>links := h, rt_thread_ready_priority_group := g\<rparr>)"
    using remove_thread [OF l1, of t p] p vt by auto
  define k2 where "k2 = k1\<lparr>links := h, rt_thread_ready_priority_group := g\<rparr>"
  define k' where "k' = upd_thread t (\<lambda>th. th\<lparr>stat := RT_THREAD_RUNNING\<rparr>) k2"
  have run: "rt_system_scheduler_start k = Some k'"
    using p(4) e(1) vt by (simp add: rt_system_scheduler_start_def k1_def [symmetric] k2_def k'_def)
  have s: "thread_stat k' u = (if u = t then 3 else thread_stat k u)" for u
    by (simp add: k'_def k2_def k1_def upd_thread_def thread_stat_def)
  have same: "sched_same k k'" by (simp add: k'_def k2_def k1_def upd_thread_def sched_same_def)
  have cur': "rt_current_thread k' = Some t" by (simp add: k'_def k2_def k1_def upd_thread_def)
  have l': "lists_ok T (Q(p := ts)) [] None k'"
    using e(2) p(2) vt lists_ok_cong [of k' k2 T "Q(p := ts)" "[]" None] by (simp add: k'_def k2_def upd_thread_def)
  have iq: "in_queue (Q(p := ts)) u \<longleftrightarrow> in_queue Q u \<and> u \<noteq> t" for u
    using in_queue_tl [OF ok(1) p(2,1), of u] vt by simp
  have th: "threads_ok T (Q(p := ts)) k'"
  proof (rule threads_okI [OF same ok(2)], intro conjI impI)
    fix u assume u: "u \<in> T"
    show "thread_stat k' u \<in> {1, 2, 3}" using threads_okD(2) [OF ok(2) u] by (auto simp: s)
    show "thread_stat k' u = 1 \<longleftrightarrow> in_queue (Q(p := ts)) u"
      using threads_okD(3) [OF ok(2) u] by (simp add: s iq)
    show "rt_current_thread k' = Some u" if "thread_stat k' u = 3"
      using threads_okD(4) [OF ok(2) u] that cur cur' by (cases "u = t") (simp_all add: s)
  qed
  have "current_ok T k'" using t(1) cur' s by (simp add: current_ok_def)
  moreover have "timers_ok T [] (rt_tick k') k'"
    using ok(3) same by (simp add: timers_ok_def sched_same_def)
  moreover have "top_runs T k'"
    unfolding top_runs_def
  proof (intro impI allI)
    fix c u assume "rt_current_thread k' = Some c" "u \<in> T"
    then show "current_priority (threads k' c) \<le> current_priority (threads k' u)"
      using top [of u] cur' sched_same_ok(3) [OF same] by (cases "u = t") (auto intro: less_imp_le)
  qed
  ultimately have "kernel_at False T (Q(p := ts)) [] k'" using l' th by (simp add: kernel_at_defs states_ok_def)
  then show thesis using that [OF run _ cur'] s same by (simp add: sched_same_def)
qed

lemma all_ready:
  assumes cur: "rt_current_thread k = None" and objs: "thread_objects k = []"
    and d: "distinct [m, timer_thread k, i]"
    and st: "stack_fits main_stack 2048" "stack_fits timer_stack 512" "stack_fits idle_stack 256"
  defines "T \<equiv> insert i (insert (timer_thread k) {m})"
  obtains k5 Q where "rtthread_startup m i main_stack timer_stack idle_stack k = rt_system_scheduler_start k5"
    "lists_ok T Q [] None k5" "threads_ok T Q k5" "timers_ok T [] (rt_tick k5) k5"
    "rt_current_thread k5 = None" "thread_objects k5 = [i, timer_thread k, m]" "rt_scheduler_lock_nest k5 = 0"
    "thread_stat k5 (timer_thread k) = 1" "thread_stat k5 m = 1" "thread_stat k5 i = 1"
    "\<forall>u \<in> T. u \<noteq> timer_thread k \<longrightarrow> current_priority (threads k5 (timer_thread k)) < current_priority (threads k5 u)"
proof -
  define w where "w = timer_thread k"
  define b where "b = rt_tick k"
  obtain k2 where m: "rt_application_init m main_stack (rt_system_scheduler_init (rt_system_timer_init k)) = Some k2"
    "lists_ok {m} (\<lambda>p. if p = 10 then [m] else []) [] None (on_links (rt_list_init (addr Soft_timers)) k2)"
    "threads_ok {m} (\<lambda>p. if p = 10 then [m] else []) k2" "timers_ok {m} [] b k2"
    "rt_current_thread k2 = None" "thread_objects k2 = m # thread_objects k" "timer_thread k2 = timer_thread k"
    "rt_tick k2 = rt_tick k" "rt_scheduler_lock_nest k2 = 0" "unat (current_priority (threads k2 m)) = 10"
    by (rule main_thread_ready [OF cur st(1)])
  define k3 where "k3 = on_links (rt_list_init (addr Soft_timers)) k2"
  have f3: "threads k3 = threads k2" "timers k3 = timers k2" "rt_current_thread k3 = None" "timer_thread k3 = w"
    "thread_objects k3 = [m]" "rt_tick k3 = b" "rt_scheduler_lock_nest k3 = 0"
    using m objs by (simp_all add: k3_def on_links_def w_def b_def)
  have l3: "lists_ok {m} (\<lambda>p. if p = 10 then [m] else []) [] None k3" using m(2) by (simp add: k3_def)
  have t3: "threads_ok {m} (\<lambda>p. if p = 10 then [m] else []) k3"
    using m(3,5) threads_ok_cong [of "{m}" k3 k2] by (simp add: f3 thread_stat_def)
  have tm3: "timers_ok {m} [] b k3" using m(4) by (simp add: timers_ok_def f3)
  have w: "w \<notin> {m}" "rt_current_thread k3 \<noteq> Some w" using d f3(3) by (auto simp: w_def)
  have p4: "unat (4 :: u8) < 32" "unat (31 :: u8) < 32" by simp_all
  obtain k4 Q4 where k4:
    "rt_thread_startup w (rt_thread_init w timer_stack 512 4 10 k3) = (if rt_current_thread k3 \<noteq> None then rt_schedule k4 else Some k4)"
    "lists_ok (insert w {m}) Q4 [] None k4" "threads_ok (insert w {m}) Q4 k4" "timers_ok (insert w {m}) [] b k4"
    "sched_same (created w timer_stack 512 4 10 k3) k4" "rt_current_thread k4 = rt_current_thread k3"
    "\<forall>u. thread_stat k4 u = (if u = w then 1 else thread_stat k3 u)"
    by (rule startup_ready [OF l3 t3 tm3 w(1) p4(1) st(2) w(2)])
  have i: "i \<notin> insert w {m}" "rt_current_thread k4 \<noteq> Some i" using d k4(6) f3(3) by (auto simp: w_def)
  obtain k5 Q5 where k5:
    "rt_thread_startup i (rt_thread_init i idle_stack 256 31 32 k4) = (if rt_current_thread k4 \<noteq> None then rt_schedule k5 else Some k5)"
    "lists_ok (insert i (insert w {m})) Q5 [] None k5" "threads_ok (insert i (insert w {m})) Q5 k5"
    "timers_ok (insert i (insert w {m})) [] b k5"
    "sched_same (created i idle_stack 256 31 32 k4) k5" "rt_current_thread k5 = rt_current_thread k4"
    "\<forall>u. thread_stat k5 u = (if u = i then 1 else thread_stat k4 u)"
    by (rule startup_ready [OF k4(2,3,4) i(1) p4(2) st(3) i(2)])
  have ne: "w \<noteq> i" "m \<noteq> w" "m \<noteq> i" using d by (auto simp: w_def)
  have pr: "current_priority (threads k5 i) = 31" "current_priority (threads k5 w) = 4" "unat (current_priority (threads k5 m)) = 10"
    using created_priority [OF k5(5)] created_priority [OF k4(5)] ne m(10) f3(1) by simp_all
  have f5: "rt_tick k5 = b" "thread_objects k5 = [i, w, m]" "rt_current_thread k5 = None" "rt_scheduler_lock_nest k5 = 0"
    using k5(5,6) k4(5,6) f3 by (simp_all add: sched_same_def created_fields)
  have "thread_stat k2 m = 1" using threads_okD(3) [OF m(3), of m] by (simp add: in_queue_def)
  then have s5: "thread_stat k5 w = 1" "thread_stat k5 m = 1" "thread_stat k5 i = 1"
    using k5(7) k4(7) ne f3(1) by (simp_all add: thread_stat_def)
  have m10: "current_priority (threads k5 m) = 10" using pr(3) by (simp add: word_unat_eq_iff)
  have top: "current_priority (threads k5 w) < current_priority (threads k5 u)" if "u \<in> insert i (insert w {m})" "u \<noteq> w" for u
    using that pr m10 by auto
  have tm5: "timers_ok (insert i (insert w {m})) [] (rt_tick k5) k5" using k5(4) f5(1) by simp
  have "rt_system_timer_thread_init timer_stack k2 = Some k4"
    using k4(1) f3(3,4) by (simp add: rt_system_timer_thread_init_def Let_def k3_def [symmetric])
  moreover have "rt_thread_idle_init i idle_stack k4 = Some k5"
    using k5(1) k4(6) f3(3) by (simp add: rt_thread_idle_init_def)
  ultimately have "rtthread_startup m i main_stack timer_stack idle_stack k = rt_system_scheduler_start k5"
    using m(1) by (simp add: rtthread_startup_def Let_def)
  then show thesis using that k5(2,3) tm5 f5(2-4) s5 top unfolding T_def w_def by blast
qed

lemma startup_ok:
  assumes cur: "rt_current_thread k = None" and objs: "thread_objects k = []"
    and d: "distinct [m, timer_thread k, i]"
    and st: "stack_fits main_stack 2048" "stack_fits timer_stack 512" "stack_fits idle_stack 256"
  obtains k' where "rtthread_startup m i main_stack timer_stack idle_stack k = Some k'"
    "kernel_inv k' \<and> top_runs (set (thread_objects k')) k'" "rt_current_thread k' = Some (timer_thread k)" "thread_stat k' (timer_thread k) = 3"
    "thread_stat k' m = 1" "thread_stat k' i = 1"
    "set (thread_objects k') = {m, timer_thread k, i}" "rt_scheduler_lock_nest k' = 0"
proof -
  define w where "w = timer_thread k"
  define T where "T = insert i (insert w {m})"
  obtain k5 Q where k5: "rtthread_startup m i main_stack timer_stack idle_stack k = rt_system_scheduler_start k5"
    "lists_ok T Q [] None k5" "threads_ok T Q k5" "timers_ok T [] (rt_tick k5) k5"
    "rt_current_thread k5 = None" "thread_objects k5 = [i, w, m]" "rt_scheduler_lock_nest k5 = 0"
    "thread_stat k5 w = 1" "thread_stat k5 m = 1" "thread_stat k5 i = 1"
    "\<forall>u \<in> T. u \<noteq> w \<longrightarrow> current_priority (threads k5 w) < current_priority (threads k5 u)"
    unfolding T_def w_def by (rule all_ready [OF cur objs d st])
  have wT: "w \<in> T" by (simp add: T_def)
  obtain k' Q' where k': "rt_system_scheduler_start k5 = Some k'" "kernel_at False T Q' [] k'"
    "rt_current_thread k' = Some w" "\<forall>u. thread_stat k' u = (if u = w then 3 else thread_stat k5 u)"
    "thread_objects k' = thread_objects k5" "rt_scheduler_lock_nest k' = rt_scheduler_lock_nest k5"
    by (rule scheduler_start_ok [OF k5(2-5) wT k5(8)]) (use k5(11) in blast)+
  have o: "set (thread_objects k') = T" using k'(5) k5(6) by (auto simp: T_def)
  moreover have "kernel_inv k' \<and> top_runs (set (thread_objects k')) k'"
    using k'(2) o unfolding kernel_inv_def kernel_at_def by auto
  moreover have "m \<noteq> w" "i \<noteq> w" using d by (auto simp: w_def)
  moreover have "T = {m, timer_thread k, i}" by (auto simp: T_def w_def)
  ultimately show thesis using that [of k'] k5(1,7,9,10) k'(1,3,4,6) by (simp add: w_def)
qed

section \<open>The ready queues as lists\<close>

text \<open>What walking the ring of priority \<open>p\<close> yields.\<close>

definition ready_queue :: "kernel_t \<Rightarrow> nat \<Rightarrow> tid list" where
  "ready_queue k p = (case rt_list_for_each (links k) (addr (Queue p)) of
     Some xs \<Rightarrow> map thread_entry xs | None \<Rightarrow> [])"

lemma ready_queue_ok:
  assumes "lists_ok T Q W L k" "p < 32"
  shows "ready_queue k p = Q p"
proof -
  have "dchain (links k) (addr (Queue p)) (map addr (map Tlist (Q p)))"
    by (rule ringsD [OF lists_ok_rings [OF assms(1)]]) (use assms(2) in simp)
  then have "rt_list_for_each (links k) (addr (Queue p)) = Some (map addr (map Tlist (Q p)))"
    unfolding rt_list_for_each_def dchain_def by (intro rt_list_for_each_loop_dseg) auto
  then show ?thesis by (simp add: ready_queue_def comp_def)
qed

lemma find_cong: "(\<And>x. x \<in> set xs \<Longrightarrow> P x = P' x) \<Longrightarrow> List.find P xs = List.find P' xs"
  by (induction xs) auto

lemma schedule_spec_cong:
  assumes "\<And>p. p < 32 \<Longrightarrow> Q p = Q' p" "prio < 32"
  shows "fst (schedule_spec c r y prio Q) = fst (schedule_spec c r y prio Q') \<and>
    (p < 32 \<longrightarrow> snd (schedule_spec c r y prio Q) p = snd (schedule_spec c r y prio Q') p)"
proof -
  have f: "List.find (\<lambda>p. Q p \<noteq> []) [0..<32] = List.find (\<lambda>p. Q' p \<noteq> []) [0..<32]"
    by (rule find_cong) (use assms(1) in simp)
  show ?thesis
  proof (cases "List.find (\<lambda>p. Q' p \<noteq> []) [0..<32]")
    case None
    then show ?thesis using assms(1) by (simp add: schedule_spec_def f)
  next
    case (Some q)
    have "q < 32" using find_queue [OF Some] by simp
    then show ?thesis using assms Some by (simp add: schedule_spec_def f Let_def)
  qed
qed

text \<open>The kernel's variables at reset and a call-back that does nothing, for the examples.\<close>

definition kernel_reset :: kernel_t where
  "kernel_reset = \<lparr>
     threads = (\<lambda>_. \<lparr>sp = 0, stack_addr = 0, stack_size = 0, stack_mark = 0, thread_error = 0, stat = 0, current_priority = 0,
       init_priority = 0, number_mask = 0, init_tick = 0, remaining_tick = 0\<rparr>),
     timers = (\<lambda>_. \<lparr>tm_flag = 0, timeout_func = Callback 0, tm_init_tick = 0, timeout_tick = 0\<rparr>),
     links = \<lparr>dnext = (\<lambda>_. 0), dprev = (\<lambda>_. 0)\<rparr>, thread_objects = [], rt_thread_ready_priority_group = 0,
     rt_scheduler_lock_nest = 0, rt_current_thread = None, rt_current_priority = 0, rt_interrupt_nest = 0, rt_tick = 0,
     uwTick = 0, random_nr = 0, soft_timer_status = 1, timer_thread = 1\<rparr>"

definition no_callback :: "nat \<Rightarrow> kernel_t \<Rightarrow> kernel_t option" where
  "no_callback n k = Some k"

lemma change_priority_current:
  assumes "change_priority t p k = Some k'" "rt_current_thread k = Some c"
  shows "rt_current_thread k' = Some c"
  using assms
  by (auto simp: change_priority_def rt_schedule_insert_thread_def rt_schedule_remove_thread_def kernel_defs Let_def
      split: if_splits Option.bind_splits)

lemma reset_starts:
  obtains k where "rtthread_startup 0 2 0x20001000 0x20002000 0x20003000 kernel_reset = Some k" "kernel_inv k"
    "rt_current_thread k = Some 1" "thread_stat k 1 = 3" "thread_stat k 0 = 1" "set (thread_objects k) = {0, 1, 2}"
    "rt_scheduler_lock_nest k = 0" "top_runs (set (thread_objects k)) k"
proof -
  have f: "rt_current_thread kernel_reset = None" "thread_objects kernel_reset = []" "timer_thread kernel_reset = 1"
    by (simp_all add: kernel_reset_def)
  have d: "distinct [0, timer_thread kernel_reset, 2]" by (simp add: f)
  have s: "stack_fits 0x20001000 2048" "stack_fits 0x20002000 512" "stack_fits 0x20003000 256"
    by (simp_all add: stack_fits_def rt_hw_stack_init_def)
  show thesis by (rule startup_ok [OF f(1,2) d s]) (use that f(3) in auto)
qed

section \<open>Runs\<close>

lemma event_inv:
  assumes "kernel_inv k" "legal e k"
  shows "\<exists>k'. kernel_step cb e k = Some k' \<and> kernel_inv k'"
proof -
  obtain Q W where "kernel_at True (set (thread_objects k)) Q W k" using assms(1) by (auto simp: kernel_inv_def kernel_at_def)
  from event_ok [OF this assms(2), of cb] show ?thesis
    by (auto simp: event_result_def kernel_inv_def kernel_at_def)
qed

lemma run_at:
  "kernel_at d (set (thread_objects k)) Q W k \<Longrightarrow> kernel_run cb es k = Some k' \<Longrightarrow>
   \<exists>Q' W'. kernel_at (fold decision_due es d) (set (thread_objects k')) Q' W' k'"
proof (induction es arbitrary: k d Q W)
  case (Cons e es)
  then obtain k1 where l: "legal e k" and s: "kernel_step cb e k = Some k1" "kernel_run cb es k1 = Some k'"
    by (auto split: if_splits Option.bind_splits)
  obtain Q1 W1 where "kernel_at (decision_due e d) (set (thread_objects k1)) Q1 W1 k1"
    using event_ok [OF Cons.prems(1) l, of cb] s(1) by (auto simp: event_result_def)
  from Cons.IH [OF this s(2)] show ?case by simp
qed auto

section \<open>Properties\<close>

text \<open>
  C21. Start-up. From any reset state with no thread yet, three distinct thread objects and stacks that
  hold their first frame, \<^verbatim>\<open>rtthread_startup\<close> returns a well-formed kernel with exactly the
  main, timer and idle threads, and the timer thread, the most important one, running.\<close>

theorem kernel_starts:
  assumes "rt_current_thread k = None" "thread_objects k = []" "distinct [m, timer_thread k, i]"
    and "stack_fits main_stack 2048" "stack_fits timer_stack 512" "stack_fits idle_stack 256"
  shows "\<exists>k'. rtthread_startup m i main_stack timer_stack idle_stack k = Some k' \<and> kernel_inv k' \<and>
    top_runs (set (thread_objects k')) k' \<and>
    rt_current_thread k' = Some (timer_thread k) \<and> thread_stat k' (timer_thread k) = 3 \<and>
    thread_stat k' m = 1 \<and> thread_stat k' i = 1 \<and> set (thread_objects k') = {m, timer_thread k, i}"
  by (rule startup_ok [OF assms]) blast

theorem kernel_starts_witness:
  "\<exists>k. rtthread_startup 0 2 0x20001000 0x20002000 0x20003000 kernel_reset = Some k \<and> rt_current_thread k = Some 1"
  using kernel_starts [of kernel_reset 0 2 "0x20001000" "0x20002000" "0x20003000"]
  by (simp add: kernel_reset_def stack_fits_def rt_hw_stack_init_def) blast

text \<open>
  C17. No section and no tick breaks the kernel. The steps are those of \<open>kevent\<close>: the tick interrupt, and
  of the calls that sleep, suspend, resume, create and start threads, yield, change a priority, lock the
  scheduler and schedule, each section that runs with interrupts disabled. In every well-formed state, so in
  whatever order they follow each other, every step that is \<open>legal\<close> there completes (no list is
  corrupted, no loop runs on, no index leaves its array) and leaves a well-formed state.\<close>

theorem kernel_calls_safe:
  assumes "kernel_inv k" "legal e k"
  shows "\<exists>k'. kernel_step cb e k = Some k' \<and> kernel_inv k'"
  by (rule event_inv [OF assms])

theorem kernel_calls_safe_witness:
  "\<exists>k k'. rtthread_startup 0 2 0x20001000 0x20002000 0x20003000 kernel_reset = Some k \<and>
     kernel_step no_callback (Sleep 20) k = Some k' \<and> kernel_inv k'"
proof (rule reset_starts)
  fix k assume k: "rtthread_startup 0 2 0x20001000 0x20002000 0x20003000 kernel_reset = Some k" "kernel_inv k"
    "rt_current_thread k = Some 1" "thread_stat k 1 = 3"
  then have "legal (Sleep 20) k" by (simp add: current_runs_def)
  with kernel_calls_safe [OF k(2), of "Sleep 20" no_callback] k(1) show ?thesis by blast
qed

text \<open>
  C18. Priorities. After any run of the steps of \<open>kevent\<close> from a state in which the most important thread runs, such as
  start-up leaves, and with the scheduler unlocked: unless \<^verbatim>\<open>rt_schedule\<close> is still due after a
  section that made a thread ready, changed a priority or unlocked the scheduler, no ready thread is more
  important than the one that runs. Only the current thread runs, in any case.\<close>

theorem most_important_runs:
  assumes "kernel_inv k" "top_runs (set (thread_objects k)) k" "kernel_run cb es k = Some k'" "rt_scheduler_lock_nest k' = 0"
    and "rt_current_thread k' = Some c" "thread_stat k' c = 3" "u \<in> set (thread_objects k')"
  shows "(\<not> fold decision_due es False \<longrightarrow> thread_stat k' u = 1 \<longrightarrow>
      current_priority (threads k' c) \<le> current_priority (threads k' u)) \<and>
    (thread_stat k' u = 3 \<longrightarrow> u = c)"
proof -
  obtain Q W where "kernel_at False (set (thread_objects k)) Q W k"
    using assms(1,2) by (auto simp: kernel_inv_def kernel_at_def)
  from run_at [OF this assms(3)] show ?thesis
    using assms(4-7) by (auto simp: kernel_at_defs top_runs_def states_ok_def threads_ok_def)
qed

theorem most_important_runs_witness:
  "\<exists>k. rtthread_startup 0 2 0x20001000 0x20002000 0x20003000 kernel_reset = Some k \<and>
     rt_scheduler_lock_nest k = 0 \<and> current_priority (threads k 1) \<le> current_priority (threads k 0)"
proof (rule reset_starts)
  fix k assume k: "rtthread_startup 0 2 0x20001000 0x20002000 0x20003000 kernel_reset = Some k" "kernel_inv k"
    "rt_current_thread k = Some 1" "thread_stat k 1 = 3" "thread_stat k 0 = 1" "set (thread_objects k) = {0, 1, 2}" "rt_scheduler_lock_nest k = 0"
    "top_runs (set (thread_objects k)) k"
  with most_important_runs [OF k(2,8), of no_callback "[]" k 1 0] show ?thesis by auto
qed

text \<open>
  C19. The scheduler. In every well-formed state, also when a more important thread is ready than the one that
  runs, \<^verbatim>\<open>rt_schedule\<close> is on the ready queues, read off the store, the
  specification \<open>schedule_spec\<close>: the running thread stays if no ready thread is more important (nor as
  important, when it yields), else it goes to the end of its queue and the head of the most important queue is switched to.
  Nothing moves while the scheduler is locked. After it the most important thread runs.\<close>

theorem rt_schedule_refines:
  assumes "kernel_inv k" "rt_current_thread k = Some c"
  shows "\<exists>k'. rt_schedule k = Some k' \<and> kernel_inv k' \<and> top_runs (set (thread_objects k')) k' \<and>
    rt_current_thread k' = Some (fst (schedule_result k c (ready_queue k))) \<and>
    (\<forall>p < 32. ready_queue k' p = snd (schedule_result k c (ready_queue k)) p)"
proof -
  obtain Q W where k: "kernel_ok (set (thread_objects k)) Q W k" using assms(1) by (auto simp: kernel_inv_def)
  then have ok: "lists_ok (set (thread_objects k)) Q W None k" "states_ok (set (thread_objects k)) Q k"
    by (simp_all add: kernel_ok_def)
  obtain c' Q' where res: "schedule_result k c Q = (c', Q')" by fastforce
  obtain k' where k': "rt_schedule k = Some k'" "rt_current_thread k' = Some c'" "lists_ok (set (thread_objects k)) Q' W None k'"
    using schedule_ok [OF ok assms(2) res] by blast
  have q: "ready_queue k p = Q p" if "p < 32" for p by (rule ready_queue_ok [OF ok(1) that])
  have "unat (current_priority (threads k c)) < 32"
    using ok(2) assms(2) by (auto simp: states_defs thread_ok_def mask_ok_def)
  then have "fst (schedule_result k c (ready_queue k)) = c' \<and> (p < 32 \<longrightarrow> snd (schedule_result k c (ready_queue k)) p = Q' p)" for p
    using schedule_spec_cong [of "ready_queue k" Q] q res by (auto simp: schedule_result_def split: if_splits)
  moreover have "kernel_at True (set (thread_objects k)) Q W k" using k by (simp add: kernel_at_def)
  then have "kernel_inv k' \<and> top_runs (set (thread_objects k')) k'"
    using event_ok [of True k Q W Schedule no_callback] k'(1) by (auto simp: event_result_def kernel_inv_def kernel_at_def)
  ultimately show ?thesis using k' ready_queue_ok [OF k'(3)] by auto
qed

theorem rt_schedule_refines_witness:
  "\<exists>k k1 k'. rtthread_startup 0 2 0x20001000 0x20002000 0x20003000 kernel_reset = Some k \<and>
     change_priority 0 2 k = Some k1 \<and> rt_schedule k1 = Some k' \<and>
     rt_current_thread k' = Some (fst (schedule_result k1 1 (ready_queue k1)))"
proof (rule reset_starts)
  fix k assume k: "rtthread_startup 0 2 0x20001000 0x20002000 0x20003000 kernel_reset = Some k" "kernel_inv k"
    "rt_current_thread k = Some 1" "set (thread_objects k) = {0, 1, 2}" "thread_stat k 0 = 1"
  then have "legal (Change_priority 0 2) k" by simp
  then obtain k1 where k1: "change_priority 0 2 k = Some k1" "kernel_inv k1"
    using event_inv [OF k(2), of "Change_priority 0 2" no_callback] by auto
  have "rt_current_thread k1 = Some 1" by (rule change_priority_current [OF k1(1) k(3)])
  with rt_schedule_refines [OF k1(2)] k(1) k1(1) show ?thesis by blast
qed

section \<open>Sleeping\<close>

definition ticks :: "kevent list \<Rightarrow> nat" where
  "ticks es = length (filter (\<lambda>e. e = Tick) es)"

definition asleep :: "tid \<Rightarrow> nat \<Rightarrow> kernel_t \<Rightarrow> bool" where
  "asleep c d k \<longleftrightarrow> (\<exists>Q W. kernel_at True (set (thread_objects k)) Q W k \<and> c \<in> set W \<and> due (rt_tick k) k c = d)"

lemma asleep_stat: "asleep c d k \<Longrightarrow> thread_stat k c = 2"
  by (auto simp: asleep_def kernel_at_defs timers_ok_def)

lemma asleep_step:
  assumes a: "asleep c d k" and l: "legal e k" and s: "kernel_step cb e k = Some k'" and d: "e = Tick \<longrightarrow> 1 < d" "e \<noteq> Unlink c"
  shows "asleep c (if e = Tick then d - 1 else d) k'"
proof -
  obtain Q W where k: "kernel_at True (set (thread_objects k)) Q W k" "c \<in> set W" "due (rt_tick k) k c = d"
    using a by (auto simp: asleep_def)
  have "event_result True e W k k'" using event_ok [OF k(1) l, of cb] s by simp
  then obtain Q' W' where k': "kernel_at (decision_due e True) (set (thread_objects k')) Q' W' k'"
    "rt_tick k' = rt_tick k + (if e = Tick then 1 else 0)"
    "timeout_tick (timers k' c) = timeout_tick (timers k c)" "c \<in> set W'"
    using k(2,3) d unfolding event_result_def by blast
  have "due (rt_tick k') k' c = (if e = Tick then d - 1 else d)"
    using k(3) d k'(2,3) due_shift [of "timeout_tick (timers k c)" "rt_tick k"] by (simp add: due_def)
  with k'(4) kernel_at_weaken(2) [OF k'(1)] show ?thesis unfolding asleep_def by blast
qed

lemma asleep_run:
  "asleep c d k \<Longrightarrow> kernel_run cb es k = Some k' \<Longrightarrow> ticks es < max 1 d \<Longrightarrow> Unlink c \<notin> set es \<Longrightarrow> asleep c (d - ticks es) k'"
proof (induction es arbitrary: k d)
  case (Cons e es)
  then obtain k1 where l: "legal e k" and s: "kernel_step cb e k = Some k1" "kernel_run cb es k1 = Some k'"
    by (auto split: if_splits Option.bind_splits)
  have d: "e = Tick \<longrightarrow> 1 < d" "e \<noteq> Unlink c" using Cons.prems(3,4) by (auto simp: ticks_def)
  have a: "asleep c (if e = Tick then d - 1 else d) k1" by (rule asleep_step [OF Cons.prems(1) l s(1) d])
  have "asleep c ((if e = Tick then d - 1 else d) - ticks es) k'"
    by (rule Cons.IH [OF a s(2)]) (use Cons.prems(3,4) in \<open>auto simp: ticks_def\<close>)
  then show ?case by (auto simp: ticks_def split: if_splits)
qed (simp add: ticks_def)

lemma asleep_tick:
  assumes "asleep c d k"
  shows "\<exists>k'. kernel_step cb Tick k = Some k' \<and> (thread_stat k' c = 2 \<longleftrightarrow> 1 < d)"
proof -
  obtain Q W where k: "kernel_at True (set (thread_objects k)) Q W k" "c \<in> set W" "due (rt_tick k) k c = d"
    using assms by (auto simp: asleep_def)
  have "thread_stat k c = 2" by (rule asleep_stat [OF assms])
  with k show ?thesis
    by (rule_tac SysTick_Handler_ok [OF k(1), of cb]) (auto simp: not_le)
qed

lemma sleep_sleeps:
  assumes "kernel_inv k" "rt_current_thread k = Some c" "thread_stat k c = 3" "n < HALF_TICK_MAX" "sleep_begin n k = Some k1"
  shows "asleep c (unat n) k1"
proof -
  obtain Q W where k: "kernel_at True (set (thread_objects k)) Q W k" using assms(1) by (auto simp: kernel_inv_def kernel_at_def)
  show ?thesis
    by (rule sleep_begin_ok [OF k assms(2-4)]) (use assms(5) in \<open>auto simp: asleep_def due_def\<close>)
qed

text \<open>
  C20. Sleeping. A thread that sleeps \<open>n\<close> ticks, whatever else happens meanwhile short of a resume of
  that thread, is suspended until the tick interrupt number \<open>n\<close> (the first one for \<open>n = 0\<close>) and no longer: that interrupt makes it ready, or
  running. The count wraps with the tick counter.\<close>

theorem sleep_wakes:
  assumes "kernel_inv k" "rt_current_thread k = Some c" "kernel_run cb (Sleep n # es) k = Some k'" "ticks es < max 1 (unat n)"
    and "Unlink c \<notin> set es"
  shows "thread_stat k' c = 2 \<and>
    (\<exists>k''. SysTick_Handler cb k' = Some k'' \<and> (thread_stat k'' c = 2 \<longleftrightarrow> ticks es + 1 < unat n))"
proof -
  obtain k1 where l: "legal (Sleep n) k" and s: "sleep_begin n k = Some k1" "kernel_run cb es k1 = Some k'"
    using assms(3) by (auto split: if_splits Option.bind_splits)
  have "thread_stat k c = 3" "n < HALF_TICK_MAX" using l assms(2) by (auto simp: current_runs_def)
  then have "asleep c (unat n) k1" using sleep_sleeps assms(1,2) s(1) by blast
  then have a: "asleep c (unat n - ticks es) k'" by (rule asleep_run [OF _ s(2) assms(4,5)])
  show ?thesis using asleep_stat [OF a] asleep_tick [OF a, of cb] by (auto simp: less_diff_conv)
qed

theorem sleep_wakes_witness:
  "\<exists>k k' k''. rtthread_startup 0 2 0x20001000 0x20002000 0x20003000 kernel_reset = Some k \<and>
     kernel_run no_callback [Sleep 1, Schedule] k = Some k' \<and> thread_stat k' 1 = 2 \<and>
     SysTick_Handler no_callback k' = Some k'' \<and> thread_stat k'' 1 \<noteq> 2"
proof (rule reset_starts)
  fix k assume k: "rtthread_startup 0 2 0x20001000 0x20002000 0x20003000 kernel_reset = Some k" "kernel_inv k"
    "rt_current_thread k = Some 1" "thread_stat k 1 = 3"
  have l: "legal (Sleep 1) k" using k by (simp add: current_runs_def)
  obtain k1 where k1: "kernel_step no_callback (Sleep 1) k = Some k1" "kernel_inv k1"
    using event_inv [OF k(2) l, of no_callback] by blast
  obtain k2 where "kernel_step no_callback Schedule k1 = Some k2"
    using event_inv [OF k1(2), of Schedule no_callback] by auto
  with k1(1) l have r: "kernel_run no_callback [Sleep 1, Schedule] k = Some k2" by simp
  with sleep_wakes [OF k(2,3) r] k(1) show ?thesis by (auto simp: ticks_def)
qed

text \<open>Delays in milliseconds. \<^verbatim>\<open>rt_thread_mdelay(ms)\<close> with \<open>0 \<le> ms\<close> is a sleep of exactly
  \<open>ms\<close> ticks; a negative \<open>ms\<close> asks for the whole range of the counter.\<close>

lemma mdelay_ticks:
  "rt_tick_from_millisecond ms = (if sint ms < 0 then -1 else ms)"
proof (cases "sint ms < 0")
  case False
  define x where "x = sint ms"
  have x: "0 \<le> x" "ms = word_of_int x" using False by (simp_all add: x_def)
  have "(1000 * (x smod 1000) + 999) sdiv 1000 = x mod 1000"
    using x(1) by (simp add: sdiv_nonneg smod_nonneg)
  moreover have "1000 * (x sdiv 1000) = 1000 * (x div 1000)" using x(1) by (simp add: sdiv_nonneg)
  ultimately have "rt_tick_from_millisecond ms = word_of_int (1000 * (x div 1000)) + word_of_int (x mod 1000)"
    using False unfolding rt_tick_from_millisecond_def x_def [symmetric] by (simp only: if_False)
  also have "\<dots> = word_of_int (1000 * (x div 1000) + x mod 1000)" by (simp only: of_int_add)
  also have "1000 * (x div 1000) + x mod 1000 = x" by simp
  finally show ?thesis using False x(2) by simp
qed (simp add: rt_tick_from_millisecond_def)

end
