(* ===== verification/Hvac_Kservice.thy ===== *)
theory Hvac_Kservice
  imports Hvac_Prelude "HOL-Library.Sublist"
begin

text \<open>
  The memory and string routines of \<^verbatim>\<open>rt-thread/src/kservice.c\<close> on a byte memory: a
  memory gives the byte at every address, a \<^verbatim>\<open>long\<close> is its four bytes, low byte first.
  \<^verbatim>\<open>rt_memset\<close> and \<^verbatim>\<open>rt_memcpy\<close> work in words where the addresses are
  aligned; they are proved equal to one update of the whole range (\<open>fill\<close>,
  \<open>copy\<close>). \<^verbatim>\<open>char\<close> is unsigned, as on ARM. Pointers are natural numbers and
  do not wrap. A string loop that may run past every terminator is a
  \<open>partial_function (option)\<close>, \<open>None\<close> when it never ends; on a terminated string
  (\<open>cstr\<close>) each one is proved to end.
\<close>

type_synonym mem_t = "nat \<Rightarrow> u8"

section \<open>Words in memory\<close>

definition load16 :: "mem_t \<Rightarrow> nat \<Rightarrow> u16" where
  "load16 m a = mk16 (m (a + 1)) (m a)"

definition store16 :: "nat \<Rightarrow> u16 \<Rightarrow> mem_t \<Rightarrow> mem_t" where
  "store16 a w m = m(a := lo8 w, a + 1 := hi8 w)"

definition load32 :: "mem_t \<Rightarrow> nat \<Rightarrow> u32" where
  "load32 m a = ucast (m a) OR push_bit 8 (ucast (m (a + 1))) OR
     push_bit 16 (ucast (m (a + 2))) OR push_bit 24 (ucast (m (a + 3)))"

definition store32 :: "nat \<Rightarrow> u32 \<Rightarrow> mem_t \<Rightarrow> mem_t" where
  "store32 a w m = m(a := ucast w, a + 1 := ucast (drop_bit 8 w),
     a + 2 := ucast (drop_bit 16 w), a + 3 := ucast (drop_bit 24 w))"

section \<open>Filling and copying\<close>

fun memset_quads :: "nat \<Rightarrow> u32 \<Rightarrow> nat \<Rightarrow> mem_t \<Rightarrow> nat \<times> nat \<times> mem_t" where
  "memset_quads a buffer count m =
     (if 16 \<le> count
      then memset_quads (a + 16) buffer (count - 16)
             (store32 (a + 12) buffer (store32 (a + 8) buffer
               (store32 (a + 4) buffer (store32 a buffer m))))
      else (a, count, m))"

fun memset_words :: "nat \<Rightarrow> u32 \<Rightarrow> nat \<Rightarrow> mem_t \<Rightarrow> nat \<times> nat \<times> mem_t" where
  "memset_words a buffer count m =
     (if 4 \<le> count then memset_words (a + 4) buffer (count - 4) (store32 a buffer m)
      else (a, count, m))"

fun memset_bytes :: "nat \<Rightarrow> u8 \<Rightarrow> nat \<Rightarrow> mem_t \<Rightarrow> mem_t" where
  "memset_bytes a d 0 m = m"
| "memset_bytes a d (Suc count) m = memset_bytes (a + 1) d count (m(a := d))"

definition rt_memset :: "nat \<Rightarrow> u32 \<Rightarrow> nat \<Rightarrow> mem_t \<Rightarrow> nat \<times> mem_t" where
  "rt_memset s c count m =
     (let d = c AND 0xFF;
          (a, count, m) =
            (if \<not> count < 4 \<and> s mod 4 = 0
             then (let buffer = push_bit 8 d OR d;
                       buffer = buffer OR push_bit 16 buffer;
                       (a, count, m) = memset_quads s buffer count m
                   in memset_words a buffer count m)
             else (s, count, m))
      in (s, memset_bytes a (ucast d) count m))"

definition copy_word :: "nat \<Rightarrow> nat \<Rightarrow> mem_t \<Rightarrow> mem_t" where
  "copy_word d s m = store32 d (load32 m s) m"

fun memcpy_quads :: "nat \<Rightarrow> nat \<Rightarrow> nat \<Rightarrow> mem_t \<Rightarrow> nat \<times> nat \<times> nat \<times> mem_t" where
  "memcpy_quads d s len m =
     (if 16 \<le> len
      then memcpy_quads (d + 16) (s + 16) (len - 16)
             (copy_word (d + 12) (s + 12) (copy_word (d + 8) (s + 8)
               (copy_word (d + 4) (s + 4) (copy_word d s m))))
      else (d, s, len, m))"

fun memcpy_words :: "nat \<Rightarrow> nat \<Rightarrow> nat \<Rightarrow> mem_t \<Rightarrow> nat \<times> nat \<times> nat \<times> mem_t" where
  "memcpy_words d s len m =
     (if 4 \<le> len then memcpy_words (d + 4) (s + 4) (len - 4) (copy_word d s m)
      else (d, s, len, m))"

fun memcpy_bytes :: "nat \<Rightarrow> nat \<Rightarrow> nat \<Rightarrow> mem_t \<Rightarrow> mem_t" where
  "memcpy_bytes d s 0 m = m"
| "memcpy_bytes d s (Suc len) m = memcpy_bytes (d + 1) (s + 1) len (m(d := m s))"

definition rt_memcpy :: "nat \<Rightarrow> nat \<Rightarrow> nat \<Rightarrow> mem_t \<Rightarrow> nat \<times> mem_t" where
  "rt_memcpy dst src count m =
     (let (d, s, len, m) =
            (if \<not> count < 16 \<and> src mod 4 = 0 \<and> dst mod 4 = 0
             then (let (d, s, len, m) = memcpy_quads dst src count m
                   in memcpy_words d s len m)
             else (dst, src, count, m))
      in (dst, memcpy_bytes d s len m))"

text \<open>\<^verbatim>\<open>while (n--) *(--tmp) = *(--s);\<close>\<close>

fun memmove_down :: "nat \<Rightarrow> nat \<Rightarrow> nat \<Rightarrow> mem_t \<Rightarrow> mem_t" where
  "memmove_down tmp s 0 m = m"
| "memmove_down tmp s (Suc n) m =
     memmove_down (tmp - 1) (s - 1) n (m(tmp - 1 := m (s - 1)))"

definition rt_memmove :: "nat \<Rightarrow> nat \<Rightarrow> nat \<Rightarrow> mem_t \<Rightarrow> nat \<times> mem_t" where
  "rt_memmove dest src n m =
     (dest, if src < dest \<and> dest < src + n then memmove_down (dest + n) (src + n) n m
            else memcpy_bytes dest src n m)"

section \<open>Comparing and searching\<close>

fun rt_memcmp_at :: "mem_t \<Rightarrow> nat \<Rightarrow> nat \<Rightarrow> nat \<Rightarrow> int" where
  "rt_memcmp_at m cs ct 0 = 0"
| "rt_memcmp_at m cs ct (Suc count) =
     (let res = uint (m cs) - uint (m ct)
      in if res \<noteq> 0 then res else rt_memcmp_at m (cs + 1) (ct + 1) count)"

partial_function (option) strlen_loop :: "mem_t \<Rightarrow> nat \<Rightarrow> nat option" where
  "strlen_loop m sc = (if m sc \<noteq> 0 then strlen_loop m (sc + 1) else Some sc)"

definition rt_strlen :: "mem_t \<Rightarrow> nat \<Rightarrow> nat option" where
  "rt_strlen m s = map_option (\<lambda>sc. sc - s) (strlen_loop m s)"

function strnlen_loop :: "mem_t \<Rightarrow> nat \<Rightarrow> nat \<Rightarrow> nat \<Rightarrow> nat" where
  "strnlen_loop m s maxlen sc =
     (if m sc \<noteq> 0 \<and> sc - s < maxlen then strnlen_loop m s maxlen (sc + 1) else sc)"
  by pat_completeness auto
termination
  by (relation "measure (\<lambda>(m, s, maxlen, sc). s + maxlen - sc)") auto

definition rt_strnlen :: "mem_t \<Rightarrow> nat \<Rightarrow> nat \<Rightarrow> nat" where
  "rt_strnlen m s maxlen = strnlen_loop m s maxlen s - s"

partial_function (option) rt_strcmp :: "mem_t \<Rightarrow> nat \<Rightarrow> nat \<Rightarrow> int option" where
  "rt_strcmp m cs ct =
     (if m cs \<noteq> 0 \<and> m cs = m ct then rt_strcmp m (cs + 1) (ct + 1)
      else Some (uint (m cs) - uint (m ct)))"

definition signed_char :: "int \<Rightarrow> int" where
  "signed_char v = sint (word_of_int v :: u8)"

fun rt_strncmp :: "mem_t \<Rightarrow> nat \<Rightarrow> nat \<Rightarrow> nat \<Rightarrow> int" where
  "rt_strncmp m cs ct 0 = 0"
| "rt_strncmp m cs ct (Suc count) =
     (let res = signed_char (uint (m cs) - uint (m ct))
      in if res \<noteq> 0 \<or> m cs = 0 then res else rt_strncmp m (cs + 1) (ct + 1) count)"

definition lower :: "int \<Rightarrow> int" where
  "lower c = (if 65 \<le> c \<and> c \<le> 90 then c + 32 else c)"

partial_function (option) rt_strcasecmp :: "mem_t \<Rightarrow> nat \<Rightarrow> nat \<Rightarrow> int option" where
  "rt_strcasecmp m a b =
     (let ca = lower (uint (m a)); cb = lower (uint (m b))
      in if ca = cb \<and> ca \<noteq> 0 then rt_strcasecmp m (a + 1) (b + 1) else Some (ca - cb))"

fun strncpy_loop :: "nat \<Rightarrow> nat \<Rightarrow> nat \<Rightarrow> mem_t \<Rightarrow> mem_t" where
  "strncpy_loop d s 0 m = m"
| "strncpy_loop d s (Suc n) m =
     (let m' = m(d := m s)
      in if m s = 0 then memset_bytes (d + 1) 0 n m' else strncpy_loop (d + 1) (s + 1) n m')"

definition rt_strncpy :: "nat \<Rightarrow> nat \<Rightarrow> nat \<Rightarrow> mem_t \<Rightarrow> nat \<times> mem_t" where
  "rt_strncpy dst src n m = (dst, if n \<noteq> 0 then strncpy_loop dst src n m else m)"

text \<open>The search runs only for a pattern of at least one character, so \<^verbatim>\<open>l1\<close> is positive
  whenever the loop condition \<^verbatim>\<open>l1 >= l2\<close> holds.\<close>

fun strstr_loop :: "mem_t \<Rightarrow> nat \<Rightarrow> nat \<Rightarrow> nat \<Rightarrow> nat \<Rightarrow> nat" where
  "strstr_loop m s1 s2 0 l2 = 0"
| "strstr_loop m s1 s2 (Suc l1) l2 =
     (if l2 \<le> Suc l1
      then if rt_memcmp_at m s1 s2 l2 = 0 then s1 else strstr_loop m (s1 + 1) s2 l1 l2
      else 0)"

definition rt_strstr :: "mem_t \<Rightarrow> nat \<Rightarrow> nat \<Rightarrow> nat option" where
  "rt_strstr m s1 s2 =
     Option.bind (rt_strlen m s2) (\<lambda>l2.
       if l2 = 0 then Some s1
       else Option.bind (rt_strlen m s1) (\<lambda>l1. Some (strstr_loop m s1 s2 l1 l2)))"

declare memset_quads.simps [simp del] memset_words.simps [simp del] memcpy_quads.simps [simp del]
  memcpy_words.simps [simp del] strnlen_loop.simps [simp del]

section \<open>Ranges of memory\<close>

definition fill :: "nat \<Rightarrow> nat \<Rightarrow> u8 \<Rightarrow> mem_t \<Rightarrow> mem_t" where
  "fill a n d m = (\<lambda>x. if a \<le> x \<and> x < a + n then d else m x)"

definition copy :: "nat \<Rightarrow> nat \<Rightarrow> nat \<Rightarrow> mem_t \<Rightarrow> mem_t" where
  "copy d s n m = (\<lambda>x. if d \<le> x \<and> x < d + n then m (s + (x - d)) else m x)"

definition bytes_at :: "mem_t \<Rightarrow> nat \<Rightarrow> nat \<Rightarrow> u8 list" where
  "bytes_at m a n = map m [a..<a + n]"

lemma length_bytes_at [simp]: "length (bytes_at m a n) = n"
  by (simp add: bytes_at_def)

lemma nth_bytes_at [simp]: "i < n \<Longrightarrow> bytes_at m a n ! i = m (a + i)"
  by (simp add: bytes_at_def)

lemma bytes_at_Suc: "bytes_at m a (Suc n) = m a # bytes_at m (a + 1) n"
  by (simp add: bytes_at_def upt_conv_Cons del: upt_Suc)

lemma load16_store16 [simp]: "load16 (store16 a w m) a = w"
  by (simp add: load16_def store16_def)

lemma load32_store32 [simp]: "load32 (store32 a w m) a = w"
proof (rule bit_word_eqI)
  fix n
  assume "n < LENGTH(32)"
  then consider "n < 8" | "8 \<le> n" "n < 16" | "16 \<le> n" "n < 24" | "24 \<le> n" "n < 32"
    by fastforce
  then show "bit (load32 (store32 a w m) a) n \<longleftrightarrow> bit w n"
    by cases (auto simp: load32_def store32_def bit_simps)
qed

lemma store_other:
  "x < a \<or> a + 2 \<le> x \<Longrightarrow> store16 a v m x = m x"
  "x < a \<or> a + 4 \<le> x \<Longrightarrow> store32 a w m x = m x"
  by (auto simp: store16_def store32_def)

lemma load_cong:
  "\<lbrakk>m' a = m a; m' (a + 1) = m (a + 1)\<rbrakk> \<Longrightarrow> load16 m' a = load16 m a"
  "\<lbrakk>m' a = m a; m' (a + 1) = m (a + 1); m' (a + 2) = m (a + 2); m' (a + 3) = m (a + 3)\<rbrakk>
    \<Longrightarrow> load32 m' a = load32 m a"
  by (simp_all add: load16_def load32_def)

text \<open>Writing back a loaded word copies its four bytes, whatever the overlap.\<close>

lemma copy_word_eq: "copy_word d s m = copy d s 4 m"
proof
  fix x
  have b: "ucast (load32 m s) = m s" "ucast (drop_bit 8 (load32 m s)) = m (s + 1)"
    "ucast (drop_bit 16 (load32 m s)) = m (s + 2)" "ucast (drop_bit 24 (load32 m s)) = m (s + 3)"
    unfolding load32_def by (rule bit_word_eqI, auto simp: bit_simps dest: bit_imp_le_length)+
  consider "x = d" | "x = d + 1" | "x = d + 2" | "x = d + 3" | "x < d \<or> d + 4 \<le> x"
    by linarith
  then show "copy_word d s m x = copy d s 4 m x"
    by cases (auto simp: copy_word_def store32_def copy_def b)
qed

lemma fill_add: "fill (a + k) n d (fill a k d m) = fill a (k + n) d m"
  by (auto simp: fill_def)

lemma copy_add:
  assumes "d \<le> s \<or> s + (k + n) \<le> d"
  shows "copy (d + k) (s + k) n (copy d s k m) = copy d s (k + n) m"
  using assms by (auto simp: copy_def fun_eq_iff)

lemma fill_0 [simp]: "fill a 0 d m = m"
  by (auto simp: fill_def fun_eq_iff)

lemma copy_0 [simp]: "copy d s 0 m = m"
  by (auto simp: copy_def fun_eq_iff)

lemma fill_1: "fill a (Suc 0) d m = m(a := d)"
  by (auto simp: fill_def)

lemma copy_1: "copy d s (Suc 0) m = m(d := m s)"
  by (auto simp: copy_def)

section \<open>The word loops are the range updates\<close>

definition spread :: "u8 \<Rightarrow> u32" where
  "spread d = (let b = push_bit 8 (ucast d) OR ucast d in b OR push_bit 16 b)"

lemma store32_spread: "store32 a (spread d) m = fill a 4 d m"
proof
  fix x
  have b: "ucast (spread d) = d" "ucast (drop_bit 8 (spread d)) = d"
    "ucast (drop_bit 16 (spread d)) = d" "ucast (drop_bit 24 (spread d)) = d"
    unfolding spread_def Let_def
    by (rule bit_word_eqI, auto simp: bit_simps dest: bit_imp_le_length)+
  consider "x = a" | "x = a + 1" | "x = a + 2" | "x = a + 3" | "x < a \<or> a + 4 \<le> x"
    by linarith
  then show "store32 a (spread d) m x = fill a 4 d m x"
    by cases (auto simp: store32_def fill_def b)
qed

lemma memset_bytes_fill: "memset_bytes a d n m = fill a n d m"
proof (induction n arbitrary: a m)
  case (Suc n)
  then show ?case
    using fill_add [of a 1 n d m] by (simp add: fill_1 fun_upd_def)
qed simp

text \<open>Each loop leaves the rest of the range for the next one.\<close>

lemma memset_words_rest:
  "memset_words a (spread d) n m = (a', n', m') \<Longrightarrow> fill a' n' d m' = fill a n d m"
proof (induction a "spread d" n m rule: memset_words.induct)
  case (1 a n m)
  show ?case
  proof (cases "4 \<le> n")
    case True
    with 1 have "fill a' n' d m' = fill (a + 4) (n - 4) d (fill a 4 d m)"
      by (subst (asm) (2) memset_words.simps) (simp add: store32_spread)
    then show ?thesis using True by (simp add: fill_add)
  next
    case False
    with 1(2) show ?thesis by (subst (asm) memset_words.simps) auto
  qed
qed

lemma memset_quads_rest:
  "memset_quads a (spread d) n m = (a', n', m') \<Longrightarrow> fill a' n' d m' = fill a n d m"
proof (induction a "spread d" n m rule: memset_quads.induct)
  case (1 a n m)
  have q: "store32 (a + 12) (spread d) (store32 (a + 8) (spread d)
      (store32 (a + 4) (spread d) (store32 a (spread d) m))) = fill a 16 d m"
    by (auto simp: store32_spread fill_def fun_eq_iff)
  show ?case
  proof (cases "16 \<le> n")
    case True
    with 1 have "fill a' n' d m' = fill (a + 16) (n - 16) d (fill a 16 d m)"
      by (subst (asm) (2) memset_quads.simps) (simp only: q if_True)
    then show ?thesis using True by (simp add: fill_add)
  next
    case False
    with 1(2) show ?thesis by (subst (asm) memset_quads.simps) auto
  qed
qed

lemma rt_memset_fill: "rt_memset s c count m = (s, fill s count (ucast c) m)"
proof -
  have "(0xFF :: u32) = mask 8"
    by (simp add: mask_eq_exp_minus_1)
  moreover have "c AND mask 8 = ucast (ucast c :: u8)"
    by (rule bit_word_eqI) (auto simp: bit_simps)
  ultimately have d: "c AND 0xFF = ucast (ucast c :: u8)"
    by simp
  have x: "ucast (ucast x :: u32) = x" for x :: u8
    by (rule bit_word_eqI) (auto simp: bit_simps)
  have "rt_memset s c count m =
     (let x = ucast c;
          (a, n, m') = (if \<not> count < 4 \<and> s mod 4 = 0
            then (let (a, n, m') = memset_quads s (spread x) count m in memset_words a (spread x) n m')
            else (s, count, m))
      in (s, memset_bytes a x n m'))"
    by (simp only: rt_memset_def d x spread_def Let_def)
  then show ?thesis
    using memset_quads_rest memset_words_rest
    by (auto simp: Let_def memset_bytes_fill split: prod.splits)
qed

lemma memcpy_bytes_copy: "d \<le> s \<or> s + n \<le> d \<Longrightarrow> memcpy_bytes d s n m = copy d s n m"
proof (induction n arbitrary: d s m)
  case (Suc n)
  then show ?case
    using copy_add [of d s 1 n m] by (auto simp: copy_1 fun_upd_def)
qed simp

lemma memcpy_words_rest:
  "\<lbrakk>memcpy_words d s n m = (d', s', n', m'); d \<le> s \<or> s + n \<le> d\<rbrakk>
    \<Longrightarrow> copy d' s' n' m' = copy d s n m \<and> (d' \<le> s' \<or> s' + n' \<le> d')"
proof (induction d s n m rule: memcpy_words.induct)
  case (1 d s n m)
  show ?case
  proof (cases "4 \<le> n")
    case True
    then have "copy (d + 4) (s + 4) (n - 4) (copy d s 4 m) = copy d s n m"
      using copy_add [of d s 4 "n - 4" m] 1(3) by simp
    moreover have "memcpy_words (d + 4) (s + 4) (n - 4) (copy d s 4 m) = (d', s', n', m')"
      using 1(2) True by (subst (asm) memcpy_words.simps) (simp add: copy_word_eq)
    ultimately show ?thesis
      using 1(1) 1(3) True by (auto simp: copy_word_eq)
  next
    case False
    with 1(2,3) show ?thesis by (subst (asm) memcpy_words.simps) auto
  qed
qed

lemma copy_quad:
  assumes "d \<le> s \<or> s + 16 \<le> d"
  shows "copy_word (d + 12) (s + 12) (copy_word (d + 8) (s + 8)
    (copy_word (d + 4) (s + 4) (copy_word d s m))) = copy d s 16 m"
  using assms copy_add [of d s 4 4 m] copy_add [of d s 8 4 m] copy_add [of d s 12 4 m]
  by (auto simp: copy_word_eq)

lemma memcpy_quads_rest:
  "\<lbrakk>memcpy_quads d s n m = (d', s', n', m'); d \<le> s \<or> s + n \<le> d\<rbrakk>
    \<Longrightarrow> copy d' s' n' m' = copy d s n m \<and> (d' \<le> s' \<or> s' + n' \<le> d')"
proof (induction d s n m rule: memcpy_quads.induct)
  case (1 d s n m)
  show ?case
  proof (cases "16 \<le> n")
    case True
    then have q: "d \<le> s \<or> s + 16 \<le> d"
      using 1(3) by auto
    have "copy (d + 16) (s + 16) (n - 16) (copy d s 16 m) = copy d s n m"
      using copy_add [of d s 16 "n - 16" m] True 1(3) by simp
    moreover have "memcpy_quads (d + 16) (s + 16) (n - 16) (copy d s 16 m) = (d', s', n', m')"
      using 1(2) True by (subst (asm) memcpy_quads.simps) (simp only: copy_quad [OF q] if_True)
    ultimately show ?thesis
      using 1(1) [unfolded copy_quad [OF q]] 1(3) True by auto
  next
    case False
    with 1(2,3) show ?thesis by (subst (asm) memcpy_quads.simps) auto
  qed
qed

lemma rt_memcpy_copy:
  assumes "dst \<le> src \<or> src + count \<le> dst"
  shows "rt_memcpy dst src count m = (dst, copy dst src count m)"
  using assms memcpy_quads_rest memcpy_words_rest
  by (auto simp: rt_memcpy_def Let_def memcpy_bytes_copy split: prod.splits)

text \<open>The backward loop of \<^verbatim>\<open>rt_memmove\<close> copies when the destination lies above the
  source.\<close>

lemma memmove_down_copy: "s \<le> d \<Longrightarrow> memmove_down (d + n) (s + n) n m = copy d s n m"
proof (induction n arbitrary: m)
  case (Suc n)
  then have "memmove_down (d + Suc n) (s + Suc n) (Suc n) m = copy d s n (m(d + n := m (s + n)))"
    by simp
  also have "\<dots> = copy d s (Suc n) m"
    using Suc.prems by (auto simp: copy_def fun_eq_iff)
  finally show ?case .
qed simp

lemma rt_memmove_copy: "rt_memmove dest src n m = (dest, copy dest src n m)"
  by (auto simp: rt_memmove_def memmove_down_copy memcpy_bytes_copy)

lemma bytes_at_copy: "bytes_at (copy d s n m) d n = bytes_at m s n"
  by (rule nth_equalityI) (auto simp: copy_def)

lemma bytes_at_fill: "bytes_at (fill a n d m) a n = replicate n d"
  by (rule nth_equalityI) (auto simp: fill_def)

section \<open>Comparison\<close>

lemma rt_memcmp_at_eq_0: "rt_memcmp_at m p q n = 0 \<longleftrightarrow> bytes_at m p n = bytes_at m q n"
  by (induction n arbitrary: p q) (auto simp: bytes_at_Suc Let_def bytes_at_def [of _ _ 0] word_uint_eq_iff)

text \<open>The sign is that of the first difference.\<close>

lemma rt_memcmp_at_first:
  assumes "k < n" "bytes_at m p k = bytes_at m q k" "m (p + k) \<noteq> m (q + k)"
  shows "rt_memcmp_at m p q n = uint (m (p + k)) - uint (m (q + k))"
  using assms
proof (induction n arbitrary: p q k)
  case (Suc n)
  show ?case
  proof (cases k)
    case 0
    then show ?thesis using Suc.prems by (simp add: word_uint_eq_iff Let_def)
  next
    case (Suc j)
    then show ?thesis
      using Suc.prems Suc.IH [of j "p + 1" "q + 1"] by (simp add: bytes_at_Suc)
  qed
qed simp

section \<open>Terminated strings\<close>

text \<open>\<open>cstr m a xs\<close>: the characters \<open>xs\<close>, none of them 0, stand at \<open>a\<close>,
  followed by the terminator.\<close>

fun cstr :: "mem_t \<Rightarrow> nat \<Rightarrow> u8 list \<Rightarrow> bool" where
  "cstr m a [] \<longleftrightarrow> m a = 0"
| "cstr m a (x # xs) \<longleftrightarrow> m a = x \<and> x \<noteq> 0 \<and> cstr m (a + 1) xs"

lemma cstr_bytes: "cstr m a xs \<Longrightarrow> bytes_at m a (length xs) = xs"
  by (induction xs arbitrary: a) (auto simp: bytes_at_Suc bytes_at_def [of _ _ 0])

lemma cstr_cong:
  "cstr m a xs \<Longrightarrow> (\<And>x. a \<le> x \<Longrightarrow> x \<le> a + length xs \<Longrightarrow> m' x = m x) \<Longrightarrow> cstr m' a xs"
  by (induction xs arbitrary: a) auto

lemma cstr_drop: "cstr m a xs \<Longrightarrow> i \<le> length xs \<Longrightarrow> cstr m (a + i) (drop i xs)"
proof (induction xs arbitrary: a i)
  case (Cons x xs)
  then show ?case
    using Cons.IH [of "a + 1" "i - 1"] by (cases i) auto
qed simp

lemma cstr_unique: "cstr m a xs \<Longrightarrow> cstr m a ys \<Longrightarrow> xs = ys"
proof (induction xs arbitrary: a ys)
  case Nil
  then show ?case by (cases ys) auto
next
  case (Cons x xs)
  then show ?case by (cases ys) auto
qed

lemma strlen_loop_cstr: "cstr m a xs \<Longrightarrow> strlen_loop m a = Some (a + length xs)"
  by (induction xs arbitrary: a) (subst strlen_loop.simps, simp)+

lemma rt_strlen_cstr: "cstr m a xs \<Longrightarrow> rt_strlen m a = Some (length xs)"
  by (simp add: rt_strlen_def strlen_loop_cstr)

lemma strnlen_loop_cstr:
  "cstr m a xs \<Longrightarrow> s \<le> a \<Longrightarrow> a \<le> s + k
    \<Longrightarrow> strnlen_loop m s k a = min (a + length xs) (s + k)"
proof (induction xs arbitrary: a)
  case Nil
  then show ?case by (subst strnlen_loop.simps) simp
next
  case (Cons x xs)
  then show ?case
    by (subst strnlen_loop.simps) (cases "a = s + k"; auto)
qed

lemma rt_strnlen_cstr: "cstr m a xs \<Longrightarrow> rt_strnlen m a k = min (length xs) k"
  by (simp add: rt_strnlen_def strnlen_loop_cstr)

text \<open>The string comparisons as functions of the two strings: the first difference, with the
  terminator as 0.\<close>

fun diff_with :: "(u8 \<Rightarrow> int) \<Rightarrow> u8 list \<Rightarrow> u8 list \<Rightarrow> int" where
  "diff_with f [] [] = 0"
| "diff_with f (x # xs) [] = f x - f 0"
| "diff_with f [] (y # ys) = f 0 - f y"
| "diff_with f (x # xs) (y # ys) = (if f x = f y then diff_with f xs ys else f x - f y)"

lemma rt_strcmp_cstr:
  "cstr m a xs \<Longrightarrow> cstr m b ys \<Longrightarrow> rt_strcmp m a b = Some (diff_with uint xs ys)"
proof (induction "uint :: u8 \<Rightarrow> int" xs ys arbitrary: a b rule: diff_with.induct)
qed (subst rt_strcmp.simps, auto simp: word_uint_eq_iff)+

lemma lower_0_iff: "lower (uint (x :: u8)) = 0 \<longleftrightarrow> x = 0"
  using uint_ge_0 [of x] by (auto simp: lower_def word_uint_eq_iff)

lemma rt_strcasecmp_step:
  assumes "lower (uint (m a)) = lower (uint (m b))" "m a \<noteq> 0"
  shows "rt_strcasecmp m a b = rt_strcasecmp m (a + 1) (b + 1)"
proof -
  have "lower (uint (m b)) \<noteq> 0"
    using assms lower_0_iff [of "m a"] by simp
  with assms(1) show ?thesis
    by (subst rt_strcasecmp.simps) (simp add: Let_def)
qed

lemma rt_strcasecmp_stop:
  assumes "lower (uint (m a)) \<noteq> lower (uint (m b)) \<or> m a = 0"
  shows "rt_strcasecmp m a b = Some (lower (uint (m a)) - lower (uint (m b)))"
  using assms by (subst rt_strcasecmp.simps) (auto simp: Let_def lower_0_iff)

lemma rt_strcasecmp_cstr:
  "cstr m a xs \<Longrightarrow> cstr m b ys \<Longrightarrow>
    rt_strcasecmp m a b = Some (diff_with (\<lambda>x. lower (uint x)) xs ys)"
proof (induction xs arbitrary: a b ys)
  case Nil
  then show ?case by (cases ys) (simp_all add: rt_strcasecmp_stop)
next
  case (Cons x xs)
  show ?case
  proof (cases ys)
    case Nil
    with Cons.prems have "lower (uint (m a)) \<noteq> lower (uint (m b))"
      using lower_0_iff [of x] by (simp add: lower_def [of 0])
    with Cons.prems Nil show ?thesis by (simp add: rt_strcasecmp_stop)
  next
    case (Cons y zs)
    then show ?thesis
      using Cons.prems Cons.IH [of "a + 1" "b + 1" zs]
      by (cases "lower (uint x) = lower (uint y)")
         (simp_all add: rt_strcasecmp_step rt_strcasecmp_stop)
  qed
qed

lemma diff_with_eq_0:
  assumes f: "\<And>x. x \<noteq> 0 \<Longrightarrow> f x \<noteq> f 0" and "0 \<notin> set xs" "0 \<notin> set ys"
  shows "diff_with f xs ys = 0 \<longleftrightarrow> map f xs = map f ys"
  using assms(2,3)
proof (induction xs arbitrary: ys)
  case Nil
  then show ?case using f [of "hd ys"] by (cases ys) simp_all
next
  case (Cons x xs)
  then show ?case using f [of x] by (cases ys) auto
qed

lemma cstr_nonzero: "cstr m a xs \<Longrightarrow> 0 \<notin> set xs"
  by (induction xs arbitrary: a) auto

lemma signed_char_diff_0: "signed_char (uint x - uint (y :: u8)) = 0 \<longleftrightarrow> x = y"
proof -
  have w: "signed_char (uint x - uint y) = sint (x - y)"
    unfolding signed_char_def by (rule arg_cong [of _ _ sint]) (rule word_sub_wi [symmetric])
  have "sint (x - y) = 0 \<longleftrightarrow> x - y = 0"
    using signed_word_eqI [of "x - y" "0 :: u8"] by (metis signed_0)
  then show ?thesis
    unfolding w by (metis eq_iff_diff_eq_0)
qed

lemma signed_char_eq_0:
  "signed_char (- uint (y :: u8)) = 0 \<longleftrightarrow> y = 0" "signed_char (uint y) = 0 \<longleftrightarrow> y = 0"
  "signed_char 0 = 0"
  using signed_char_diff_0 [of 0 y] signed_char_diff_0 [of y 0]
  by (auto simp: signed_char_def)

text \<open>\<^verbatim>\<open>rt_strncmp\<close> answers 0 exactly when the first \<open>n\<close> characters agree.\<close>

lemma rt_strncmp_eq_0:
  "cstr m a xs \<Longrightarrow> cstr m b ys \<Longrightarrow> rt_strncmp m a b n = 0 \<longleftrightarrow> take n xs = take n ys"
proof (induction n arbitrary: a b xs ys)
  case (Suc n)
  have IH: "rt_strncmp m (a + 1) (b + 1) n = 0 \<longleftrightarrow> take n (tl xs) = take n (tl ys)"
    if "xs \<noteq> []" "ys \<noteq> []"
    using Suc.prems that by (cases xs; cases ys) (simp_all add: Suc.IH)
  show ?case
    using Suc.prems IH
    by (cases xs; cases ys) (simp_all add: Let_def signed_char_diff_0 signed_char_eq_0)
qed simp

text \<open>\<^verbatim>\<open>rt_strncpy\<close> writes exactly \<open>n\<close> bytes: the string, cut at \<open>n\<close>, and zeros.\<close>

lemma strncpy_loop_bytes:
  assumes "cstr m s xs" "d + n \<le> s \<or> s + length xs < d"
  shows "bytes_at (strncpy_loop d s n m) d n = take n xs @ replicate (n - length xs) 0
    \<and> (\<forall>x. x < d \<or> d + n \<le> x \<longrightarrow> strncpy_loop d s n m x = m x)"
  using assms
proof (induction n arbitrary: d s m xs)
  case 0
  then show ?case by (simp add: bytes_at_def)
next
  case (Suc n)
  show ?case
  proof (cases xs)
    case Nil
    then have z: "strncpy_loop d s (Suc n) m = fill d (Suc n) 0 m"
      using Suc.prems fill_add [of d 1 n 0 m]
      by (simp add: Let_def memset_bytes_fill fill_1 fun_upd_def)
    show ?thesis
      unfolding z bytes_at_fill Nil by (simp add: fill_def)
  next
    case (Cons x ys)
    then have x: "m s = x" "x \<noteq> 0"
      using Suc.prems by auto
    have c: "cstr (m(d := x)) (s + 1) ys"
    proof (rule cstr_cong)
      show "cstr m (s + 1) ys"
        using Suc.prems(1) Cons by simp
      fix z
      assume "s + 1 \<le> z" "z \<le> s + 1 + length ys"
      then have "z \<noteq> d"
        using Suc.prems(2) unfolding Cons by auto
      then show "(m(d := x)) z = m z"
        by simp
    qed
    have r: "strncpy_loop d s (Suc n) m = strncpy_loop (d + 1) (s + 1) n (m(d := x))"
      using x by (simp add: Let_def)
    have IH: "bytes_at (strncpy_loop (d + 1) (s + 1) n (m(d := x))) (d + 1) n =
        take n ys @ replicate (n - length ys) 0"
      "\<forall>z. z < d + 1 \<or> d + 1 + n \<le> z \<longrightarrow>
        strncpy_loop (d + 1) (s + 1) n (m(d := x)) z = (m(d := x)) z"
    proof -
      have "d + 1 + n \<le> s + 1 \<or> s + 1 + length ys < d + 1"
        using Suc.prems(2) unfolding Cons by auto
      from Suc.IH [OF c this] show
        "bytes_at (strncpy_loop (d + 1) (s + 1) n (m(d := x))) (d + 1) n =
          take n ys @ replicate (n - length ys) 0"
        "\<forall>z. z < d + 1 \<or> d + 1 + n \<le> z \<longrightarrow>
          strncpy_loop (d + 1) (s + 1) n (m(d := x)) z = (m(d := x)) z"
        by blast+
    qed
    have "strncpy_loop (d + 1) (s + 1) n (m(d := x)) d = x"
      using IH(2) by simp
    then have "bytes_at (strncpy_loop d s (Suc n) m) d (Suc n) =
        take (Suc n) xs @ replicate (Suc n - length xs) 0"
      unfolding r bytes_at_Suc IH(1) Cons by simp
    moreover have "strncpy_loop d s (Suc n) m z = m z" if "z < d \<or> d + Suc n \<le> z" for z
      unfolding r using IH(2) [rule_format, of z] that by auto
    ultimately show ?thesis by blast
  qed
qed

section \<open>Searching\<close>

text \<open>The position of the first occurrence of \<open>ys\<close>.\<close>

fun find_sub :: "'a list \<Rightarrow> 'a list \<Rightarrow> nat option" where
  "find_sub ys [] = (if ys = [] then Some 0 else None)"
| "find_sub ys (x # xs) =
     (if prefix ys (x # xs) then Some 0 else map_option Suc (find_sub ys xs))"

lemma find_sub_None: "find_sub ys xs = None \<longleftrightarrow> \<not> sublist ys xs"
  by (induction xs) (auto simp: sublist_Cons_right)

lemma find_sub_Some:
  "find_sub ys xs = Some i \<Longrightarrow>
    i \<le> length xs \<and> prefix ys (drop i xs) \<and> (\<forall>j < i. \<not> prefix ys (drop j xs))"
proof (induction xs arbitrary: i)
  case Nil
  then show ?case by (simp split: if_splits)
next
  case (Cons x xs)
  show ?case
  proof (cases "prefix ys (x # xs)")
    case False
    with Cons.prems obtain k where "i = Suc k" "find_sub ys xs = Some k"
      by auto
    with Cons.IH [of k] False show ?thesis
      by (auto simp: less_Suc_eq_0_disj)
  qed (use Cons.prems in simp)
qed

lemma memcmp_prefix:
  assumes "cstr m a xs" "cstr m b ys" "length ys \<le> length xs"
  shows "rt_memcmp_at m a b (length ys) = 0 \<longleftrightarrow> prefix ys xs"
proof -
  have "bytes_at m a (length ys) = take (length ys) xs"
    using cstr_bytes [OF assms(1)] assms(3)
    by (intro nth_equalityI) (auto simp: list_eq_iff_nth_eq)
  then show ?thesis
    using cstr_bytes [OF assms(2)] by (auto simp: rt_memcmp_at_eq_0 prefix_def take_is_prefix
      intro: append_take_drop_id [symmetric]) (metis append_eq_conv_conj append_take_drop_id)
qed

lemma strstr_loop_cstr:
  assumes "cstr m b ys" "ys \<noteq> []"
  shows "cstr m a xs \<Longrightarrow> strstr_loop m a b (length xs) (length ys) =
    (case find_sub ys xs of Some i \<Rightarrow> a + i | None \<Rightarrow> 0)"
proof (induction xs arbitrary: a)
  case Nil
  then show ?case using assms by simp
next
  case (Cons x xs)
  show ?case
  proof (cases "length ys \<le> length (x # xs)")
    case True
    then show ?thesis
      using Cons memcmp_prefix [OF Cons.prems assms(1) True] by (auto split: option.splits)
  next
    case False
    then have "find_sub ys (x # xs) = None"
      by (metis find_sub_None sublist_length_le)
    with False show ?thesis by simp
  qed
qed

lemma rt_strstr_cstr:
  assumes "cstr m a xs" "cstr m b ys"
  shows "rt_strstr m a b = Some (case find_sub ys xs of Some i \<Rightarrow> a + i | None \<Rightarrow> 0)"
proof (cases "ys = []")
  case True
  then have "rt_strlen m b = Some 0" "find_sub ys xs = Some 0"
    using rt_strlen_cstr [OF assms(2)] by (cases xs; simp)+
  then show ?thesis by (simp add: rt_strstr_def)
next
  case False
  then show ?thesis
    using assms by (simp add: rt_strstr_def rt_strlen_cstr strstr_loop_cstr)
qed

section \<open>Properties\<close>

text \<open>
  C26. The memory routines, which work in words of four bytes and blocks of sixteen where the
  addresses are aligned, do what the byte loops of their documentation do. \<^verbatim>\<open>rt_memset\<close>
  writes the low byte of its argument to exactly the bytes of the range. \<^verbatim>\<open>rt_memcpy\<close>
  makes every byte of the destination the byte the source held before the call and touches nothing
  else, for disjoint ranges and for overlapping ones with the destination below the source;
  \<^verbatim>\<open>rt_memmove\<close> does so for all ranges. Each returns its destination.\<close>

theorem memory_routines:
  assumes "dst \<le> src \<or> src + n \<le> dst"
  shows "rt_memcpy dst src n m = (dst, copy dst src n m)
    \<and> memcpy_bytes dst src n m = copy dst src n m
    \<and> rt_memmove dst' src' n' m = (dst', copy dst' src' n' m)
    \<and> rt_memset s c count m = (s, fill s count (ucast c) m)
    \<and> memset_bytes s (ucast c) count m = fill s count (ucast c) m"
  using assms
  by (simp add: rt_memcpy_copy rt_memmove_copy memcpy_bytes_copy rt_memset_fill memset_bytes_fill)

theorem memory_routines_witness:
  "(let m = (\<lambda>x. word_of_nat x); m' = snd (rt_memcpy 100 200 22 m) in
     bytes_at m' 100 22 = bytes_at m 200 22 \<and> m' 99 = 99 \<and> m' 122 = 122)"
  using memory_routines [of 100 200 22 "\<lambda>x. word_of_nat x" 0 0 0 0 0 0]
  by (simp add: Let_def bytes_at_copy) (simp add: copy_def)

text \<open>On terminated strings the string routines end and answer what they promise:
  \<^verbatim>\<open>rt_strlen\<close> the number of characters, \<^verbatim>\<open>rt_strnlen\<close> at most the bound,
  \<^verbatim>\<open>rt_strcmp\<close> 0 exactly for equal strings, \<^verbatim>\<open>rt_strncmp\<close> 0 exactly for
  equal beginnings, \<^verbatim>\<open>rt_strcasecmp\<close> 0 exactly for strings equal up to case, and
  \<^verbatim>\<open>rt_strstr\<close> the address of the first occurrence, or \<^verbatim>\<open>RT_NULL\<close> when there
  is none.\<close>

theorem string_routines:
  assumes "cstr m a xs" "cstr m b ys"
  shows "rt_strlen m a = Some (length xs) \<and> rt_strnlen m a k = min (length xs) k
    \<and> (rt_strcmp m a b = Some 0 \<longleftrightarrow> xs = ys)
    \<and> (rt_strncmp m a b n = 0 \<longleftrightarrow> take n xs = take n ys)
    \<and> (rt_strcasecmp m a b = Some 0 \<longleftrightarrow> map (lower \<circ> uint) xs = map (lower \<circ> uint) ys)
    \<and> (\<exists>p. rt_strstr m a b = Some p \<and>
         (if sublist ys xs
          then a \<le> p \<and> prefix ys (drop (p - a) xs) \<and> (\<forall>j < p - a. \<not> prefix ys (drop j xs))
          else p = 0))"
proof -
  have z: "0 \<notin> set xs" "0 \<notin> set ys"
    using assms by (simp_all add: cstr_nonzero)
  have c: "diff_with uint xs ys = 0 \<longleftrightarrow> xs = ys"
    by (subst diff_with_eq_0 [OF _ z])
       (auto simp: word_uint_eq_iff intro: map_injective injI)
  have d: "diff_with (\<lambda>x. lower (uint x)) xs ys = 0 \<longleftrightarrow>
      map (lower \<circ> uint) xs = map (lower \<circ> uint) ys"
    by (subst diff_with_eq_0 [OF _ z]) (simp_all add: lower_0_iff lower_def [of 0] comp_def)
  have s: "\<exists>p. rt_strstr m a b = Some p \<and>
      (if sublist ys xs
       then a \<le> p \<and> prefix ys (drop (p - a) xs) \<and> (\<forall>j < p - a. \<not> prefix ys (drop j xs))
       else p = 0)"
    using find_sub_None [of ys xs] find_sub_Some [of ys xs]
    by (cases "find_sub ys xs") (auto simp: rt_strstr_cstr [OF assms])
  show ?thesis
    using s assms by (simp add: rt_strlen_cstr rt_strnlen_cstr rt_strcmp_cstr c
      rt_strncmp_eq_0 rt_strcasecmp_cstr d)
qed

text \<open>The strings \<^verbatim>\<open>"aAB"\<close> at 10 and \<^verbatim>\<open>"AB"\<close> at 20.\<close>

definition two_strings :: mem_t where
  "two_strings = (\<lambda>_. 0)(10 := 97, 11 := 65, 12 := 66, 20 := 65, 21 := 66)"

theorem string_routines_witness:
  "cstr two_strings 10 [97, 65, 66] \<and> cstr two_strings 20 [65, 66]
    \<and> rt_strlen two_strings 10 = Some 3 \<and> rt_strcmp two_strings 10 20 \<noteq> Some 0
    \<and> rt_strstr two_strings 10 20 = Some 11"
proof -
  have c: "cstr two_strings 10 [97, 65, 66]" "cstr two_strings 20 [65, 66]"
    by (simp_all add: two_strings_def)
  note r = string_routines [OF c, of 0 0]
  obtain p where p: "rt_strstr two_strings 10 20 = Some p" "10 \<le> p"
      "prefix [65, 66] (drop (p - 10) [97, 65, 66 :: u8])"
      "\<forall>j < p - 10. \<not> prefix [65, 66] (drop j [97, 65, 66 :: u8])"
    using r by (simp add: sublist_Cons_right) blast
  consider "p - 10 = 0" | "p - 10 = 1" | "1 < p - 10" by linarith
  then have "p = 11"
  proof cases
    case 3
    then show ?thesis using p(4) by (auto dest: spec [of _ 1])
  qed (use p in simp_all)
  with c p r show ?thesis by simp
qed

end
