(* ===== verification/Hvac_Mem.thy ===== *)
theory Hvac_Mem
  imports Hvac_Kservice "HOL-Library.Monad_Syntax"
begin

text \<open>
  The heap of \<^verbatim>\<open>rt-thread/src/mem.c\<close> (\<^verbatim>\<open>RT_USING_SMALL_MEM\<close>), from which the
  application takes its messages, replies and sensor nodes. The block headers lie in the byte
  memory \<open>ram\<close> itself, between the user areas, exactly as \<^verbatim>\<open>struct heap_mem\<close> lays
  them out on the 32-bit target; pointers are addresses and \<^verbatim>\<open>rt_size_t\<close> arithmetic is
  written out modulo \<open>2 ^ 32\<close>. \<^verbatim>\<open>RT_DEBUG\<close> is not defined in
  \<^verbatim>\<open>rtconfig.h\<close>, so \<^verbatim>\<open>RT_ASSERT\<close> is empty. A loop that never ends, and a wait
  for a semaphore that nobody holds up, is \<open>None\<close>.
\<close>

section \<open>State\<close>

record heap_t =
  ram :: mem_t
  heap_ptr :: nat
  heap_end :: nat
  lfree :: nat
  heap_sem :: nat
  mem_size_aligned :: nat
  used_mem :: nat
  max_mem :: nat

abbreviation (input) HEAP_MAGIC :: u16 where "HEAP_MAGIC \<equiv> 0x1ea0"
abbreviation (input) SIZEOF_STRUCT_MEM :: nat where "SIZEOF_STRUCT_MEM \<equiv> 12"
abbreviation (input) MIN_SIZE :: nat where "MIN_SIZE \<equiv> 12"
abbreviation (input) MIN_SIZE_ALIGNED :: nat where "MIN_SIZE_ALIGNED \<equiv> 12"

text \<open>\<^verbatim>\<open>rt_size_t\<close> sums and differences wrap.\<close>

definition usz :: "nat \<Rightarrow> nat" where
  "usz n = n mod 2 ^ 32"

definition usub :: "nat \<Rightarrow> nat \<Rightarrow> nat" where
  "usub a b = (a + 2 ^ 32 - b) mod 2 ^ 32"

definition RT_ALIGN :: "nat \<Rightarrow> nat" where
  "RT_ALIGN sz = usz (sz + 3) div 4 * 4"

definition RT_ALIGN_DOWN :: "nat \<Rightarrow> nat" where
  "RT_ALIGN_DOWN sz = sz div 4 * 4"

section \<open>Block headers\<close>

definition mem_magic :: "heap_t \<Rightarrow> nat \<Rightarrow> u16" where
  "mem_magic h p = load16 (ram h) p"

definition mem_used :: "heap_t \<Rightarrow> nat \<Rightarrow> u16" where
  "mem_used h p = load16 (ram h) (p + 2)"

definition mem_next :: "heap_t \<Rightarrow> nat \<Rightarrow> nat" where
  "mem_next h p = unat (load32 (ram h) (p + 4))"

definition mem_prev :: "heap_t \<Rightarrow> nat \<Rightarrow> nat" where
  "mem_prev h p = unat (load32 (ram h) (p + 8))"

definition set_mem_magic :: "nat \<Rightarrow> u16 \<Rightarrow> heap_t \<Rightarrow> heap_t" where
  "set_mem_magic p v h = h\<lparr>ram := store16 p v (ram h)\<rparr>"

definition set_mem_used :: "nat \<Rightarrow> u16 \<Rightarrow> heap_t \<Rightarrow> heap_t" where
  "set_mem_used p v h = h\<lparr>ram := store16 (p + 2) v (ram h)\<rparr>"

definition set_mem_next :: "nat \<Rightarrow> nat \<Rightarrow> heap_t \<Rightarrow> heap_t" where
  "set_mem_next p v h = h\<lparr>ram := store32 (p + 4) (word_of_nat v) (ram h)\<rparr>"

definition set_mem_prev :: "nat \<Rightarrow> nat \<Rightarrow> heap_t \<Rightarrow> heap_t" where
  "set_mem_prev p v h = h\<lparr>ram := store32 (p + 8) (word_of_nat v) (ram h)\<rparr>"

section \<open>Operations\<close>

text \<open>The semaphore of the heap, for a thread that finds no other one waiting.\<close>

definition heap_sem_take :: "heap_t \<Rightarrow> heap_t option" where
  "heap_sem_take h = (if 0 < heap_sem h then Some (h\<lparr>heap_sem := heap_sem h - 1\<rparr>) else None)"

definition heap_sem_release :: "heap_t \<Rightarrow> heap_t" where
  "heap_sem_release h = (if heap_sem h < 0xFFFF then h\<lparr>heap_sem := heap_sem h + 1\<rparr> else h)"

definition plug_forward :: "nat \<Rightarrow> heap_t \<Rightarrow> heap_t" where
  "plug_forward mem h =
     (let nmem = heap_ptr h + mem_next h mem
      in if mem \<noteq> nmem \<and> mem_used h nmem = 0 \<and> nmem \<noteq> heap_end h
         then (let h = (if lfree h = nmem then h\<lparr>lfree := mem\<rparr> else h);
                   h = set_mem_next mem (mem_next h nmem) h
               in set_mem_prev (heap_ptr h + mem_next h nmem) (mem - heap_ptr h) h)
         else h)"

definition plug_backward :: "nat \<Rightarrow> heap_t \<Rightarrow> heap_t" where
  "plug_backward mem h =
     (let pmem = heap_ptr h + mem_prev h mem
      in if pmem \<noteq> mem \<and> mem_used h pmem = 0
         then (let h = (if lfree h = mem then h\<lparr>lfree := pmem\<rparr> else h);
                   h = set_mem_next pmem (mem_next h mem) h
               in set_mem_prev (heap_ptr h + mem_next h mem) (pmem - heap_ptr h) h)
         else h)"

definition plug_holes :: "nat \<Rightarrow> heap_t \<Rightarrow> heap_t" where
  "plug_holes mem h = plug_backward mem (plug_forward mem h)"

definition rt_system_heap_init :: "nat \<Rightarrow> nat \<Rightarrow> heap_t \<Rightarrow> heap_t" where
  "rt_system_heap_init begin_addr end_addr h =
     (let begin_align = RT_ALIGN begin_addr; end_align = RT_ALIGN_DOWN end_addr
      in if 2 * SIZEOF_STRUCT_MEM < end_align \<and> begin_align \<le> end_align - 2 * SIZEOF_STRUCT_MEM
         then (let h = h\<lparr>mem_size_aligned := end_align - begin_align - 2 * SIZEOF_STRUCT_MEM,
                         heap_ptr := begin_align\<rparr>;
                   mem = heap_ptr h;
                   eoh = mem_size_aligned h + SIZEOF_STRUCT_MEM;
                   h = set_mem_magic mem HEAP_MAGIC h;
                   h = set_mem_next mem eoh h;
                   h = set_mem_prev mem 0 h;
                   h = set_mem_used mem 0 h;
                   h = h\<lparr>heap_end := heap_ptr h + mem_next h mem\<rparr>;
                   h = set_mem_magic (heap_end h) HEAP_MAGIC h;
                   h = set_mem_used (heap_end h) 1 h;
                   h = set_mem_next (heap_end h) eoh h;
                   h = set_mem_prev (heap_end h) eoh h
               in h\<lparr>heap_sem := 1, lfree := heap_ptr h\<rparr>)
         else h)"

text \<open>\<^verbatim>\<open>while (lfree->used && lfree != heap_end)\<close>\<close>

partial_function (option) next_free :: "heap_t \<Rightarrow> nat \<Rightarrow> nat option" where
  "next_free h l =
     (if mem_used h l \<noteq> 0 \<and> l \<noteq> heap_end h then next_free h (heap_ptr h + mem_next h l)
      else Some l)"

definition count_used :: "nat \<Rightarrow> heap_t \<Rightarrow> heap_t" where
  "count_used n h =
     (let h = h\<lparr>used_mem := usz (used_mem h + n)\<rparr>
      in if max_mem h < used_mem h then h\<lparr>max_mem := used_mem h\<rparr> else h)"

text \<open>The header of the rest of a split block, between \<^verbatim>\<open>ptr\<close> and its successor.\<close>

definition split_block :: "nat \<Rightarrow> nat \<Rightarrow> heap_t \<Rightarrow> heap_t" where
  "split_block ptr ptr2 h =
     (let mem = heap_ptr h + ptr; mem2 = heap_ptr h + ptr2;
          h = set_mem_magic mem2 HEAP_MAGIC h;
          h = set_mem_used mem2 0 h;
          h = set_mem_next mem2 (mem_next h mem) h;
          h = set_mem_prev mem2 ptr h
      in set_mem_next mem ptr2 h)"

definition link_rest :: "nat \<Rightarrow> heap_t \<Rightarrow> heap_t" where
  "link_rest ptr2 h =
     (let mem2 = heap_ptr h + ptr2
      in if mem_next h mem2 \<noteq> mem_size_aligned h + SIZEOF_STRUCT_MEM
         then set_mem_prev (heap_ptr h + mem_next h mem2) ptr2 h else h)"

text \<open>Taking the block at \<^verbatim>\<open>ptr\<close>: split it when the rest can hold another block,
  else use it whole.\<close>

definition carve :: "nat \<Rightarrow> nat \<Rightarrow> heap_t \<Rightarrow> heap_t" where
  "carve sz ptr h =
     (let mem = heap_ptr h + ptr;
          room = usub (mem_next h mem) (usz (ptr + SIZEOF_STRUCT_MEM))
      in if usz (sz + SIZEOF_STRUCT_MEM + MIN_SIZE_ALIGNED) \<le> room
         then (let ptr2 = usz (ptr + SIZEOF_STRUCT_MEM + sz)
               in count_used (sz + SIZEOF_STRUCT_MEM)
                    (link_rest ptr2 (set_mem_used mem 1 (split_block ptr ptr2 h))))
         else (let h = set_mem_used mem 1 h
               in count_used (usub (mem_next h mem) ptr) h))"

definition advance_lfree :: "nat \<Rightarrow> heap_t \<Rightarrow> heap_t option" where
  "advance_lfree mem h =
     (if mem = lfree h then map_option (\<lambda>l. h\<lparr>lfree := l\<rparr>) (next_free h (lfree h)) else Some h)"

definition malloc_take :: "nat \<Rightarrow> nat \<Rightarrow> heap_t \<Rightarrow> (nat \<times> heap_t) option" where
  "malloc_take sz ptr h =
     (let mem = heap_ptr h + ptr;
          h = set_mem_magic mem HEAP_MAGIC (carve sz ptr h)
      in Option.bind (advance_lfree mem h)
           (\<lambda>h. Some (mem + SIZEOF_STRUCT_MEM, heap_sem_release h)))"

partial_function (option) malloc_loop :: "nat \<Rightarrow> nat \<Rightarrow> heap_t \<Rightarrow> (nat \<times> heap_t) option" where
  "malloc_loop sz ptr h =
     (if ptr < usub (mem_size_aligned h) sz
      then (let mem = heap_ptr h + ptr
            in if mem_used h mem = 0 \<and>
                  sz \<le> usub (mem_next h mem) (usz (ptr + SIZEOF_STRUCT_MEM))
               then malloc_take sz ptr h
               else malloc_loop sz (mem_next h mem) h)
      else Some (0, heap_sem_release h))"

definition rt_malloc :: "nat \<Rightarrow> heap_t \<Rightarrow> (nat \<times> heap_t) option" where
  "rt_malloc sz h =
     (if sz = 0 then Some (0, h)
      else let sz = RT_ALIGN sz
      in if mem_size_aligned h < sz then Some (0, h)
      else let sz = (if sz < MIN_SIZE_ALIGNED then MIN_SIZE_ALIGNED else sz)
      in Option.bind (heap_sem_take h) (\<lambda>h. malloc_loop sz (lfree h - heap_ptr h) h))"

definition rt_free :: "nat \<Rightarrow> heap_t \<Rightarrow> heap_t option" where
  "rt_free rmem h =
     (if rmem = 0 then Some h
      else if rmem < heap_ptr h \<or> heap_end h \<le> rmem then Some h
      else let mem = rmem - SIZEOF_STRUCT_MEM
      in Option.bind (heap_sem_take h) (\<lambda>h.
         let h = set_mem_used mem 0 h;
             h = set_mem_magic mem HEAP_MAGIC h;
             h = (if mem < lfree h then h\<lparr>lfree := mem\<rparr> else h);
             h = h\<lparr>used_mem := usub (used_mem h) (usub (mem_next h mem) (mem - heap_ptr h))\<rparr>
         in Some (heap_sem_release (plug_holes mem h))))"

definition rt_realloc :: "nat \<Rightarrow> nat \<Rightarrow> heap_t \<Rightarrow> (nat \<times> heap_t) option" where
  "rt_realloc rmem newsize h =
     (let newsize = RT_ALIGN newsize
      in if mem_size_aligned h < newsize then Some (0, h)
      else if newsize = 0 then map_option (\<lambda>h. (0, h)) (rt_free rmem h)
      else if rmem = 0 then rt_malloc newsize h
      else Option.bind (heap_sem_take h) (\<lambda>h.
        if rmem < heap_ptr h \<or> heap_end h \<le> rmem then Some (rmem, heap_sem_release h)
        else let mem = rmem - SIZEOF_STRUCT_MEM;
                 ptr = mem - heap_ptr h;
                 sz = usub (usub (mem_next h mem) ptr) SIZEOF_STRUCT_MEM
        in if sz = newsize then Some (rmem, heap_sem_release h)
        else if usz (newsize + SIZEOF_STRUCT_MEM + MIN_SIZE) < sz
        then (let h = h\<lparr>used_mem := usub (used_mem h) (usub sz newsize)\<rparr>;
                  ptr2 = usz (ptr + SIZEOF_STRUCT_MEM + newsize);
                  mem2 = heap_ptr h + ptr2;
                  h = link_rest ptr2 (split_block ptr ptr2 h);
                  h = (if mem2 < lfree h then h\<lparr>lfree := mem2\<rparr> else h)
              in Some (rmem, heap_sem_release (plug_holes mem2 h)))
        else Option.bind (rt_malloc newsize (heap_sem_release h)) (\<lambda>(nmem, h).
          if nmem \<noteq> 0
          then (let h = h\<lparr>ram := snd (rt_memcpy nmem rmem (if sz < newsize then sz else newsize) (ram h))\<rparr>
                in map_option (\<lambda>h. (nmem, h)) (rt_free rmem h))
          else Some (nmem, h))))"

definition rt_calloc :: "nat \<Rightarrow> nat \<Rightarrow> heap_t \<Rightarrow> (nat \<times> heap_t) option" where
  "rt_calloc count sz h =
     Option.bind (rt_malloc (usz (count * sz)) h) (\<lambda>(p, h).
       Some (p, if p \<noteq> 0 then h\<lparr>ram := snd (rt_memset p 0 (usz (count * sz)) (ram h))\<rparr> else h))"

definition rt_memory_info :: "heap_t \<Rightarrow> nat \<times> nat \<times> nat" where
  "rt_memory_info h = (mem_size_aligned h, used_mem h, max_mem h)"

definition rt_strdup :: "nat \<Rightarrow> heap_t \<Rightarrow> (nat \<times> heap_t) option" where
  "rt_strdup s h =
     Option.bind (rt_strlen (ram h) s) (\<lambda>n. let len = usz (n + 1) in
       Option.bind (rt_malloc len h) (\<lambda>(tmp, h).
         if tmp = 0 then Some (0, h)
         else Some (tmp, h\<lparr>ram := snd (rt_memcpy tmp s len (ram h))\<rparr>)))"

section \<open>Reading and writing headers\<close>

lemmas mem_reads = mem_magic_def mem_used_def mem_next_def mem_prev_def
lemmas mem_writes = set_mem_magic_def set_mem_used_def set_mem_next_def set_mem_prev_def

text \<open>Two headers do not overlap.\<close>

definition apart :: "nat \<Rightarrow> nat \<Rightarrow> bool" where
  "apart p q \<longleftrightarrow> p + SIZEOF_STRUCT_MEM \<le> q \<or> q + SIZEOF_STRUCT_MEM \<le> p"

lemma apart_add [simp]: "apart (k + p) (k + q) \<longleftrightarrow> apart p q"
  by (simp add: apart_def)

lemma mem_write_fields [simp]:
  "heap_ptr (set_mem_magic p v h) = heap_ptr h" "heap_ptr (set_mem_used p v h) = heap_ptr h"
  "heap_ptr (set_mem_next p n h) = heap_ptr h" "heap_ptr (set_mem_prev p n h) = heap_ptr h"
  "heap_end (set_mem_magic p v h) = heap_end h" "heap_end (set_mem_used p v h) = heap_end h"
  "heap_end (set_mem_next p n h) = heap_end h" "heap_end (set_mem_prev p n h) = heap_end h"
  "lfree (set_mem_magic p v h) = lfree h" "lfree (set_mem_used p v h) = lfree h"
  "lfree (set_mem_next p n h) = lfree h" "lfree (set_mem_prev p n h) = lfree h"
  "heap_sem (set_mem_magic p v h) = heap_sem h" "heap_sem (set_mem_used p v h) = heap_sem h"
  "heap_sem (set_mem_next p n h) = heap_sem h" "heap_sem (set_mem_prev p n h) = heap_sem h"
  "mem_size_aligned (set_mem_magic p v h) = mem_size_aligned h"
  "mem_size_aligned (set_mem_used p v h) = mem_size_aligned h"
  "mem_size_aligned (set_mem_next p n h) = mem_size_aligned h"
  "mem_size_aligned (set_mem_prev p n h) = mem_size_aligned h"
  "used_mem (set_mem_magic p v h) = used_mem h" "used_mem (set_mem_used p v h) = used_mem h"
  "used_mem (set_mem_next p n h) = used_mem h" "used_mem (set_mem_prev p n h) = used_mem h"
  "max_mem (set_mem_magic p v h) = max_mem h" "max_mem (set_mem_used p v h) = max_mem h"
  "max_mem (set_mem_next p n h) = max_mem h" "max_mem (set_mem_prev p n h) = max_mem h"
  by (simp_all add: mem_writes)

lemma mem_read_same [simp]:
  "mem_magic (set_mem_magic p v h) p = v" "mem_magic (set_mem_used p v h) p = mem_magic h p"
  "mem_magic (set_mem_next p n h) p = mem_magic h p" "mem_magic (set_mem_prev p n h) p = mem_magic h p"
  "mem_used (set_mem_magic p v h) p = mem_used h p" "mem_used (set_mem_used p v h) p = v"
  "mem_used (set_mem_next p n h) p = mem_used h p" "mem_used (set_mem_prev p n h) p = mem_used h p"
  "mem_next (set_mem_magic p v h) p = mem_next h p" "mem_next (set_mem_used p v h) p = mem_next h p"
  "n < 2 ^ 32 \<Longrightarrow> mem_next (set_mem_next p n h) p = n" "mem_next (set_mem_prev p n h) p = mem_next h p"
  "mem_prev (set_mem_magic p v h) p = mem_prev h p" "mem_prev (set_mem_used p v h) p = mem_prev h p"
  "mem_prev (set_mem_next p n h) p = mem_prev h p" "n < 2 ^ 32 \<Longrightarrow> mem_prev (set_mem_prev p n h) p = n"
  by (auto simp: mem_reads mem_writes store_other unat_of_nat intro!: load_cong arg_cong [of _ _ unat])

lemma mem_read_apart [simp]:
  assumes "apart p q"
  shows "mem_magic (set_mem_magic p v h) q = mem_magic h q"
    "mem_magic (set_mem_used p v h) q = mem_magic h q"
    "mem_magic (set_mem_next p n h) q = mem_magic h q"
    "mem_magic (set_mem_prev p n h) q = mem_magic h q"
    "mem_used (set_mem_magic p v h) q = mem_used h q"
    "mem_used (set_mem_used p v h) q = mem_used h q"
    "mem_used (set_mem_next p n h) q = mem_used h q"
    "mem_used (set_mem_prev p n h) q = mem_used h q"
    "mem_next (set_mem_magic p v h) q = mem_next h q"
    "mem_next (set_mem_used p v h) q = mem_next h q"
    "mem_next (set_mem_next p n h) q = mem_next h q"
    "mem_next (set_mem_prev p n h) q = mem_next h q"
    "mem_prev (set_mem_magic p v h) q = mem_prev h q"
    "mem_prev (set_mem_used p v h) q = mem_prev h q"
    "mem_prev (set_mem_next p n h) q = mem_prev h q"
    "mem_prev (set_mem_prev p n h) q = mem_prev h q"
  using assms
  by (auto simp: mem_reads mem_writes apart_def store_other intro!: load_cong arg_cong [of _ _ unat])

lemma mem_read_update [simp]:
  "mem_used (h\<lparr>lfree := x\<rparr>) p = mem_used h p" "mem_used (h\<lparr>heap_sem := x\<rparr>) p = mem_used h p"
  "mem_used (h\<lparr>used_mem := x\<rparr>) p = mem_used h p" "mem_used (h\<lparr>max_mem := x\<rparr>) p = mem_used h p"
  "mem_next (h\<lparr>lfree := x\<rparr>) p = mem_next h p" "mem_next (h\<lparr>heap_sem := x\<rparr>) p = mem_next h p"
  "mem_next (h\<lparr>used_mem := x\<rparr>) p = mem_next h p" "mem_next (h\<lparr>max_mem := x\<rparr>) p = mem_next h p"
  "mem_magic (h\<lparr>lfree := x\<rparr>) p = mem_magic h p" "mem_magic (h\<lparr>heap_sem := x\<rparr>) p = mem_magic h p"
  "mem_magic (h\<lparr>used_mem := x\<rparr>) p = mem_magic h p" "mem_magic (h\<lparr>max_mem := x\<rparr>) p = mem_magic h p"
  "mem_prev (h\<lparr>lfree := x\<rparr>) p = mem_prev h p" "mem_prev (h\<lparr>heap_sem := x\<rparr>) p = mem_prev h p"
  "mem_prev (h\<lparr>used_mem := x\<rparr>) p = mem_prev h p" "mem_prev (h\<lparr>max_mem := x\<rparr>) p = mem_prev h p"
  "mem_used (h\<lparr>heap_end := x\<rparr>) p = mem_used h p" "mem_next (h\<lparr>heap_end := x\<rparr>) p = mem_next h p"
  "mem_magic (h\<lparr>heap_end := x\<rparr>) p = mem_magic h p" "mem_prev (h\<lparr>heap_end := x\<rparr>) p = mem_prev h p"
  by (simp_all add: mem_reads)

text \<open>What a call changes of the memory lies within the header at \<open>p\<close>.\<close>

lemma mem_write_ram:
  assumes "x < p \<or> p + SIZEOF_STRUCT_MEM \<le> x"
  shows "ram (set_mem_magic p v h) x = ram h x" "ram (set_mem_used p v h) x = ram h x"
    "ram (set_mem_next p n h) x = ram h x" "ram (set_mem_prev p n h) x = ram h x"
  using assms by (auto simp: mem_writes store_other)

lemma store16_load16 [simp]: "store16 a (load16 m a) m = m"
  by (simp add: store16_def load16_def)

lemma set_mem_magic_id: "mem_magic h p = v \<Longrightarrow> set_mem_magic p v h = h"
  by (auto simp: mem_magic_def set_mem_magic_def)

text \<open>The header of a block as a whole.\<close>

definition hdr :: "heap_t \<Rightarrow> nat \<Rightarrow> u16 \<times> u16 \<times> nat \<times> nat" where
  "hdr h p = (mem_magic h p, mem_used h p, mem_next h p, mem_prev h p)"

lemma hdr_update [simp]:
  "hdr (h\<lparr>heap_ptr := x\<rparr>) p = hdr h p" "hdr (h\<lparr>heap_end := x\<rparr>) p = hdr h p"
  "hdr (h\<lparr>lfree := x\<rparr>) p = hdr h p" "hdr (h\<lparr>heap_sem := x\<rparr>) p = hdr h p"
  "hdr (h\<lparr>mem_size_aligned := x\<rparr>) p = hdr h p" "hdr (h\<lparr>used_mem := x\<rparr>) p = hdr h p"
  "hdr (h\<lparr>max_mem := x\<rparr>) p = hdr h p"
  by (simp_all add: hdr_def mem_reads)

lemma hdr_write_same:
  assumes "hdr h p = (a, b, c, d)"
  shows "hdr (set_mem_magic p v h) p = (v, b, c, d)" "hdr (set_mem_used p v h) p = (a, v, c, d)"
    "n < 2 ^ 32 \<Longrightarrow> hdr (set_mem_next p n h) p = (a, b, n, d)"
    "n < 2 ^ 32 \<Longrightarrow> hdr (set_mem_prev p n h) p = (a, b, c, n)"
  using assms by (simp_all add: hdr_def)

lemma hdr_write_apart [simp]:
  assumes "apart p q"
  shows "hdr (set_mem_magic p v h) q = hdr h q" "hdr (set_mem_used p v h) q = hdr h q"
    "hdr (set_mem_next p n h) q = hdr h q" "hdr (set_mem_prev p n h) q = hdr h q"
  using assms by (simp_all add: hdr_def)

section \<open>Chains of blocks\<close>

text \<open>A block is its offset, the offset of its successor and whether it is in use. In
  \<open>seg h q p bs e\<close> the headers from offset \<open>p\<close> to \<open>e\<close> describe
  \<open>bs\<close>, and \<open>q\<close> is the block before the first.\<close>

type_synonym blk = "nat \<times> nat \<times> bool"

fun seg :: "heap_t \<Rightarrow> nat \<Rightarrow> nat \<Rightarrow> blk list \<Rightarrow> nat \<Rightarrow> bool" where
  "seg h q p [] e \<longleftrightarrow> p = e"
| "seg h q p ((a, n, u) # bs) e \<longleftrightarrow>
     a = p \<and> hdr h (heap_ptr h + p) = (HEAP_MAGIC, if u then 1 else 0, n, q) \<and>
     p + 16 \<le> n \<and> 4 dvd n \<and> n < 2 ^ 32 \<and> seg h p n bs e"

definition before :: "nat \<Rightarrow> blk list \<Rightarrow> nat" where
  "before q bs = (if bs = [] then q else fst (last bs))"

lemma before_simps [simp]:
  "before q [] = q" "before q (b # bs) = before (fst b) bs" "before q (xs @ [b]) = fst b"
  by (simp_all add: before_def)

lemma seg_append:
  "seg h q p (xs @ ys) e \<longleftrightarrow> (\<exists>r. seg h q p xs r \<and> seg h (before q xs) r ys e)"
  by (induction xs arbitrary: q p) auto

lemma seg_le: "seg h q p bs e \<Longrightarrow> p + 16 * length bs \<le> e"
proof (induction bs arbitrary: q p)
  case (Cons b bs)
  then show ?case by (cases b) fastforce
qed simp

lemma seg_member:
  "seg h q p bs e \<Longrightarrow> (a, n, u) \<in> set bs \<Longrightarrow> p \<le> a \<and> a + 16 \<le> n \<and> n \<le> e \<and> 4 dvd n \<and> n < 2 ^ 32
    \<and> mem_magic h (heap_ptr h + a) = HEAP_MAGIC"
proof (induction bs arbitrary: q p)
  case (Cons b bs)
  obtain a' n' u' where b: "b = (a', n', u')" by (cases b)
  show ?case
  proof (cases "(a, n, u) = b")
    case True
    then show ?thesis using Cons.prems b seg_le [of h p n bs e] by (auto simp: hdr_def)
  next
    case False
    then show ?thesis using Cons b by fastforce
  qed
qed simp

lemma seg_gap: "seg h q p bs e \<Longrightarrow> (a, n, u) \<in> set bs \<Longrightarrow> a = p \<or> p + 16 \<le> a"
  using seg_member by (cases bs) (fastforce dest: seg_member)+

lemma seg_end: "seg h q p bs e \<Longrightarrow> seg h q' p bs e' \<Longrightarrow> e = e'"
  by (induction h q p bs e arbitrary: q' rule: seg.induct) auto

lemma seg_update [simp]:
  "seg (h\<lparr>lfree := x\<rparr>) q p bs e = seg h q p bs e" "seg (h\<lparr>heap_sem := x\<rparr>) q p bs e = seg h q p bs e"
  "seg (h\<lparr>used_mem := x\<rparr>) q p bs e = seg h q p bs e" "seg (h\<lparr>max_mem := x\<rparr>) q p bs e = seg h q p bs e"
  by (induction h q p bs e rule: seg.induct) auto

text \<open>Rewriting headers: a segment stays one when its own headers do, except that the first
  block may get another predecessor.\<close>

lemma seg_relink:
  assumes "seg h q p bs e" "heap_ptr h' = heap_ptr h"
    "\<And>a n u. (a, n, u) \<in> set bs \<Longrightarrow> a \<noteq> p \<Longrightarrow> hdr h' (heap_ptr h + a) = hdr h (heap_ptr h + a)"
    "\<And>a b c. hdr h (heap_ptr h + p) = (a, b, c, q) \<Longrightarrow> bs \<noteq> [] \<Longrightarrow> hdr h' (heap_ptr h + p) = (a, b, c, q')"
  shows "seg h' q' p bs e"
  using assms
proof (induction bs arbitrary: q q' p)
  case (Cons b bs)
  obtain a n u where b: "b = (a, n, u)" by (cases b)
  have s: "seg h p n bs e" "p + 16 \<le> n" "a = p"
    using Cons.prems(1) b by auto
  have "seg h' p n bs e"
  proof (rule Cons.IH [OF s(1) Cons.prems(2)])
    fix a' n' u'
    assume "(a', n', u') \<in> set bs" "a' \<noteq> n"
    then show "hdr h' (heap_ptr h + a') = hdr h (heap_ptr h + a')"
      using Cons.prems(3) [of a' n' u'] seg_member [OF s(1)] s by force
  next
    fix a' b' c'
    assume h: "hdr h (heap_ptr h + n) = (a', b', c', p)" and "bs \<noteq> []"
    then have "fst (hd bs) = n" "hd bs \<in> set bs"
      using s(1) by (cases bs; force)+
    then obtain n' u' where "(n, n', u') \<in> set bs"
      by (metis prod.collapse)
    then show "hdr h' (heap_ptr h + n) = (a', b', c', p)"
      using Cons.prems(3) [of n n' u'] h s by auto
  qed
  then show ?case
    using Cons.prems b by auto
qed simp

text \<open>The heap as a chain of blocks that starts at offset 0 and ends at the end header, which
  is always in use.\<close>

definition chain :: "heap_t \<Rightarrow> blk list \<Rightarrow> bool" where
  "chain h bs \<longleftrightarrow>
     4 dvd heap_ptr h \<and> 4 dvd mem_size_aligned h \<and> 12 \<le> mem_size_aligned h \<and>
     heap_ptr h + mem_size_aligned h + 24 < 2 ^ 32 \<and>
     heap_end h = heap_ptr h + mem_size_aligned h + 12 \<and>
     seg h 0 0 bs (mem_size_aligned h + 12) \<and>
     mem_used h (heap_end h) = 1 \<and> mem_next h (heap_end h) = mem_size_aligned h + 12"

lemma chain_update [simp]:
  "chain (h\<lparr>lfree := x\<rparr>) bs = chain h bs" "chain (h\<lparr>heap_sem := x\<rparr>) bs = chain h bs"
  "chain (h\<lparr>used_mem := x\<rparr>) bs = chain h bs" "chain (h\<lparr>max_mem := x\<rparr>) bs = chain h bs"
  by (simp_all add: chain_def mem_reads)

text \<open>One place of the chain is rewritten. Everything before it keeps its headers, the block
  after it keeps all but its predecessor.\<close>

lemma chain_replace:
  assumes c: "chain h (xs @ ms @ ys)" and m: "seg h (before 0 xs) p ms n" "seg h' (before 0 xs) p ms' n"
    and eq: "heap_ptr h' = heap_ptr h" "heap_end h' = heap_end h"
      "mem_size_aligned h' = mem_size_aligned h"
    and same: "\<And>a. a + 12 \<le> p \<or> n + 12 \<le> a \<Longrightarrow> hdr h' (heap_ptr h + a) = hdr h (heap_ptr h + a)"
    and link: "\<And>a b c d. hdr h (heap_ptr h + n) = (a, b, c, d) \<Longrightarrow> n \<noteq> mem_size_aligned h + 12 \<Longrightarrow>
      hdr h' (heap_ptr h + n) = (a, b, c, before (before 0 xs) ms')"
    and ends: "n = mem_size_aligned h + 12 \<Longrightarrow>
      mem_used h' (heap_end h) = mem_used h (heap_end h) \<and> mem_next h' (heap_end h) = mem_next h (heap_end h)"
    and ne: "ms \<noteq> []"
  shows "chain h' (xs @ ms' @ ys)"
proof -
  let ?e = "mem_size_aligned h + 12"
  obtain r r' where s: "seg h 0 0 xs r" "seg h (before 0 xs) r ms r'" 
      "seg h (before (before 0 xs) ms) r' ys ?e"
    using c by (auto simp: chain_def seg_append)
  have "r = p"
    using s(2) m(1) ne by (cases ms) auto
  moreover have "r' = n"
    using seg_end s(2) m(1) \<open>r = p\<close> by blast
  ultimately have s: "seg h 0 0 xs p" "seg h (before (before 0 xs) ms) n ys ?e"
    using s by simp_all
  have "seg h' 0 0 xs p"
  proof (rule seg_relink [OF s(1) eq(1)])
    fix a b u
    assume "(a, b, u) \<in> set xs" "a \<noteq> 0"
    then show "hdr h' (heap_ptr h + a) = hdr h (heap_ptr h + a)"
      using seg_member [OF s(1)] by (intro same) force
  next
    fix a b c
    assume "hdr h (heap_ptr h + 0) = (a, b, c, 0)" "xs \<noteq> []"
    then show "hdr h' (heap_ptr h + 0) = (a, b, c, 0)"
      using same [of 0] seg_le [OF s(1)] by (cases xs) auto
  qed
  moreover have "seg h' (before (before 0 xs) ms') n ys ?e"
  proof (rule seg_relink [OF s(2) eq(1)])
    fix a b u
    assume "(a, b, u) \<in> set ys" "a \<noteq> n"
    then show "hdr h' (heap_ptr h + a) = hdr h (heap_ptr h + a)"
      using seg_gap [OF s(2)] by (intro same) force
  next
    fix a b c
    assume "hdr h (heap_ptr h + n) = (a, b, c, before (before 0 xs) ms)" "ys \<noteq> []"
    then show "hdr h' (heap_ptr h + n) = (a, b, c, before (before 0 xs) ms')"
      using link seg_le [OF s(2)] by (cases ys) auto
  qed
  ultimately have "seg h' 0 0 (xs @ ms' @ ys) ?e"
    using m(2) by (auto simp: seg_append)
  moreover have "mem_used h' (heap_end h) = 1 \<and> mem_next h' (heap_end h) = ?e"
  proof (cases ys)
    case Nil
    then have "n = ?e" using s(2) by simp
    with ends c show ?thesis by (auto simp: chain_def)
  next
    case (Cons y zs)
    then have "hdr h' (heap_ptr h + ?e) = hdr h (heap_ptr h + ?e)"
      using seg_le [OF s(2)] by (intro same) simp
    then show ?thesis using c by (auto simp: chain_def hdr_def add.assoc)
  qed
  ultimately show ?thesis
    using c eq by (simp add: chain_def)
qed

text \<open>The user bytes of the blocks in use, as addresses.\<close>

definition user_bytes :: "heap_t \<Rightarrow> blk list \<Rightarrow> nat set" where
  "user_bytes h bs =
     (\<Union>(a, n, u) \<in> set bs. if u then {heap_ptr h + a + 12 ..< heap_ptr h + n} else {})"

lemma user_bytes_simps [simp]:
  "user_bytes h [] = {}"
  "user_bytes h ((a, n, u) # bs) =
     (if u then {heap_ptr h + a + 12 ..< heap_ptr h + n} else {}) \<union> user_bytes h bs"
  "user_bytes h (xs @ ys) = user_bytes h xs \<union> user_bytes h ys"
  by (simp_all add: user_bytes_def)

text \<open>The addresses the heap manages, from its first header to its last.\<close>

definition heap_area :: "heap_t \<Rightarrow> nat set" where
  "heap_area h = {heap_ptr h ..< heap_end h + SIZEOF_STRUCT_MEM}"

text \<open>\<open>h'\<close> has the blocks \<open>bs\<close> and the same contents in those in use and outside the
  heap.\<close>

definition chain_from :: "heap_t \<Rightarrow> heap_t \<Rightarrow> blk list \<Rightarrow> bool" where
  "chain_from h h' bs \<longleftrightarrow> chain h' bs \<and> heap_ptr h' = heap_ptr h \<and> heap_end h' = heap_end h \<and>
     mem_size_aligned h' = mem_size_aligned h \<and> (\<forall>x \<in> user_bytes h bs \<union> - heap_area h. ram h' x = ram h x)"

lemma chain_parts:
  assumes "chain h (xs @ (p, n, u) # ys)"
  shows "seg h 0 0 xs p" "seg h (before 0 xs) p [(p, n, u)] n" "seg h p n ys (mem_size_aligned h + 12)"
    "p + 16 \<le> n" "n \<le> mem_size_aligned h + 12" "4 dvd n" "n < 2 ^ 32" "p < 2 ^ 32"
    "hdr h (heap_ptr h + p) = (HEAP_MAGIC, if u then 1 else 0, n, before 0 xs)"
  using assms seg_le [of h p n ys "mem_size_aligned h + 12"] by (auto simp: chain_def seg_append)

text \<open>User bytes of a block in use lie outside every header of the chain and of the end.\<close>

lemma user_bytes_off_headers:
  assumes "chain h bs" "x \<in> user_bytes h bs"
    "a = mem_size_aligned h + 12 \<or> a \<in> fst ` set bs"
  shows "x < heap_ptr h + a \<or> heap_ptr h + a + 12 \<le> x"
proof -
  obtain b m where b: "(b, m, True) \<in> set bs" "heap_ptr h + b + 12 \<le> x" "x < heap_ptr h + m"
    using assms(2) by (auto simp: user_bytes_def split: if_splits)
  then obtain xs ys where bs: "bs = xs @ (b, m, True) # ys"
    by (metis split_list)
  note c = chain_parts [OF assms(1) [unfolded bs]]
  from assms(3) consider "a = mem_size_aligned h + 12" | "a = b"
    | n u where "(a, n, u) \<in> set xs" | n u where "(a, n, u) \<in> set ys"
    unfolding bs by force
  then show ?thesis
  proof cases
    case (3 n u)
    then show ?thesis using seg_member [OF c(1)] b by force
  next
    case (4 n u)
    then show ?thesis using seg_member [OF c(3)] b by force
  qed (use b c in auto)
qed

text \<open>Marking a block.\<close>

lemma chain_mark:
  assumes c: "chain h (xs @ (p, n, u) # ys)" and v: "v = (if w then 1 else 0)"
  shows "chain (set_mem_used (heap_ptr h + p) v h) (xs @ (p, n, w) # ys)"
proof -
  note parts = chain_parts [OF c]
  let ?h = "set_mem_used (heap_ptr h + p) v h"
  have m: "hdr ?h (heap_ptr h + p) = (HEAP_MAGIC, v, n, before 0 xs)"
    by (rule hdr_write_same [OF parts(9)])
  have n: "apart p n"
    using parts(4) by (simp add: apart_def)
  have "chain ?h (xs @ [(p, n, w)] @ ys)"
  proof (rule chain_replace [where ms = "[(p, n, u)]" and p = p and n = n and h = h])
    show "seg ?h (before 0 xs) p [(p, n, w)] n"
      using m parts(2) by (simp add: v)
    show "hdr ?h (heap_ptr h + n) = (a, b, c, before (before 0 xs) [(p, n, w)])"
      if "hdr h (heap_ptr h + n) = (a, b, c, d)" "n \<noteq> mem_size_aligned h + 12" for a b c d
      using that n chain_parts(3) [OF c] by (cases ys) auto
    show "mem_used ?h (heap_end h) = mem_used h (heap_end h) \<and>
        mem_next ?h (heap_end h) = mem_next h (heap_end h)" if "n = mem_size_aligned h + 12"
      using n c that by (simp add: chain_def add.assoc)
  qed (use c parts(2) n in \<open>auto simp: apart_def\<close>)
  then show ?thesis by simp
qed

text \<open>Joining a block with its successor.\<close>

lemma chain_join:
  assumes c: "chain h (xs @ (p, n, u) # (n, k, w) # ys)"
  shows "chain (set_mem_prev (heap_ptr h + k) p (set_mem_next (heap_ptr h + p) k h)) (xs @ (p, k, u) # ys)"
proof -
  note parts = chain_parts [OF c]
  note parts2 = chain_parts [of h "xs @ [(p, n, u)]" n k w ys]
  let ?h1 = "set_mem_next (heap_ptr h + p) k h"
  let ?h = "set_mem_prev (heap_ptr h + k) p ?h1"
  have k: "n + 16 \<le> k" "k < 2 ^ 32" "4 dvd k" "k \<le> mem_size_aligned h + 12"
    using parts2 c by simp_all
  have kp: "apart p k" "apart (heap_ptr h + k) (heap_ptr h + p)"
    using parts(4) k(1) by (simp_all add: apart_def)
  have m: "hdr ?h (heap_ptr h + p) = (HEAP_MAGIC, if u then 1 else 0, k, before 0 xs)"
    using hdr_write_same(3) [OF parts(9) k(2)] kp(2) by simp
  have l: "hdr ?h (heap_ptr h + k) = (a, b, c, p)" if "hdr h (heap_ptr h + k) = (a, b, c, d)" for a b c d
    using that kp(1) parts(8) by (intro hdr_write_same) simp_all
  have "chain ?h (xs @ [(p, k, u)] @ ys)"
  proof (rule chain_replace [where ms = "[(p, n, u), (n, k, w)]" and p = p and n = k and h = h])
    show "seg h (before 0 xs) p [(p, n, u), (n, k, w)] k"
      using parts(2,3) by simp
    show "seg ?h (before 0 xs) p [(p, k, u)] k"
      using m k parts(4) by simp
    show "mem_used ?h (heap_end h) = mem_used h (heap_end h) \<and>
        mem_next ?h (heap_end h) = mem_next h (heap_end h)" if "k = mem_size_aligned h + 12"
      using kp(1) c that by (simp add: chain_def add.assoc)
    show "hdr ?h (heap_ptr h + a) = hdr h (heap_ptr h + a)" if "a + 12 \<le> p \<or> k + 12 \<le> a" for a
    proof -
      have "apart k a" "apart p a"
        using that k parts(4) by (auto simp: apart_def)
      then show ?thesis by simp
    qed
  qed (use c l in auto)
  then show ?thesis by simp
qed

text \<open>Splitting a block.\<close>

lemma split_block_fields [simp]:
  "heap_ptr (split_block p p2 h) = heap_ptr h" "heap_end (split_block p p2 h) = heap_end h"
  "lfree (split_block p p2 h) = lfree h" "heap_sem (split_block p p2 h) = heap_sem h"
  "mem_size_aligned (split_block p p2 h) = mem_size_aligned h"
  "used_mem (split_block p p2 h) = used_mem h" "max_mem (split_block p p2 h) = max_mem h"
  by (simp_all add: split_block_def Let_def)

lemma link_rest_fields [simp]:
  "heap_ptr (link_rest p2 h) = heap_ptr h" "heap_end (link_rest p2 h) = heap_end h"
  "lfree (link_rest p2 h) = lfree h" "heap_sem (link_rest p2 h) = heap_sem h"
  "mem_size_aligned (link_rest p2 h) = mem_size_aligned h"
  "used_mem (link_rest p2 h) = used_mem h" "max_mem (link_rest p2 h) = max_mem h"
  by (simp_all add: link_rest_def Let_def)

lemma chain_split:
  assumes c: "chain h (xs @ (p, n, u) # ys)" and p2: "p + 16 \<le> p2" "p2 + 16 \<le> n" "4 dvd p2"
  shows "chain (link_rest p2 (split_block p p2 h)) (xs @ (p, p2, u) # (p2, n, False) # ys)"
proof -
  note parts = chain_parts [OF c]
  let ?hp = "heap_ptr h"
  let ?s = "split_block p p2 h"
  let ?h = "link_rest p2 ?s"
  have ap: "apart p2 p" "apart p p2" "apart p2 n" "apart n p2" "apart n p" "apart p n"
    using p2 by (simp_all add: apart_def)
  have b: "p2 < 2 ^ 32" "p < 2 ^ 32" "n < 2 ^ 32"
    using p2 parts by simp_all
  have nx: "mem_next h (?hp + p) = n"
    using parts(9) by (simp add: hdr_def)
  have s2: "hdr ?s (?hp + p2) = (HEAP_MAGIC, 0, n, p)"
    using ap b nx by (simp add: split_block_def Let_def hdr_def)
  have sp: "hdr ?s (?hp + p) = (HEAP_MAGIC, if u then 1 else 0, p2, before 0 xs)"
    using ap b parts(9) by (simp add: split_block_def Let_def hdr_def)
  have so: "hdr ?s (?hp + a) = hdr h (?hp + a)" if "apart p2 a" "apart p a" for a
    using that by (simp add: split_block_def Let_def)
  have L: "?h = (if n \<noteq> mem_size_aligned h + 12 then set_mem_prev (?hp + n) p2 ?s else ?s)"
    using s2 by (simp add: link_rest_def Let_def hdr_def)
  have "chain ?h (xs @ [(p, p2, u), (p2, n, False)] @ ys)"
  proof (rule chain_replace [where ms = "[(p, n, u)]" and p = p and n = n and h = h])
    show "seg ?h (before 0 xs) p [(p, p2, u), (p2, n, False)] n"
      using sp s2 p2 parts(6) b ap by (simp add: L)
    show "hdr ?h (?hp + n) = (a, b, c, before (before 0 xs) [(p, p2, u), (p2, n, False)])"
      if "hdr h (?hp + n) = (a, b, c, d)" "n \<noteq> mem_size_aligned h + 12" for a b c d
      using that so [OF ap(3,6)] hdr_write_same(4) [of ?s "?hp + n" a b c d p2] \<open>p2 < 2 ^ 32\<close>
      by (simp add: L)
    show "mem_used ?h (heap_end h) = mem_used h (heap_end h) \<and>
        mem_next ?h (heap_end h) = mem_next h (heap_end h)" if "n = mem_size_aligned h + 12"
    proof -
      have "heap_end h = ?hp + n"
        using c that by (simp add: chain_def)
      then show ?thesis using so [OF ap(3,6)] that by (simp add: L hdr_def)
    qed
    show "hdr ?h (?hp + a) = hdr h (?hp + a)" if "a + 12 \<le> p \<or> n + 12 \<le> a" for a
    proof -
      have "apart p2 a" "apart p a" "apart n a"
        using that p2 by (auto simp: apart_def)
      then show ?thesis by (simp add: L so)
    qed
  qed (use c parts(2) in auto)
  then show ?thesis by simp
qed

text \<open>The order of setting the used flag and splitting does not matter.\<close>

lemma store_commute:
  "a + 2 \<le> b \<or> b + 2 \<le> a \<Longrightarrow> store16 a v (store16 b w m) = store16 b w (store16 a v m)"
  "a + 2 \<le> c \<or> c + 4 \<le> a \<Longrightarrow> store16 a v (store32 c x m) = store32 c x (store16 a v m)"
  by (auto simp: store16_def store32_def fun_eq_iff)

lemma set_used_commute:
  assumes "p + 12 \<le> q \<or> q + 12 \<le> p"
  shows "set_mem_used p v (set_mem_magic q w h) = set_mem_magic q w (set_mem_used p v h)"
    "set_mem_used p v (set_mem_used q w h) = set_mem_used q w (set_mem_used p v h)"
    "set_mem_used p v (set_mem_next q n h) = set_mem_next q n (set_mem_used p v h)"
    "set_mem_used p v (set_mem_prev q n h) = set_mem_prev q n (set_mem_used p v h)"
proof -
  have o: "p + 2 + 2 \<le> q \<or> q + 2 \<le> p + 2" "p + 2 + 2 \<le> q + 2 \<or> q + 2 + 2 \<le> p + 2"
    "p + 2 + 2 \<le> q + 4 \<or> q + 4 + 4 \<le> p + 2" "p + 2 + 2 \<le> q + 8 \<or> q + 8 + 4 \<le> p + 2"
    using assms by auto
  show "set_mem_used p v (set_mem_magic q w h) = set_mem_magic q w (set_mem_used p v h)"
    using store_commute(1) [OF o(1), of v w "ram h"] by (simp add: mem_writes)
  show "set_mem_used p v (set_mem_used q w h) = set_mem_used q w (set_mem_used p v h)"
    using store_commute(1) [OF o(2), of v w "ram h"] by (simp add: mem_writes)
  show "set_mem_used p v (set_mem_next q n h) = set_mem_next q n (set_mem_used p v h)"
    using store_commute(2) [OF o(3), of v "word_of_nat n" "ram h"] by (simp add: mem_writes)
  show "set_mem_used p v (set_mem_prev q n h) = set_mem_prev q n (set_mem_used p v h)"
    using store_commute(2) [OF o(4), of v "word_of_nat n" "ram h"] by (simp add: mem_writes)
qed

lemma set_used_next: "set_mem_used p v (set_mem_next p n h) = set_mem_next p n (set_mem_used p v h)"
  using store_commute(2) [of "p + 2" "p + 4" v "word_of_nat n" "ram h"] by (simp add: mem_writes)

lemma split_set_used:
  assumes "p + 16 \<le> p2"
  shows "set_mem_used (heap_ptr h + p) v (split_block p p2 h) =
    split_block p p2 (set_mem_used (heap_ptr h + p) v h)"
proof -
  have ap: "heap_ptr h + p + 12 \<le> heap_ptr h + p2 \<or> heap_ptr h + p2 + 12 \<le> heap_ptr h + p"
    "apart p2 p"
    using assms by (simp_all add: apart_def)
  note comm = set_used_commute [OF ap(1)]
  from ap(2) show ?thesis
    by (simp add: split_block_def Let_def set_used_next comm)
qed

text \<open>The same three steps with what they keep of the contents.\<close>

lemma user_bytes_cong: "heap_ptr h' = heap_ptr h \<Longrightarrow> user_bytes h' bs = user_bytes h bs"
  by (induction bs) auto

lemma chain_from_trans:
  assumes "chain_from h h1 bs1" "chain_from h1 h2 bs2" "user_bytes h bs2 \<subseteq> user_bytes h bs1"
  shows "chain_from h h2 bs2"
proof -
  have "heap_area h1 = heap_area h" "user_bytes h1 bs2 = user_bytes h bs2"
    using assms(1) user_bytes_cong [of h1 h] by (auto simp: chain_from_def heap_area_def)
  then show ?thesis
    using assms by (auto simp: chain_from_def)
qed

lemma chain_from_refl: "chain h bs \<Longrightarrow> chain_from h h bs"
  by (simp add: chain_from_def)

lemma chain_from_chain: "chain_from h h' bs \<Longrightarrow> chain h' bs"
  by (simp add: chain_from_def)

lemma chain_from_update [simp]:
  "chain_from h (h'\<lparr>lfree := x\<rparr>) bs = chain_from h h' bs"
  "chain_from h (h'\<lparr>heap_sem := x\<rparr>) bs = chain_from h h' bs"
  "chain_from h (h'\<lparr>used_mem := x\<rparr>) bs = chain_from h h' bs"
  "chain_from h (h'\<lparr>max_mem := x\<rparr>) bs = chain_from h h' bs"
  "chain_from (h\<lparr>lfree := x\<rparr>) h' bs = chain_from h h' bs"
  "chain_from (h\<lparr>heap_sem := x\<rparr>) h' bs = chain_from h h' bs"
  "chain_from (h\<lparr>used_mem := x\<rparr>) h' bs = chain_from h h' bs"
  "chain_from (h\<lparr>max_mem := x\<rparr>) h' bs = chain_from h h' bs"
proof -
  have "user_bytes (h\<lparr>lfree := x\<rparr>) bs = user_bytes h bs" "user_bytes (h\<lparr>heap_sem := x\<rparr>) bs = user_bytes h bs"
    "user_bytes (h\<lparr>used_mem := x\<rparr>) bs = user_bytes h bs" "user_bytes (h\<lparr>max_mem := x\<rparr>) bs = user_bytes h bs"
    by (rule user_bytes_cong, simp)+
  moreover have "heap_area (h\<lparr>lfree := x\<rparr>) = heap_area h" "heap_area (h\<lparr>heap_sem := x\<rparr>) = heap_area h"
    "heap_area (h\<lparr>used_mem := x\<rparr>) = heap_area h" "heap_area (h\<lparr>max_mem := x\<rparr>) = heap_area h"
    by (simp_all add: heap_area_def)
  ultimately show
    "chain_from (h\<lparr>lfree := x\<rparr>) h' bs = chain_from h h' bs"
    "chain_from (h\<lparr>heap_sem := x\<rparr>) h' bs = chain_from h h' bs"
    "chain_from (h\<lparr>used_mem := x\<rparr>) h' bs = chain_from h h' bs"
    "chain_from (h\<lparr>max_mem := x\<rparr>) h' bs = chain_from h h' bs"
    by (simp_all add: chain_from_def)
qed (simp_all add: chain_from_def)

lemma header_clear:
  assumes c: "chain h' bs" "heap_ptr h' = heap_ptr h" "heap_end h' = heap_end h"
    and x: "x \<in> user_bytes h bs \<union> - heap_area h"
    and a: "a = mem_size_aligned h' + 12 \<or> a \<in> fst ` set bs"
  shows "x < heap_ptr h + a \<or> heap_ptr h + a + SIZEOF_STRUCT_MEM \<le> x"
proof (cases "x \<in> user_bytes h bs")
  case True
  then have "x \<in> user_bytes h' bs"
    using user_bytes_cong [OF c(2)] by simp
  from user_bytes_off_headers [OF c(1) this a] show ?thesis
    by (simp only: c(2))
next
  case False
  have "seg h' 0 0 bs (mem_size_aligned h' + 12)" "heap_end h = heap_ptr h + mem_size_aligned h' + 12"
    using c by (simp_all add: chain_def)
  moreover from this have "a \<le> mem_size_aligned h' + 12"
    using a seg_member [of h' 0 0 bs "mem_size_aligned h' + 12"] by force
  ultimately show ?thesis
    using x False by (auto simp: heap_area_def)
qed

lemma mark_from:
  assumes "chain h (xs @ (p, n, u) # ys)" "v = (if w then 1 else 0)"
  shows "chain_from h (set_mem_used (heap_ptr h + p) v h) (xs @ (p, n, w) # ys)"
  using header_clear [OF chain_mark [OF assms], of h _ p] chain_mark [OF assms]
  by (simp add: chain_from_def mem_write_ram)

lemma seg_next: "seg h q p bs e \<Longrightarrow> p = e \<or> p \<in> fst ` set bs"
  by (cases bs) auto

lemma join_from:
  assumes c: "chain h (xs @ (p, n, u) # (n, k, w) # ys)"
  shows "chain_from h (set_mem_prev (heap_ptr h + k) p (set_mem_next (heap_ptr h + p) k h)) (xs @ (p, k, u) # ys)"
proof -
  let ?h = "set_mem_prev (heap_ptr h + k) p (set_mem_next (heap_ptr h + p) k h)"
  note c' = chain_join [OF c]
  have "k = mem_size_aligned h + 12 \<or> k \<in> fst ` set (xs @ (p, k, u) # ys)"
    using seg_next [OF chain_parts(3) [OF c']] by auto
  then have "ram ?h x = ram h x" if "x \<in> user_bytes h (xs @ (p, k, u) # ys) \<union> - heap_area h" for x
    using header_clear [OF c' _ _ that, of k] header_clear [OF c' _ _ that, of p]
    by (simp add: mem_write_ram)
  then show ?thesis using c' by (simp add: chain_from_def)
qed

lemma split_ram:
  assumes "x < heap_ptr h + p \<or> heap_ptr h + p + SIZEOF_STRUCT_MEM \<le> x"
    "x < heap_ptr h + p2 \<or> heap_ptr h + p2 + SIZEOF_STRUCT_MEM \<le> x"
    "mem_next (split_block p p2 h) (heap_ptr h + p2) = n"
    "x < heap_ptr h + n \<or> heap_ptr h + n + SIZEOF_STRUCT_MEM \<le> x"
  shows "ram (link_rest p2 (split_block p p2 h)) x = ram h x"
proof -
  have "ram (split_block p p2 h) x = ram h x"
    using assms(1,2) by (simp add: split_block_def Let_def mem_write_ram)
  then show ?thesis using assms(3,4) by (simp add: link_rest_def Let_def mem_write_ram)
qed

lemma split_from:
  assumes c: "chain h (xs @ (p, n, u) # ys)" and p2: "p + 16 \<le> p2" "p2 + 16 \<le> n" "4 dvd p2"
  shows "chain_from h (link_rest p2 (split_block p p2 h)) (xs @ (p, p2, u) # (p2, n, False) # ys)"
    (is "chain_from h ?h ?bs")
proof -
  note c' = chain_split [OF c p2]
  note parts = chain_parts [OF c]
  have nx: "mem_next (split_block p p2 h) (heap_ptr h + p2) = n"
  proof -
    have "mem_next h (heap_ptr h + p) = n" "apart p2 p" "apart p p2"
      using parts(9) p2 by (simp_all add: hdr_def apart_def)
    then show ?thesis using parts(7) by (simp add: split_block_def Let_def)
  qed
  have "n = mem_size_aligned h + 12 \<or> n \<in> fst ` set ?bs"
    using seg_next [OF parts(3)] by auto
  then have "ram ?h x = ram h x" if "x \<in> user_bytes h ?bs \<union> - heap_area h" for x
    using header_clear [OF c' _ _ that, of n] header_clear [OF c' _ _ that, of p]
      header_clear [OF c' _ _ that, of p2] nx
    by (intro split_ram [where n = n]) simp_all
  then show ?thesis using c' by (simp add: chain_from_def)
qed

section \<open>The allocator on block lists\<close>

text \<open>First fit, as the loop of \<^verbatim>\<open>rt_malloc\<close> does it: only blocks that start below
  \<open>lim\<close> are looked at, a block much larger than the request is split.\<close>

fun alloc_blk :: "nat \<Rightarrow> nat \<Rightarrow> blk list \<Rightarrow> (nat \<times> blk list) option" where
  "alloc_blk lim k [] = None"
| "alloc_blk lim k ((a, n, u) # bs) =
     (if a < lim
      then if \<not> u \<and> a + 12 + k \<le> n
           then Some (a, (if a + 12 + k + 24 \<le> n
                          then [(a, a + 12 + k, True), (a + 12 + k, n, False)]
                          else [(a, n, True)]) @ bs)
           else map_option (apsnd (Cons (a, n, u))) (alloc_blk lim k bs)
      else None)"

text \<open>Freeing marks the block and joins neighbouring free blocks.\<close>

fun coalesce :: "blk list \<Rightarrow> blk list" where
  "coalesce ((a, n, False) # (b, k, False) # bs) = coalesce ((a, k, False) # bs)"
| "coalesce (b # bs) = b # coalesce bs"
| "coalesce [] = []"

definition release_blk :: "nat \<Rightarrow> blk list \<Rightarrow> blk list" where
  "release_blk p bs = coalesce (map (\<lambda>(a, n, u). (a, n, u \<and> a \<noteq> p)) bs)"

definition shrink_blk :: "nat \<Rightarrow> nat \<Rightarrow> blk list \<Rightarrow> blk list" where
  "shrink_blk p k bs = coalesce (concat (map (\<lambda>(a, n, u).
     if a = p then [(a, a + 12 + k, u), (a + 12 + k, n, False)] else [(a, n, u)]) bs))"

fun first_free :: "blk list \<Rightarrow> nat \<Rightarrow> nat" where
  "first_free [] e = e"
| "first_free ((a, n, u) # bs) e = (if u then first_free bs e else a)"

definition used_bytes :: "blk list \<Rightarrow> nat" where
  "used_bytes bs = (\<Sum>(a, n, u) \<leftarrow> bs. if u then n - a else 0)"

definition merged :: "blk list \<Rightarrow> bool" where
  "merged bs \<longleftrightarrow> successively (\<lambda>(_, _, u) (_, _, w). u \<or> w) bs"

definition heap_ok :: "heap_t \<Rightarrow> blk list \<Rightarrow> bool" where
  "heap_ok h bs \<longleftrightarrow> chain h bs \<and> merged bs \<and>
     lfree h = heap_ptr h + first_free bs (mem_size_aligned h + 12) \<and>
     used_mem h = used_bytes bs \<and> used_mem h \<le> max_mem h \<and> heap_sem h = 1"

lemma merged_simps [simp]:
  "merged []" "merged [x]"
  "merged ((a, n, u) # (b, k, w) # bs) \<longleftrightarrow> (u \<or> w) \<and> merged ((b, k, w) # bs)"
  by (simp_all add: merged_def)

lemma merged_used [simp]: "merged ((a, n, True) # bs) \<longleftrightarrow> merged bs"
  by (cases bs) (auto simp: merged_def)

lemma merged_Cons: "merged ((a, n, u) # bs) \<longleftrightarrow> merged bs \<and> (u \<or> bs = [] \<or> snd (snd (hd bs)))"
  by (cases bs) (auto simp: merged_def)

lemma merged_append: "merged (xs @ ys) \<longleftrightarrow> merged xs \<and> merged ys \<and>
    (xs = [] \<or> ys = [] \<or> snd (snd (last xs)) \<or> snd (snd (hd ys)))"
  by (auto simp: merged_def successively_append_iff split: prod.splits)

lemma used_bytes_simps [simp]:
  "used_bytes [] = 0" "used_bytes ((a, n, u) # bs) = (if u then n - a else 0) + used_bytes bs"
  "used_bytes (xs @ ys) = used_bytes xs + used_bytes ys"
  by (simp_all add: used_bytes_def)

lemma first_free_append:
  "first_free (xs @ ys) e = first_free xs (first_free ys e)"
  by (induction xs e rule: first_free.induct) auto

lemma coalesce_merged: "merged bs \<Longrightarrow> coalesce bs = bs"
  by (induction bs rule: coalesce.induct) auto

lemma coalesce_used: "coalesce (xs @ (a, n, True) # bs) = coalesce xs @ (a, n, True) # coalesce bs"
  by (induction xs rule: coalesce.induct) auto

lemma coalesce_append:
  "merged xs \<Longrightarrow> xs = [] \<or> snd (snd (last xs)) \<Longrightarrow> coalesce (xs @ ys) = xs @ coalesce ys"
  by (induction xs rule: coalesce.induct) (auto split: if_splits)

lemma all_used_first_free: "\<forall>(a, n, u) \<in> set xs. u \<Longrightarrow> first_free xs r = r"
  by (induction xs r rule: first_free.induct) auto

text \<open>Either all blocks are in use, or the lowest free one is among them.\<close>

lemma first_free_cases:
  obtains "\<forall>(a, n, u) \<in> set xs. u" "\<And>r. first_free xs r = r"
  | a n where "(a, n, False) \<in> set xs" "\<And>r. first_free xs r = a"
proof (cases "\<forall>(a, n, u) \<in> set xs. u")
  case True
  with that(1) all_used_first_free show ?thesis by blast
next
  case False
  then have "\<exists>a n. (a, n, False) \<in> set xs \<and> (\<forall>r. first_free xs r = a)"
  proof (induction xs)
    case (Cons b xs)
    then show ?case by (cases b; cases "snd (snd b)") fastforce+
  qed simp
  with that(2) show ?thesis by blast
qed

lemma used_bytes_le: "seg h q p bs e \<Longrightarrow> p + used_bytes bs \<le> e"
proof (induction bs arbitrary: q p)
  case (Cons b bs)
  then show ?case by (cases b) (force simp: used_bytes_def)
qed simp

lemma chain_used_bytes:
  assumes "chain h bs"
  shows "used_bytes bs \<le> mem_size_aligned h + 12" "used_bytes bs < 2 ^ 32"
    "mem_size_aligned h + 12 < 2 ^ 32"
  using assms used_bytes_le [of h 0 0 bs "mem_size_aligned h + 12"] by (auto simp: chain_def)

section \<open>Plugging holes\<close>

text \<open>In a heap whose lowest free block is \<open>lfree\<close>, joining never has to move it.\<close>

lemma plug_forward_from:
  assumes c: "chain h (xs @ (p, n, False) # ys)" and l: "lfree h \<le> heap_ptr h + p"
    and m: "merged ys"
  shows "\<exists>n' ys'. coalesce ((p, n, False) # ys) = (p, n', False) # ys' \<and> merged ((p, n', False) # ys')
    \<and> chain_from h (plug_forward (heap_ptr h + p) h) (xs @ (p, n', False) # ys')
    \<and> lfree (plug_forward (heap_ptr h + p) h) = lfree h
    \<and> heap_sem (plug_forward (heap_ptr h + p) h) = heap_sem h
    \<and> used_mem (plug_forward (heap_ptr h + p) h) = used_mem h
    \<and> max_mem (plug_forward (heap_ptr h + p) h) = max_mem h"
proof -
  note parts = chain_parts [OF c]
  have nx: "mem_next h (heap_ptr h + p) = n"
    using parts(9) by (simp add: hdr_def)
  show ?thesis
  proof (cases ys)
    case Nil
    then have "heap_ptr h + n = heap_end h"
      using parts(3) c by (simp add: chain_def)
    then have "plug_forward (heap_ptr h + p) h = h"
      using nx by (simp add: plug_forward_def Let_def)
    then show ?thesis
      using Nil c by (auto simp: chain_from_refl)
  next
    case (Cons y zs)
    obtain k w where y: "y = (n, k, w)" and nhdr: "hdr h (heap_ptr h + n) = (HEAP_MAGIC, if w then 1 else 0, k, p)"
      using parts(3) Cons by (cases y) auto
    have ne: "heap_ptr h + n \<noteq> heap_end h" "heap_ptr h + p \<noteq> heap_ptr h + n"
      "lfree h \<noteq> heap_ptr h + n"
      using seg_le [OF parts(3)] Cons c parts(4) l by (auto simp: chain_def)
    show ?thesis
    proof (cases w)
      case True
      then have "plug_forward (heap_ptr h + p) h = h"
        using nx nhdr by (simp add: plug_forward_def Let_def hdr_def)
      then show ?thesis
        using Cons y True c m by (auto simp: chain_from_refl coalesce_merged)
    next
      case False
      have kn: "mem_next h (heap_ptr h + n) = k" "mem_used h (heap_ptr h + n) = 0" "apart p n"
        using nhdr False parts(4) by (simp_all add: hdr_def apart_def)
      then have "plug_forward (heap_ptr h + p) h =
          set_mem_prev (heap_ptr h + k) p (set_mem_next (heap_ptr h + p) k h)"
        using nx ne by (simp add: plug_forward_def Let_def)
      moreover have "merged ((p, k, False) # zs)"
        using m Cons y False by (cases zs) auto
      ultimately show ?thesis
        using join_from [of h xs p n False k w zs] c Cons y False
        by (auto simp: coalesce_merged)
    qed
  qed
qed

lemma plug_backward_from:
  assumes c: "chain h (xs @ (p, n, False) # ys)"
    and l: "lfree h = heap_ptr h + first_free xs p"
    and m: "merged xs" "merged ((p, n, False) # ys)"
  shows "chain_from h (plug_backward (heap_ptr h + p) h) (coalesce (xs @ (p, n, False) # ys))
    \<and> merged (coalesce (xs @ (p, n, False) # ys))
    \<and> first_free (coalesce (xs @ (p, n, False) # ys)) e = first_free xs p
    \<and> lfree (plug_backward (heap_ptr h + p) h) = lfree h
    \<and> heap_sem (plug_backward (heap_ptr h + p) h) = heap_sem h
    \<and> used_mem (plug_backward (heap_ptr h + p) h) = used_mem h
    \<and> max_mem (plug_backward (heap_ptr h + p) h) = max_mem h"
proof -
  note parts = chain_parts [OF c]
  have pv: "mem_prev h (heap_ptr h + p) = before 0 xs" and nx: "mem_next h (heap_ptr h + p) = n"
    using parts(9) by (simp_all add: hdr_def)
  have keep: ?thesis
    if "plug_backward (heap_ptr h + p) h = h" "xs = [] \<or> snd (snd (last xs))"
  proof -
    have "merged (xs @ (p, n, False) # ys)"
      using m that(2) by (auto simp: merged_append)
    then show ?thesis
      using that(1) c by (simp add: coalesce_merged chain_from_refl first_free_append)
  qed
  show ?thesis
  proof (cases xs rule: rev_cases)
    case Nil
    then have "p = 0" using parts(1) by simp
    then have "plug_backward (heap_ptr h + p) h = h"
      using pv Nil by (simp add: plug_backward_def)
    with keep Nil show ?thesis by simp
  next
    case (snoc zs b)
    obtain a u where b: "b = (a, p, u)" and
      ahdr: "hdr h (heap_ptr h + a) = (HEAP_MAGIC, if u then 1 else 0, p, before 0 zs)" "a + 16 \<le> p"
      using parts(1) snoc by (cases b) (auto simp: seg_append)
    have pa: "mem_prev h (heap_ptr h + p) = a"
      using pv snoc b by simp
    show ?thesis
    proof (cases u)
      case True
      then have "plug_backward (heap_ptr h + p) h = h"
        using pa ahdr by (simp add: plug_backward_def Let_def hdr_def)
      with keep snoc b True show ?thesis by simp
    next
      case False
      have z: "merged zs" "zs = [] \<or> snd (snd (last zs))"
        using m(1) snoc b False by (auto simp: merged_append)
      have y: "merged ((a, n, False) # ys)"
        using m(2) by (cases ys) auto
      have co: "coalesce (xs @ (p, n, False) # ys) = zs @ (a, n, False) # ys"
        using z y snoc b False by (simp add: coalesce_append coalesce_merged)
      have "first_free xs p = first_free zs a"
        using snoc b False by (simp add: first_free_append)
      moreover have "first_free zs a \<noteq> p"
      proof (cases rule: first_free_cases [of zs])
        case (2 a' n')
        then show ?thesis
          using seg_member [OF parts(1), of a' n' False] snoc by auto
      qed (use ahdr in simp)
      ultimately have "lfree h \<noteq> heap_ptr h + p"
        using l by simp
      moreover have "apart a p" using ahdr(2) by (simp add: apart_def)
      ultimately have "plug_backward (heap_ptr h + p) h =
          set_mem_prev (heap_ptr h + n) a (set_mem_next (heap_ptr h + a) n h)"
        using pa nx ahdr False by (simp add: plug_backward_def Let_def hdr_def)
      moreover have "merged (zs @ (a, n, False) # ys)"
        using z y by (auto simp: merged_append)
      ultimately show ?thesis
        using join_from [of h zs a p False n False ys] c snoc b False co
        by (simp add: first_free_append)
    qed
  qed
qed

lemma coalesce_used_set [simp]: "(a, n, True) \<in> set (coalesce bs) \<longleftrightarrow> (a, n, True) \<in> set bs"
  by (induction bs rule: coalesce.induct) auto

lemma user_bytes_coalesce [simp]: "user_bytes h (coalesce bs) = user_bytes h bs"
  by (induction bs rule: coalesce.induct) auto

lemma used_bytes_coalesce [simp]: "used_bytes (coalesce bs) = used_bytes bs"
  by (induction bs rule: coalesce.induct) auto

lemma coalesce_head:
  "coalesce ((p, n, False) # ys) = (p', n', False) # zs
    \<Longrightarrow> coalesce ((a, n, False) # ys) = (a, n', False) # zs"
proof (induction ys arbitrary: n)
  case (Cons y ys)
  then show ?case by (cases y; cases "snd (snd y)") auto
qed simp

lemma coalesce_replace:
  assumes "coalesce ((p, n, False) # ys) = (p, n', False) # ys'" "merged xs"
    "merged ((p, n', False) # ys')"
  shows "coalesce (xs @ (p, n, False) # ys) = coalesce (xs @ (p, n', False) # ys')"
proof (cases "xs = [] \<or> snd (snd (last xs))")
  case True
  then show ?thesis
    using assms by (simp add: coalesce_append coalesce_merged)
next
  case False
  then obtain zs a b where x: "xs = zs @ [(a, b, False)]"
    by (metis append_butlast_last_id prod.collapse)
  have z: "merged zs" "zs = [] \<or> snd (snd (last zs))"
    using assms(2) x by (auto simp: merged_append)
  have "merged ((a, n', False) # ys')"
    using assms(3) by (cases ys') auto
  with z coalesce_head [OF assms(1), of a] show ?thesis
    by (simp add: x coalesce_append coalesce_merged)
qed

lemma plug_holes_from:
  assumes c: "chain h (xs @ (p, n, False) # ys)"
    and l: "lfree h = heap_ptr h + first_free xs p"
    and m: "merged xs" "merged ys"
  shows "chain_from h (plug_holes (heap_ptr h + p) h) (coalesce (xs @ (p, n, False) # ys))
    \<and> merged (coalesce (xs @ (p, n, False) # ys))
    \<and> first_free (coalesce (xs @ (p, n, False) # ys)) e = first_free xs p
    \<and> lfree (plug_holes (heap_ptr h + p) h) = lfree h
    \<and> heap_sem (plug_holes (heap_ptr h + p) h) = heap_sem h
    \<and> used_mem (plug_holes (heap_ptr h + p) h) = used_mem h
    \<and> max_mem (plug_holes (heap_ptr h + p) h) = max_mem h"
proof -
  let ?h1 = "plug_forward (heap_ptr h + p) h"
  have "first_free xs p \<le> p"
    using seg_member [OF chain_parts(1) [OF c]] by (cases rule: first_free_cases [of xs]) force+
  then have "lfree h \<le> heap_ptr h + p"
    using l by simp
  then obtain n' ys' where f: "coalesce ((p, n, False) # ys) = (p, n', False) # ys'"
      "merged ((p, n', False) # ys')" "chain_from h ?h1 (xs @ (p, n', False) # ys')"
      "lfree ?h1 = lfree h" "heap_sem ?h1 = heap_sem h" "used_mem ?h1 = used_mem h" "max_mem ?h1 = max_mem h"
    using plug_forward_from [OF c _ m(2)] by blast
  have hp: "heap_ptr ?h1 = heap_ptr h"
    using f(3) by (simp add: chain_from_def)
  have l1: "lfree ?h1 = heap_ptr ?h1 + first_free xs p"
    using f(4) l hp by simp
  note b = plug_backward_from [OF chain_from_chain [OF f(3)] l1 m(1) f(2), of e]
  have "chain_from h (plug_backward (heap_ptr ?h1 + p) ?h1) (coalesce (xs @ (p, n', False) # ys'))"
    by (rule chain_from_trans [OF f(3)]) (use b in simp_all)
  then show ?thesis
    using b f unfolding plug_holes_def coalesce_replace [OF f(1) m(1) f(2)] hp by simp
qed

section \<open>Freeing\<close>

lemma usz_id [simp]: "n < 2 ^ 32 \<Longrightarrow> usz n = n"
  by (simp add: usz_def)

lemma usub_id [simp]:
  assumes "b \<le> a" "a < 2 ^ 32"
  shows "usub a b = a - b"
proof -
  have "a + 2 ^ 32 - b = (a - b) + 2 ^ 32"
    using assms by simp
  then have "usub a b = (a - b) mod 2 ^ 32"
    unfolding usub_def by (simp only: mod_add_self2)
  then show ?thesis using assms by simp
qed

lemma release_blk_eq:
  assumes "seg h q r (xs @ (p, n, True) # ys) e"
  shows "release_blk p (xs @ (p, n, True) # ys) = coalesce (xs @ (p, n, False) # ys)"
proof -
  obtain s where s: "seg h q r xs p" "seg h p n ys s" "p + 16 \<le> n"
    using assms by (auto simp: seg_append)
  have "map (\<lambda>(a, n, u). (a, n, u \<and> a \<noteq> p)) xs = xs" "map (\<lambda>(a, n, u). (a, n, u \<and> a \<noteq> p)) ys = ys"
    using seg_member [OF s(1)] seg_member [OF s(2)] s(3) by (force intro!: map_idI)+
  then show ?thesis by (simp add: release_blk_def)
qed

lemma heap_ok_update_sem: "heap_ok h bs \<Longrightarrow> heap_sem_take h = Some (h\<lparr>heap_sem := 0\<rparr>)"
  by (simp add: heap_ok_def heap_sem_take_def)

lemma first_free_bounds: "seg h q p bs e \<Longrightarrow> p \<le> first_free bs e \<and> first_free bs e \<le> e"
  using seg_le [of h q p bs e] seg_member [of h q p bs e]
  by (cases rule: first_free_cases [of bs]) force+

text \<open>A block freed at \<open>q\<close> becomes the lowest free one unless a lower one was free.\<close>

lemma lower_lfree:
  assumes "seg h 0 0 xs p" "p \<le> q" "q < r"
  shows "(if b + q < b + first_free xs r then b + q else b + first_free xs r) = b + first_free xs q"
proof (cases rule: first_free_cases [of xs])
  case (2 a m)
  then show ?thesis
    using assms(2,3) seg_member [OF assms(1) 2(1)] by simp
qed (use assms(3) in simp)

lemma heap_sem_release_0 [simp]: "heap_sem h = 0 \<Longrightarrow> heap_sem_release h = h\<lparr>heap_sem := 1\<rparr>"
  by (simp add: heap_sem_release_def)

lemma rt_free_ok:
  assumes ok: "heap_ok h (xs @ (p, n, True) # ys)"
  shows "\<exists>h'. rt_free (heap_ptr h + p + 12) h = Some h'
    \<and> heap_ok h' (release_blk p (xs @ (p, n, True) # ys))
    \<and> chain_from h h' (release_blk p (xs @ (p, n, True) # ys))"
proof -
  let ?bs = "xs @ (p, n, True) # ys" and ?mem = "heap_ptr h + p"
  let ?bs' = "coalesce (xs @ (p, n, False) # ys)"
  have c: "chain h ?bs" using ok by (simp add: heap_ok_def)
  note parts = chain_parts [OF c]
  have rel: "release_blk p ?bs = ?bs'"
    using release_blk_eq c by (auto simp: chain_def)
  let ?h1 = "h\<lparr>heap_sem := 0\<rparr>"
  let ?h2 = "set_mem_used ?mem 0 ?h1"
  have f2: "chain_from h ?h2 (xs @ (p, n, False) # ys)"
    using mark_from [of ?h1 xs p n True ys 0 False] c by simp
  then have c2: "chain ?h2 (xs @ (p, n, False) # ys)"
    by (rule chain_from_chain)
  have mg: "set_mem_magic ?mem HEAP_MAGIC ?h2 = ?h2"
    using chain_parts(9) [OF c2] by (intro set_mem_magic_id) (simp add: hdr_def)
  have nx: "mem_next ?h2 ?mem = n"
    using chain_parts(9) [OF c2] by (simp add: hdr_def)
  let ?h3 = "?h2\<lparr>lfree := heap_ptr h + first_free xs p, used_mem := used_mem h - (n - p)\<rparr>"
  have lf: "(if ?mem < lfree h then ?mem else lfree h) = heap_ptr h + first_free xs p"
    using ok lower_lfree [OF parts(1), of p "first_free ys (mem_size_aligned h + 12)" "heap_ptr h"]
      first_free_bounds [OF parts(3)] parts(4)
    by (simp add: heap_ok_def first_free_append split: if_splits)
  have u: "used_bytes ?bs < 2 ^ 32" "used_mem h = used_bytes ?bs"
    using chain_used_bytes [OF c] ok by (auto simp: heap_ok_def)
  have m: "merged xs" "merged ys"
    using ok by (simp_all add: heap_ok_def merged_append)
  have c3: "chain ?h3 (xs @ (p, n, False) # ys)" "chain_from h ?h3 (xs @ (p, n, False) # ys)"
    using c2 f2 by simp_all
  have "?h3 = (if ?mem < lfree ?h2 then ?h2\<lparr>lfree := ?mem\<rparr> else ?h2)\<lparr>used_mem := used_mem h - (n - p)\<rparr>"
    using lf by auto
  moreover have "usub (used_mem h) (usub n p) = used_mem h - (n - p)"
    using parts(4,7) u by simp
  moreover have "heap_ptr h + p + 12 < heap_end h"
    using parts(4,5) c by (simp add: chain_def)
  ultimately have fr: "rt_free (heap_ptr h + p + 12) h = Some (heap_sem_release (plug_holes ?mem ?h3))"
    using mg nx by (simp add: rt_free_def heap_ok_update_sem [OF ok] Let_def)
  have ph: "chain_from ?h3 (plug_holes ?mem ?h3) ?bs' \<and> merged ?bs'
    \<and> first_free ?bs' (mem_size_aligned h + 12) = first_free xs p
    \<and> lfree (plug_holes ?mem ?h3) = lfree ?h3 \<and> heap_sem (plug_holes ?mem ?h3) = heap_sem ?h3
    \<and> used_mem (plug_holes ?mem ?h3) = used_mem ?h3 \<and> max_mem (plug_holes ?mem ?h3) = max_mem ?h3"
    using plug_holes_from [OF c3(1) _ m] by simp
  then have cf: "chain_from h (plug_holes ?mem ?h3) ?bs'"
    using chain_from_trans [OF c3(2), of "plug_holes ?mem ?h3" ?bs'] by simp
  have "used_mem h - (n - p) = used_bytes ?bs'" "used_mem h - (n - p) \<le> max_mem h"
    using u ok by (auto simp: heap_ok_def)
  then have "heap_ok (heap_sem_release (plug_holes ?mem ?h3)) ?bs'"
    using ph cf by (simp add: heap_ok_def chain_from_def)
  then show ?thesis
    using fr cf ph rel by simp
qed

section \<open>Allocating\<close>

lemma next_free_chain:
  assumes "chain h (xs @ ys)" "seg h 0 0 xs p"
  shows "next_free h (heap_ptr h + p) = Some (heap_ptr h + first_free ys (mem_size_aligned h + 12))"
  using assms
proof (induction ys arbitrary: xs p)
  case Nil
  then have "p = mem_size_aligned h + 12"
    using seg_end [of h 0 0 xs] by (auto simp: chain_def)
  then have "heap_ptr h + p = heap_end h"
    using Nil by (simp add: chain_def)
  then show ?case
    using Nil by (subst next_free.simps) (simp add: chain_def)
next
  case (Cons y ys)
  obtain a n u where y: "y = (a, n, u)" by (cases y)
  have c: "chain h (xs @ (a, n, u) # ys)"
    using Cons.prems y by simp
  note parts = chain_parts [OF c]
  have "p = a"
    using seg_end [OF Cons.prems(2) parts(1)] .
  have "heap_ptr h + a \<noteq> heap_end h"
    using parts(4,5) c by (simp add: chain_def)
  moreover have "seg h 0 0 (xs @ [y]) n"
    using parts(1,2) y by (auto simp: seg_append)
  ultimately show ?case
    using Cons.IH [of "xs @ [y]" n] Cons.prems y parts(9) \<open>p = a\<close>
    by (subst next_free.simps) (auto simp: hdr_def)
qed

lemma alloc_blk_Some:
  "alloc_blk lim k bs = Some (a, bs') \<Longrightarrow> \<exists>xs n ys. bs = xs @ (a, n, False) # ys \<and> a < lim \<and>
    a + 12 + k \<le> n \<and> bs' = xs @ (if a + 12 + k + 24 \<le> n
      then [(a, a + 12 + k, True), (a + 12 + k, n, False)] else [(a, n, True)]) @ ys"
proof (induction bs arbitrary: bs')
  case (Cons b bs)
  obtain c n u where b: "b = (c, n, u)" by (cases b)
  show ?case
  proof (cases "\<not> u \<and> c + 12 + k \<le> n")
    case True
    then show ?thesis
      using Cons.prems b by (intro exI [of _ "[]"] exI [of _ n] exI [of _ bs]) (auto split: if_splits)
  next
    case False
    then obtain cs where cs: "alloc_blk lim k bs = Some (a, cs)" "bs' = b # cs"
      using Cons.prems b by (auto split: if_splits)
    from Cons.IH [OF cs(1)] cs(2) show ?thesis
      by (metis append_Cons)
  qed
qed simp

lemma alloc_blk_used:
  assumes "seg h q p (xs @ ys) e" "\<forall>(a, n, u) \<in> set xs. u"
  shows "alloc_blk lim k (xs @ ys) = map_option (apsnd ((@) xs)) (alloc_blk lim k ys)"
  using assms
proof (induction xs arbitrary: q p)
  case Nil
  then show ?case by (cases "alloc_blk lim k ys") auto
next
  case (Cons x xs)
  obtain a n where x: "x = (a, n, True)"
    using Cons.prems by (cases x) auto
  have s: "seg h a n (xs @ ys) e" "a + 16 \<le> n"
    using Cons.prems x by auto
  show ?case
  proof (cases "a < lim")
    case True
    then show ?thesis
      using Cons.IH [OF s(1)] Cons.prems x by (cases "alloc_blk lim k ys") auto
  next
    case False
    have "alloc_blk lim k ys = None"
    proof (cases ys)
      case (Cons y zs)
      obtain b c d where y: "y = (b, c, d)" by (cases y)
      have "n \<le> b"
        using seg_member [OF s(1), of b c d] Cons y by simp
      then show ?thesis
        using s(2) False Cons y by simp
    qed simp
    with False x show ?thesis by simp
  qed
qed

text \<open>The loop finds the block first fit finds.\<close>

lemma malloc_loop_chain:
  assumes "chain h (xs @ ys)" "seg h 0 0 xs p" "k \<le> mem_size_aligned h"
  shows "malloc_loop k p h =
    (case alloc_blk (mem_size_aligned h - k) k ys of
       None \<Rightarrow> Some (0, heap_sem_release h) | Some (a, _) \<Rightarrow> malloc_take k a h)"
  using assms
proof (induction ys arbitrary: xs p)
  case Nil
  then have "p = mem_size_aligned h + 12"
    using seg_end [of h 0 0 xs] by (auto simp: chain_def)
  moreover have "mem_size_aligned h < 2 ^ 32"
    using chain_used_bytes [OF Nil(1)] by simp
  moreover have "\<not> mem_size_aligned h + 12 < mem_size_aligned h - k"
    by simp
  ultimately show ?case
    using Nil by (subst malloc_loop.simps) simp
next
  case (Cons y ys)
  obtain a n u where y: "y = (a, n, u)" by (cases y)
  have c: "chain h (xs @ (a, n, u) # ys)"
    using Cons.prems y by simp
  note parts = chain_parts [OF c]
  have p: "p = a"
    using seg_end [OF Cons.prems(2) parts(1)] .
  have ms: "mem_size_aligned h < 2 ^ 32"
    using chain_used_bytes [OF c] by simp
  have hd: "mem_next h (heap_ptr h + a) = n" "mem_used h (heap_ptr h + a) = 0 \<longleftrightarrow> \<not> u"
    using parts(9) by (simp_all add: hdr_def)
  have room: "usub n (usz (a + 12)) = n - (a + 12)"
    using parts(4,7) by simp
  have "seg h 0 0 (xs @ [y]) n"
    using parts(1,2) y by (auto simp: seg_append)
  then have IH: "malloc_loop k n h =
      (case alloc_blk (mem_size_aligned h - k) k ys of
         None \<Rightarrow> Some (0, heap_sem_release h) | Some (a, _) \<Rightarrow> malloc_take k a h)"
    using Cons.IH [of "xs @ [y]" n] Cons.prems by simp
  have fit: "k \<le> n - (a + 12) \<longleftrightarrow> a + 12 + k \<le> n"
    using parts(4) by auto
  show ?case
    using Cons.prems(3) ms hd room IH fit
    by (subst malloc_loop.simps) (auto simp: y p Let_def split: option.splits)
qed

lemma seg_dvd: "seg h q p bs e \<Longrightarrow> 4 dvd p \<Longrightarrow> 4 dvd e"
  by (induction h q p bs e rule: seg.induct) auto

lemma count_used_fields [simp]:
  "heap_ptr (count_used k h) = heap_ptr h" "heap_end (count_used k h) = heap_end h"
  "lfree (count_used k h) = lfree h" "heap_sem (count_used k h) = heap_sem h"
  "mem_size_aligned (count_used k h) = mem_size_aligned h"
  "used_mem (count_used k h) = usz (used_mem h + k)"
  "max_mem (count_used k h) = max (max_mem h) (usz (used_mem h + k))"
  "chain_from h0 (count_used k h) bs = chain_from h0 h bs"
  "mem_magic (count_used k h) p = mem_magic h p"
  by (simp_all add: count_used_def Let_def)

text \<open>The block is taken, in whole or in part.\<close>

definition take_blk :: "nat \<Rightarrow> nat \<Rightarrow> nat \<Rightarrow> blk list" where
  "take_blk k a n = (if a + 12 + k + 24 \<le> n
     then [(a, a + 12 + k, True), (a + 12 + k, n, False)] else [(a, n, True)])"

lemma take_blk_used_bytes:
  "a + 12 + k \<le> n \<Longrightarrow> used_bytes (take_blk k a n) = (if a + 12 + k + 24 \<le> n then k + 12 else n - a)"
  by (simp add: take_blk_def)

lemma carve_from:
  assumes c: "chain h (xs @ (a, n, False) # ys)" and k: "12 \<le> k" "4 dvd k" "a + 12 + k \<le> n"
  shows "\<exists>h'. chain_from h h' (xs @ take_blk k a n @ ys) \<and> lfree h' = lfree h \<and> heap_sem h' = heap_sem h \<and>
    used_mem h' = used_mem h \<and> max_mem h' = max_mem h \<and>
    carve k a h = count_used (used_bytes (take_blk k a n)) h'"
proof -
  note parts = chain_parts [OF c]
  have nx: "mem_next h (heap_ptr h + a) = n"
    using parts(9) by (simp add: hdr_def)
  have mk: "chain_from h (set_mem_used (heap_ptr h + a) 1 h) (xs @ (a, n, True) # ys)"
    using c by (rule mark_from) simp
  have g: "usz (k + 24) \<le> usub n (usz (a + 12)) \<longleftrightarrow> a + 12 + k + 24 \<le> n"
  proof -
    have "usz (k + 24) = k + 24"
      using parts(5) k c by (intro usz_id) (simp add: chain_def)
    then show ?thesis using parts(4,7) k by auto
  qed
  show ?thesis
  proof (cases "a + 12 + k + 24 \<le> n")
    case False
    moreover have "mem_next (set_mem_used (heap_ptr h + a) 1 h) (heap_ptr h + a) = n" "usub n a = n - a"
      using nx parts(4,7) by simp_all
    ultimately show ?thesis
      using mk g nx by (intro exI [of _ "set_mem_used (heap_ptr h + a) 1 h"]) (simp add: carve_def Let_def take_blk_def add.commute [of 24 k])
  next
    case True
    let ?p2 = "a + 12 + k" and ?h = "set_mem_used (heap_ptr h + a) 1 h"
    have "4 dvd a"
      using seg_dvd [OF parts(1)] by simp
    then have "chain_from ?h (link_rest ?p2 (split_block a ?p2 ?h)) (xs @ (a, ?p2, True) # (?p2, n, False) # ys)"
      using k True by (intro split_from [OF chain_from_chain [OF mk]]) auto
    moreover have "user_bytes h (xs @ (a, ?p2, True) # (?p2, n, False) # ys)
        \<subseteq> user_bytes h (xs @ (a, n, True) # ys)"
      using True by auto
    ultimately have "chain_from h (link_rest ?p2 (split_block a ?p2 ?h)) (xs @ take_blk k a n @ ys)"
      using chain_from_trans [OF mk] True by (simp add: take_blk_def)
    moreover have "set_mem_used (heap_ptr h + a) 1 (split_block a ?p2 h) = split_block a ?p2 ?h"
      using k by (intro split_set_used) simp
    moreover have "usz ?p2 = ?p2"
      using k parts(7) by simp
    ultimately show ?thesis
      using g nx True
      by (intro exI [of _ "link_rest ?p2 (split_block a ?p2 ?h)"]) (simp add: carve_def Let_def take_blk_def add.commute [of 24 k] add.commute [of k 12])
  qed
qed

lemma malloc_take_ok:
  assumes ok: "heap_ok (h\<lparr>heap_sem := 1\<rparr>) (xs @ (a, n, False) # ys)" and s: "heap_sem h = 0"
    and k: "12 \<le> k" "4 dvd k" "a + 12 + k \<le> n"
  shows "\<exists>h'. malloc_take k a h = Some (heap_ptr h + a + 12, h')
    \<and> heap_ok h' (xs @ take_blk k a n @ ys) \<and> chain_from h h' (xs @ take_blk k a n @ ys)"
proof -
  let ?bs = "xs @ take_blk k a n @ ys" and ?mem = "heap_ptr h + a"
  let ?e = "mem_size_aligned h + 12"
  have c: "chain h (xs @ (a, n, False) # ys)"
    using ok by (simp add: heap_ok_def)
  note parts = chain_parts [OF c]
  obtain h1 where h1: "chain_from h h1 ?bs" "lfree h1 = lfree h" "heap_sem h1 = heap_sem h"
      "used_mem h1 = used_mem h" "max_mem h1 = max_mem h"
      "carve k a h = count_used (used_bytes (take_blk k a n)) h1"
    using carve_from [OF c k] by blast
  let ?h2 = "count_used (used_bytes (take_blk k a n)) h1"
  have f2: "chain_from h ?h2 ?bs"
    using h1(1) by simp
  have hp: "heap_ptr h1 = heap_ptr h" "mem_size_aligned h1 = mem_size_aligned h"
    using h1(1) by (simp_all add: chain_from_def)
  obtain m us where tb: "take_blk k a n = (a, m, True) # us"
    by (cases "a + 12 + k + 24 \<le> n") (simp_all add: take_blk_def)
  have mg: "set_mem_magic ?mem HEAP_MAGIC ?h2 = ?h2"
    using chain_parts(9) [of ?h2 xs a m True "us @ ys"] f2 hp tb
    by (intro set_mem_magic_id) (simp add: chain_from_def hdr_def)
  have lf: "advance_lfree ?mem ?h2 = Some (?h2\<lparr>lfree := heap_ptr h + first_free ?bs ?e\<rparr>)"
  proof (cases rule: first_free_cases [of xs])
    case 1
    have "chain ?h2 (xs @ take_blk k a n @ ys)" "seg ?h2 0 0 xs a"
      using f2 tb chain_parts(1) [of ?h2 xs a m True "us @ ys"] by (simp_all add: chain_from_def)
    from next_free_chain [OF this] show ?thesis
      using 1 ok h1(2) hp by (simp add: advance_lfree_def heap_ok_def first_free_append)
  next
    case (2 a' n')
    then have "a' < a" "lfree ?h2 = heap_ptr h + a'"
      using seg_member [OF parts(1) 2(1)] ok h1(2) by (simp_all add: heap_ok_def first_free_append)
    then show ?thesis
      using 2 by (auto simp: advance_lfree_def first_free_append)
  qed
  have u: "used_bytes ?bs = used_mem h + used_bytes (take_blk k a n)" "used_bytes ?bs < 2 ^ 32"
    using ok chain_used_bytes(2) [of ?h2 ?bs] f2 by (auto simp: heap_ok_def chain_from_def)
  let ?h3 = "?h2\<lparr>lfree := heap_ptr h + first_free ?bs ?e\<rparr>"
  have "malloc_take k a h = Some (?mem + 12, heap_sem_release ?h3)"
    using h1(6) lf mg by (simp add: malloc_take_def Let_def)
  moreover have "merged ?bs"
    using ok by (auto simp: heap_ok_def take_blk_def merged_append merged_Cons)
  ultimately show ?thesis
    using f2 u h1 s hp by (auto simp: heap_ok_def chain_from_def)
qed

lemma alloc_blk_take:
  "alloc_blk lim k bs = Some (a, bs') \<Longrightarrow> \<exists>xs n ys. bs = xs @ (a, n, False) # ys \<and> a < lim \<and>
    a + 12 + k \<le> n \<and> bs' = xs @ take_blk k a n @ ys"
  using alloc_blk_Some unfolding take_blk_def .

text \<open>A request is rounded up to words and to at least twelve bytes.\<close>

definition block_size :: "nat \<Rightarrow> nat" where
  "block_size sz = max MIN_SIZE_ALIGNED (RT_ALIGN sz)"

lemma RT_ALIGN_dvd [simp]: "4 dvd RT_ALIGN sz"
  by (simp add: RT_ALIGN_def)

lemma RT_ALIGN_le: "RT_ALIGN sz \<le> sz + 3"
proof -
  have "RT_ALIGN sz \<le> usz (sz + 3)"
    by (simp add: RT_ALIGN_def)
  also have "\<dots> \<le> sz + 3"
    by (simp add: usz_def)
  finally show ?thesis .
qed

lemma RT_ALIGN_ge:
  assumes "sz + 3 < 2 ^ 32"
  shows "sz \<le> RT_ALIGN sz"
proof -
  have "RT_ALIGN sz = (sz + 3) div 4 * 4"
    using assms by (simp add: RT_ALIGN_def)
  then show ?thesis by linarith
qed

lemma first_free_split:
  "seg h q p bs e \<Longrightarrow> \<exists>xs ys. bs = xs @ ys \<and> (\<forall>(a, n, u) \<in> set xs. u) \<and> seg h q p xs (first_free bs e)"
proof (induction bs arbitrary: q p)
  case (Cons b bs)
  obtain a n u where b: "b = (a, n, u)" by (cases b)
  show ?case
  proof (cases u)
    case True
    have "seg h p n bs e"
      using Cons.prems b by simp
    from Cons.IH [OF this] obtain xs ys where
      "bs = xs @ ys" "\<forall>(a, n, u) \<in> set xs. u" "seg h p n xs (first_free bs e)"
      by blast
    with True Cons.prems b show ?thesis
      by (intro exI [of _ "b # xs"] exI [of _ ys]) auto
  next
    case False
    with Cons.prems b show ?thesis
      by (intro exI [of _ "[]"] exI [of _ "b # bs"]) auto
  qed
qed simp

lemma rt_malloc_ok:
  assumes ok: "heap_ok h bs" and sz: "sz \<noteq> 0" "RT_ALIGN sz \<le> mem_size_aligned h"
  shows "case alloc_blk (mem_size_aligned h - block_size sz) (block_size sz) bs of
      None \<Rightarrow> rt_malloc sz h = Some (0, h)
    | Some (a, bs') \<Rightarrow> \<exists>h'. rt_malloc sz h = Some (heap_ptr h + a + 12, h') \<and> heap_ok h' bs' \<and> chain_from h h' bs'"
proof -
  let ?k = "block_size sz" and ?h = "h\<lparr>heap_sem := 0\<rparr>"
  let ?lim = "mem_size_aligned h - ?k"
  have c: "chain h bs" and s: "heap_sem h = 1"
    using ok by (simp_all add: heap_ok_def)
  have k: "12 \<le> ?k" "4 dvd ?k" "?k \<le> mem_size_aligned h"
    using sz c by (auto simp: block_size_def max_def chain_def)
  have id: "?h\<lparr>heap_sem := 1\<rparr> = h"
    using s by simp
  have start: "rt_malloc sz h = malloc_loop ?k (lfree h - heap_ptr h) ?h"
    using sz heap_ok_update_sem [OF ok] by (auto simp: rt_malloc_def Let_def block_size_def max_def)
  obtain xs ys where bs: "bs = xs @ ys" "\<forall>(a, n, u) \<in> set xs. u" "seg h 0 0 xs (lfree h - heap_ptr h)"
    using first_free_split [of h 0 0 bs "mem_size_aligned h + 12"] c ok
    by (auto simp: chain_def heap_ok_def)
  have ab: "alloc_blk ?lim ?k bs = map_option (apsnd ((@) xs)) (alloc_blk ?lim ?k ys)"
    using c bs by (auto simp: chain_def intro: alloc_blk_used)
  have "chain ?h (xs @ ys)" "seg ?h 0 0 xs (lfree h - heap_ptr h)"
    using c bs by simp_all
  note loop = malloc_loop_chain [OF this, of ?k, simplified, OF k(3)]
  show ?thesis
  proof (cases "alloc_blk ?lim ?k ys")
    case None
    then show ?thesis using loop start ab id by simp
  next
    case (Some r)
    then obtain a cs where r: "alloc_blk ?lim ?k bs = Some (a, cs)" "alloc_blk ?lim ?k ys = Some (a, snd r)"
      using ab by (cases r) auto
    then obtain us n vs where u: "bs = us @ (a, n, False) # vs" "a + 12 + ?k \<le> n" "cs = us @ take_blk ?k a n @ vs"
      using alloc_blk_take by blast
    have "heap_ok (?h\<lparr>heap_sem := 1\<rparr>) (us @ (a, n, False) # vs)"
      unfolding id using ok u by simp
    then obtain h' where h': "malloc_take ?k a ?h = Some (heap_ptr h + a + 12, h')" "heap_ok h' cs" "chain_from h h' cs"
      using malloc_take_ok [of ?h us a n vs ?k] k u by auto
    then show ?thesis
      using loop start r by simp
  qed
qed

section \<open>Writing to allocated memory\<close>

lemma hdr_cong:
  assumes "\<And>x. p \<le> x \<Longrightarrow> x < p + 12 \<Longrightarrow> ram h' x = ram h x"
  shows "hdr h' p = hdr h p"
  using assms by (simp add: hdr_def mem_reads load16_def load32_def)

lemma heap_ok_write:
  assumes ok: "heap_ok h bs" and w: "\<And>x. x \<notin> user_bytes h bs \<Longrightarrow> m x = ram h x"
  shows "heap_ok (h\<lparr>ram := m\<rparr>) bs"
proof -
  let ?h = "h\<lparr>ram := m\<rparr>" and ?e = "mem_size_aligned h + 12"
  have c: "chain h bs"
    using ok by (simp add: heap_ok_def)
  have hd: "hdr ?h (heap_ptr h + a) = hdr h (heap_ptr h + a)" if "a = ?e \<or> a \<in> fst ` set bs" for a
  proof (rule hdr_cong)
    fix x
    assume "heap_ptr h + a \<le> x" "x < heap_ptr h + a + 12"
    then show "ram ?h x = ram h x"
      using user_bytes_off_headers [OF c _ that, of x] w [of x] by auto
  qed
  have "seg ?h 0 0 bs ?e"
  proof (rule seg_relink [where h = h and q = 0])
    show "seg h 0 0 bs ?e"
      using c by (simp add: chain_def)
    fix a b c
    assume h0: "hdr h (heap_ptr h + 0) = (a, b, c, 0)" and "bs \<noteq> []"
    then have "0 \<in> fst ` set bs"
      using \<open>seg h 0 0 bs ?e\<close> by (cases bs) auto
    then show "hdr ?h (heap_ptr h + 0) = (a, b, c, 0)"
      using hd [of 0] h0 by simp
  next
    fix a n u
    assume "(a, n, u) \<in> set bs"
    then have "a \<in> fst ` set bs" by force
    then show "hdr ?h (heap_ptr h + a) = hdr h (heap_ptr h + a)"
      using hd by blast
  qed simp
  moreover have "mem_used ?h (heap_end h) = mem_used h (heap_end h)" "mem_next ?h (heap_end h) = mem_next h (heap_end h)"
    using hd [of ?e] c by (simp_all add: hdr_def chain_def add.assoc)
  ultimately show ?thesis
    using ok by (auto simp: heap_ok_def chain_def)
qed

section \<open>Blocks and live regions of a heap\<close>

fun walk :: "nat \<Rightarrow> heap_t \<Rightarrow> nat \<Rightarrow> blk list" where
  "walk 0 h p = []"
| "walk (Suc k) h p =
     (if p < mem_size_aligned h + 12
      then (p, mem_next h (heap_ptr h + p), mem_used h (heap_ptr h + p) \<noteq> 0)
             # walk k h (mem_next h (heap_ptr h + p))
      else [])"

definition blocks :: "heap_t \<Rightarrow> blk list" where
  "blocks h = walk (mem_size_aligned h) h 0"

lemma walk_seg:
  "seg h q p bs (mem_size_aligned h + 12) \<Longrightarrow> length bs \<le> k \<Longrightarrow> walk k h p = bs"
proof (induction k arbitrary: q p bs)
  case (Suc k)
  show ?case
  proof (cases bs)
    case (Cons b cs)
    obtain a n u where b: "b = (a, n, u)" by (cases b)
    then show ?thesis
      using Suc.prems Suc.IH [of p n cs] seg_le [OF Suc.prems(1)] Cons by (auto simp: hdr_def)
  qed (use Suc.prems in simp)
qed simp

lemma blocks_chain:
  assumes "chain h bs"
  shows "blocks h = bs"
proof -
  have s: "seg h 0 0 bs (mem_size_aligned h + 12)" "12 \<le> mem_size_aligned h"
    using assms by (simp_all add: chain_def)
  then have "length bs \<le> mem_size_aligned h"
    using seg_le [OF s(1)] by simp
  with s(1) show ?thesis
    unfolding blocks_def by (rule walk_seg)
qed

definition heap_inv :: "heap_t \<Rightarrow> bool" where
  "heap_inv h \<longleftrightarrow> heap_ok h (blocks h)"

definition live :: "heap_t \<Rightarrow> (nat \<times> nat) set" where
  "live h = (\<lambda>(a, n, u). (heap_ptr h + a + 12, n - (a + 12))) ` {b \<in> set (blocks h). snd (snd b)}"

lemma heap_ok_inv: "heap_ok h bs \<Longrightarrow> heap_inv h \<and> blocks h = bs"
  using blocks_chain by (auto simp: heap_inv_def heap_ok_def)

lemma live_iff:
  assumes "heap_ok h bs"
  shows "(p, k) \<in> live h \<longleftrightarrow>
    (\<exists>a n. (a, n, True) \<in> set bs \<and> p = heap_ptr h + a + 12 \<and> k = n - (a + 12))"
  using heap_ok_inv [OF assms] by (force simp: live_def)

end
