(* ===== verification/Hvac_Alloc.thy ===== *)
theory Hvac_Alloc
  imports Hvac_Mem
begin

text \<open>
  What the callers of the heap rely on. The locale \<open>region_allocator\<close> states the contract of
  \<^verbatim>\<open>rt_malloc\<close> and \<^verbatim>\<open>rt_free\<close> in terms of live regions of memory; the block
  heap of \<^verbatim>\<open>mem.c\<close> is an instance. Inside it the three routines built on the two are
  treated once: allocate and fill (\<^verbatim>\<open>rt_calloc\<close>), allocate and copy
  (\<^verbatim>\<open>rt_strdup\<close>), allocate, copy and free (the growing branch of
  \<^verbatim>\<open>rt_realloc\<close>). A run of a client is a sequence of calls and of stores into its own
  regions.
\<close>

section \<open>The contract\<close>

definition addrs :: "(nat \<times> nat) set \<Rightarrow> nat set" where
  "addrs L = (\<Union>(p, k) \<in> L. {p ..< p + k})"

lemma addrs_simps [simp]:
  "addrs {} = {}" "addrs (insert (p, k) L) = {p ..< p + k} \<union> addrs L"
  "addrs (L \<union> M) = addrs L \<union> addrs M"
  by (auto simp: addrs_def)

lemma addrs_iff: "x \<in> addrs L \<longleftrightarrow> (\<exists>p k. (p, k) \<in> L \<and> p \<le> x \<and> x < p + k)"
  unfolding addrs_def by force

locale region_allocator =
  fixes inv :: "'s \<Rightarrow> bool"
    and area :: "'s \<Rightarrow> nat set"
    and regions :: "'s \<Rightarrow> (nat \<times> nat) set"
    and contents :: "'s \<Rightarrow> mem_t"
    and put :: "mem_t \<Rightarrow> 's \<Rightarrow> 's"
    and malloc :: "nat \<Rightarrow> 's \<Rightarrow> (nat \<times> 's) option"
    and free :: "nat \<Rightarrow> 's \<Rightarrow> 's option"
  assumes regions_disjoint:
      "inv s \<Longrightarrow> (p, k) \<in> regions s \<Longrightarrow> (q, l) \<in> regions s \<Longrightarrow> (p, k) \<noteq> (q, l) \<Longrightarrow> p + k \<le> q \<or> q + l \<le> p"
    and regions_area: "inv s \<Longrightarrow> addrs (regions s) \<subseteq> area s"
    and malloc_law:
      "inv s \<Longrightarrow> n \<noteq> 0 \<Longrightarrow> n + 3 < 2 ^ 32 \<Longrightarrow>
        \<exists>p s'. malloc n s = Some (p, s') \<and> inv s' \<and> area s' = area s \<and>
          (\<forall>x \<in> addrs (regions s) \<union> - area s. contents s' x = contents s x) \<and>
          (if p = 0 then regions s' = regions s
           else \<exists>k \<ge> n. (p, k) \<notin> regions s \<and> regions s' = insert (p, k) (regions s))"
    and free_law:
      "inv s \<Longrightarrow> (p, k) \<in> regions s \<Longrightarrow>
        \<exists>s'. free p s = Some s' \<and> inv s' \<and> area s' = area s \<and> regions s' = regions s - {(p, k)} \<and>
          (\<forall>x \<in> addrs (regions s') \<union> - area s. contents s' x = contents s x)"
    and put_law:
      "inv s \<Longrightarrow> (\<And>x. x \<notin> addrs (regions s) \<Longrightarrow> m x = contents s x) \<Longrightarrow>
        inv (put m s) \<and> area (put m s) = area s \<and> regions (put m s) = regions s \<and> contents (put m s) = m"
begin

text \<open>A region that is not another one has none of its addresses.\<close>

lemma off_region:
  assumes "inv s" "(p, k) \<in> regions s" "x \<in> addrs (regions s - {(p, k)}) \<union> - area s"
  shows "x < p \<or> p + k \<le> x"
proof (cases "x \<in> area s")
  case True
  then show ?thesis
    using assms regions_disjoint [OF assms(1,2)] by (force simp: addrs_iff)
next
  case False
  then have "x \<notin> addrs (regions s)"
    using regions_area [OF assms(1)] by blast
  then show ?thesis
    using assms(2) unfolding addrs_iff by (meson leI)
qed

text \<open>Allocate and write inside the new region.\<close>

lemma malloc_put:
  assumes "inv s" "n \<noteq> 0" "n + 3 < 2 ^ 32" "malloc n s = Some (p, s')" "p \<noteq> 0"
    and w: "\<And>x. x < p \<or> p + n \<le> x \<Longrightarrow> m x = contents s' x"
  shows "\<exists>k \<ge> n. (p, k) \<notin> regions s \<and> inv (put m s') \<and> area (put m s') = area s
    \<and> regions (put m s') = insert (p, k) (regions s) \<and> contents (put m s') = m
    \<and> (\<forall>x \<in> addrs (regions s) \<union> - area s.
        m x = contents s x \<and> contents s' x = contents s x \<and> (x < p \<or> p + k \<le> x))"
proof -
  obtain k where k: "n \<le> k" "(p, k) \<notin> regions s" "regions s' = insert (p, k) (regions s)" "inv s'" "area s' = area s"
    and c: "\<forall>x \<in> addrs (regions s) \<union> - area s. contents s' x = contents s x"
    using malloc_law [OF assms(1-3)] assms(4,5) by auto
  have "inv (put m s') \<and> area (put m s') = area s' \<and> regions (put m s') = regions s' \<and> contents (put m s') = m"
  proof (rule put_law [OF k(4)])
    fix x
    assume "x \<notin> addrs (regions s')"
    then show "m x = contents s' x"
      using k(1,3) by (intro w) auto
  qed
  moreover have "m x = contents s x \<and> contents s' x = contents s x \<and> (x < p \<or> p + k \<le> x)"
    if "x \<in> addrs (regions s) \<union> - area s" for x
  proof -
    have "x < p \<or> p + k \<le> x"
      using off_region [OF k(4), of p k x] k(2,3,5) that by simp
    then show ?thesis using w [of x] c k(1) that by auto
  qed
  ultimately show ?thesis using k by auto
qed

text \<open>Allocate and copy what a kept part of the memory holds.\<close>

lemma malloc_copy:
  assumes i: "inv s" "n \<noteq> 0" "n + 3 < 2 ^ 32" and a: "malloc n s = Some (p, s')" "p \<noteq> 0"
    and c: "c \<le> n" and src: "\<And>i. i < c \<Longrightarrow> q + i \<in> addrs (regions s) \<union> - area s"
  shows "\<exists>k \<ge> n. (p, k) \<notin> regions s \<and> inv (put (copy p q c (contents s')) s')
    \<and> area (put (copy p q c (contents s')) s') = area s
    \<and> regions (put (copy p q c (contents s')) s') = insert (p, k) (regions s)
    \<and> contents (put (copy p q c (contents s')) s') = copy p q c (contents s')
    \<and> bytes_at (copy p q c (contents s')) p c = bytes_at (contents s) q c
    \<and> (\<forall>x \<in> addrs (regions s) \<union> - area s. copy p q c (contents s') x = contents s x)"
proof -
  let ?m = "copy p q c (contents s')"
  have w: "?m x = contents s' x" if "x < p \<or> p + n \<le> x" for x
    using that c by (auto simp: copy_def)
  obtain k where k: "n \<le> k" "(p, k) \<notin> regions s" "inv (put ?m s')" "area (put ?m s') = area s"
      "regions (put ?m s') = insert (p, k) (regions s)" "contents (put ?m s') = ?m"
    and old: "\<forall>x \<in> addrs (regions s) \<union> - area s.
      ?m x = contents s x \<and> contents s' x = contents s x \<and> (x < p \<or> p + k \<le> x)"
    using malloc_put [OF i a w] by blast
  have "contents s' (q + i) = contents s (q + i)" if "i < c" for i
    using bspec [OF old src [OF that]] by simp
  then have "bytes_at (contents s') q c = bytes_at (contents s) q c"
    by (intro nth_equalityI) auto
  then have "bytes_at ?m p c = bytes_at (contents s) q c"
    by (simp add: bytes_at_copy)
  with k old show ?thesis by auto
qed

text \<open>Allocate, copy the contents of an old region and free that.\<close>

lemma move_region:
  assumes i: "inv s" "n \<noteq> 0" "n + 3 < 2 ^ 32" and q: "(q, l) \<in> regions s" and c: "c \<le> l" "c \<le> n"
    and a: "malloc n s = Some (p, s')" "p \<noteq> 0"
  shows "\<exists>s'' k. free q (put (copy p q c (contents s')) s') = Some s'' \<and> n \<le> k \<and> inv s'' \<and> area s'' = area s
    \<and> (p, k) \<notin> regions s \<and> (p \<le> q \<or> q + c \<le> p)
    \<and> regions s'' = insert (p, k) (regions s - {(q, l)})
    \<and> bytes_at (contents s'') p c = bytes_at (contents s) q c
    \<and> (\<forall>x \<in> addrs (regions s - {(q, l)}) \<union> - area s. contents s'' x = contents s x)"
proof -
  let ?m = "copy p q c (contents s')"
  have src: "q + j \<in> addrs (regions s) \<union> - area s" if "j < c" for j
  proof -
    have "q + j \<in> addrs (regions s)"
      using q c that unfolding addrs_iff by (intro exI [of _ q] exI [of _ l]) simp
    then show ?thesis by blast
  qed
  obtain k where k: "n \<le> k" "(p, k) \<notin> regions s" "inv (put ?m s')" "area (put ?m s') = area s"
      "regions (put ?m s') = insert (p, k) (regions s)" "contents (put ?m s') = ?m"
      "bytes_at ?m p c = bytes_at (contents s) q c"
    and old: "\<forall>x \<in> addrs (regions s) \<union> - area s. ?m x = contents s x"
    using malloc_copy [OF i a c(2) src] by auto
  obtain s'' where s: "free q (put ?m s') = Some s''" "inv s''" "area s'' = area s"
      "regions s'' = insert (p, k) (regions s) - {(q, l)}"
      "\<forall>x \<in> addrs (regions s'') \<union> - area s. contents s'' x = ?m x"
    using free_law [OF k(3), of q l] q k(4-6) by auto
  have ne: "(p, k) \<noteq> (q, l)"
    using q k(2) by auto
  then have r: "regions s'' = insert (p, k) (regions s - {(q, l)})"
    using s(4) by auto
  have d: "p \<le> q \<or> q + c \<le> p"
    using regions_disjoint [OF k(3), of p k q l] k(5) q ne c by auto
  have "bytes_at (contents s'') p c = bytes_at ?m p c"
    using s(5) r k(1) c by (intro nth_equalityI) auto
  moreover have "contents s'' x = contents s x" if "x \<in> addrs (regions s - {(q, l)}) \<union> - area s" for x
  proof -
    have "x \<in> addrs (regions s) \<union> - area s" "x \<in> addrs (regions s'') \<union> - area s"
      using that r by (auto simp: addrs_iff)
    then show ?thesis using s(5) old by simp
  qed
  ultimately show ?thesis
    using s k r d by auto
qed

end

section \<open>The block heap keeps the contract\<close>

lemma live_set:
  "heap_ok h bs \<Longrightarrow> live h = (\<lambda>(a, n, u). (heap_ptr h + a + 12, n - (a + 12))) ` {b \<in> set bs. snd (snd b)}"
  using heap_ok_inv by (simp add: live_def)

lemma live_addrs:
  assumes ok: "heap_ok h bs"
  shows "addrs (live h) = user_bytes h bs"
proof -
  have s: "seg h 0 0 bs (mem_size_aligned h + 12)"
    using ok by (simp add: heap_ok_def chain_def)
  have "(\<Union>(p, k) \<in> live h. {p ..< p + k}) = (\<Union>(a, n, u) \<in> {b \<in> set bs. snd (snd b)}.
      {heap_ptr h + a + 12 ..< heap_ptr h + a + 12 + (n - (a + 12))})"
    unfolding live_set [OF ok] by (simp add: case_prod_unfold)
  also have "\<dots> = (\<Union>(a, n, u) \<in> {b \<in> set bs. snd (snd b)}. {heap_ptr h + a + 12 ..< heap_ptr h + n})"
    using seg_member [OF s] by (intro SUP_cong) auto
  also have "\<dots> = user_bytes h bs"
    by (auto simp: user_bytes_def split: if_splits)
  finally show ?thesis by (simp add: addrs_def)
qed

lemma heap_inv_ok: "heap_inv h \<Longrightarrow> heap_ok h (blocks h)"
  by (simp add: heap_inv_def)

lemma seg_order:
  assumes "seg h q p bs e" "(a, n, u) \<in> set bs" "(b, m, w) \<in> set bs"
  shows "(a, n, u) = (b, m, w) \<or> n \<le> b \<or> m \<le> a"
  using assms
proof (induction bs arbitrary: q p)
  case (Cons c bs)
  obtain c1 c2 c3 where c: "c = (c1, c2, c3)" by (cases c)
  have s: "seg h p c2 bs e" "c1 = p"
    using Cons.prems(1) c by auto
  show ?case
    using Cons.IH [OF s(1)] Cons.prems(2,3) seg_member [OF s(1)] c by auto
qed simp

lemma live_disjoint:
  assumes i: "heap_inv h" and "(p, k) \<in> live h" "(q, l) \<in> live h" "(p, k) \<noteq> (q, l)"
  shows "p + k \<le> q \<or> q + l \<le> p"
proof -
  note ok = heap_inv_ok [OF i]
  have s: "seg h 0 0 (blocks h) (mem_size_aligned h + 12)"
    using ok by (simp add: heap_ok_def chain_def)
  obtain a n b m where a: "(a, n, True) \<in> set (blocks h)" "p = heap_ptr h + a + 12" "k = n - (a + 12)"
    and b: "(b, m, True) \<in> set (blocks h)" "q = heap_ptr h + b + 12" "l = m - (b + 12)"
    using assms(2,3) unfolding live_iff [OF ok] by blast
  have "(a, n, True) \<noteq> (b, m, True)"
    using assms(4) a b by auto
  then show ?thesis
    using seg_order [OF s a(1) b(1)] seg_member [OF s a(1)] seg_member [OF s b(1)] a b by auto
qed

lemma live_bounds:
  assumes i: "heap_inv h" and "(p, k) \<in> live h"
  shows "heap_ptr h + 12 \<le> p \<and> p + k \<le> heap_end h \<and> 4 dvd p \<and> 4 \<le> k"
proof -
  note ok = heap_inv_ok [OF i]
  obtain a n where a: "(a, n, True) \<in> set (blocks h)" "p = heap_ptr h + a + 12" "k = n - (a + 12)"
    using assms(2) unfolding live_iff [OF ok] by blast
  then obtain xs ys where b: "blocks h = xs @ (a, n, True) # ys"
    by (metis split_list)
  have c: "chain h (xs @ (a, n, True) # ys)"
    using ok b by (simp add: heap_ok_def)
  note parts = chain_parts [OF c]
  have "4 dvd a"
    using seg_dvd [OF parts(1)] by simp
  then show ?thesis
    using a(2,3) parts(4,5) c by (auto simp: chain_def)
qed

lemma rt_malloc_law:
  assumes i: "heap_inv h" and n: "n \<noteq> 0" "n + 3 < 2 ^ 32"
  shows "\<exists>p h'. rt_malloc n h = Some (p, h') \<and> heap_inv h' \<and> heap_area h' = heap_area h \<and>
    (\<forall>x \<in> addrs (live h) \<union> - heap_area h. ram h' x = ram h x) \<and>
    (if p = 0 then live h' = live h else \<exists>k \<ge> n. (p, k) \<notin> live h \<and> live h' = insert (p, k) (live h))"
proof (cases "RT_ALIGN n \<le> mem_size_aligned h")
  case False
  then have "rt_malloc n h = Some (0, h)"
    using n by (simp add: rt_malloc_def Let_def)
  with i show ?thesis by auto
next
  case True
  note ok = heap_inv_ok [OF i]
  let ?k = "block_size n"
  note m = rt_malloc_ok [OF ok n(1) True]
  show ?thesis
  proof (cases "alloc_blk (mem_size_aligned h - ?k) ?k (blocks h)")
    case None
    with m i show ?thesis by auto
  next
    case (Some r)
    obtain a bs' where r: "r = (a, bs')" by (cases r)
    obtain h' where h': "rt_malloc n h = Some (heap_ptr h + a + 12, h')" "heap_ok h' bs'" "chain_from h h' bs'"
      using m Some r by auto
    obtain xs l ys where b: "blocks h = xs @ (a, l, False) # ys" "a + 12 + ?k \<le> l" "bs' = xs @ take_blk ?k a l @ ys"
      using alloc_blk_take Some r by blast
    obtain e us where e: "take_blk ?k a l = (a, e, True) # us" "a + 12 + ?k \<le> e" "\<forall>(b, m, u) \<in> set us. \<not> u"
      using b(2) by (cases "a + 12 + ?k + 24 \<le> l") (auto simp: take_blk_def)
    have hp: "heap_ptr h' = heap_ptr h"
      using h'(3) by (simp add: chain_from_def)
    have "live h' = insert (heap_ptr h + a + 12, e - (a + 12)) (live h)"
    proof -
      have "{b \<in> set bs'. snd (snd b)} = insert (a, e, True) {b \<in> set (blocks h). snd (snd b)}"
        using e(3) unfolding b e(1) by auto
      then show ?thesis
        unfolding live_set [OF h'(2)] live_set [OF ok] hp by simp
    qed
    moreover have "(heap_ptr h + a + 12, e - (a + 12)) \<notin> live h"
    proof
      assume "(heap_ptr h + a + 12, e - (a + 12)) \<in> live h"
      then obtain m where m: "(a, m, True) \<in> set (blocks h)"
        unfolding live_iff [OF ok] by auto
      have s: "seg h 0 0 (blocks h) (mem_size_aligned h + 12)" "(a, l, False) \<in> set (blocks h)"
        using ok b(1) by (simp_all add: heap_ok_def chain_def)
      show False
        using seg_order [OF s(1) m s(2)] seg_member [OF s(1) m] seg_member [OF s] by auto
    qed
    moreover have "n \<le> e - (a + 12)"
      using RT_ALIGN_ge [OF n(2)] e(2) by (simp add: block_size_def)
    moreover have "\<forall>x \<in> addrs (live h) \<union> - heap_area h. ram h' x = ram h x"
      using h'(3) b e(1) by (auto simp: live_addrs [OF ok] chain_from_def)
    moreover have "heap_area h' = heap_area h"
      using h'(3) by (simp add: chain_from_def heap_area_def)
    ultimately show ?thesis
      using h' heap_ok_inv [OF h'(2)] by auto
  qed
qed

lemma release_used: "(b, m, True) \<in> set (release_blk a bs) \<longleftrightarrow> (b, m, True) \<in> set bs \<and> b \<noteq> a"
proof -
  have "(b, m, True) \<in> set (map (\<lambda>(c, n, u). (c, n, u \<and> c \<noteq> a)) bs) \<longleftrightarrow> (b, m, True) \<in> set bs \<and> b \<noteq> a"
    by (induction bs) auto
  then show ?thesis
    by (simp only: release_blk_def coalesce_used_set)
qed

lemma rt_free_law:
  assumes i: "heap_inv h" and l: "(p, k) \<in> live h"
  shows "\<exists>h'. rt_free p h = Some h' \<and> heap_inv h' \<and> heap_area h' = heap_area h \<and>
    live h' = live h - {(p, k)} \<and> (\<forall>x \<in> addrs (live h') \<union> - heap_area h. ram h' x = ram h x)"
proof -
  note ok = heap_inv_ok [OF i]
  obtain a n where a: "(a, n, True) \<in> set (blocks h)" "p = heap_ptr h + a + 12" "k = n - (a + 12)"
    using l unfolding live_iff [OF ok] by blast
  then obtain xs ys where b: "blocks h = xs @ (a, n, True) # ys"
    by (metis split_list)
  let ?bs = "release_blk a (blocks h)"
  obtain h' where h': "rt_free p h = Some h'" "heap_ok h' ?bs" "chain_from h h' ?bs"
    using rt_free_ok [of h xs a n ys] ok a(2) b by auto
  have hp: "heap_ptr h' = heap_ptr h"
    using h'(3) by (simp add: chain_from_def)
  have s: "seg h 0 0 (blocks h) (mem_size_aligned h + 12)"
    using ok by (simp add: heap_ok_def chain_def)
  have one: "m = n" if "(a, m, True) \<in> set (blocks h)" for m
    using seg_order [OF s a(1) that] seg_member [OF s that] seg_member [OF s a(1)] by auto
  have "(q, l) \<in> live h' \<longleftrightarrow> (q, l) \<in> live h \<and> (q, l) \<noteq> (p, k)" for q l
  proof
    assume "(q, l) \<in> live h'"
    then show "(q, l) \<in> live h \<and> (q, l) \<noteq> (p, k)"
      unfolding live_iff [OF h'(2)] live_iff [OF ok] release_used hp using a(2) by auto
  next
    assume "(q, l) \<in> live h \<and> (q, l) \<noteq> (p, k)"
    then obtain b m where "(b, m, True) \<in> set (blocks h)" "q = heap_ptr h + b + 12" "l = m - (b + 12)"
        "(q, l) \<noteq> (p, k)"
      unfolding live_iff [OF ok] by blast
    then show "(q, l) \<in> live h'"
      unfolding live_iff [OF h'(2)] release_used hp using a(2,3) one [of m] by blast
  qed
  then have "live h' = live h - {(p, k)}"
    by auto
  moreover have "\<forall>x \<in> addrs (live h') \<union> - heap_area h. ram h' x = ram h x"
    using h'(3) user_bytes_cong [OF hp] unfolding live_addrs [OF h'(2)] by (simp add: chain_from_def)
  moreover have "heap_area h' = heap_area h"
    using h'(3) by (simp add: chain_from_def heap_area_def)
  ultimately show ?thesis
    using h' heap_ok_inv [OF h'(2)] by blast
qed

lemma ram_put_law:
  assumes i: "heap_inv h" and w: "\<And>x. x \<notin> addrs (live h) \<Longrightarrow> m x = ram h x"
  shows "heap_inv (h\<lparr>ram := m\<rparr>) \<and> heap_area (h\<lparr>ram := m\<rparr>) = heap_area h \<and> live (h\<lparr>ram := m\<rparr>) = live h \<and> ram (h\<lparr>ram := m\<rparr>) = m"
proof -
  note ok = heap_inv_ok [OF i]
  have ok': "heap_ok (h\<lparr>ram := m\<rparr>) (blocks h)"
    by (rule heap_ok_write [OF ok]) (use w live_addrs [OF ok] in auto)
  then show ?thesis
    using heap_ok_inv [OF ok'] by (simp add: live_def heap_area_def)
qed

interpretation heap: region_allocator heap_inv heap_area live ram "\<lambda>m h. h\<lparr>ram := m\<rparr>" rt_malloc rt_free
proof (unfold_locales, goal_cases)
  case (1 h p k q l)
  then show ?case by (rule live_disjoint)
next
  case (2 h)
  then show ?case
    using live_bounds [of h] by (force simp: heap_area_def addrs_iff)
next
  case (3 h n)
  then show ?case by (rule rt_malloc_law)
next
  case (4 h p k)
  then show ?case by (rule rt_free_law)
next
  case (5 h m)
  then show ?case by (rule ram_put_law)
qed

section \<open>Initialisation\<close>

text \<open>A region of memory with room for two headers and a smallest block becomes a heap of one
  free block.\<close>

lemma rt_system_heap_init_ok:
  assumes a: "begin_addr + 3 < 2 ^ 32" "end_addr < 2 ^ 32" "RT_ALIGN begin_addr + 36 \<le> RT_ALIGN_DOWN end_addr"
    and u: "used_mem h = 0"
  shows "heap_ok (rt_system_heap_init begin_addr end_addr h)
      [(0, RT_ALIGN_DOWN end_addr - RT_ALIGN begin_addr - 12, False)]
    \<and> heap_ptr (rt_system_heap_init begin_addr end_addr h) = RT_ALIGN begin_addr
    \<and> heap_end (rt_system_heap_init begin_addr end_addr h) = RT_ALIGN_DOWN end_addr - 12"
proof -
  define b where "b = RT_ALIGN begin_addr"
  define ms where "ms = RT_ALIGN_DOWN end_addr - b - 24"
  define e where "e = ms + 12"
  have dv: "4 dvd b" "4 dvd RT_ALIGN_DOWN end_addr"
    by (simp_all add: b_def RT_ALIGN_DOWN_def)
  then have dm: "4 dvd ms" "12 \<le> ms" "b + ms + 24 = RT_ALIGN_DOWN end_addr"
    using a(3) by (auto simp: ms_def b_def)
  have top: "b + ms + 24 < 2 ^ 32"
    using dm(3) a(2) by (auto simp: RT_ALIGN_DOWN_def intro: le_less_trans [of _ end_addr])
  have ap: "apart (b + e) b" "apart b (b + e)" "e < 2 ^ 32"
    using dm(2) top by (auto simp: apart_def e_def)
  let ?h0 = "h\<lparr>mem_size_aligned := ms, heap_ptr := b\<rparr>"
  let ?h1 = "set_mem_used b 0 (set_mem_prev b 0 (set_mem_next b e (set_mem_magic b HEAP_MAGIC ?h0)))"
  let ?h2 = "?h1\<lparr>heap_end := b + e\<rparr>"
  let ?h3 = "set_mem_prev (b + e) e (set_mem_next (b + e) e (set_mem_used (b + e) 1
    (set_mem_magic (b + e) HEAP_MAGIC ?h2)))"
  let ?h = "?h3\<lparr>heap_sem := 1, lfree := b\<rparr>"
  have init: "rt_system_heap_init begin_addr end_addr h = ?h"
    using a(3) ap(3) dm(3) b_def [symmetric]
    by (simp add: rt_system_heap_init_def Let_def e_def ms_def)
  have "hdr ?h b = (HEAP_MAGIC, 0, e, 0)"
    using ap by (simp add: hdr_def)
  moreover have "mem_used ?h (b + e) = 1" "mem_next ?h (b + e) = e"
    using ap(3) by simp_all
  ultimately have "chain ?h [(0, e, False)]"
    using dv(1) dm(1,2) top ap(3) by (simp add: chain_def e_def add.assoc)
  moreover have "RT_ALIGN_DOWN end_addr - b - 12 = e" "RT_ALIGN_DOWN end_addr - 12 = b + e"
    using dm(3) by (simp_all add: e_def)
  ultimately show ?thesis
    using u unfolding init b_def [symmetric] by (simp add: heap_ok_def)
qed

section \<open>The routines built on the two\<close>

lemma rt_calloc_ok:
  assumes i: "heap_inv h" and n: "count * sz \<noteq> 0" "count * sz + 3 < 2 ^ 32"
  shows "\<exists>p h'. rt_calloc count sz h = Some (p, h') \<and> heap_inv h' \<and> heap_area h' = heap_area h \<and>
    (if p = 0 then live h' = live h
     else bytes_at (ram h') p (count * sz) = replicate (count * sz) 0 \<and>
       (\<exists>k \<ge> count * sz. (p, k) \<notin> live h \<and> live h' = insert (p, k) (live h))) \<and>
    (\<forall>x \<in> addrs (live h) \<union> - heap_area h. ram h' x = ram h x)"
proof -
  let ?n = "count * sz"
  have un: "usz ?n = ?n"
    using n(2) by simp
  obtain p h1 where m: "rt_malloc ?n h = Some (p, h1)" "heap_inv h1" "heap_area h1 = heap_area h"
    "\<forall>x \<in> addrs (live h) \<union> - heap_area h. ram h1 x = ram h x" "p = 0 \<Longrightarrow> live h1 = live h"
    using heap.malloc_law [OF i n] by auto
  show ?thesis
  proof (cases "p = 0")
    case True
    then show ?thesis using m by (simp add: rt_calloc_def un)
  next
    case False
    let ?m = "fill p ?n 0 (ram h1)"
    have c: "rt_calloc count sz h = Some (p, h1\<lparr>ram := ?m\<rparr>)"
      using m(1) False by (simp add: rt_calloc_def un rt_memset_fill)
    have w: "?m x = ram h1 x" if "x < p \<or> p + ?n \<le> x" for x
      using that by (auto simp: fill_def)
    show ?thesis
      using heap.malloc_put [OF i n m(1) False w] c False by (auto simp: bytes_at_fill)
  qed
qed

lemma bytes_cstr: "bytes_at m a (length xs + 1) = xs @ [0] \<Longrightarrow> 0 \<notin> set xs \<Longrightarrow> cstr m a xs"
proof (induction xs arbitrary: a)
  case (Cons x xs)
  then show ?case by (auto simp: bytes_at_Suc)
qed (simp add: bytes_at_def)

lemma cstr_bytes_end: "cstr m a xs \<Longrightarrow> bytes_at m a (length xs + 1) = xs @ [0]"
  by (induction xs arbitrary: a) (auto simp: bytes_at_Suc bytes_at_def [of _ _ 0])

text \<open>The copy of a string that lies in an allocated region or outside the heap.\<close>

lemma rt_strdup_ok:
  assumes i: "heap_inv h" and s: "cstr (ram h) s xs" "length xs + 4 < 2 ^ 32"
    and src: "\<And>j. j < length xs + 1 \<Longrightarrow> s + j \<in> addrs (live h) \<union> - heap_area h"
  shows "\<exists>p h'. rt_strdup s h = Some (p, h') \<and> heap_inv h' \<and>
    (if p = 0 then live h' = live h
     else cstr (ram h') p xs \<and> (\<exists>k > length xs. (p, k) \<notin> live h \<and> live h' = insert (p, k) (live h))) \<and>
    (\<forall>x \<in> addrs (live h) \<union> - heap_area h. ram h' x = ram h x)"
proof -
  let ?n = "length xs + 1"
  have n: "?n \<noteq> 0" "?n + 3 < 2 ^ 32"
    using s(2) by simp_all
  obtain p h1 where m: "rt_malloc ?n h = Some (p, h1)" "heap_inv h1"
      "\<forall>x \<in> addrs (live h) \<union> - heap_area h. ram h1 x = ram h x" "p = 0 \<Longrightarrow> live h1 = live h"
    using heap.malloc_law [OF i n] by auto
  have len: "rt_strlen (ram h) s = Some (length xs)" "usz ?n = ?n"
    using s by (simp_all add: rt_strlen_cstr)
  show ?thesis
  proof (cases "p = 0")
    case True
    then show ?thesis using m len by (simp add: rt_strdup_def)
  next
    case False
    obtain k where k: "?n \<le> k" "(p, k) \<notin> live h" "heap_inv (h1\<lparr>ram := copy p s ?n (ram h1)\<rparr>)"
        "live (h1\<lparr>ram := copy p s ?n (ram h1)\<rparr>) = insert (p, k) (live h)"
        "bytes_at (copy p s ?n (ram h1)) p ?n = bytes_at (ram h) s ?n"
        "\<forall>x \<in> addrs (live h) \<union> - heap_area h. copy p s ?n (ram h1) x = ram h x"
        "heap_area (h1\<lparr>ram := copy p s ?n (ram h1)\<rparr>) = heap_area h"
      using heap.malloc_copy [OF i n m(1) False le_refl src] by auto
    have "p \<le> s \<or> s + ?n \<le> p"
    proof (rule ccontr)
      assume "\<not> ?thesis"
      then have "p - s < ?n" "s + (p - s) = p"
        by auto
      then have "p \<in> addrs (live h) \<union> - heap_area h"
        using src [of "p - s"] by simp
      moreover have "(p, k) \<in> live (h1\<lparr>ram := copy p s ?n (ram h1)\<rparr>)"
        using k(4) by simp
      ultimately show False
        using heap.off_region [OF k(3), of p k p] k(1,2,4,7) by auto
    qed
    then have "rt_strdup s h = Some (p, h1\<lparr>ram := copy p s ?n (ram h1)\<rparr>)"
      using m(1) len False by (simp add: rt_strdup_def rt_memcpy_copy)
    moreover have "cstr (copy p s ?n (ram h1)) p xs"
      using k(5) cstr_bytes_end [OF s(1)] cstr_nonzero [OF s(1)] by (intro bytes_cstr) simp_all
    moreover have "\<exists>l > length xs. (p, l) \<notin> live h \<and> insert (p, k) (live h) = insert (p, l) (live h)"
      using k(1,2) by (intro exI [of _ k]) simp
    ultimately show ?thesis
      using k False by auto
  qed
qed

text \<open>The regions of a list of blocks.\<close>

definition regs :: "nat \<Rightarrow> blk list \<Rightarrow> (nat \<times> nat) set" where
  "regs hp bs = set (map (\<lambda>(a, n, u). (hp + a + 12, n - (a + 12))) (filter (snd \<circ> snd) bs))"

lemma regs_simps [simp]:
  "regs hp [] = {}"
  "regs hp ((a, n, u) # bs) = (if u then {(hp + a + 12, n - (a + 12))} else {}) \<union> regs hp bs"
  "regs hp (xs @ ys) = regs hp xs \<union> regs hp ys"
  by (simp_all add: regs_def)

lemma regs_coalesce [simp]: "regs hp (coalesce bs) = regs hp bs"
  by (induction bs rule: coalesce.induct) auto

lemma live_regs: "heap_ok h bs \<Longrightarrow> live h = regs (heap_ptr h) bs"
  by (simp add: live_set regs_def)

lemma regs_other:
  assumes "heap_ok h (xs @ (a, n, True) # ys)"
  shows "live h - {(heap_ptr h + a + 12, n - (a + 12))} = regs (heap_ptr h) xs \<union> regs (heap_ptr h) ys"
proof -
  have c: "chain h (xs @ (a, n, True) # ys)"
    using assms by (simp add: heap_ok_def)
  have "(heap_ptr h + a + 12, n - (a + 12)) \<notin> regs (heap_ptr h) xs \<union> regs (heap_ptr h) ys"
    using seg_member [OF chain_parts(1) [OF c], of a] seg_member [OF chain_parts(3) [OF c], of a]
      chain_parts(4) [OF c] by (fastforce simp: regs_def)
  then show ?thesis
    unfolding live_regs [OF assms] by auto
qed

lemma lfree_if: "(if c then h\<lparr>lfree := x\<rparr> else h) = h\<lparr>lfree := (if c then x else lfree h)\<rparr>"
  by simp

text \<open>Shrinking in place.\<close>

lemma rt_realloc_shrink:
  assumes ok: "heap_ok h (xs @ (a, n, True) # ys)" and m: "RT_ALIGN sz = m" "m \<noteq> 0" "m + 24 < n - (a + 12)"
  shows "\<exists>h'. rt_realloc (heap_ptr h + a + 12) sz h = Some (heap_ptr h + a + 12, h')
    \<and> heap_ok h' (coalesce (xs @ (a, a + 12 + m, True) # (a + 12 + m, n, False) # ys))
    \<and> chain_from h h' (coalesce (xs @ (a, a + 12 + m, True) # (a + 12 + m, n, False) # ys))"
proof -
  let ?p2 = "a + 12 + m"
  let ?xs = "xs @ [(a, ?p2, True)]"
  let ?bs = "coalesce (?xs @ (?p2, n, False) # ys)"
  have c: "chain h (xs @ (a, n, True) # ys)"
    using ok by (simp add: heap_ok_def)
  note parts = chain_parts [OF c]
  have d: "4 dvd m" "4 \<le> m" "4 dvd a"
    using m RT_ALIGN_dvd [of sz] seg_dvd [OF parts(1)] by (auto dest: dvd_imp_le)
  define u where "u = used_mem h - (n - (a + 12) - m)"
  define w where "w = n - (a + 12)"
  let ?h1 = "h\<lparr>heap_sem := 0, used_mem := u\<rparr>"
  let ?h2 = "link_rest ?p2 (split_block a ?p2 ?h1)"
  have f2: "chain_from h ?h2 (?xs @ (?p2, n, False) # ys)"
    using split_from [of ?h1 xs a n True ys ?p2] c d m(3) by simp
  let ?h3 = "?h2\<lparr>lfree := heap_ptr h + first_free ?xs ?p2\<rparr>"
  let ?h4 = "plug_holes (heap_ptr h + ?p2) ?h3"
  have lf: "(if heap_ptr h + ?p2 < lfree h then heap_ptr h + ?p2 else lfree h) = heap_ptr h + first_free ?xs ?p2"
    using ok lower_lfree [OF parts(1), of ?p2 "first_free ys (mem_size_aligned h + 12)" "heap_ptr h"]
      first_free_bounds [OF parts(3)] m(3)
    by (auto simp: heap_ok_def first_free_append split: if_splits)
  have mg: "merged ?xs" "merged ys"
    using ok by (auto simp: heap_ok_def merged_append)
  have ph: "chain_from ?h3 ?h4 ?bs \<and> merged ?bs
    \<and> first_free ?bs (mem_size_aligned h + 12) = first_free ?xs ?p2
    \<and> lfree ?h4 = lfree ?h3 \<and> heap_sem ?h4 = heap_sem ?h3
    \<and> used_mem ?h4 = used_mem ?h3 \<and> max_mem ?h4 = max_mem ?h3"
    using plug_holes_from [of ?h3 ?xs ?p2 n ys] mg f2 by (simp add: chain_from_def)
  then have cf: "chain_from h ?h4 ?bs"
    using chain_from_trans [OF f2, of ?h4 ?bs] by simp
  have ub: "used_mem h = used_bytes (xs @ (a, n, True) # ys)" "used_bytes (xs @ (a, n, True) # ys) < 2 ^ 32"
    using ok chain_used_bytes(2) [OF c] by (simp_all add: heap_ok_def)
  have nx: "mem_next h (heap_ptr h + a) = n"
    using parts(9) by (simp add: hdr_def)
  have ms: "m \<le> mem_size_aligned h" "heap_ptr h + a + 12 < heap_end h" "mem_size_aligned h + 24 < 2 ^ 32"
    using m(3) parts(4,5) c by (simp_all add: chain_def)
  have sub: "usub (usub n a) 12 = w" "usub (used_mem h) (usub w m) = u" "usz (m + 12 + 12) = m + 24"
    "usz ?p2 = ?p2" "w \<noteq> m" "m + 24 < w"
    using parts(4,5,7) m(3) ub ms by (simp_all add: u_def w_def)
  have "rt_realloc (heap_ptr h + a + 12) sz h = Some (heap_ptr h + a + 12, heap_sem_release ?h4)"
    using m(1,2) sub ms(1,2) nx
    by (simp add: rt_realloc_def Let_def heap_ok_update_sem [OF ok] lfree_if lf split del: if_split cong: if_cong)
  moreover have "u = used_bytes ?bs" "u \<le> max_mem h"
    using ub ok m(3) parts(4) by (auto simp: heap_ok_def u_def)
  then have "heap_ok (heap_sem_release ?h4) ?bs"
    using ph cf by (simp add: heap_ok_def chain_from_def)
  ultimately show ?thesis
    using cf ph by simp
qed

lemma RT_ALIGN_id:
  assumes "4 dvd m" "m + 3 < 2 ^ 32"
  shows "RT_ALIGN m = m"
proof -
  obtain j where "m = 4 * j"
    using assms(1) by blast
  moreover have "(4 * j + 3) div 4 = j"
    by simp
  ultimately show ?thesis
    using assms(2) by (simp add: RT_ALIGN_def)
qed

lemma bytes_at_take:
  "bytes_at m p c = bytes_at m' q c \<Longrightarrow> d \<le> c \<Longrightarrow> bytes_at m p d = bytes_at m' q d"
  by (auto simp: list_eq_iff_nth_eq)

lemma rt_realloc_law:
  assumes i: "heap_inv h" and l: "(p, k) \<in> live h" and n: "n \<noteq> 0" "n + 6 < 2 ^ 32"
  shows "\<exists>q h'. rt_realloc p n h = Some (q, h') \<and> heap_inv h' \<and> heap_area h' = heap_area h \<and>
    (if q = 0 then live h' = live h \<and> (\<forall>x \<in> addrs (live h). ram h' x = ram h x)
     else (\<exists>k' \<ge> n. live h' = insert (q, k') (live h - {(p, k)}))
       \<and> bytes_at (ram h') q (min k n) = bytes_at (ram h) p (min k n)) \<and>
    (\<forall>x \<in> addrs (live h - {(p, k)}) \<union> - heap_area h. ram h' x = ram h x)"
proof -
  note ok = heap_inv_ok [OF i]
  obtain a e where a: "(a, e, True) \<in> set (blocks h)" "p = heap_ptr h + a + 12" "k = e - (a + 12)"
    using l unfolding live_iff [OF ok] by blast
  then obtain xs ys where b: "blocks h = xs @ (a, e, True) # ys"
    by (metis split_list)
  have c: "chain h (xs @ (a, e, True) # ys)"
    using ok b by (simp add: heap_ok_def)
  note parts = chain_parts [OF c]
  define m where "m = RT_ALIGN n"
  have m: "n \<le> m" "m \<noteq> 0" "m + 3 < 2 ^ 32" "RT_ALIGN m = m"
    using n RT_ALIGN_ge [of n] RT_ALIGN_le [of n] RT_ALIGN_id [of m] by (auto simp: m_def)
  have nx: "mem_next h (heap_ptr h + a) = e"
    using parts(9) by (simp add: hdr_def)
  have sz: "usub (usub e a) 12 = k"
    using parts(4,7) a(3) by simp
  have rg: "\<not> p < heap_ptr h" "\<not> heap_end h \<le> p" "p \<noteq> 0" "p - 12 = heap_ptr h + a"
    using a(2) parts(4,5) c by (simp_all add: chain_def)
  have tk: "heap_sem_take h = Some (h\<lparr>heap_sem := 0\<rparr>)" and s1: "h\<lparr>heap_sem := Suc 0\<rparr> = h"
    using ok heap_ok_update_sem by (auto simp: heap_ok_def)
  consider (large) "mem_size_aligned h < m" | (same) "m \<le> mem_size_aligned h" "k = m"
    | (shrink) "m \<le> mem_size_aligned h" "m + 24 < k"
    | (move) "m \<le> mem_size_aligned h" "k \<noteq> m" "\<not> m + 24 < k"
    by linarith
  then show ?thesis
  proof cases
    case large
    then have "rt_realloc p n h = Some (0, h)"
      by (simp add: rt_realloc_def m_def)
    with i show ?thesis by auto
  next
    case same
    have "rt_realloc p n h = Some (p, h)"
      using same m(2) sz nx rg s1 by (simp add: rt_realloc_def Let_def m_def [symmetric] tk)
    with i l rg m same show ?thesis by (auto simp: insert_absorb)
  next
    case shrink
    let ?bs = "coalesce (xs @ (a, a + 12 + m, True) # (a + 12 + m, e, False) # ys)"
    obtain h' where h': "rt_realloc p n h = Some (p, h')" "heap_ok h' ?bs" "chain_from h h' ?bs"
      using rt_realloc_shrink [of h xs a e ys n m] ok b m shrink(2) a(2,3) by (auto simp: m_def)
    have hp: "heap_ptr h' = heap_ptr h"
      using h'(3) by (simp add: chain_from_def)
    have ok2: "heap_ok h (xs @ (a, e, True) # ys)"
      using ok b by simp
    have lv: "live h' = insert (p, m) (live h - {(p, k)})"
      using live_regs [OF h'(2)] regs_other [OF ok2] a(2,3) hp by auto
    have "ram h' x = ram h x" if "x \<in> addrs (live h') \<union> - heap_area h" for x
      using that h'(3) user_bytes_cong [OF hp] by (auto simp: live_addrs [OF h'(2)] chain_from_def)
    then have kept: "\<forall>x \<in> {p ..< p + m} \<union> addrs (live h - {(p, k)}) \<union> - heap_area h. ram h' x = ram h x"
      unfolding lv by auto
    then have "bytes_at (ram h') p (min k n) = bytes_at (ram h) p (min k n)"
      using m(1) by (intro nth_equalityI) auto
    then show ?thesis
      using h' heap_ok_inv [OF h'(2)] lv kept rg(3) m(1) by (auto simp: chain_from_def heap_area_def)
  next
    case move
    obtain q h1 where m1: "rt_malloc m h = Some (q, h1)" "heap_inv h1" "heap_area h1 = heap_area h"
        "\<forall>x \<in> addrs (live h) \<union> - heap_area h. ram h1 x = ram h x" "q = 0 \<Longrightarrow> live h1 = live h"
      using heap.malloc_law [OF i m(2,3)] by auto
    let ?c = "if k < m then k else m"
    have re: "rt_realloc p n h = (if q \<noteq> 0
        then map_option (\<lambda>h. (q, h)) (rt_free p (h1\<lparr>ram := snd (rt_memcpy q p ?c (ram h1))\<rparr>))
        else Some (q, h1))"
    proof -
      have "usz (m + 12 + 12) = m + 24"
        using move(1) c by (simp add: chain_def)
      then show ?thesis
        using move m sz nx rg s1 m1(1) by (simp add: rt_realloc_def Let_def m_def [symmetric] tk)
    qed
    show ?thesis
    proof (cases "q = 0")
      case True
      have "addrs (live h - {(p, k)}) \<subseteq> addrs (live h)"
        unfolding addrs_def by blast
      then show ?thesis using True re m1 by auto
    next
      case False
      have cc: "?c \<le> k" "?c \<le> m" by auto
      obtain h2 k' where h2: "rt_free p (h1\<lparr>ram := copy q p ?c (ram h1)\<rparr>) = Some h2" "m \<le> k'"
          "heap_inv h2" "heap_area h2 = heap_area h" "q \<le> p \<or> p + ?c \<le> q"
          "live h2 = insert (q, k') (live h - {(p, k)})"
          "bytes_at (ram h2) q ?c = bytes_at (ram h) p ?c"
          "\<forall>x \<in> addrs (live h - {(p, k)}) \<union> - heap_area h. ram h2 x = ram h x"
        using heap.move_region [OF i m(2,3) l cc m1(1) False] by blast
      have "bytes_at (ram h2) q (min k n) = bytes_at (ram h) p (min k n)"
        by (rule bytes_at_take [OF h2(7)]) (use m(1) in auto)
      moreover have "rt_realloc p n h = Some (q, h2)"
        using re False h2(1) rt_memcpy_copy [OF h2(5)] by simp
      moreover have "\<exists>k'' \<ge> n. live h2 = insert (q, k'') (live h - {(p, k)})"
        using h2(2,6) m(1) by (intro exI [of _ k']) simp
      ultimately show ?thesis
        using h2(3,4,8) False by simp
    qed
  qed
qed

section \<open>Clients\<close>

text \<open>What a client may do: call the heap, with pointers it got from it, and store into its own
  regions.\<close>

datatype heap_op = Malloc nat | Calloc nat nat | Realloc nat nat | Free nat | Store nat u8

fun heap_do :: "heap_op \<Rightarrow> heap_t \<Rightarrow> heap_t option" where
  "heap_do (Malloc n) h = map_option snd (rt_malloc n h)"
| "heap_do (Calloc c n) h = map_option snd (rt_calloc c n h)"
| "heap_do (Realloc p n) h = map_option snd (rt_realloc p n h)"
| "heap_do (Free p) h = rt_free p h"
| "heap_do (Store x v) h = Some (h\<lparr>ram := (ram h)(x := v)\<rparr>)"

fun legal :: "heap_op \<Rightarrow> heap_t \<Rightarrow> bool" where
  "legal (Malloc n) h \<longleftrightarrow> n + 3 < 2 ^ 32"
| "legal (Calloc c n) h \<longleftrightarrow> c * n + 3 < 2 ^ 32"
| "legal (Realloc p n) h \<longleftrightarrow> p \<in> fst ` live h \<and> n \<noteq> 0 \<and> n + 6 < 2 ^ 32"
| "legal (Free p) h \<longleftrightarrow> p = 0 \<or> p \<in> fst ` live h"
| "legal (Store x v) h \<longleftrightarrow> x \<in> addrs (live h)"

inductive heap_run :: "heap_t \<Rightarrow> heap_t \<Rightarrow> bool" for h0 where
  start: "heap_run h0 h0"
| op: "heap_run h0 h \<Longrightarrow> legal c h \<Longrightarrow> heap_do c h = Some h' \<Longrightarrow> heap_run h0 h'"

text \<open>Every legal call returns, keeps the heap well formed and writes nowhere else.\<close>

lemma heap_do_safe:
  assumes i: "heap_inv h" and l: "legal c h"
  shows "\<exists>h'. heap_do c h = Some h' \<and> heap_inv h' \<and> heap_area h' = heap_area h \<and>
    (\<forall>x \<in> - heap_area h. ram h' x = ram h x)"
proof (cases c)
  case (Malloc n)
  show ?thesis
  proof (cases "n = 0")
    case True
    then show ?thesis using i Malloc by (simp add: rt_malloc_def)
  next
    case False
    then show ?thesis using heap.malloc_law [OF i False] l Malloc by auto
  qed
next
  case (Calloc m n)
  show ?thesis
  proof (cases "m * n = 0")
    case True
    then have "usz (m * n) = 0" by (simp only: usz_def mod_0)
    then show ?thesis using i Calloc by (simp add: rt_calloc_def rt_malloc_def)
  next
    case False
    then show ?thesis using rt_calloc_ok [OF i False] l Calloc by auto
  qed
next
  case (Realloc p n)
  then obtain k where "(p, k) \<in> live h"
    using l by auto
  moreover have "n \<noteq> 0" "n + 6 < 2 ^ 32"
    using l Realloc by auto
  ultimately obtain q h' where "rt_realloc p n h = Some (q, h')" "heap_inv h'" "heap_area h' = heap_area h"
      "\<forall>x \<in> addrs (live h - {(p, k)}) \<union> - heap_area h. ram h' x = ram h x"
    using rt_realloc_law [OF i] by meson
  then show ?thesis using Realloc by simp
next
  case (Free p)
  show ?thesis
  proof (cases "p = 0")
    case True
    then show ?thesis using i Free by (simp add: rt_free_def)
  next
    case False
    then obtain k where "(p, k) \<in> live h"
      using l Free by auto
    from heap.free_law [OF i this] show ?thesis using Free by auto
  qed
next
  case (Store x v)
  then have x: "x \<in> addrs (live h)" using l by simp
  then have "x \<in> heap_area h"
    using heap.regions_area [OF i] by blast
  moreover have "((ram h)(x := v)) y = ram h y" if "y \<notin> addrs (live h)" for y
    using that x by auto
  note heap.put_law [OF i this]
  ultimately show ?thesis
    using Store by (auto simp: fun_upd_def)
qed

lemma heap_run_inv:
  assumes "heap_run h0 h" "heap_inv h0"
  shows "heap_inv h \<and> heap_area h = heap_area h0 \<and> (\<forall>x \<in> - heap_area h0. ram h x = ram h0 x)"
  using assms
proof (induction rule: heap_run.induct)
  case (op h c h')
  then show ?case using heap_do_safe [of h c] by auto
qed auto

lemma init_inv:
  assumes "begin_addr + 3 < 2 ^ 32" "end_addr < 2 ^ 32" "RT_ALIGN begin_addr + 36 \<le> RT_ALIGN_DOWN end_addr"
    "used_mem h = 0"
  shows "heap_inv (rt_system_heap_init begin_addr end_addr h)"
    "live (rt_system_heap_init begin_addr end_addr h) = {}"
    "heap_area (rt_system_heap_init begin_addr end_addr h) = {RT_ALIGN begin_addr ..< RT_ALIGN_DOWN end_addr}"
  using rt_system_heap_init_ok [OF assms] heap_ok_inv live_regs assms(3)
  by (auto simp: heap_area_def)

section \<open>Properties\<close>

text \<open>The heap the board sets up for the witnesses: memory from 0x20001001 to 0x20002003.\<close>

definition boot_heap :: heap_t where
  "boot_heap = \<lparr>ram = (\<lambda>_. 0xFF), heap_ptr = 0, heap_end = 0, lfree = 0, heap_sem = 0,
     mem_size_aligned = 0, used_mem = 0, max_mem = 0\<rparr>"

text \<open>
  C22. Memory safety of the heap. A client that starts on a freshly initialised heap and then,
  in any order, allocates, clears, resizes, frees what it got and stores into its own regions never
  gets stuck: every further legal call returns, with the semaphore released. At every moment the
  regions handed out are pairwise disjoint, word aligned and inside the memory given to
  \<^verbatim>\<open>rt_system_heap_init\<close>, the block list is well formed (links in both directions, no two
  free neighbours, \<^verbatim>\<open>lfree\<close> the lowest free block, \<^verbatim>\<open>used_mem\<close> the bytes in use)
  and no byte outside that memory has changed.\<close>

theorem heap_client_safe:
  assumes "begin_addr + 3 < 2 ^ 32" "end_addr < 2 ^ 32" "RT_ALIGN begin_addr + 36 \<le> RT_ALIGN_DOWN end_addr"
    "used_mem b = 0" "heap_run (rt_system_heap_init begin_addr end_addr b) h"
  shows "heap_inv h \<and> heap_sem h = 1 \<and> used_mem h = used_bytes (blocks h)
    \<and> (\<forall>c. legal c h \<longrightarrow> (\<exists>h'. heap_do c h = Some h' \<and> heap_run (rt_system_heap_init begin_addr end_addr b) h'))
    \<and> (\<forall>p k q l. (p, k) \<in> live h \<and> (q, l) \<in> live h \<and> (p, k) \<noteq> (q, l) \<longrightarrow> p + k \<le> q \<or> q + l \<le> p)
    \<and> (\<forall>p k. (p, k) \<in> live h \<longrightarrow> 4 dvd p \<and> RT_ALIGN begin_addr \<le> p \<and> p + k \<le> RT_ALIGN_DOWN end_addr)
    \<and> (\<forall>x. x < RT_ALIGN begin_addr \<or> RT_ALIGN_DOWN end_addr \<le> x \<longrightarrow>
        ram h x = ram (rt_system_heap_init begin_addr end_addr b) x)"
proof -
  note init = init_inv [OF assms(1-4)]
  note r = heap_run_inv [OF assms(5) init(1)]
  have i: "heap_inv h" and a: "heap_area h = {RT_ALIGN begin_addr ..< RT_ALIGN_DOWN end_addr}"
    using r init(3) by auto
  have ok: "heap_ok h (blocks h)"
    using i by (rule heap_inv_ok)
  have 1: "\<exists>h'. heap_do c h = Some h' \<and> heap_run (rt_system_heap_init begin_addr end_addr b) h'"
    if "legal c h" for c
    using heap_do_safe [OF i that] heap_run.op [OF assms(5) that] by blast
  have 2: "p + k \<le> q \<or> q + l \<le> p" if "(p, k) \<in> live h \<and> (q, l) \<in> live h \<and> (p, k) \<noteq> (q, l)" for p k q l
    using heap.regions_disjoint [OF i] that by blast
  have 3: "4 dvd p \<and> RT_ALIGN begin_addr \<le> p \<and> p + k \<le> RT_ALIGN_DOWN end_addr" if "(p, k) \<in> live h" for p k
  proof -
    have "p \<in> heap_area h" "p + k - 1 \<in> heap_area h" "4 dvd p" "4 \<le> k"
      using live_bounds [OF i that] by (auto simp: heap_area_def)
    then show ?thesis unfolding a by auto
  qed
  have 4: "ram h x = ram (rt_system_heap_init begin_addr end_addr b) x"
    if "x < RT_ALIGN begin_addr \<or> RT_ALIGN_DOWN end_addr \<le> x" for x
    using r init(3) that by auto
  show ?thesis
    using i ok 1 2 3 4 by (simp add: heap_ok_def)
qed

lemma board_heap:
  "heap_ok (rt_system_heap_init 0x20001001 0x20002003 boot_heap) [(0, 4080, False)]"
  "heap_inv (rt_system_heap_init 0x20001001 0x20002003 boot_heap)"
  "blocks (rt_system_heap_init 0x20001001 0x20002003 boot_heap) = [(0, 4080, False)]"
  "heap_ptr (rt_system_heap_init 0x20001001 0x20002003 boot_heap) = 0x20001004"
  "mem_size_aligned (rt_system_heap_init 0x20001001 0x20002003 boot_heap) = 4068"
proof -
  let ?h = "rt_system_heap_init 0x20001001 0x20002003 boot_heap"
  have al: "RT_ALIGN 0x20001001 = 0x20001004" "RT_ALIGN_DOWN 0x20002003 = 0x20002000"
    by (simp_all add: RT_ALIGN_def RT_ALIGN_DOWN_def usz_def)
  have i: "heap_ok ?h [(0, 4080, False)] \<and> heap_ptr ?h = 0x20001004 \<and> heap_end ?h = 0x20001FF4"
    using rt_system_heap_init_ok [of "0x20001001" "0x20002003" boot_heap] al by (simp add: boot_heap_def)
  then show "heap_ok ?h [(0, 4080, False)]" "heap_ptr ?h = 0x20001004" "mem_size_aligned ?h = 4068"
    by (auto simp: heap_ok_def chain_def)
  from i heap_ok_inv show "heap_inv ?h" "blocks ?h = [(0, 4080, False)]"
    by blast+
qed

theorem heap_client_safe_witness:
  "heap_run (rt_system_heap_init 0x20001001 0x20002003 boot_heap)
     (rt_system_heap_init 0x20001001 0x20002003 boot_heap)
   \<and> (\<exists>h'. heap_do (Malloc 20) (rt_system_heap_init 0x20001001 0x20002003 boot_heap) = Some h')"
proof -
  have al: "RT_ALIGN 0x20001001 = 0x20001004" "RT_ALIGN_DOWN 0x20002003 = 0x20002000"
    by (simp_all add: RT_ALIGN_def RT_ALIGN_DOWN_def usz_def)
  note r = heap_run.start [of "rt_system_heap_init 0x20001001 0x20002003 boot_heap"]
  have "used_mem boot_heap = 0"
    by (simp add: boot_heap_def)
  then have "\<forall>c. legal c (rt_system_heap_init 0x20001001 0x20002003 boot_heap) \<longrightarrow>
      (\<exists>h'. heap_do c (rt_system_heap_init 0x20001001 0x20002003 boot_heap) = Some h'
        \<and> heap_run (rt_system_heap_init 0x20001001 0x20002003 boot_heap) h')"
    using heap_client_safe [of "0x20001001" "0x20002003", OF _ _ _ _ r] al by simp
  from spec [OF this, of "Malloc 20"] show ?thesis
    using r by auto
qed

text \<open>
  C23. The header chain in memory implements a list of blocks. On it \<^verbatim>\<open>rt_malloc\<close> is
  first fit: it answers with the first free block that starts below \<^verbatim>\<open>mem_size_aligned\<close>
  minus the size and is large enough, split when the rest can hold another block, and
  \<^verbatim>\<open>RT_NULL\<close> with the heap unchanged when there is none; \<^verbatim>\<open>rt_free\<close> marks the
  block free and joins it with its free neighbours.\<close>

theorem heap_refines_block_list:
  assumes "heap_inv h"
  shows "(n \<noteq> 0 \<and> RT_ALIGN n \<le> mem_size_aligned h \<longrightarrow>
      (case alloc_blk (mem_size_aligned h - block_size n) (block_size n) (blocks h) of
         None \<Rightarrow> rt_malloc n h = Some (0, h)
       | Some (a, bs) \<Rightarrow> \<exists>h'. rt_malloc n h = Some (heap_ptr h + a + 12, h') \<and> heap_inv h' \<and> blocks h' = bs))
    \<and> (\<forall>a e. (a, e, True) \<in> set (blocks h) \<longrightarrow>
        (\<exists>h'. rt_free (heap_ptr h + a + 12) h = Some h' \<and> heap_inv h' \<and> blocks h' = release_blk a (blocks h)))"
proof (intro conjI impI allI)
  note ok = heap_inv_ok [OF assms]
  assume n: "n \<noteq> 0 \<and> RT_ALIGN n \<le> mem_size_aligned h"
  show "case alloc_blk (mem_size_aligned h - block_size n) (block_size n) (blocks h) of
      None \<Rightarrow> rt_malloc n h = Some (0, h)
    | Some (a, bs) \<Rightarrow> \<exists>h'. rt_malloc n h = Some (heap_ptr h + a + 12, h') \<and> heap_inv h' \<and> blocks h' = bs"
    using rt_malloc_ok [OF ok, of n] n heap_ok_inv by (fastforce split: option.splits prod.splits)
next
  note ok = heap_inv_ok [OF assms]
  fix a e
  assume "(a, e, True) \<in> set (blocks h)"
  then obtain xs ys where b: "blocks h = xs @ (a, e, True) # ys"
    by (metis split_list)
  obtain h' where "rt_free (heap_ptr h + a + 12) h = Some h'" "heap_ok h' (release_blk a (blocks h))"
    using rt_free_ok [of h xs a e ys] ok b by auto
  then show "\<exists>h'. rt_free (heap_ptr h + a + 12) h = Some h' \<and> heap_inv h' \<and> blocks h' = release_blk a (blocks h)"
    using heap_ok_inv by blast
qed

theorem heap_refines_block_list_witness:
  "\<exists>h'. rt_malloc 20 (rt_system_heap_init 0x20001001 0x20002003 boot_heap) = Some (0x20001010, h')
    \<and> blocks h' = [(0, 32, True), (32, 4080, False)]"
proof -
  have "RT_ALIGN 20 = 20"
    by (simp add: RT_ALIGN_def usz_def)
  then show ?thesis
    using heap_refines_block_list [OF board_heap(2), of 20]
    by (auto simp: board_heap block_size_def)
qed

text \<open>
  Freeing what was just allocated restores the heap: the same blocks, the same regions in
  use, the same count of used bytes and the same lowest free block.\<close>

theorem malloc_free_round_trip:
  assumes i: "heap_inv h" and n: "n \<noteq> 0" and m: "rt_malloc n h = Some (p, h1)" "p \<noteq> 0"
  shows "\<exists>h2. rt_free p h1 = Some h2 \<and> heap_inv h2 \<and> blocks h2 = blocks h \<and> live h2 = live h
    \<and> used_mem h2 = used_mem h \<and> lfree h2 = lfree h"
proof -
  note ok = heap_inv_ok [OF i]
  have "RT_ALIGN n \<le> mem_size_aligned h"
    using n m by (auto simp: rt_malloc_def Let_def split: if_splits)
  note r = rt_malloc_ok [OF ok n this]
  let ?k = "block_size n"
  obtain a bs1 where s: "alloc_blk (mem_size_aligned h - ?k) ?k (blocks h) = Some (a, bs1)"
      "p = heap_ptr h + a + 12" "heap_ok h1 bs1" "chain_from h h1 bs1"
    using r m by (auto split: option.splits)
  obtain xs e ys where b: "blocks h = xs @ (a, e, False) # ys" "a + 12 + ?k \<le> e" "bs1 = xs @ take_blk ?k a e @ ys"
    using alloc_blk_take [OF s(1)] by blast
  obtain f us where t: "take_blk ?k a e = (a, f, True) # us"
    by (cases "a + 12 + ?k + 24 \<le> e") (simp_all add: take_blk_def)
  have hp: "heap_ptr h1 = heap_ptr h" "mem_size_aligned h1 = mem_size_aligned h"
    using s(4) by (simp_all add: chain_from_def)
  obtain h2 where h2: "rt_free p h1 = Some h2" "heap_ok h2 (release_blk a bs1)" "chain_from h1 h2 (release_blk a bs1)"
    using rt_free_ok [of h1 xs a f "us @ ys"] s(2,3) b(3) t hp by auto
  have mg: "merged (xs @ (a, e, False) # ys)"
    using ok b(1) by (simp add: heap_ok_def)
  then have mg2: "merged xs" "merged ((a, e, False) # ys)"
    by (simp_all add: merged_append)
  have "seg h1 0 0 (xs @ (a, f, True) # us @ ys) (mem_size_aligned h1 + 12)"
    using s(3) b(3) t by (simp add: heap_ok_def chain_def)
  then have "release_blk a bs1 = coalesce (xs @ (a, f, False) # us @ ys)"
    using b(3) t release_blk_eq by simp
  also have "\<dots> = coalesce (xs @ (a, e, False) # ys)"
  proof (cases "a + 12 + ?k + 24 \<le> e")
    case True
    then have "f = a + 12 + ?k" "us = [(f, e, False)]"
      using t by (auto simp: take_blk_def)
    then show ?thesis
      using coalesce_replace [of a f "(f, e, False) # ys" e ys xs] mg2 by (simp add: coalesce_merged)
  qed (use t in \<open>simp add: take_blk_def\<close>)
  also have "\<dots> = blocks h"
    using mg b(1) by (simp add: coalesce_merged)
  finally have e: "release_blk a bs1 = blocks h" .
  have hp2: "heap_ptr h2 = heap_ptr h" "mem_size_aligned h2 = mem_size_aligned h"
    using h2(3) hp by (simp_all add: chain_from_def)
  have ok2: "heap_ok h2 (blocks h)"
    using h2(2) e by simp
  show ?thesis
    using h2(1) heap_ok_inv [OF ok2] live_regs [OF ok2] live_regs [OF ok] hp2 ok ok2
    by (simp add: heap_ok_def)
qed

theorem malloc_free_round_trip_witness:
  "\<exists>h1 h2. rt_malloc 20 (rt_system_heap_init 0x20001001 0x20002003 boot_heap) = Some (0x20001010, h1)
    \<and> rt_free 0x20001010 h1 = Some h2 \<and> blocks h2 = [(0, 4080, False)]"
proof -
  have "RT_ALIGN 20 = 20"
    by (simp add: RT_ALIGN_def usz_def)
  then obtain h1 where "rt_malloc 20 (rt_system_heap_init 0x20001001 0x20002003 boot_heap) = Some (0x20001010, h1)"
    using rt_malloc_ok [OF board_heap(1), of 20] by (auto simp: board_heap(4,5) block_size_def)
  with malloc_free_round_trip [OF board_heap(2) _ this] show ?thesis
    by (auto simp: board_heap(3))
qed

lemma RT_ALIGN_wraps:
  assumes "2 ^ 32 - 3 \<le> n" "n < 2 ^ 32"
  shows "RT_ALIGN n = 0"
proof -
  have "n + 3 = (n + 3 - 2 ^ 32) + 2 ^ 32" using assms by simp
  then have "usz (n + 3) = (n + 3 - 2 ^ 32) mod 2 ^ 32" unfolding usz_def by (metis mod_add_self2)
  moreover have "n + 3 - 2 ^ 32 < 4" using assms by auto
  ultimately have "usz (n + 3) < 4" by (metis mod_less_eq_dividend order_le_less_trans)
  then show ?thesis by (simp add: RT_ALIGN_def)
qed



text \<open>
  C25. The edges of the size check. A request of more than 4294967292 bytes is rounded up past
  \<open>2 ^ 32\<close> to 0 and then served like a request for one byte, with a block of at least twelve
  bytes. And because the loop compares with \<^verbatim>\<open>ptr < mem_size_aligned - size\<close>, a free
  block at the end of the heap with exactly the room asked for is not used: on an empty heap the
  request for all of its \<^verbatim>\<open>mem_size_aligned\<close> bytes is answered with
  \<^verbatim>\<open>RT_NULL\<close>, the request for one word less succeeds.\<close>

theorem malloc_edge_sizes:
  assumes "heap_inv h"
  shows "(2 ^ 32 - 3 \<le> n \<and> n < 2 ^ 32 \<longrightarrow> rt_malloc n h = rt_malloc 1 h)
    \<and> (blocks h = [(0, mem_size_aligned h + 12, False)] \<longrightarrow> rt_malloc (mem_size_aligned h) h = Some (0, h))
    \<and> (blocks h = [(0, mem_size_aligned h + 12, False)] \<and> 16 \<le> mem_size_aligned h \<longrightarrow>
        (\<exists>h'. rt_malloc (mem_size_aligned h - 4) h = Some (heap_ptr h + 12, h')))"
proof -
  note ok = heap_inv_ok [OF assms]
  let ?m = "mem_size_aligned h"
  have c: "12 \<le> ?m" "4 dvd ?m" "?m + 24 < 2 ^ 32"
    using ok by (auto simp: heap_ok_def chain_def)
  have 1: "rt_malloc n h = rt_malloc 1 h" if "2 ^ 32 - 3 \<le> n \<and> n < 2 ^ 32"
  proof -
    have "RT_ALIGN n = 0" "RT_ALIGN 1 = 4" "n \<noteq> 0"
      using that RT_ALIGN_wraps [of n] by (auto simp: RT_ALIGN_def usz_def)
    with c(1) show ?thesis
      by (simp add: rt_malloc_def Let_def)
  qed
  have al: "RT_ALIGN ?m = ?m" "RT_ALIGN (?m - 4) = ?m - 4"
    using c by (auto intro!: RT_ALIGN_id)
  have 2: "rt_malloc ?m h = Some (0, h)" if "blocks h = [(0, ?m + 12, False)]"
    using rt_malloc_ok [OF ok, of ?m] al(1) c(1) that by (simp add: block_size_def max_def)
  have 3: "\<exists>h'. rt_malloc (?m - 4) h = Some (heap_ptr h + 12, h')"
    if "blocks h = [(0, ?m + 12, False)] \<and> 16 \<le> ?m"
  proof -
    have "block_size (?m - 4) = ?m - 4" "?m - (?m - 4) = 4"
      using al(2) that by (auto simp: block_size_def)
    then show ?thesis
      using rt_malloc_ok [OF ok, of "?m - 4"] al(2) that by auto
  qed
  show ?thesis using 1 2 3 by blast
qed

theorem malloc_edge_sizes_witness:
  "rt_malloc 4294967295 (rt_system_heap_init 0x20001001 0x20002003 boot_heap) =
     rt_malloc 1 (rt_system_heap_init 0x20001001 0x20002003 boot_heap)
   \<and> rt_malloc 4068 (rt_system_heap_init 0x20001001 0x20002003 boot_heap) =
     Some (0, rt_system_heap_init 0x20001001 0x20002003 boot_heap)"
  using malloc_edge_sizes [OF board_heap(2), of 4294967295] by (simp add: board_heap(3,5))

section \<open>A heap too small for a block\<close>

text \<open>\<^verbatim>\<open>rt_system_heap_init\<close> accepts a region with less than twelve bytes between the two
  headers. The size of every request is then raised above \<^verbatim>\<open>mem_size_aligned\<close>, the limit of
  the loop wraps around and the search circles at the end header, which is its own successor.\<close>

lemma malloc_loop_stuck:
  assumes "p < usub (mem_size_aligned h) k" "mem_used h (heap_ptr h + p) \<noteq> 0" "mem_next h (heap_ptr h + p) = p"
  shows "malloc_loop k p h = None"
proof (rule ccontr)
  assume "malloc_loop k p h \<noteq> None"
  then obtain r where "malloc_loop k p h = Some r" by blast
  then have "\<not> (p < usub (mem_size_aligned h) k \<and> mem_used h (heap_ptr h + p) \<noteq> 0
      \<and> mem_next h (heap_ptr h + p) = p)"
  proof (rule malloc_loop.raw_induct [where P = "\<lambda>k p h r. \<not> (p < usub (mem_size_aligned h) k
      \<and> mem_used h (heap_ptr h + p) \<noteq> 0 \<and> mem_next h (heap_ptr h + p) = p)", rotated])
    fix loop k p h r
    assume IH: "\<And>k p h r. loop k p h = Some r \<Longrightarrow> \<not> (p < usub (mem_size_aligned h) k
        \<and> mem_used h (heap_ptr h + p) \<noteq> 0 \<and> mem_next h (heap_ptr h + p) = p)"
      and b: "(if p < usub (mem_size_aligned h) k
        then let mem = heap_ptr h + p
          in if mem_used h mem = 0 \<and> k \<le> usub (mem_next h mem) (usz (p + 12)) then malloc_take k p h
             else loop k (mem_next h mem) h
        else Some (0, heap_sem_release h)) = Some r"
    show "\<not> (p < usub (mem_size_aligned h) k
        \<and> mem_used h (heap_ptr h + p) \<noteq> 0 \<and> mem_next h (heap_ptr h + p) = p)"
      using b IH [of k p h r] by (auto simp: Let_def)
  qed
  with assms show False by blast
qed

lemma tiny_heap_never_returns:
  "rt_malloc 1 (rt_system_heap_init 0x20001000 0x2000101C boot_heap) = None"
proof -
  let ?h = "rt_system_heap_init 0x20001000 0x2000101C boot_heap"
  let ?g = "?h\<lparr>heap_sem := 0\<rparr>"
  have al: "RT_ALIGN 0x20001000 = 0x20001000" "RT_ALIGN_DOWN 0x2000101C = 0x2000101C" "RT_ALIGN 1 = 4"
    by (simp_all add: RT_ALIGN_def RT_ALIGN_DOWN_def usz_def)
  have h: "heap_ptr ?h = 0x20001000" "mem_size_aligned ?h = 4" "lfree ?h = 0x20001000" "heap_sem ?h = 1"
    "heap_end ?h = 0x20001010" "mem_next ?h 0x20001000 = 16" "mem_used ?h 0x20001010 = 1" "mem_next ?h 0x20001010 = 16"
    "mem_used ?h 0x20001000 = 0"
    by (simp_all add: rt_system_heap_init_def al Let_def apart_def)
  have lim: "usub 4 12 = 4294967288" "usub 16 12 = 4"
    by (simp_all add: usub_def)
  have "malloc_loop 12 16 ?g = None"
    by (rule malloc_loop_stuck) (simp_all add: h lim)
  moreover have "malloc_loop 12 0 ?g = malloc_loop 12 16 ?g"
    by (subst malloc_loop.simps) (simp add: h lim Let_def)
  ultimately show ?thesis
    using al(3) by (simp add: rt_malloc_def h Let_def heap_sem_take_def)
qed

end
