(* ===== verification/Hvac_Crc.thy ===== *)
theory Hvac_Crc
  imports Hvac_Prelude
begin

text \<open>
  The two checksums of the program: \<^verbatim>\<open>usModbusRTU_CRC\<close>
  (\<^verbatim>\<open>applications/Gpio/Gpio.c\<close>), computed bit by bit over a frame, and the
  table-driven CRC-32 of \<^verbatim>\<open>applications/crc_32.c\<close>, which condenses the chip's
  unique id into the module id. A buffer and a length are modelled by the list of the bytes
  the loop reads. The lemmas give the algebra of one byte step (linear and injective in the
  register), from which the frame-check residue, the detection of every corrupted byte and
  the equality of the table-driven routine with the polynomial division follow.
\<close>

section \<open>CRC-16 of a Modbus frame\<close>

definition crc16_bit :: "u16 \<Rightarrow> u16" where
  "crc16_bit c = (if c AND 0x0001 \<noteq> 0 then drop_bit 1 c XOR 0xA001 else drop_bit 1 c)"

text \<open>The inner loop, from \<^verbatim>\<open>ucIndex\<close> up to 8.\<close>

function crc16_inner :: "nat \<Rightarrow> u16 \<Rightarrow> u16" where
  "crc16_inner ucIndex c =
     (if ucIndex < 8 then crc16_inner (ucIndex + 1) (crc16_bit c) else c)"
  by pat_completeness auto
termination
  by (relation "measure (\<lambda>(i, c). 8 - i)") auto

declare crc16_inner.simps [simp del]

definition crc16_byte :: "u16 \<Rightarrow> u8 \<Rightarrow> u16" where
  "crc16_byte usCRC b = crc16_inner 0 (usCRC XOR ucast b)"

definition usModbusRTU_CRC :: "u8 list \<Rightarrow> u16" where
  "usModbusRTU_CRC bs = foldl crc16_byte 0xFFFF bs"

section \<open>CRC-32\<close>

definition crc32_table :: "u32 list" where
  "crc32_table = [
    0x00000000, 0x77073096, 0xEE0E612C, 0x990951BA, 0x076DC419, 0x706AF48F,
    0xE963A535, 0x9E6495A3, 0x0EDB8832, 0x79DCB8A4, 0xE0D5E91E, 0x97D2D988,
    0x09B64C2B, 0x7EB17CBD, 0xE7B82D07, 0x90BF1D91, 0x1DB71064, 0x6AB020F2,
    0xF3B97148, 0x84BE41DE, 0x1ADAD47D, 0x6DDDE4EB, 0xF4D4B551, 0x83D385C7,
    0x136C9856, 0x646BA8C0, 0xFD62F97A, 0x8A65C9EC, 0x14015C4F, 0x63066CD9,
    0xFA0F3D63, 0x8D080DF5, 0x3B6E20C8, 0x4C69105E, 0xD56041E4, 0xA2677172,
    0x3C03E4D1, 0x4B04D447, 0xD20D85FD, 0xA50AB56B, 0x35B5A8FA, 0x42B2986C,
    0xDBBBC9D6, 0xACBCF940, 0x32D86CE3, 0x45DF5C75, 0xDCD60DCF, 0xABD13D59,
    0x26D930AC, 0x51DE003A, 0xC8D75180, 0xBFD06116, 0x21B4F4B5, 0x56B3C423,
    0xCFBA9599, 0xB8BDA50F, 0x2802B89E, 0x5F058808, 0xC60CD9B2, 0xB10BE924,
    0x2F6F7C87, 0x58684C11, 0xC1611DAB, 0xB6662D3D, 0x76DC4190, 0x01DB7106,
    0x98D220BC, 0xEFD5102A, 0x71B18589, 0x06B6B51F, 0x9FBFE4A5, 0xE8B8D433,
    0x7807C9A2, 0x0F00F934, 0x9609A88E, 0xE10E9818, 0x7F6A0DBB, 0x086D3D2D,
    0x91646C97, 0xE6635C01, 0x6B6B51F4, 0x1C6C6162, 0x856530D8, 0xF262004E,
    0x6C0695ED, 0x1B01A57B, 0x8208F4C1, 0xF50FC457, 0x65B0D9C6, 0x12B7E950,
    0x8BBEB8EA, 0xFCB9887C, 0x62DD1DDF, 0x15DA2D49, 0x8CD37CF3, 0xFBD44C65,
    0x4DB26158, 0x3AB551CE, 0xA3BC0074, 0xD4BB30E2, 0x4ADFA541, 0x3DD895D7,
    0xA4D1C46D, 0xD3D6F4FB, 0x4369E96A, 0x346ED9FC, 0xAD678846, 0xDA60B8D0,
    0x44042D73, 0x33031DE5, 0xAA0A4C5F, 0xDD0D7CC9, 0x5005713C, 0x270241AA,
    0xBE0B1010, 0xC90C2086, 0x5768B525, 0x206F85B3, 0xB966D409, 0xCE61E49F,
    0x5EDEF90E, 0x29D9C998, 0xB0D09822, 0xC7D7A8B4, 0x59B33D17, 0x2EB40D81,
    0xB7BD5C3B, 0xC0BA6CAD, 0xEDB88320, 0x9ABFB3B6, 0x03B6E20C, 0x74B1D29A,
    0xEAD54739, 0x9DD277AF, 0x04DB2615, 0x73DC1683, 0xE3630B12, 0x94643B84,
    0x0D6D6A3E, 0x7A6A5AA8, 0xE40ECF0B, 0x9309FF9D, 0x0A00AE27, 0x7D079EB1,
    0xF00F9344, 0x8708A3D2, 0x1E01F268, 0x6906C2FE, 0xF762575D, 0x806567CB,
    0x196C3671, 0x6E6B06E7, 0xFED41B76, 0x89D32BE0, 0x10DA7A5A, 0x67DD4ACC,
    0xF9B9DF6F, 0x8EBEEFF9, 0x17B7BE43, 0x60B08ED5, 0xD6D6A3E8, 0xA1D1937E,
    0x38D8C2C4, 0x4FDFF252, 0xD1BB67F1, 0xA6BC5767, 0x3FB506DD, 0x48B2364B,
    0xD80D2BDA, 0xAF0A1B4C, 0x36034AF6, 0x41047A60, 0xDF60EFC3, 0xA867DF55,
    0x316E8EEF, 0x4669BE79, 0xCB61B38C, 0xBC66831A, 0x256FD2A0, 0x5268E236,
    0xCC0C7795, 0xBB0B4703, 0x220216B9, 0x5505262F, 0xC5BA3BBE, 0xB2BD0B28,
    0x2BB45A92, 0x5CB36A04, 0xC2D7FFA7, 0xB5D0CF31, 0x2CD99E8B, 0x5BDEAE1D,
    0x9B64C2B0, 0xEC63F226, 0x756AA39C, 0x026D930A, 0x9C0906A9, 0xEB0E363F,
    0x72076785, 0x05005713, 0x95BF4A82, 0xE2B87A14, 0x7BB12BAE, 0x0CB61B38,
    0x92D28E9B, 0xE5D5BE0D, 0x7CDCEFB7, 0x0BDBDF21, 0x86D3D2D4, 0xF1D4E242,
    0x68DDB3F8, 0x1FDA836E, 0x81BE16CD, 0xF6B9265B, 0x6FB077E1, 0x18B74777,
    0x88085AE6, 0xFF0F6A70, 0x66063BCA, 0x11010B5C, 0x8F659EFF, 0xF862AE69,
    0x616BFFD3, 0x166CCF45, 0xA00AE278, 0xD70DD2EE, 0x4E048354, 0x3903B3C2,
    0xA7672661, 0xD06016F7, 0x4969474D, 0x3E6E77DB, 0xAED16A4A, 0xD9D65ADC,
    0x40DF0B66, 0x37D83BF0, 0xA9BCAE53, 0xDEBB9EC5, 0x47B2CF7F, 0x30B5FFE9,
    0xBDBDF21C, 0xCABAC28A, 0x53B39330, 0x24B4A3A6, 0xBAD03605, 0xCDD70693,
    0x54DE5729, 0x23D967BF, 0xB3667A2E, 0xC4614AB8, 0x5D681B02, 0x2A6F2B94,
    0xB40BBE37, 0xC30C8EA1, 0x5A05DF1B, 0x2D02EF8D]"

abbreviation (input) CRC32_INIT_VAL :: u32 where "CRC32_INIT_VAL \<equiv> 0xFFFFFFFF"

definition crc32_byte :: "u32 \<Rightarrow> u8 \<Rightarrow> u32" where
  "crc32_byte crc32 b =
     (let idx = (ucast crc32 :: u8) XOR b
      in drop_bit 8 crc32 XOR crc32_table ! unat idx)"

definition crc32_cyc_cal :: "u32 \<Rightarrow> u8 list \<Rightarrow> u32" where
  "crc32_cyc_cal init_val pdata = foldl crc32_byte init_val pdata"

definition crc32_cal :: "u8 list \<Rightarrow> u32" where
  "crc32_cal pdata = crc32_cyc_cal CRC32_INIT_VAL pdata XOR CRC32_INIT_VAL"

text \<open>
  The specification of CRC-32: the register is divided by the reflected polynomial
  \<^verbatim>\<open>0xEDB88320\<close>, eight single-bit steps per byte.
\<close>

definition crc32_bit :: "u32 \<Rightarrow> u32" where
  "crc32_bit c = (if bit c 0 then drop_bit 1 c XOR 0xEDB88320 else drop_bit 1 c)"

definition crc32_ref_byte :: "u32 \<Rightarrow> u8 \<Rightarrow> u32" where
  "crc32_ref_byte c b = (crc32_bit ^^ 8) (c XOR ucast b)"

definition crc32_ref :: "u8 list \<Rightarrow> u32" where
  "crc32_ref bs = foldl crc32_ref_byte 0xFFFFFFFF bs XOR 0xFFFFFFFF"

section \<open>The algebra of a division step\<close>

text \<open>
  Both registers are instances of one scheme: shift right by one and add the polynomial
  when a one falls out. The laws below need only that the polynomial's top bit is set.
\<close>

locale reflected_crc =
  fixes poly :: "'a::len word" and step :: "'a word \<Rightarrow> 'a word"
  assumes poly_top: "bit poly (LENGTH('a) - 1)"
    and step_eq: "step c = (if bit c 0 then drop_bit 1 c XOR poly else drop_bit 1 c)"
begin

lemma step_linear: "step (a XOR b) = step a XOR step b"
  by (simp add: step_eq bit_xor_iff drop_bit_xor ac_simps)

lemma steps_linear: "(step ^^ n) (a XOR b) = (step ^^ n) a XOR (step ^^ n) b"
  by (induction n) (simp_all add: step_linear)

lemma step_top_bit: "bit (step c) (LENGTH('a) - 1) \<longleftrightarrow> bit c 0"
  using poly_top by (auto simp: step_eq bit_simps dest: bit_imp_le_length)

lemma step_zero_iff: "step c = 0 \<longleftrightarrow> c = 0"
proof
  assume z: "step c = 0"
  then have c0: "\<not> bit c 0"
    using step_top_bit [of c] by simp
  with z have d: "drop_bit 1 c = 0"
    by (simp add: step_eq)
  show "c = 0"
  proof (rule bit_word_eqI)
    fix n
    have "\<not> bit c n"
    proof (cases n)
      case 0
      with c0 show ?thesis by simp
    next
      case (Suc m)
      have "\<not> bit (drop_bit 1 c) m" by (simp only: d) simp
      with Suc show ?thesis by (simp add: bit_simps)
    qed
    then show "bit c n = bit (0 :: 'a word) n" by simp
  qed
qed (simp add: step_eq)

lemma step_inj: "step a = step b \<longleftrightarrow> a = b"
proof -
  have "step a = step b \<longleftrightarrow> step (a XOR b) = 0"
    by (simp add: step_linear)
  also have "\<dots> \<longleftrightarrow> a = b"
    by (simp add: step_zero_iff)
  finally show ?thesis .
qed

lemma steps_inj: "(step ^^ n) a = (step ^^ n) b \<longleftrightarrow> a = b"
  by (induction n) (simp_all add: step_inj)

text \<open>While only zeros fall out, the steps are plain shifts.\<close>

lemma steps_shift:
  assumes "\<forall>i < n. \<not> bit c i"
  shows "(step ^^ n) c = drop_bit n c"
  using assms
proof (induction n)
  case (Suc n)
  then have "(step ^^ n) c = drop_bit n c" by simp
  moreover have "\<not> bit (drop_bit n c) 0"
    using Suc.prems by (simp add: bit_simps)
  ultimately show ?case
    by (simp add: step_eq [of "drop_bit n c"])
qed simp

end

section \<open>The two instances\<close>

lemma crc16_bit_and1: "(c :: u16) AND 0x0001 \<noteq> 0 \<longleftrightarrow> bit c 0"
  by (simp add: and_one_eq bit_0 odd_iff_mod_2_eq_one)

interpretation r16: reflected_crc "0xA001 :: u16" crc16_bit
  by unfold_locales (simp_all add: crc16_bit_def crc16_bit_and1)

interpretation r32: reflected_crc "0xEDB88320 :: u32" crc32_bit
  by unfold_locales (simp_all add: crc32_bit_def)

lemma crc16_inner_steps:
  "i \<le> 8 \<Longrightarrow> crc16_inner i c = (crc16_bit ^^ (8 - i)) c"
proof (induction i c rule: crc16_inner.induct)
  case (1 i c)
  show ?case
  proof (cases "i < 8")
    case True
    then have "8 - i = Suc (8 - (i + 1))" by simp
    with True 1 show ?thesis
      by (subst crc16_inner.simps) (simp add: funpow_swap1)
  next
    case False
    with 1 show ?thesis by (subst crc16_inner.simps) simp
  qed
qed

lemma crc16_byte_steps: "crc16_byte c b = (crc16_bit ^^ 8) (c XOR ucast b)"
  by (simp add: crc16_byte_def crc16_inner_steps)

section \<open>Frame check\<close>

lemma crc16_byte_inj: "crc16_byte a b = crc16_byte a' b \<longleftrightarrow> a = a'"
  by (simp add: crc16_byte_steps r16.steps_inj)

lemma ucast_u8_u16_inj: "(ucast b :: u16) = ucast b' \<longleftrightarrow> b = (b' :: u8)"
proof -
  have "(ucast x :: u16) = mk16 0 x" for x :: u8
    by (simp add: mk16_def)
  then show ?thesis by simp
qed

lemma crc16_byte_inj2: "crc16_byte a b = crc16_byte a b' \<longleftrightarrow> b = b'"
  by (simp add: crc16_byte_steps r16.steps_inj ucast_u8_u16_inj)

lemma foldl_crc16_inj:
  "foldl crc16_byte a bs = foldl crc16_byte a' bs \<longleftrightarrow> a = a'"
  by (rule foldl_inj_eq) (simp add: inj_def crc16_byte_inj)

lemma mk16_xor_lo: "mk16 h l XOR ucast l = push_bit 8 (ucast h)"
  unfolding mk16_def
  by (rule bit_word_eqI) (auto simp: bit_simps dest: bit_imp_le_length)

lemma drop_push_u8: "drop_bit 8 (push_bit 8 (ucast (h :: u8) :: u16)) = ucast h"
  by (rule bit_word_eqI) (auto simp: bit_simps dest: bit_imp_le_length)

lemma crc16_byte_lo: "crc16_byte (mk16 h l) l = ucast h"
proof -
  have "\<forall>i < 8. \<not> bit (push_bit 8 (ucast h :: u16)) i"
    by (auto simp: bit_simps)
  then show ?thesis
    by (simp add: crc16_byte_steps mk16_xor_lo r16.steps_shift drop_push_u8)
qed

lemma crc16_byte_self: "crc16_byte (ucast h) h = 0"
  by (simp add: crc16_byte_steps r16.steps_shift)

lemma usModbusRTU_CRC_append:
  "usModbusRTU_CRC (xs @ ys) = foldl crc16_byte (usModbusRTU_CRC xs) ys"
  by (simp add: usModbusRTU_CRC_def)

lemma crc16_residue:
  "usModbusRTU_CRC (m @ [l, h]) = 0 \<longleftrightarrow> mk16 h l = usModbusRTU_CRC m"
proof -
  have "foldl crc16_byte (mk16 h l) [l, h] = 0"
    by (simp add: crc16_byte_lo crc16_byte_self)
  then have "usModbusRTU_CRC (m @ [l, h]) = 0 \<longleftrightarrow>
      foldl crc16_byte (usModbusRTU_CRC m) [l, h] = foldl crc16_byte (mk16 h l) [l, h]"
    by (simp add: usModbusRTU_CRC_append)
  also have "\<dots> \<longleftrightarrow> usModbusRTU_CRC m = mk16 h l"
    by (rule foldl_crc16_inj)
  finally show ?thesis by auto
qed

text \<open>The checksum changes whenever a single byte is replaced by another value.\<close>

lemma crc16_detects_byte:
  assumes "i < length m" and "v \<noteq> m ! i"
  shows "usModbusRTU_CRC (m[i := v]) \<noteq> usModbusRTU_CRC m"
proof -
  let ?c = "usModbusRTU_CRC (take i m)"
  have "usModbusRTU_CRC (m[i := v]) = foldl crc16_byte (crc16_byte ?c v) (drop (Suc i) m)"
    using assms(1) by (simp add: upd_conv_take_nth_drop usModbusRTU_CRC_append)
  moreover have "usModbusRTU_CRC m = foldl crc16_byte (crc16_byte ?c (m ! i)) (drop (Suc i) m)"
    using assms(1) by (subst list_eq_take_drop1 [OF assms(1)]) (simp add: usModbusRTU_CRC_append)
  ultimately show ?thesis
    using assms(2) by (simp add: foldl_crc16_inj crc16_byte_inj2)
qed

text \<open>The comparison both receivers make, as a condition on the whole frame.\<close>

lemma frame_check_residue:
  assumes "2 \<le> length f"
  shows "mk16 (f ! (length f - 1)) (f ! (length f - 2)) = usModbusRTU_CRC (take (length f - 2) f)
    \<longleftrightarrow> usModbusRTU_CRC f = 0"
proof -
  let ?n = "length f - 2"
  have "f = take ?n f @ [f ! ?n, f ! (length f - 1)]"
  proof -
    have "drop ?n f = [f ! ?n, f ! (length f - 1)]"
      using assms by (subst Cons_nth_drop_Suc [symmetric], simp, subst Cons_nth_drop_Suc [symmetric])
        (simp_all add: Suc_diff_Suc numeral_2_eq_2)
    then show ?thesis by (metis append_take_drop_id)
  qed
  then show ?thesis using crc16_residue [of "take ?n f" "f ! ?n" "f ! (length f - 1)"] by metis
qed

text \<open>
  The checksum of a frame. A frame whose last two bytes are the checksum of the rest, low byte
  first, has checksum 0 over its whole length, and only such a frame has; replacing any single byte
  of a frame by another value changes its checksum.
\<close>

theorem crc16_frame:
  "(usModbusRTU_CRC (m @ [l, h]) = 0 \<longleftrightarrow> mk16 h l = usModbusRTU_CRC m) \<and>
   (i < length m \<and> v \<noteq> m ! i \<longrightarrow> usModbusRTU_CRC (m[i := v]) \<noteq> usModbusRTU_CRC m)"
  using crc16_residue crc16_detects_byte by blast

theorem crc16_frame_witness:
  "usModbusRTU_CRC ([1, 6, 4, 7, 0, 250] [3 := 8]) \<noteq> usModbusRTU_CRC [1, 6, 4, 7, 0, 250]"
  using crc16_frame [of "[1, 6, 4, 7, 0, 250]" 0 0 3 8] by simp

section \<open>Table-driven CRC-32\<close>

lemma funpow_8: "(f ^^ 8) x = f (f (f (f (f (f (f (f x)))))))"
  by (simp add: eval_nat_numeral)

text \<open>
  By linearity the table over \<open>k + 1\<close> index bits is the table over \<open>k\<close> bits
  followed by its sum with the entry of the new bit.
\<close>

lemma crc32_table_doubling:
  "crc32_table = foldl (\<lambda>t e. t @ map (\<lambda>x. x XOR e) t) [0]
     (map (\<lambda>k. (crc32_bit ^^ 8) (2 ^ k)) [0..<8])"
proof -
  have basis: "map (\<lambda>k. (crc32_bit ^^ 8) (2 ^ k)) [0..<8] =
      [0x77073096, 0xEE0E612C, 0x076DC419, 0x0EDB8832, 0x1DB71064, 0x3B6E20C8,
       0x76DC4190, 0xEDB88320]"
    by (simp add: upt_conv_Cons funpow_8 crc32_bit_def bit_0)
  show ?thesis
    unfolding basis crc32_table_def by simp
qed

lemma of_nat_add_exp:
  assumes "j < 2 ^ n" and "n < 32"
  shows "(of_nat (2 ^ n + j) :: u32) = of_nat j XOR 2 ^ n"
proof -
  have nb: "\<not> bit (of_nat j :: u32) n"
    using assms by (simp add: bit_of_nat_iff bit_iff_odd [of j])
  then have "(of_nat j :: u32) + 2 ^ n = set_bit n (of_nat j)"
    by (simp add: set_bit_eq)
  also have "\<dots> = flip_bit n (of_nat j)"
    using nb by (simp add: flip_bit_eq_if)
  also have "\<dots> = of_nat j XOR 2 ^ n"
    by (simp add: flip_bit_eq_xor push_bit_eq_mult)
  finally show ?thesis by (simp add: add.commute)
qed

lemma crc32_doubling_entries:
  assumes "n \<le> 8"
  defines "D m \<equiv> foldl (\<lambda>t e. t @ map (\<lambda>x. x XOR e) t) [0 :: u32]
     (map (\<lambda>k. (crc32_bit ^^ 8) (2 ^ k)) [0..<m])"
  shows "length (D n) = 2 ^ n \<and> (\<forall>i < 2 ^ n. D n ! i = (crc32_bit ^^ 8) (of_nat i))"
  using assms(1)
proof (induction n)
  case 0
  show ?case by (simp add: D_def funpow_8 crc32_bit_def)
next
  case (Suc n)
  then have len: "length (D n) = 2 ^ n"
    and ent: "\<And>i. i < 2 ^ n \<Longrightarrow> D n ! i = (crc32_bit ^^ 8) (of_nat i)" by auto
  have D: "D (Suc n) = D n @ map (\<lambda>x. x XOR (crc32_bit ^^ 8) (2 ^ n)) (D n)"
    by (simp add: D_def)
  have "D (Suc n) ! i = (crc32_bit ^^ 8) (of_nat i)" if "i < 2 ^ Suc n" for i
  proof (cases "i < 2 ^ n")
    case True
    with len ent show ?thesis by (simp add: D nth_append)
  next
    case False
    define j where "j = i - 2 ^ n"
    have j: "i = 2 ^ n + j" "j < 2 ^ n"
      using False that by (auto simp: j_def)
    then have "D (Suc n) ! i = (crc32_bit ^^ 8) (of_nat j) XOR (crc32_bit ^^ 8) (2 ^ n)"
      using len ent by (simp add: D nth_append)
    also have "\<dots> = (crc32_bit ^^ 8) (of_nat i)"
      using of_nat_add_exp [of j n] j Suc.prems by (simp add: r32.steps_linear)
    finally show ?thesis .
  qed
  with len show ?case by (simp add: D)
qed

lemma crc32_table_nth:
  "i < 256 \<Longrightarrow> crc32_table ! i = (crc32_bit ^^ 8) (of_nat i)"
  using crc32_doubling_entries [of 8] unfolding crc32_table_doubling by simp

lemma crc32_byte_ref: "crc32_byte c b = crc32_ref_byte c b"
proof -
  define x where "x = c XOR ucast b"
  have split: "x = (x AND NOT (mask 8)) XOR take_bit 8 x"
    by (rule bit_word_eqI) (auto simp: bit_simps)
  have low: "take_bit 8 x = of_nat (unat (ucast x :: u8))"
    by (rule bit_word_eqI) (auto simp: bit_simps)
  have idx: "(ucast c :: u8) XOR b = ucast x"
    by (rule bit_word_eqI) (simp add: x_def bit_simps)
  have hi: "(crc32_bit ^^ 8) (x AND NOT (mask 8)) = drop_bit 8 c"
  proof -
    have "(crc32_bit ^^ 8) (x AND NOT (mask 8)) = drop_bit 8 (x AND NOT (mask 8))"
      by (rule r32.steps_shift) (auto simp: bit_simps)
    also have "\<dots> = drop_bit 8 c"
      by (rule bit_word_eqI) (auto simp: x_def bit_simps dest: bit_imp_le_length)
    finally show ?thesis .
  qed
  have "crc32_ref_byte c b = (crc32_bit ^^ 8) (x AND NOT (mask 8)) XOR (crc32_bit ^^ 8) (take_bit 8 x)"
    by (subst r32.steps_linear [symmetric], subst split [symmetric])
      (simp add: crc32_ref_byte_def x_def)
  also have "(crc32_bit ^^ 8) (take_bit 8 x) = crc32_table ! unat (ucast x :: u8)"
  proof -
    have "unat (ucast x :: u8) < 256"
      using unsigned_less [of "ucast x :: u8"] by simp
    then show ?thesis by (simp add: low crc32_table_nth)
  qed
  finally show ?thesis
    by (simp add: crc32_byte_def idx hi Let_def)
qed

text \<open>
  C39. The table-driven \<^verbatim>\<open>crc32_cal\<close> computes the CRC-32 of the polynomial
  \<^verbatim>\<open>0xEDB88320\<close>: it equals the bit-by-bit division for every input, so every one of the
  256 table entries is right.
\<close>

theorem crc32_cal_correct: "crc32_cal pdata = crc32_ref pdata"
proof -
  have "crc32_byte = crc32_ref_byte"
    by (intro ext) (rule crc32_byte_ref)
  then show ?thesis
    by (simp add: crc32_cal_def crc32_cyc_cal_def crc32_ref_def)
qed

end
