(* ===== verification/Hvac_Gpio.thy ===== *)
theory Hvac_Gpio
  imports Hvac_Crc
begin

text \<open>
  The board layer: \<^verbatim>\<open>applications/Gpio/Gpio.c\<close> with its header, over the pin
  operations of \<^verbatim>\<open>drivers/drv_gpio.c\<close>. The state holds the level and the mode of
  every pin, the locate flag and the three words of the chip's unique id. A component that
  needs more state extends this record, so that every operation below applies to it.
\<close>

section \<open>Pins\<close>

record gpio_t =
  pins :: "nat \<Rightarrow> u8"
  pin_modes :: "nat \<Rightarrow> u8"
  locationFlag :: u8
  unique_id :: "u32 \<times> u32 \<times> u32"

text \<open>
  A pin number is 16 times the port's position after \<^verbatim>\<open>GPIOA\<close> plus the pin.
  The STM32G070 has ports A to D before the first gap, so the driver's table has 64 entries.
\<close>

definition GET_PIN :: "nat \<Rightarrow> nat \<Rightarrow> nat" where [pin_defs]:
  "GET_PIN port pin = 16 * port + pin"

abbreviation (input) PORT_A :: nat where "PORT_A \<equiv> 0"
abbreviation (input) PORT_B :: nat where "PORT_B \<equiv> 1"
abbreviation (input) PORT_C :: nat where "PORT_C \<equiv> 2"
abbreviation (input) PORT_D :: nat where "PORT_D \<equiv> 3"

definition LCD_CS :: nat where [pin_defs]: "LCD_CS = GET_PIN PORT_C 9"
definition LCD_SCK :: nat where [pin_defs]: "LCD_SCK = GET_PIN PORT_D 1"
definition LCD_MOSI :: nat where [pin_defs]: "LCD_MOSI = GET_PIN PORT_D 4"
definition LCD_RST :: nat where [pin_defs]: "LCD_RST = GET_PIN PORT_D 0"
definition LCD_A0 :: nat where [pin_defs]: "LCD_A0 = GET_PIN PORT_D 2"
definition LCD_BK :: nat where [pin_defs]: "LCD_BK = GET_PIN PORT_D 5"
definition KEY_ENTER :: nat where [pin_defs]: "KEY_ENTER = GET_PIN PORT_D 9"
definition KEY_UP :: nat where [pin_defs]: "KEY_UP = GET_PIN PORT_C 7"
definition KEY_DOWN :: nat where [pin_defs]: "KEY_DOWN = GET_PIN PORT_C 6"
definition RELAY_W :: nat where [pin_defs]: "RELAY_W = GET_PIN PORT_B 13"
definition RELAY_Y :: nat where [pin_defs]: "RELAY_Y = GET_PIN PORT_B 14"
definition RELAY_G :: nat where [pin_defs]: "RELAY_G = GET_PIN PORT_B 15"
definition RELAY_W2 :: nat where [pin_defs]: "RELAY_W2 = GET_PIN PORT_A 8"
definition RELAY_Y2 :: nat where [pin_defs]: "RELAY_Y2 = GET_PIN PORT_A 9"
definition UART1_EN :: nat where [pin_defs]: "UART1_EN = GET_PIN PORT_B 0"
definition POWER_LED :: nat where [pin_defs]: "POWER_LED = GET_PIN PORT_B 12"

abbreviation (input) IN_RECV :: u8 where "IN_RECV \<equiv> 0"
abbreviation (input) IN_SEND :: u8 where "IN_SEND \<equiv> 1"

abbreviation (input) PIN_MODE_OUTPUT :: u8 where "PIN_MODE_OUTPUT \<equiv> 0"
abbreviation (input) PIN_MODE_INPUT :: u8 where "PIN_MODE_INPUT \<equiv> 1"

definition get_pin :: "nat \<Rightarrow> nat option" where
  "get_pin pin = (if pin < 64 then Some pin else None)"

definition rt_pin_write :: "nat \<Rightarrow> u8 \<Rightarrow> 'a gpio_t_scheme \<Rightarrow> 'a gpio_t_scheme" where
  "rt_pin_write pin val s =
     (case get_pin pin of
        None \<Rightarrow> s
      | Some i \<Rightarrow> s\<lparr>pins := (pins s)(i := (if val = 0 then 0 else 1))\<rparr>)"

definition rt_pin_read :: "'a gpio_t_scheme \<Rightarrow> nat \<Rightarrow> u8" where
  "rt_pin_read s pin = (case get_pin pin of None \<Rightarrow> 0 | Some i \<Rightarrow> pins s i)"

definition rt_pin_mode :: "nat \<Rightarrow> u8 \<Rightarrow> 'a gpio_t_scheme \<Rightarrow> 'a gpio_t_scheme" where
  "rt_pin_mode pin m s =
     (case get_pin pin of
        None \<Rightarrow> s
      | Some i \<Rightarrow> s\<lparr>pin_modes := (pin_modes s)(i := m)\<rparr>)"

section \<open>The operations of Gpio.c\<close>

definition GetLoacationFlag :: "'a gpio_t_scheme \<Rightarrow> u8" where
  "GetLoacationFlag s = locationFlag s"

definition ModuleLocation :: "'a gpio_t_scheme \<Rightarrow> 'a gpio_t_scheme" where
  "ModuleLocation s = s\<lparr>locationFlag := YES\<rparr>"

definition CloseModuleLocation :: "'a gpio_t_scheme \<Rightarrow> 'a gpio_t_scheme" where
  "CloseModuleLocation s = s\<lparr>locationFlag := NO\<rparr>"

definition GpioInit :: "'a gpio_t_scheme \<Rightarrow> 'a gpio_t_scheme" where
  "GpioInit s =
     (let s = rt_pin_mode LCD_CS PIN_MODE_OUTPUT s;
          s = rt_pin_mode LCD_SCK PIN_MODE_OUTPUT s;
          s = rt_pin_mode LCD_MOSI PIN_MODE_OUTPUT s;
          s = rt_pin_mode LCD_RST PIN_MODE_OUTPUT s;
          s = rt_pin_mode LCD_A0 PIN_MODE_OUTPUT s;
          s = rt_pin_mode LCD_BK PIN_MODE_OUTPUT s;
          s = rt_pin_mode KEY_ENTER PIN_MODE_INPUT s;
          s = rt_pin_mode KEY_UP PIN_MODE_INPUT s;
          s = rt_pin_mode KEY_DOWN PIN_MODE_INPUT s;
          s = rt_pin_mode RELAY_W PIN_MODE_OUTPUT s;
          s = rt_pin_mode RELAY_Y PIN_MODE_OUTPUT s;
          s = rt_pin_mode RELAY_G PIN_MODE_OUTPUT s;
          s = rt_pin_mode RELAY_W2 PIN_MODE_OUTPUT s;
          s = rt_pin_mode RELAY_Y2 PIN_MODE_OUTPUT s;
          s = rt_pin_mode UART1_EN PIN_MODE_OUTPUT s;
          s = rt_pin_write UART1_EN IN_RECV s;
          s = rt_pin_mode POWER_LED PIN_MODE_OUTPUT s
      in s)"

text \<open>
  \<^verbatim>\<open>TimerTask\<close> returns the counter it leaves in \<^verbatim>\<open>*time\<close> and sets
  \<^verbatim>\<open>*flag\<close>; the model returns both.
\<close>

definition TimerTask :: "u16 \<Rightarrow> u16 \<Rightarrow> u16 \<times> u8" where
  "TimerTask time touchTime =
     (if time < touchTime then (time + 1, NO) else (0, YES))"

definition le32 :: "u32 \<Rightarrow> u8 list" where
  "le32 w = [ucast w, ucast (drop_bit 8 w), ucast (drop_bit 16 w), ucast (drop_bit 24 w)]"

definition ReadUniqueId :: "'a gpio_t_scheme \<Rightarrow> u32" where
  "ReadUniqueId s =
     (case unique_id s of (id1, id2, id3) \<Rightarrow> crc32_cal (le32 id1 @ le32 id2 @ le32 id3))"

section \<open>Pin lemmas\<close>

lemma get_pin_Some [simp]: "p < 64 \<Longrightarrow> get_pin p = Some p"
  by (simp add: get_pin_def)

lemma board_pins_distinct:
  "distinct [LCD_CS, LCD_SCK, LCD_MOSI, LCD_RST, LCD_A0, LCD_BK, KEY_ENTER, KEY_UP, KEY_DOWN,
     RELAY_W, RELAY_Y, RELAY_G, RELAY_W2, RELAY_Y2, UART1_EN, POWER_LED]"
  by (simp add: pin_defs)

lemma board_pins_valid [simp]:
  "LCD_CS < 64" "LCD_SCK < 64" "LCD_MOSI < 64" "LCD_RST < 64" "LCD_A0 < 64" "LCD_BK < 64"
  "KEY_ENTER < 64" "KEY_UP < 64" "KEY_DOWN < 64" "RELAY_W < 64" "RELAY_Y < 64" "RELAY_G < 64"
  "RELAY_W2 < 64" "RELAY_Y2 < 64" "UART1_EN < 64" "POWER_LED < 64"
  by (simp_all add: pin_defs)

lemma pins_rt_pin_write [simp]:
  "p < 64 \<Longrightarrow> pins (rt_pin_write p v s) = (pins s)(p := (if v = 0 then 0 else 1))"
  by (simp add: rt_pin_write_def)

lemma rt_pin_write_frame [frame_simps]:
  "locationFlag (rt_pin_write p v s) = locationFlag s"
  "unique_id (rt_pin_write p v s) = unique_id s"
  "pin_modes (rt_pin_write p v s) = pin_modes s"
  "gpio_t.more (rt_pin_write p v s) = gpio_t.more s"
  by (simp_all add: rt_pin_write_def split: option.split)

lemma rt_pin_read_valid [simp]: "p < 64 \<Longrightarrow> rt_pin_read s p = pins s p"
  by (simp add: rt_pin_read_def)

section \<open>The tick divider\<close>

text \<open>\<open>timer_calls T n\<close>: counter and flag after \<open>n\<close> calls from a cleared counter.\<close>

fun timer_calls :: "u16 \<Rightarrow> nat \<Rightarrow> u16 \<times> u8" where
  "timer_calls T 0 = (0, NO)"
| "timer_calls T (Suc n) = TimerTask (fst (timer_calls T n)) T"

lemma timer_calls_counter: "unat (fst (timer_calls T n)) = n mod (unat T + 1)"
proof (induction n)
  case (Suc n)
  let ?t = "fst (timer_calls T n)"
  show ?case
  proof (cases "?t < T")
    case True
    then have "unat (?t + 1) = unat ?t + 1" and "unat ?t < unat T"
      by (simp_all add: unat_inc_less word_less_nat_alt)
    with Suc True show ?thesis by (simp add: TimerTask_def mod_Suc)
  next
    case False
    moreover have "unat ?t \<le> unat T"
      using Suc.IH mod_Suc_le [of n "unat T"] by simp
    ultimately have "unat ?t = unat T"
      by (simp add: word_less_nat_alt)
    with Suc False show ?thesis by (simp add: TimerTask_def mod_Suc)
  qed
qed simp

text \<open>
  \<^verbatim>\<open>TimerTask\<close> raises its flag on every call whose number is a multiple of
  \<^verbatim>\<open>touchTime + 1\<close> and on no other: a divider set to \<^verbatim>\<open>1000/20\<close> fires
  once in 51 calls of the 20 ms loop.
\<close>

theorem TimerTask_period:
  "snd (timer_calls T n) = YES \<longleftrightarrow> 0 < n \<and> n mod (unat T + 1) = 0"
proof (cases n)
  case (Suc m)
  let ?t = "fst (timer_calls T m)"
  have "?t < T \<longleftrightarrow> m mod (unat T + 1) < unat T"
    by (simp add: word_less_nat_alt timer_calls_counter)
  moreover have "Suc m mod (unat T + 1) = 0 \<longleftrightarrow> \<not> m mod (unat T + 1) < unat T"
    using le_neq_implies_less [OF mod_Suc_le [of m "unat T"]] by (auto simp: mod_Suc)
  ultimately show ?thesis
    using Suc by (simp add: TimerTask_def)
qed simp

end
