(* ===== verification/Hvac_Time.thy ===== *)
theory Hvac_Time
  imports Hvac_Gpio
begin

text \<open>
  Calendar time: the conversions of \<^verbatim>\<open>components/libc/compilers/common/time.c\<close>
  (\<^verbatim>\<open>gmtime_r\<close>, \<^verbatim>\<open>mktime\<close>, \<^verbatim>\<open>asctime_r\<close>), the RTC driver
  \<^verbatim>\<open>drivers/drv_rtc.c\<close>, \<^verbatim>\<open>set_date\<close> and \<^verbatim>\<open>set_time\<close>
  of \<^verbatim>\<open>components/drivers/rtc/rtc.c\<close>, and the time functions of
  \<^verbatim>\<open>applications/main.c\<close>. The calendar registers of the RTC are part of the state; the
  hardware advances them between operations. \<^verbatim>\<open>time_t\<close> is the 32-bit signed
  \<^verbatim>\<open>long\<close> of the target (GCC 5.4 with newlib): stamps are integers, cut to 32 bits with
  their sign wherever the source stores one, so that a calendar time from 2038-01-19 03:14:08 on is a
  negative stamp. Signed overflow is taken to wrap, as it does in the code compiled for this target.
\<close>

section \<open>Stamps\<close>

definition time_t :: "int \<Rightarrow> int" where
  "time_t x = signed_take_bit 31 x"

lemma time_t_id: "- 2147483648 \<le> x \<Longrightarrow> x < 2147483648 \<Longrightarrow> time_t x = x"
  by (simp add: time_t_def signed_take_bit_int_eq_self)

lemma time_t_range: "- 2147483648 \<le> time_t x" "time_t x < 2147483648"
  using signed_take_bit_int_greater_eq_minus_exp [of 31 x] signed_take_bit_int_less_exp [of 31 x] by (simp_all add: time_t_def)

lemma time_t_idem [simp]: "time_t (time_t x) = time_t x"
  by (simp add: time_t_id time_t_range)

lemma time_t_mod [simp]: "time_t (x mod 4294967296) = time_t x"
proof -
  have "signed_take_bit 31 (take_bit 32 x) = signed_take_bit 31 x" by (simp add: signed_take_bit_take_bit)
  then show ?thesis by (simp add: time_t_def take_bit_eq_mod)
qed

section \<open>Broken-down time\<close>

record tm =
  tm_sec :: int
  tm_min :: int
  tm_hour :: int
  tm_mday :: int
  tm_mon :: int
  tm_year :: int
  tm_wday :: int
  tm_yday :: int

definition spm :: "int list" where
  "spm = [0, 31, 31 + 28, 31 + 28 + 31, 31 + 28 + 31 + 30, 31 + 28 + 31 + 30 + 31,
     31 + 28 + 31 + 30 + 31 + 30, 31 + 28 + 31 + 30 + 31 + 30 + 31,
     31 + 28 + 31 + 30 + 31 + 30 + 31 + 31, 31 + 28 + 31 + 30 + 31 + 30 + 31 + 31 + 30,
     31 + 28 + 31 + 30 + 31 + 30 + 31 + 31 + 30 + 31,
     31 + 28 + 31 + 30 + 31 + 30 + 31 + 31 + 30 + 31 + 30,
     31 + 28 + 31 + 30 + 31 + 30 + 31 + 31 + 30 + 31 + 30 + 31]"

abbreviation (input) SPD :: int where "SPD \<equiv> 24 * 60 * 60"

definition isleap :: "int \<Rightarrow> bool" where
  "isleap year \<longleftrightarrow> year mod 4 = 0 \<and> (year mod 100 \<noteq> 0 \<or> year mod 400 = 0)"

text \<open>The loop of \<^verbatim>\<open>gmtime_r\<close> that takes whole years off the day count.\<close>

function gmtime_years :: "int \<Rightarrow> int \<Rightarrow> int \<times> int" where
  "gmtime_years i work =
     (let k = (if isleap i then 366 else 365)
      in if work \<ge> k then gmtime_years (i + 1) (work - k) else (i, work))"
  by pat_completeness auto
termination
  by (relation "measure (\<lambda>(i, work). nat work)") (auto split: if_splits)

declare gmtime_years.simps [simp del]

text \<open>\<^verbatim>\<open>for (i = 11; i && (__spm[i] > work); --i)\<close>\<close>

fun gmtime_month :: "nat \<Rightarrow> int \<Rightarrow> nat" where
  "gmtime_month 0 work = 0"
| "gmtime_month (Suc i) work = (if spm ! Suc i > work then gmtime_month i work else Suc i)"

definition gmtime_r :: "int \<Rightarrow> tm" where
  "gmtime_r timep =
     (let timep = time_t timep;
          work = timep smod SPD;
          sec = work smod 60;
          work = work sdiv 60;
          mn = work smod 60;
          hour = work sdiv 60;
          work = timep sdiv SPD;
          wday = (4 + work) smod 7;
          (i, work) = gmtime_years 1970 work;
          year = i - 1900;
          yday = work;
          mday = 1;
          mday = (if isleap i \<and> work > 58 \<and> work = 59 then 2 else mday);
          work = (if isleap i \<and> work > 58 then work - 1 else work);
          m = gmtime_month 11 work;
          mday = mday + (work - spm ! m)
      in \<lparr>tm_sec = sec, tm_min = mn, tm_hour = hour, tm_mday = mday, tm_mon = int m,
          tm_year = year, tm_wday = wday, tm_yday = yday\<rparr>)"

definition localtime :: "int \<Rightarrow> tm" where
  "localtime t = gmtime_r t"

text \<open>
  \<^verbatim>\<open>mktime\<close>: the normalising loop and the day count. The month indexes
  \<^verbatim>\<open>__spm\<close>; a month outside 0 to 11 after the carries makes the source read outside
  that table, which is \<open>None\<close> here.
\<close>

function mktime_norm :: "int \<Rightarrow> nat \<Rightarrow> int \<Rightarrow> (int \<times> nat \<times> int) option" where
  "mktime_norm mday mon year =
     (if 11 < mon then None
      else if mday > spm ! (1 + mon) then
        (let mday = (if mon = 1 \<and> isleap (year + 1900) then mday - 1 else mday);
             mday = mday - spm ! mon;
             mon = mon + 1
         in if mon > 11 then mktime_norm mday 0 (year + 1) else mktime_norm mday mon year)
      else Some (mday, mon, year))"
  by pat_completeness auto

lemma spm_nonneg: "i \<le> 12 \<Longrightarrow> 0 \<le> spm ! i"
proof -
  have "\<forall>i \<le> 12. 0 \<le> spm ! i"
    unfolding all_le_upt by (simp add: spm_def upt_conv_Cons)
  then show "i \<le> 12 \<Longrightarrow> 0 \<le> spm ! i" by blast
qed

lemma spm_month:
  assumes "i \<le> 11"
  shows "28 \<le> spm ! Suc i - spm ! i" and "spm ! Suc i - spm ! i \<le> 31" and "31 \<le> spm ! Suc i"
proof -
  have "\<forall>i \<le> 11. 28 \<le> spm ! Suc i - spm ! i \<and> spm ! Suc i - spm ! i \<le> 31 \<and> 31 \<le> spm ! Suc i"
    unfolding all_le_upt by (simp add: spm_def upt_conv_Cons)
  with assms show "28 \<le> spm ! Suc i - spm ! i" "spm ! Suc i - spm ! i \<le> 31" "31 \<le> spm ! Suc i"
    by auto
qed

termination mktime_norm
proof (relation "measures [\<lambda>(mday, mon, year). nat mday, \<lambda>(mday, mon, year). 12 - mon]")
  show "wf (measures [\<lambda>(mday, mon, year). nat mday, \<lambda>(mday :: int, mon :: nat, year :: int). 12 - mon])"
    by simp
next
  fix mday :: int and mon :: nat and year x xa xb
  assume "\<not> 11 < mon" "spm ! (1 + mon) < mday"
    "x = (if mon = 1 \<and> isleap (year + 1900) then mday - 1 else mday)"
    "xa = x - spm ! mon" "xb = mon + 1" "11 < xb"
  moreover have "31 \<le> spm ! mon" if "0 < mon"
    using spm_month(3) [of "mon - 1"] that calculation(1) by (cases mon) auto
  ultimately show "((xa, 0, year + 1), mday, mon, year)
      \<in> measures [\<lambda>(mday, mon, year). nat mday, \<lambda>(mday, mon, year). 12 - mon]"
    using spm_nonneg [of "1 + mon"] by auto
next
  fix mday :: int and mon :: nat and year x xa xb
  assume a: "\<not> 11 < mon" "spm ! (1 + mon) < mday"
    "x = (if mon = 1 \<and> isleap (year + 1900) then mday - 1 else mday)"
    "xa = x - spm ! mon" "xb = mon + 1" "\<not> 11 < xb"
  have "31 \<le> spm ! mon" if "0 < mon"
    using spm_month(3) [of "mon - 1"] that a(1) by (cases mon) auto
  moreover have "0 \<le> spm ! mon" "0 \<le> spm ! (1 + mon)"
    using a(1) spm_nonneg [of mon] spm_nonneg [of "1 + mon"] by auto
  ultimately show "((xa, xb, year), mday, mon, year)
      \<in> measures [\<lambda>(mday, mon, year). nat mday, \<lambda>(mday, mon, year). 12 - mon]"
    using a by (cases "mon = 0") (auto simp: spm_def)
qed

declare mktime_norm.simps [simp del]

definition mktime :: "tm \<Rightarrow> int option" where
  "mktime t =
     (let years = tm_year t - 70;
          sec = tm_sec t; mn = tm_min t; hour = tm_hour t;
          mday = tm_mday t; mon = tm_mon t; year = tm_year t;
          (mn, sec) = (if sec > 60 then (mn + sec sdiv 60, sec smod 60) else (mn, sec));
          (hour, mn) = (if mn > 60 then (hour + mn sdiv 60, mn smod 60) else (hour, mn));
          (mday, hour) = (if hour > 24 then (mday + hour sdiv 24, hour smod 24) else (mday, hour));
          (year, mon) = (if mon > 12 then (year + mon sdiv 12, mon smod 12) else (year, mon))
      in if mon < 0 then None
         else case mktime_norm mday (nat mon) year of
           None \<Rightarrow> None
         | Some (mday, mon, year) \<Rightarrow>
             if year < 70 then Some (- 1)
             else
               (let day = years * 365 + (years + 1) sdiv 4;
                    day = (if years \<ge> 131 then
                             (let years = (years - 131) sdiv 100;
                                  day = day - (years div 4 * 3 + 1);
                                  years = years mod 4;
                                  years = (if years = 3 then years - 1 else years)
                              in day - years)
                           else day);
                    yday = spm ! mon + mday - 1 + (if isleap (year + 1900) \<and> mon > 1 then 1 else 0);
                    day = day + yday;
                    day = day * 24
                in Some (time_t (((day + hour) * 60 + mn) * 60 + sec))))"

section \<open>The RTC driver and its clients\<close>

text \<open>
  The calendar registers, in binary as \<^verbatim>\<open>RTC_FORMAT_BIN\<close> presents them, with
  \<open>rtc_found\<close> (the device is registered) and the outcomes of \<^verbatim>\<open>HAL_RTC_SetTime\<close>
  and \<^verbatim>\<open>HAL_RTC_SetDate\<close>.
\<close>

record rtc_regs =
  Seconds :: int
  Minutes :: int
  Hours :: int
  Date :: int
  Month :: int
  Year :: int

record rtc_t = gpio_t +
  rtc_regs :: rtc_regs
  rtc_found :: bool
  hal_settime_ok :: bool
  hal_setdate_ok :: bool

definition get_rtc_timestamp :: "'a rtc_t_scheme \<Rightarrow> int option" where
  "get_rtc_timestamp s =
     (let r = rtc_regs s
      in mktime \<lparr>tm_sec = Seconds r, tm_min = Minutes r, tm_hour = Hours r, tm_mday = Date r,
           tm_mon = Month r - 1, tm_year = Year r + 100, tm_wday = 0, tm_yday = 0\<rparr>)"

definition set_rtc_time_stamp :: "int \<Rightarrow> 'a rtc_t_scheme \<Rightarrow> int \<times> 'a rtc_t_scheme" where
  "set_rtc_time_stamp time_stamp s =
     (let p_tm = localtime time_stamp
      in if tm_year p_tm < 100 then (- RT_ERROR, s)
         else if \<not> hal_settime_ok s then (- RT_ERROR, s)
         else
           (let s = s\<lparr>rtc_regs := (rtc_regs s)\<lparr>Seconds := tm_sec p_tm, Minutes := tm_min p_tm,
                      Hours := tm_hour p_tm\<rparr>\<rparr>
            in if \<not> hal_setdate_ok s then (- RT_ERROR, s)
               else (RT_EOK, s\<lparr>rtc_regs := (rtc_regs s)\<lparr>Date := tm_mday p_tm,
                      Month := tm_mon p_tm + 1, Year := tm_year p_tm - 100\<rparr>\<rparr>)))"

text \<open>
  \<^verbatim>\<open>time(RT_NULL)\<close>: 0 when there is no RTC, else the 32 bits the driver stores through a
  pointer to unsigned, read as a \<^verbatim>\<open>time_t\<close>.
  The registers hold a month of 1 to 12, so the \<open>None\<close> of \<open>mktime\<close> does not arise; it
  is mapped to 0.
\<close>

definition time_now :: "'a rtc_t_scheme \<Rightarrow> int" where
  "time_now s =
     (if rtc_found s then (case get_rtc_timestamp s of None \<Rightarrow> 0 | Some t \<Rightarrow> time_t (t mod 2 ^ 32)) else 0)"

definition rtc_set_time :: "int \<Rightarrow> 'a rtc_t_scheme \<Rightarrow> int \<times> 'a rtc_t_scheme" where
  "rtc_set_time now s =
     (if rtc_found s then
        (let (r, s) = set_rtc_time_stamp (time_t (now mod 2 ^ 32)) s
         in (if r \<noteq> 0 then - RT_ERROR else RT_EOK, s))
      else (- RT_ERROR, s))"

definition set_date :: "int \<Rightarrow> int \<Rightarrow> int \<Rightarrow> 'a rtc_t_scheme \<Rightarrow> int \<times> 'a rtc_t_scheme" where
  "set_date year month day s =
     (let now = time_now s;
          tm_new = localtime now;
          tm_new = tm_new\<lparr>tm_year := year - 1900, tm_mon := month - 1, tm_mday := day\<rparr>
      in case mktime tm_new of
           None \<Rightarrow> (- RT_ERROR, s)
         | Some now \<Rightarrow> rtc_set_time now s)"

definition set_time :: "int \<Rightarrow> int \<Rightarrow> int \<Rightarrow> 'a rtc_t_scheme \<Rightarrow> int \<times> 'a rtc_t_scheme" where
  "set_time hour minute second s =
     (let now = time_now s;
          tm_new = localtime now;
          tm_new = tm_new\<lparr>tm_hour := hour, tm_min := minute, tm_sec := second\<rparr>
      in case mktime tm_new of
           None \<Rightarrow> (- RT_ERROR, s)
         | Some now \<Rightarrow> rtc_set_time now s)"

section \<open>Time functions of main.c\<close>

record type_sys_time =
  year :: u16
  month :: u16
  day :: u16
  hour :: u16
  minute :: u16
  second :: u16

definition getTimeStamp :: "'a rtc_t_scheme \<Rightarrow> int" where
  "getTimeStamp s = time_now s"

definition GetSysTimeByTimestamp :: "int \<Rightarrow> type_sys_time" where
  "GetSysTimeByTimestamp time =
     (let testTm = localtime time
      in \<lparr>year = word_of_int (tm_year testTm + 1900), month = word_of_int (tm_mon testTm + 1),
          day = word_of_int (tm_mday testTm), hour = word_of_int (tm_hour testTm),
          minute = word_of_int (tm_min testTm), second = word_of_int (tm_sec testTm)\<rparr>)"

definition getTimeForMat :: "'a rtc_t_scheme \<Rightarrow> type_sys_time" where
  "getTimeForMat s =
     (let time = getTimeStamp s;
          testTm = localtime time
      in \<lparr>year = word_of_int (tm_year testTm + 1900), month = word_of_int (tm_mon testTm + 1),
          day = word_of_int (tm_mday testTm), hour = word_of_int (tm_hour testTm),
          minute = word_of_int (tm_min testTm), second = word_of_int (tm_sec testTm)\<rparr>)"

definition num2str :: "int \<Rightarrow> string" where
  "num2str i = [char_of (nat (i sdiv 10) + 48), char_of (nat (i smod 10) + 48)]"

definition days_str :: string where
  "days_str = ''Sun Mon Tue Wed Thu Fri Sat ''"

definition months_str :: string where
  "months_str = ''Jan Feb Mar Apr May Jun Jul Aug Sep Oct Nov Dec ''"

text \<open>A week day or month outside the tables, as a negative stamp gives, is undefined.\<close>

definition asctime_r :: "tm \<Rightarrow> string option" where
  "asctime_r t =
     (if tm_wday t < 0 \<or> 6 < tm_wday t \<or> tm_mon t < 0 \<or> 11 < tm_mon t then None else Some
     (take 4 (drop (nat (tm_wday t) * 4) days_str) @
     take 4 (drop (nat (tm_mon t) * 4) months_str) @
     (let d = num2str (tm_mday t) in if hd d = CHR ''0'' then CHR '' '' # tl d else d) @ '' '' @
     num2str (tm_hour t) @ '':'' @ num2str (tm_min t) @ '':'' @ num2str (tm_sec t) @ '' '' @
     num2str ((tm_year t + 1900) sdiv 100) @ num2str ((tm_year t + 1900) smod 100) @ [char_of (10 :: nat)]))"

definition getRealTime :: "'a rtc_t_scheme \<Rightarrow> string option" where
  "getRealTime s = asctime_r (localtime (time_now s))"

definition getMonth :: "string \<Rightarrow> u8" where
  "getMonth mon =
     (if take 3 mon = ''Jan'' then 1
      else if take 3 mon = ''Feb'' then 2
      else if take 3 mon = ''Mar'' then 3
      else if take 3 mon = ''Apr'' then 4
      else if take 3 mon = ''May'' then 5
      else if take 3 mon = ''Jun'' then 6
      else if take 3 mon = ''Jul'' then 7
      else if take 3 mon = ''Aug'' then 8
      else if take 3 mon = ''Sep'' then 9
      else if take 3 mon = ''Oct'' then 10
      else if take 3 mon = ''Nov'' then 11
      else if take 3 mon = ''Dec'' then 12
      else 0)"

section \<open>Year and month arithmetic\<close>

text \<open>Days from 1970-01-01 to the first day of a year, valid up to 2100.\<close>

definition days_before :: "int \<Rightarrow> int" where
  "days_before y = 365 * (y - 1970) + (y - 1969) div 4"

abbreviation year_len :: "int \<Rightarrow> int" where
  "year_len y \<equiv> (if isleap y then 366 else 365)"

lemma isleap_4: "1901 \<le> y \<Longrightarrow> y < 2100 \<Longrightarrow> isleap y \<longleftrightarrow> y mod 4 = 0"
proof -
  assume y: "1901 \<le> y" "y < 2100"
  have "y = 2000" if "y mod 100 = 0"
  proof -
    from that obtain k where "y = 100 * k" by fastforce
    then show ?thesis using y by simp
  qed
  then show ?thesis unfolding isleap_def by fastforce
qed

lemma days_before_Suc:
  assumes "1970 \<le> y" "y < 2100"
  shows "days_before (y + 1) = days_before y + year_len y"
  using assms by (simp add: isleap_4 days_before_def) presburger

lemma days_before_mono: "x \<le> y \<Longrightarrow> days_before x + 365 * (y - x) \<le> days_before y"
  unfolding days_before_def by presburger

lemma days_before_le: "x \<le> y \<Longrightarrow> days_before x \<le> days_before y"
  using days_before_mono [of x y] by simp

lemma gmtime_years_correct:
  assumes "1970 \<le> i" "0 \<le> work" "work + days_before i < days_before 2100"
    and "gmtime_years i work = (y, r)"
  shows "i \<le> y \<and> y < 2100 \<and> 0 \<le> r \<and> r < year_len y \<and> r + days_before y = work + days_before i"
  using assms
proof (induction i work rule: gmtime_years.induct)
  case (1 i work)
  have "days_before 2100 \<le> days_before i" if "2100 \<le> i"
    by (rule days_before_le [OF that])
  then have i: "i < 2100"
    using "1.prems" by force
  show ?case
  proof (cases "work \<ge> year_len i")
    case True
    then have rec: "gmtime_years (i + 1) (work - year_len i) = (y, r)"
      using "1.prems"(4) by (subst (asm) gmtime_years.simps) (simp add: Let_def)
    have "work - year_len i + days_before (i + 1) = work + days_before i"
      using days_before_Suc [OF "1.prems"(1) i] by simp
    then show ?thesis
      using "1.IH" [OF refl True] True rec "1.prems" by simp
  next
    case False
    then have "y = i" "r = work"
      using "1.prems"(4) by (subst (asm) gmtime_years.simps, simp add: Let_def)+
    with False "1.prems" i show ?thesis by simp
  qed
qed

lemma year_unique:
  assumes "r + days_before y = r' + days_before y'"
    and "0 \<le> r" "r < year_len y" "0 \<le> r'" "r' < year_len y'"
    and "1970 \<le> y" "y < 2100" "1970 \<le> y'" "y' < 2100"
  shows "y = y' \<and> r = r'"
proof -
  have *: False if "r + days_before y = r' + days_before y'" "r < year_len y" "0 \<le> r'"
    "1970 \<le> y" "y < 2100" "y < y'" for y y' r r' :: int
    using days_before_mono [of "y + 1" y'] days_before_Suc [of y] that by auto
  show ?thesis
    using * [of r y r' y'] * [of r' y' r y] assms by (cases y y' rule: linorder_cases) auto
qed

lemma gmtime_month_bounds:
  assumes "0 \<le> w" "n \<le> 11" "w < spm ! Suc n"
  shows "gmtime_month n w \<le> n \<and> spm ! gmtime_month n w \<le> w \<and> w < spm ! Suc (gmtime_month n w)"
  using assms
proof (induction n)
  case 0
  then show ?case by (simp add: spm_def)
next
  case (Suc n)
  then show ?case by auto
qed

lemma spm_mono: "i \<le> j \<Longrightarrow> j \<le> 12 \<Longrightarrow> spm ! i \<le> spm ! j"
proof (induction j rule: dec_induct)
  case (step j)
  then show ?case using spm_month(1) [of j] by simp
qed simp

text \<open>The month and day of a day number, and the day number of a month and day, agree.\<close>

lemma gmtime_day_of_year:
  fixes w :: int and leap :: bool
  assumes "0 \<le> w" "w < (if leap then 366 else 365)"
  defines "w' \<equiv> (if leap \<and> w > 58 then w - 1 else w)"
  defines "m \<equiv> gmtime_month 11 w'"
  defines "md \<equiv> (if leap \<and> w > 58 \<and> w = 59 then 2 else 1) + (w' - spm ! m)"
  shows "m \<le> 11" and "1 \<le> md" and "md \<le> 31"
    and "spm ! m + md - 1 + (if leap \<and> m > 1 then 1 else 0) = w"
proof -
  have w': "0 \<le> w'" "w' < 365"
    using assms(1,2) by (auto simp: w'_def split: if_splits)
  have last: "spm ! Suc 11 = 365" by (simp add: spm_def)
  have m: "m \<le> 11" "spm ! m \<le> w'" "w' < spm ! Suc m"
    using gmtime_month_bounds [of w' 11] w' last by (auto simp: m_def)
  show "m \<le> 11" by (rule m(1))
  show "1 \<le> md" using m by (simp add: md_def)
  have ge2: "w' < 59 \<longleftrightarrow> m \<le> 1"
  proof
    show "w' < 59 \<Longrightarrow> m \<le> 1"
      using spm_mono [of 2 m] m by (cases "2 \<le> m") (auto simp: spm_def)
    show "m \<le> 1 \<Longrightarrow> w' < 59"
      using spm_mono [of "Suc m" 2] m by (simp add: spm_def)
  qed
  have m59: "leap \<Longrightarrow> w = 59 \<Longrightarrow> m = 1"
  proof -
    assume "leap" "w = 59"
    then have "w' = 58" by (simp add: w'_def)
    moreover have "m \<noteq> 0"
      using m(3) calculation by (cases m) (simp_all add: spm_def)
    ultimately show "m = 1" using ge2 by auto
  qed
  show "md \<le> 31"
    using m spm_month(2) [OF m(1)] m59 by (auto simp: md_def w'_def spm_def split: if_splits)
  show "spm ! m + md - 1 + (if leap \<and> m > 1 then 1 else 0) = w"
    using ge2 m59 by (auto simp: md_def w'_def split: if_splits)
qed

lemma mktime_norm_id: "mon \<le> 11 \<Longrightarrow> mday \<le> 31 \<Longrightarrow> mktime_norm mday mon y = Some (mday, mon, y)"
  using spm_month(3) [of mon] by (subst mktime_norm.simps) simp

text \<open>The day count of \<open>mktime\<close> for a month of 0 to 11, a day up to 31 and a year up to 2099.\<close>

lemma mktime_eq:
  assumes "0 \<le> tm_sec t" "tm_sec t < 60" "0 \<le> tm_min t" "tm_min t < 60"
    "0 \<le> tm_hour t" "tm_hour t < 24" "tm_mday t \<le> 31" "0 \<le> tm_mon t" "tm_mon t \<le> 11"
    "70 \<le> tm_year t" "tm_year t < 200"
  shows "mktime t = Some (time_t ((days_before (tm_year t + 1900) + spm ! nat (tm_mon t) + tm_mday t - 1 +
      (if isleap (tm_year t + 1900) \<and> nat (tm_mon t) > 1 then 1 else 0)) * 86400
      + tm_hour t * 3600 + tm_min t * 60 + tm_sec t))"
proof -
  have norm: "mktime_norm (tm_mday t) (nat (tm_mon t)) (tm_year t)
      = Some (tm_mday t, nat (tm_mon t), tm_year t)"
    using assms by (intro mktime_norm_id) auto
  show ?thesis
    using assms
    by (simp add: mktime_def Let_def norm days_before_def sdiv_nonneg algebra_simps)
qed

lemma time_of_day:
  assumes "0 \<le> t" "t < 2147483648"
  shows "tm_hour (localtime t) * 3600 + tm_min (localtime t) * 60 + tm_sec (localtime t) = t mod 86400"
    and "0 \<le> tm_hour (localtime t)" "tm_hour (localtime t) < 24"
    and "0 \<le> tm_min (localtime t)" "tm_min (localtime t) < 60"
    and "0 \<le> tm_sec (localtime t)" "tm_sec (localtime t) < 60"
proof -
  define u where "u = t mod 86400"
  have u: "0 \<le> u" "u < 86400" by (simp_all add: u_def)
  have f: "tm_hour (localtime t) = u div 60 div 60" "tm_min (localtime t) = u div 60 mod 60"
    "tm_sec (localtime t) = u mod 60"
    using assms u by (simp_all add: time_t_id localtime_def gmtime_r_def Let_def split_beta sdiv_nonneg smod_nonneg
        u_def [symmetric])
  show "tm_hour (localtime t) * 3600 + tm_min (localtime t) * 60 + tm_sec (localtime t) = t mod 86400"
    unfolding f u_def [symmetric] by presburger
  have "u div 60 div 60 = u div 3600"
    by (simp flip: zdiv_zmult2_eq)
  then have "0 \<le> u div 60 div 60" "u div 60 div 60 < 24"
    using u zdiv_mono1 [of u 86399 3600] by (simp_all add: pos_imp_zdiv_nonneg_iff)
  then show "0 \<le> tm_hour (localtime t)" "tm_hour (localtime t) < 24"
    "0 \<le> tm_min (localtime t)" "tm_min (localtime t) < 60"
    "0 \<le> tm_sec (localtime t)" "tm_sec (localtime t) < 60"
    unfolding f using u by simp_all
qed

lemma time_now_range: "- 2147483648 \<le> time_now s" "time_now s < 2147483648"
  using time_t_range by (simp_all add: time_now_def split: option.split)

text \<open>The date of a stamp: bounds of its fields, and the day number they stand for.\<close>

lemma localtime_date:
  assumes "0 \<le> t" "t < 2147483648"
  defines "T \<equiv> localtime t"
  shows "1 \<le> tm_mday T" "tm_mday T \<le> 31" "0 \<le> tm_mon T" "tm_mon T \<le> 11" "70 \<le> tm_year T" "tm_year T < 200"
    and "days_before (tm_year T + 1900) + spm ! nat (tm_mon T) + tm_mday T - 1 +
      (if isleap (tm_year T + 1900) \<and> nat (tm_mon T) > 1 then 1 else 0) = t div 86400"
    and "days_before (tm_year T + 1900) \<le> t div 86400"
    and "t div 86400 < days_before (tm_year T + 1900) + year_len (tm_year T + 1900)"
proof -
  define d where "d = t div 86400"
  define s where "s = t mod 86400"
  obtain y r where yr: "gmtime_years 1970 d = (y, r)" by force
  have d: "0 \<le> d" "d + days_before 1970 < days_before 2100"
    using assms by (simp_all add: d_def days_before_def)
  note Y = gmtime_years_correct [OF order_refl d yr]
  then have Y': "days_before y + r = d" "y < 2100" "1970 \<le> y" "0 \<le> r" "r < year_len y"
    by (simp_all add: days_before_def)
  note D = gmtime_day_of_year [OF Y'(4,5)]
  have s: "0 \<le> s" "s < 86400" by (simp_all add: s_def)
  let ?r = "if isleap y \<and> r > 58 then r - 1 else r"
  have T: "tm_mday T = (if isleap y \<and> r > 58 \<and> r = 59 then 2 else 1) + (?r - spm ! gmtime_month 11 ?r)"
    "tm_mon T = int (gmtime_month 11 ?r)" "tm_year T = y - 1900"
    using assms(1,2) yr d(1)
    by (simp_all add: time_t_id T_def localtime_def gmtime_r_def Let_def sdiv_nonneg d_def [symmetric])
  show "1 \<le> tm_mday T" "tm_mday T \<le> 31" "0 \<le> tm_mon T" "tm_mon T \<le> 11" "70 \<le> tm_year T" "tm_year T < 200"
    using D Y' by (simp_all add: T)
  show "days_before (tm_year T + 1900) + spm ! nat (tm_mon T) + tm_mday T - 1 +
      (if isleap (tm_year T + 1900) \<and> nat (tm_mon T) > 1 then 1 else 0) = t div 86400"
    using D(4) Y'(1) by (simp add: T d_def [symmetric])
  show "days_before (tm_year T + 1900) \<le> t div 86400"
    "t div 86400 < days_before (tm_year T + 1900) + year_len (tm_year T + 1900)"
    using Y' by (simp_all add: T d_def [symmetric])
qed

text \<open>\<open>mktime\<close> of the date of one stamp with another time of day.\<close>

lemma mktime_date_clock:
  assumes "0 \<le> t" "t < 2147483648" "0 \<le> h" "h < 24" "0 \<le> m" "m < 60" "0 \<le> s" "s < 60"
    and "tm_year X = tm_year (localtime t)" "tm_mon X = tm_mon (localtime t)" "tm_mday X = tm_mday (localtime t)"
    and "tm_hour X = h" "tm_min X = m" "tm_sec X = s"
  shows "mktime X = Some (time_t (t div 86400 * 86400 + (h * 3600 + m * 60 + s)))"
proof -
  note D = localtime_date [OF assms(1,2)]
  show ?thesis
    using assms D by (subst mktime_eq) (simp_all add: assms(9-14) algebra_simps)
qed

text \<open>A stamp before 1970: the fields leave their calendar ranges, but \<open>mktime\<close> adds them up again.\<close>

lemma gmtime_month_before: "work \<le> 0 \<Longrightarrow> n \<le> 11 \<Longrightarrow> gmtime_month n work = 0"
proof (induction n)
  case (Suc n)
  have "work < spm ! Suc n" using spm_month(3) [of n] Suc.prems by simp
  then show ?case using Suc by simp
qed simp

lemma sdiv_smod_neg:
  assumes "a \<le> 0" "0 < b"
  shows "a sdiv b * b + a smod b = (a :: int)" "a sdiv b \<le> 0" "a smod b \<le> 0" "- b < a smod b"
proof -
  define u where "u = - a"
  have u: "0 \<le> u" "a = - u" using assms by (simp_all add: u_def)
  have q: "a sdiv b = - (u div b)" "a smod b = - (u mod b)"
    using u assms(2) by (simp_all add: sdiv_nonneg smod_nonneg)
  show "a sdiv b * b + a smod b = a" by (rule smod_sdiv_mult_eq [THEN trans [rotated]]) (simp add: add.commute)
  show "a sdiv b \<le> 0" "a smod b \<le> 0" "- b < a smod b"
    using u assms(2) unfolding q by (simp_all add: pos_imp_zdiv_nonneg_iff)
qed

lemma localtime_before_fields:
  fixes t :: int
  assumes "t < 0" "- 2147483648 \<le> t"
  defines "T \<equiv> localtime t"
  shows "tm_year T = 70" "tm_mon T = 0" "tm_mday T = 1 + t sdiv 86400" "tm_mday T \<le> 1"
    "tm_sec T \<le> 0" "tm_min T \<le> 0" "tm_hour T \<le> 0"
    "tm_hour T * 3600 + tm_min T * 60 + tm_sec T = t smod 86400"
proof -
  define w d where "w = t smod 86400" and "d = t sdiv 86400"
  have tt: "time_t t = t" using assms by (simp add: time_t_id)
  have D: "d \<le> 0" "w \<le> 0" using sdiv_smod_neg [of t 86400] assms(1) by (simp_all add: w_def d_def)
  note W = sdiv_smod_neg [OF D(2), of 60]
  note V = sdiv_smod_neg [OF W(2), of 60]
  have "gmtime_years 1970 d = (1970, d)" using D by (subst gmtime_years.simps) (simp add: isleap_def)
  moreover have "gmtime_month 11 d = 0" by (rule gmtime_month_before [OF D(1)]) simp
  ultimately have T: "tm_year T = 70" "tm_mon T = 0" "tm_mday T = 1 + d" "tm_sec T = w smod 60" "tm_min T = w sdiv 60 smod 60"
    "tm_hour T = w sdiv 60 sdiv 60"
    using D(1) by (simp_all add: T_def localtime_def gmtime_r_def Let_def tt flip: w_def d_def) (simp_all add: spm_def isleap_def)
  show "tm_year T = 70" "tm_mon T = 0" "tm_mday T = 1 + t sdiv 86400" "tm_mday T \<le> 1" using T D by (simp_all add: d_def)
  show "tm_sec T \<le> 0" "tm_min T \<le> 0" "tm_hour T \<le> 0" using W(3) V(2,3) unfolding T by simp_all
  show "tm_hour T * 3600 + tm_min T * 60 + tm_sec T = t smod 86400"
    using W(1) V(1) unfolding T w_def [symmetric] by simp
qed

lemma localtime_before:
  assumes t: "t < 0" "- 2147483648 \<le> t"
    and X: "tm_year X = tm_year (localtime t)" "tm_mon X = tm_mon (localtime t)" "tm_mday X = tm_mday (localtime t)"
      "tm_hour X = tm_hour (localtime t)" "tm_min X = tm_min (localtime t)" "tm_sec X = tm_sec (localtime t)"
  shows "mktime X = Some t"
proof -
  note L = localtime_before_fields [OF t]
  have n: "mktime_norm (tm_mday X) 0 70 = Some (tm_mday X, 0, 70)" using L(4) by (intro mktime_norm_id) (simp_all add: X)
  have "mktime X = Some (time_t ((tm_mday X - 1) * 86400 + (tm_hour X * 3600 + tm_min X * 60 + tm_sec X)))"
    using L(1,2,5-7) n sdiv_nonneg [of 1 4] unfolding mktime_def Let_def by (simp add: X spm_def isleap_def algebra_simps)
  also have "(tm_mday X - 1) * 86400 + (tm_hour X * 3600 + tm_min X * 60 + tm_sec X) = t"
    using L(3,8) sdiv_smod_neg(1) [of t 86400] t(1) by (simp add: X)
  finally show ?thesis using t by (simp add: time_t_id)
qed

lemma mktime_localtime_eq:
  assumes "- 2147483648 \<le> t" "t < 2147483648"
    and "tm_year X = tm_year (localtime t)" "tm_mon X = tm_mon (localtime t)" "tm_mday X = tm_mday (localtime t)"
    and "tm_hour X = tm_hour (localtime t)" "tm_min X = tm_min (localtime t)" "tm_sec X = tm_sec (localtime t)"
  shows "mktime X = Some t"
proof (cases "0 \<le> t")
  case True
  note c = time_of_day [OF True assms(2)]
  have "mktime X = Some (time_t (t div 86400 * 86400 + t mod 86400))"
    using mktime_date_clock [OF True assms(2) c(2-7) assms(3-8)] c(1) by simp
  then show ?thesis using assms(1,2) by (simp add: time_t_id)
next
  case False
  then show ?thesis using localtime_before [of t X] assms by simp
qed



section \<open>Setting the clock\<close>

definition rtc_ok :: "'a rtc_t_scheme \<Rightarrow> bool" where
  "rtc_ok s \<longleftrightarrow> rtc_found s \<and> hal_settime_ok s \<and> hal_setdate_ok s"

lemma year_2000: "946684800 \<le> t \<Longrightarrow> t < 2147483648 \<Longrightarrow> 100 \<le> tm_year (localtime t)"
proof (rule ccontr)
  assume t: "946684800 \<le> t" "t < 2147483648" "\<not> 100 \<le> tm_year (localtime t)"
  note D = localtime_date [of t]
  have "tm_year (localtime t) + 1900 \<le> 1999" using t by simp
  then have "days_before (tm_year (localtime t) + 1900 + 1) \<le> days_before 2000"
    by (intro days_before_le) simp
  moreover have "days_before (tm_year (localtime t) + 1900 + 1) =
      days_before (tm_year (localtime t) + 1900) + year_len (tm_year (localtime t) + 1900)"
    using t D by (intro days_before_Suc) simp_all
  moreover have "days_before 2000 = 10957" by (simp add: days_before_def)
  moreover have "10957 \<le> t div 86400" using t zdiv_mono1 [of 946684800 t 86400] by simp
  ultimately show False using D(9) t by linarith
qed

lemma rtc_set_time_get:
  assumes "rtc_ok s" "946684800 \<le> t" "t < 2147483648"
  shows "\<exists>s'. rtc_set_time t s = (RT_EOK, s') \<and> time_now s' = t \<and> rtc_ok s' \<and>
    s' = s\<lparr>rtc_regs := rtc_regs s'\<rparr>"
proof -
  let ?T = "localtime t"
  define r where "r = (rtc_regs s)\<lparr>Seconds := tm_sec ?T, Minutes := tm_min ?T, Hours := tm_hour ?T,
      Date := tm_mday ?T, Month := tm_mon ?T + 1, Year := tm_year ?T - 100\<rparr>"
  define s' where "s' = s\<lparr>rtc_regs := r\<rparr>"
  have m: "t mod 2 ^ 32 = t" "time_t t = t" using assms by (simp_all add: time_t_id)
  have "rtc_set_time t s = (RT_EOK, s')"
    using assms year_2000 [OF assms(2,3)]
    by (simp add: rtc_set_time_def set_rtc_time_stamp_def rtc_ok_def m s'_def r_def Let_def)
  moreover have "get_rtc_timestamp s' = Some t"
    unfolding get_rtc_timestamp_def Let_def
    by (rule mktime_localtime_eq) (use assms in \<open>simp_all add: s'_def r_def\<close>)
  ultimately show ?thesis
    using assms m by (intro exI [of _ s']) (simp add: time_now_def rtc_ok_def s'_def)
qed

text \<open>
  C28. Setting the clock. With a working RTC, any stamp from the year 2000 to 2038-01-19 03:14:07 given
  to the driver is the time it reports afterwards; any later stamp of 32 bits is negative as a
  \<^verbatim>\<open>time_t\<close>, and the driver refuses it and leaves the clock as it is.
\<close>

theorem rtc_set_time_round_trip:
  assumes "rtc_ok s" and "946684800 \<le> t" and "t < 2 ^ 32"
  shows "if t < 2 ^ 31 then fst (rtc_set_time t s) = RT_EOK \<and> time_now (snd (rtc_set_time t s)) = t
    else rtc_set_time t s = (- RT_ERROR, s)"
proof (cases "t < 2 ^ 31")
  case True
  then show ?thesis using rtc_set_time_get [OF assms(1,2)] by auto
next
  case False
  have "time_t t = t - 4294967296"
    using assms(3) False signed_take_bit_int_eq_self [of 31 "t - 4294967296"] signed_take_bit_eq_iff_take_bit_eq [of 31 t "t - 4294967296"]
    by (simp add: time_t_def take_bit_eq_mod)
  then have "time_t t < 0" "- 2147483648 \<le> time_t t" using assms(3) False by simp_all
  then show ?thesis using False localtime_before_fields(1) [of "time_t t"] by (simp add: rtc_set_time_def set_rtc_time_stamp_def)
qed

definition rtc_demo :: rtc_t where
  "rtc_demo = \<lparr>pins = (\<lambda>_. 0), pin_modes = (\<lambda>_. 0), locationFlag = 0, unique_id = (0, 0, 0),
     rtc_regs = \<lparr>Seconds = 0, Minutes = 0, Hours = 0, Date = 1, Month = 1, Year = 23\<rparr>,
     rtc_found = True, hal_settime_ok = True, hal_setdate_ok = True\<rparr>"

theorem rtc_set_time_round_trip_witness:
  "time_now (snd (rtc_set_time 1700000000 rtc_demo)) = 1700000000 \<and> rtc_set_time 2200000000 rtc_demo = (- RT_ERROR, rtc_demo)"
  using rtc_set_time_round_trip [of rtc_demo 1700000000] rtc_set_time_round_trip [of rtc_demo 2200000000]
  by (simp add: rtc_ok_def rtc_demo_def)

text \<open>
  \<^verbatim>\<open>set_date\<close> then \<^verbatim>\<open>set_time\<close>: the date part of one stamp joined with the
  time of day the clock shows, then the time of day replaced.
\<close>

lemma set_date_of:
  assumes "rtc_ok s" "0 \<le> time_now s" "946684800 \<le> t" "t < 2147472000"
  shows "\<exists>s'. set_date (tm_year (localtime t) + 1900) (tm_mon (localtime t) + 1) (tm_mday (localtime t)) s = (RT_EOK, s') \<and>
    time_now s' = t div 86400 * 86400 + time_now s mod 86400 \<and> rtc_ok s' \<and> s' = s\<lparr>rtc_regs := rtc_regs s'\<rparr>"
proof -
  let ?N = "localtime (time_now s)"
  let ?X = "?N\<lparr>tm_year := tm_year (localtime t) + 1900 - 1900, tm_mon := tm_mon (localtime t) + 1 - 1,
      tm_mday := tm_mday (localtime t)\<rparr>"
  let ?u = "t div 86400 * 86400 + time_now s mod 86400"
  note c = time_of_day [OF assms(2) time_now_range(2)]
  have X: "mktime ?X = Some (time_t ?u)"
    using mktime_date_clock [of t "tm_hour ?N" "tm_min ?N" "tm_sec ?N" ?X] assms c by simp
  have "10957 \<le> t div 86400" "t div 86400 < 24855"
    using assms zdiv_mono1 [of 946684800 t 86400] zdiv_mono1 [of t 2147471999 86400] by simp_all
  then have u: "946684800 \<le> ?u" "?u < 2147483648"
    using pos_mod_bound [of 86400 "time_now s"] pos_mod_sign [of 86400 "time_now s"] by linarith+
  then have uu: "time_t ?u = ?u" by (intro time_t_id) simp_all
  from rtc_set_time_get [OF assms(1) u] show ?thesis
    unfolding set_date_def Let_def X option.case uu by simp
qed

lemma set_time_of:
  assumes "rtc_ok s" "946684800 \<le> time_now s" "time_now s < 2147472000" "0 \<le> t" "t < 2147483648"
  shows "\<exists>s'. set_time (tm_hour (localtime t)) (tm_min (localtime t)) (tm_sec (localtime t)) s = (RT_EOK, s') \<and>
    time_now s' = time_now s div 86400 * 86400 + t mod 86400 \<and> s' = s\<lparr>rtc_regs := rtc_regs s'\<rparr>"
proof -
  let ?N = "localtime (time_now s)"
  let ?X = "?N\<lparr>tm_hour := tm_hour (localtime t), tm_min := tm_min (localtime t), tm_sec := tm_sec (localtime t)\<rparr>"
  let ?u = "time_now s div 86400 * 86400 + t mod 86400"
  note c = time_of_day [OF assms(4,5)]
  have X: "mktime ?X = Some (time_t ?u)"
    using mktime_date_clock [of "time_now s" "tm_hour (localtime t)" "tm_min (localtime t)" "tm_sec (localtime t)" ?X]
      assms c by simp
  have "10957 \<le> time_now s div 86400" "time_now s div 86400 < 24855"
    using assms zdiv_mono1 [of 946684800 "time_now s" 86400] zdiv_mono1 [of "time_now s" 2147471999 86400] by simp_all
  then have u: "946684800 \<le> ?u" "?u < 2147483648"
    using pos_mod_bound [of 86400 t] pos_mod_sign [of 86400 t] by linarith+
  then have uu: "time_t ?u = ?u" by (intro time_t_id) simp_all
  from rtc_set_time_get [OF assms(1) u] show ?thesis
    unfolding set_time_def Let_def X option.case uu by auto
qed

section \<open>Month names\<close>

text \<open>
  \<^verbatim>\<open>getMonth\<close> reads back the month \<^verbatim>\<open>asctime\<close> prints: applied to the text
  from its fifth character on, it gives the month number.
\<close>

theorem getMonth_asctime:
  assumes "0 \<le> tm_mon t" and "tm_mon t \<le> 11" and "0 \<le> tm_wday t" and "tm_wday t \<le> 6"
  shows "\<exists>x. asctime_r t = Some x \<and> getMonth (drop 4 x) = word_of_int (tm_mon t + 1)"
proof -
  have w: "length (take 4 (drop (nat (tm_wday t) * 4) days_str)) = 4"
    using assms by (simp add: days_str_def)
  have "\<forall>m \<le> 11. getMonth (take 4 (drop (m * 4) months_str) @ xs) = of_nat (m + 1)" for xs
    unfolding all_le_upt by (simp add: upt_conv_Cons getMonth_def months_str_def)
  moreover have "word_of_int (tm_mon t + 1) = (of_nat (nat (tm_mon t) + 1) :: u8)"
    using assms by simp
  moreover have "nat (tm_mon t) \<le> 11" using assms by simp
  ultimately show ?thesis
    using w assms unfolding asctime_r_def by (simp del: take_drop)
qed

theorem getMonth_asctime_witness: "\<exists>x. asctime_r (localtime 1700000000) = Some x \<and> getMonth (drop 4 x) = 11"
proof -
  let ?t = "\<lparr>tm_sec = 20, tm_min = 13, tm_hour = 22, tm_mday = 14, tm_mon = 10, tm_year = 123, tm_wday = 2, tm_yday = 317\<rparr>"
  have "localtime 1700000000 = ?t" by code_simp
  then show ?thesis using getMonth_asctime [of ?t] by simp
qed

end
