(* ===== verification/Hvac_Ntc.thy ===== *)
theory Hvac_Ntc
  imports Hvac_Time
begin

text \<open>
  The local temperature sensor: \<^verbatim>\<open>applications/Adc/Ntc.c\<close>. The ADC is a stream of
  conversion results with a read position; \<^verbatim>\<open>rt_malloc\<close> succeeds or fails as a stream
  of outcomes says, so that every allocation branch of the program can be taken. The resistance
  window is the list of nodes behind \<^verbatim>\<open>list.node\<close>, newest first.
\<close>

section \<open>State\<close>

abbreviation (input) VALUE_NULL :: int where "VALUE_NULL \<equiv> - 9999"

record ntc_t = rtc_t +
  adc_found :: bool
  adc_samples :: "nat \<Rightarrow> u32"
  adc_pos :: nat
  adc_disable_ret :: int
  malloc_ok :: "nat \<Rightarrow> bool"
  malloc_pos :: nat
  ntc_list :: "int list"

definition rt_adc_read :: "'a ntc_t_scheme \<Rightarrow> u32 \<times> 'a ntc_t_scheme" where
  "rt_adc_read s = (adc_samples s (adc_pos s), s\<lparr>adc_pos := adc_pos s + 1\<rparr>)"

definition malloc_outcome :: "'a ntc_t_scheme \<Rightarrow> bool \<times> 'a ntc_t_scheme" where
  "malloc_outcome s = (malloc_ok s (malloc_pos s), s\<lparr>malloc_pos := malloc_pos s + 1\<rparr>)"

section \<open>The resistance table\<close>

text \<open>The 121 initialisers; the other entries of the 257-element array are zero.\<close>

definition NTC_Rtable :: "int list" where
  "NTC_Rtable =
     [203750, 192049, 181156, 171001, 161522, 152664, 144377, 136617, 129343, 122518,
      116110, 110088, 104425, 99096,  94078,  89350,  84892,  80688,  76720,  72973,
      69434,  66089,  62926,  59935,  57104,  54425,  51888,  49484,  47206,  45047,
      43000,  41057,  39214,  37465,  35804,  34226,  32727,  31303,  29949,  28661,
      27513,  26271,  25162,  24107,  23101,  22144,  21231,  20362,  19533,  18742,
      18016,  17269,  16583,  15928,  15302,  14704,  14134,  13588,  13067,  12568,
      12092,  11636,  11199,  10782,  10382,  10000,  9633,   9282,   8946,   8623,
      8314,   8018,   7734,   7461,   7199,   6948,   6707,   6476,   6254,   6040,
      5835,   5638,   5449,   5267,   5091,   4923,   4761,   4605,   4455,   4311,
      4168,   4038,   3909,   3785,   3665,   3550,   3439,   3332,   3229,   3129,
      3033,   2941,   2851,   2765,   2682,   2602,   2524,   2449,   2377,   2307,
      2240,   2175,   2112,   2051,   1992,   1935,   1880,   1827,   1776,   1726,
      1678]"

definition ntc_r :: "nat \<Rightarrow> int" where
  "ntc_r i = (if i < 121 then NTC_Rtable ! i else 0)"

section \<open>Resistance to temperature\<close>

text \<open>
  The search loop: \<^verbatim>\<open>i\<close> is a \<^verbatim>\<open>u8\<close> and wraps at 256. The table entries are
  non-negative \<^verbatim>\<open>int32_t\<close> values compared with the unsigned resistance.
\<close>

function Res2Temp_loop :: "int \<Rightarrow> nat \<Rightarrow> nat \<Rightarrow> nat" where
  "Res2Temp_loop Res j i =
     (if j < 8 then
        if ntc_r i \<ge> Res \<and> ntc_r (i + 1) < Res then i
        else if ntc_r i < Res then Res2Temp_loop Res (j + 1) ((i + 256 - 128 div 2 ^ j) mod 256)
        else Res2Temp_loop Res (j + 1) ((i + 128 div 2 ^ j) mod 256)
      else i)"
  by pat_completeness auto
termination by (relation "measure (\<lambda>(Res, j, i). 8 - j)") auto

declare Res2Temp_loop.simps [simp del]

text \<open>
  The interpolation is 32-bit unsigned arithmetic truncated to \<^verbatim>\<open>s16\<close>. A zero divisor is
  undefined behaviour of the C code: the result is \<open>None\<close>.
\<close>

definition Res2Temp :: "u32 \<Rightarrow> int option" where
  "Res2Temp Res =
     (let i = Res2Temp_loop (uint Res) 0 128;
          temp = (of_nat i :: s16) - 40;
          num = (word_of_int (ntc_r i) - Res) * 10;
          den = (word_of_int (ntc_r i) - word_of_int (ntc_r (i + 1)) :: u32)
      in if den = 0 then None
         else
           (let temp = ucast ((scast temp * 10 :: u32) + num div den) :: s16
            in Some (if uint Res > ntc_r 0 then VALUE_NULL
                     else if sint temp \<ge> 800 then VALUE_NULL
                     else sint temp)))"

section \<open>Sampling\<close>

abbreviation (input) REFER_VOLTAGE :: u32 where "REFER_VOLTAGE \<equiv> 3300"
abbreviation (input) CONVERT_BITS :: u32 where "CONVERT_BITS \<equiv> 4096"

text \<open>The resistance in series with 10 kOhm for a 12-bit conversion result.\<close>

definition ntc_res :: "u32 \<Rightarrow> int option" where
  "ntc_res v =
     (let vol = v * REFER_VOLTAGE div CONVERT_BITS
      in if REFER_VOLTAGE - vol = 0 then None
         else Some (sint ((10000 * vol) div (REFER_VOLTAGE - vol))))"

text \<open>
  \<^verbatim>\<open>GetNtcValue\<close>: \<open>None\<close> is a division by zero. The eight-bit length of the list
  is exact, the list never being longer than ten nodes. \<^verbatim>\<open>rt_slist_insert\<close> puts the new
  node first and \<^verbatim>\<open>rt_slist_tail\<close> finds the last.
\<close>

definition GetNtcValue :: "'a ntc_t_scheme \<Rightarrow> int option \<times> 'a ntc_t_scheme" where
  "GetNtcValue s =
     (if \<not> adc_found s then (Some RT_ERROR, s)
      else
        (let (v, s) = rt_adc_read s
         in case ntc_res v of
              None \<Rightarrow> (None, s)
            | Some res \<Rightarrow>
                if adc_disable_ret s = RT_EOK then
                  (let len = (of_nat (length (ntc_list s)) :: u8)
                   in if len < 10 then
                        (let (ok, s) = malloc_outcome s
                         in (Some VALUE_NULL, if ok then s\<lparr>ntc_list := res # ntc_list s\<rparr> else s))
                      else
                        (let (ok, s) = malloc_outcome s;
                             s = (if ok then s\<lparr>ntc_list := res # butlast (ntc_list s)\<rparr> else s);
                             num = sum_list (ntc_list s) sdiv 10
                         in (Res2Temp (word_of_int num), s)))
                else (Some VALUE_NULL, s)))"

section \<open>The search finds the segment of the table\<close>

lemma NTC_Rtable_sorted: "sorted_wrt (>) NTC_Rtable"
proof -
  have "successively (>) NTC_Rtable"
    by (simp add: NTC_Rtable_def cong del: successively_cong)
  then show ?thesis
    by (subst (asm) successively_conv_sorted_wrt) (auto intro: transpI)
qed

lemma NTC_Rtable_length: "length NTC_Rtable = 121"
  by (simp add: NTC_Rtable_def)

lemma ntc_r_nonneg: "0 \<le> ntc_r i"
proof -
  have "list_all (\<lambda>x. 0 \<le> x) NTC_Rtable"
    by (simp add: NTC_Rtable_def)
  then show ?thesis
    by (simp add: ntc_r_def list_all_length NTC_Rtable_length)
qed

lemma ntc_r_antimono: "i \<le> j \<Longrightarrow> ntc_r j \<le> ntc_r i"
  using sorted_wrt_nth_less [OF NTC_Rtable_sorted, of i j]
  ntc_r_nonneg [of i]
  by (cases "i = j") (auto simp: ntc_r_def NTC_Rtable_length)

lemma ntc_r_less: "i \<le> 120 \<Longrightarrow> ntc_r (Suc i) < ntc_r i"
proof (cases "i = 120")
  case False
  assume "i \<le> 120"
  then show ?thesis
    using False sorted_wrt_nth_less [OF NTC_Rtable_sorted, of i "Suc i"]
    by (simp add: ntc_r_def NTC_Rtable_length)
qed (simp add: ntc_r_def NTC_Rtable_def)

lemma ntc_r_0: "ntc_r 0 = 203750" and ntc_r_120: "ntc_r 120 = 1678" and ntc_r_121: "ntc_r 121 = 0"
  by (simp_all add: ntc_r_def NTC_Rtable_def)

definition ntc_seg :: "int \<Rightarrow> nat \<Rightarrow> bool" where
  "ntc_seg Res k \<longleftrightarrow> k \<le> 120 \<and> Res \<le> ntc_r k \<and> ntc_r (k + 1) < Res"

lemma ntc_seg_exists:
  assumes "0 < Res" "Res \<le> 203750"
  obtains k where "ntc_seg Res k"
proof -
  define k where "k = (GREATEST k. k \<le> 120 \<and> Res \<le> ntc_r k)"
  have k: "k \<le> 120 \<and> Res \<le> ntc_r k"
    unfolding k_def
    by (rule GreatestI_nat [where P = "\<lambda>k. k \<le> 120 \<and> Res \<le> ntc_r k" and k = 0 and b = 120])
      (use assms ntc_r_0 in auto)
  have "ntc_r (k + 1) < Res"
  proof (rule ccontr)
    assume "\<not> ?thesis"
    then have "k + 1 \<le> 120 \<and> Res \<le> ntc_r (k + 1)"
      using k assms ntc_r_121 by (cases "k = 120") auto
    then have "k + 1 \<le> k"
      unfolding k_def
      by (rule Greatest_le_nat [where P = "\<lambda>k. k \<le> 120 \<and> Res \<le> ntc_r k" and b = 120]) simp
    then show False by simp
  qed
  with k that show thesis by (auto simp: ntc_seg_def)
qed

lemma ntc_seg_le: "ntc_seg Res k \<Longrightarrow> Res \<le> ntc_r i \<longleftrightarrow> i \<le> k"
  using ntc_r_antimono [of i k] ntc_r_antimono [of "k + 1" i]
  by (cases "i \<le> k") (auto simp: ntc_seg_def)

text \<open>The same search on the segment number: what every comparison of the loop decides.\<close>

fun seg_search :: "nat \<Rightarrow> nat \<Rightarrow> nat \<Rightarrow> nat \<Rightarrow> nat" where
  "seg_search k 0 j i = i"
| "seg_search k (Suc n) j i =
     (if i \<le> k \<and> k < i + 1 then i
      else if k < i then seg_search k n (j + 1) ((i + 256 - 128 div 2 ^ j) mod 256)
      else seg_search k n (j + 1) ((i + 128 div 2 ^ j) mod 256))"

lemma Res2Temp_loop_seg:
  "ntc_seg Res k \<Longrightarrow> Res2Temp_loop Res j i = seg_search k (8 - j) j i"
proof (induction "8 - j" arbitrary: j i)
  case 0
  then show ?case by (simp add: Res2Temp_loop.simps)
next
  case (Suc n)
  then have n: "8 - j = Suc n" "8 - (j + 1) = n" by simp_all
  show ?case
    using Suc n ntc_seg_le [OF Suc.prems]
    by (subst Res2Temp_loop.simps) (auto simp: linorder_not_le [symmetric])
qed

lemma seg_search_correct: "k \<le> 120 \<Longrightarrow> seg_search k 8 0 128 = k"
proof -
  have "list_all (\<lambda>k. seg_search k 8 0 128 = k) [0..<121]"
    by code_simp
  then show "k \<le> 120 \<Longrightarrow> seg_search k 8 0 128 = k"
    by (auto simp: list_all_iff)
qed

lemma Res2Temp_loop_finds:
  "ntc_seg Res k \<Longrightarrow> Res2Temp_loop Res 0 128 = k"
  using Res2Temp_loop_seg [of Res k 0 128] seg_search_correct [of k] by (simp add: ntc_seg_def)

section \<open>The interpolation\<close>

lemma sint_small: "- 32768 \<le> x \<Longrightarrow> x < 32768 \<Longrightarrow> sint (word_of_int x :: s16) = x"
  by (simp add: sint_sbintrunc' signed_take_bit_int_eq_self)

lemma uint_small32: "0 \<le> x \<Longrightarrow> x < 4294967296 \<Longrightarrow> uint (word_of_int x :: u32) = x"
  by (simp add: uint_word_of_int)

lemma ntc_r_le: "ntc_r i \<le> 203750"
  using ntc_r_antimono [of 0 i] by (simp add: ntc_r_0)

text \<open>The temperature of a resistance in segment \<open>k\<close>, in tenths of a degree.\<close>

definition ntc_temp :: "int \<Rightarrow> nat \<Rightarrow> int" where
  "ntc_temp Res k = (int k - 40) * 10 + (ntc_r k - Res) * 10 div (ntc_r k - ntc_r (k + 1))"

lemma ntc_frac_bounds:
  assumes "ntc_seg Res k"
  shows "0 \<le> (ntc_r k - Res) * 10 div (ntc_r k - ntc_r (k + 1))"
    and "(ntc_r k - Res) * 10 div (ntc_r k - ntc_r (k + 1)) \<le> 9"
proof -
  let ?d = "ntc_r k - ntc_r (k + 1)"
  have d: "0 < ?d" "0 \<le> ntc_r k - Res" "ntc_r k - Res < ?d"
    using assms ntc_r_less [of k] by (auto simp: ntc_seg_def)
  then show "0 \<le> (ntc_r k - Res) * 10 div ?d"
    by (simp add: pos_imp_zdiv_nonneg_iff)
  have "(ntc_r k - Res) * 10 \<le> 10 * ?d - 1" using d by simp
  then have "(ntc_r k - Res) * 10 div ?d \<le> (10 * ?d - 1) div ?d"
    using d(1) by (rule zdiv_mono1)
  also have "\<dots> = 9"
    using d(1) by (simp add: div_pos_neg_trivial int_div_pos_eq [where q = 9 and r = "?d - 1"])
  finally show "(ntc_r k - Res) * 10 div ?d \<le> 9" .
qed

lemma Res2Temp_seg:
  assumes seg: "ntc_seg (uint Res) k"
  shows "Res2Temp Res = Some (if ntc_temp (uint Res) k \<ge> 800 then VALUE_NULL else ntc_temp (uint Res) k)"
proof -
  let ?R = "uint Res"
  let ?q = "(ntc_r k - ?R) * 10 div (ntc_r k - ntc_r (k + 1))"
  have k: "k \<le> 120" "?R \<le> ntc_r k" "ntc_r (k + 1) < ?R"
    using seg by (simp_all add: ntc_seg_def)
  have R: "0 \<le> ?R" "?R \<le> 203750" using k ntc_r_le [of k] by auto
  have q: "0 \<le> ?q" "?q \<le> 9" by (rule ntc_frac_bounds [OF seg])+
  have num: "((word_of_int (ntc_r k) - Res) * 10 :: u32) = word_of_int ((ntc_r k - ?R) * 10)"
    by simp
  have den: "(word_of_int (ntc_r k) - word_of_int (ntc_r (k + 1)) :: u32)
      = word_of_int (ntc_r k - ntc_r (k + 1))"
    by simp
  have unum: "uint (word_of_int ((ntc_r k - ?R) * 10) :: u32) = (ntc_r k - ?R) * 10"
    proof (rule uint_small32)
    show "0 \<le> (ntc_r k - ?R) * 10" using k by simp
    have "ntc_r k - ?R \<le> 203750" using R ntc_r_le [of k] by linarith
    then have "(ntc_r k - ?R) * 10 \<le> 203750 * 10" by (intro mult_right_mono) auto
    also have "\<dots> < 4294967296" by simp
    finally show "(ntc_r k - ?R) * 10 < 4294967296" .
  qed
  have uden: "uint (word_of_int (ntc_r k - ntc_r (k + 1)) :: u32) = ntc_r k - ntc_r (k + 1)"
    proof (rule uint_small32)
    show "0 \<le> ntc_r k - ntc_r (k + 1)" using k by linarith
    show "ntc_r k - ntc_r (k + 1) < 4294967296" using ntc_r_le [of k] ntc_r_nonneg [of "k + 1"] by linarith
  qed
  have den0: "word_of_int (ntc_r k - ntc_r (k + 1)) \<noteq> (0 :: u32)"
  proof
    assume "word_of_int (ntc_r k - ntc_r (k + 1)) = (0 :: u32)"
    then have "ntc_r k - ntc_r (k + 1) = 0" using uden by simp
    then show False using k by simp
  qed
  have quot: "(word_of_int ((ntc_r k - ?R) * 10) :: u32) div word_of_int (ntc_r k - ntc_r (k + 1))
      = word_of_int ?q"
    by (simp only: word_div_def unum uden)
  have t0: "(of_nat k :: s16) - 40 = word_of_int (int k - 40)"
    by simp
  have t1: "(scast (word_of_int (int k - 40) :: s16) :: u32) = word_of_int (int k - 40)"
    unfolding scast_eq by (rule arg_cong [OF sint_small]) (use k in auto)
  have t2: "(word_of_int (int k - 40) * 10 + word_of_int ?q :: u32) = word_of_int ((int k - 40) * 10 + ?q)"
    by simp
  have t3: "(ucast (word_of_int x :: u32) :: s16) = word_of_int x" for x
    by (rule bit_word_eqI) (simp add: bit_simps)
  have t4: "sint (word_of_int ((int k - 40) * 10 + ?q) :: s16) = ntc_temp ?R k"
    using q k by (subst sint_small) (auto simp: ntc_temp_def)
  have le0: "\<not> ntc_r 0 < ?R" using R by (simp add: ntc_r_0)
  show ?thesis
    unfolding Res2Temp_def Let_def Res2Temp_loop_finds [OF seg] num den quot t0 t1 t2 t3 t4
    using den0 le0 by simp
qed

lemma ntc_temp_top: "ntc_seg Res k \<Longrightarrow> ntc_temp Res k \<ge> 800 \<longleftrightarrow> k = 120"
  using ntc_frac_bounds [of Res k] by (auto simp: ntc_temp_def ntc_seg_def)

lemma ntc_temp_antimono:
  assumes s: "ntc_seg R k" and s': "ntc_seg R' k'" and le: "R \<le> R'"
  shows "ntc_temp R' k' \<le> ntc_temp R k"
proof -
  have kk: "k' \<le> k" using ntc_seg_le [OF s, of k'] s' le by (auto simp: ntc_seg_def)
  show ?thesis
  proof (cases "k' = k")
    case True
    have "(ntc_r k - R') * 10 div (ntc_r k - ntc_r (k + 1)) \<le> (ntc_r k - R) * 10 div (ntc_r k - ntc_r (k + 1))"
      using le ntc_r_less [of k] s by (intro zdiv_mono1) (auto simp: ntc_seg_def)
    then show ?thesis by (simp add: True ntc_temp_def)
  next
    case False
    then have "int k' + 1 \<le> int k" using kk by simp
    then show ?thesis
      using ntc_frac_bounds [OF s] ntc_frac_bounds [OF s'] by (simp add: ntc_temp_def)
  qed
qed

text \<open>
  C29. \<^verbatim>\<open>Res2Temp\<close> is linear interpolation on the resistance table: for every resistance
  the table covers, the search ends on the segment that contains it, no division by zero happens,
  and the result is the interpolated temperature in tenths of a degree; from 80 degrees upwards it
  is \<^verbatim>\<open>VALUE_NULL\<close>.
\<close>

theorem Res2Temp_interpolates:
  assumes "0 < uint Res" and "uint Res \<le> 203750"
  shows "\<exists>k. k \<le> 120 \<and> ntc_r (k + 1) < uint Res \<and> uint Res \<le> ntc_r k \<and>
    Res2Temp Res = Some (if k = 120 then VALUE_NULL
      else (int k - 40) * 10 + (ntc_r k - uint Res) * 10 div (ntc_r k - ntc_r (k + 1)))"
proof -
  obtain k where seg: "ntc_seg (uint Res) k"
    using ntc_seg_exists [OF assms] .
  have "Res2Temp Res = Some (if k = 120 then VALUE_NULL else ntc_temp (uint Res) k)"
    using Res2Temp_seg [OF seg] ntc_temp_top [OF seg] by simp
  with seg show ?thesis by (auto simp: ntc_seg_def ntc_temp_def)
qed

theorem Res2Temp_interpolates_witness:
  "\<exists>k. k \<le> 120 \<and> ntc_r (k + 1) < uint (10000 :: u32) \<and> uint (10000 :: u32) \<le> ntc_r k \<and>
    Res2Temp 10000 = Some (if k = 120 then VALUE_NULL
      else (int k - 40) * 10 + (ntc_r k - uint (10000 :: u32)) * 10 div (ntc_r k - ntc_r (k + 1)))"
  by (rule Res2Temp_interpolates) simp_all

text \<open>Up to the 80 degree limit \<^verbatim>\<open>Res2Temp\<close> is defined and antitone: a larger
  resistance never reads as a higher temperature, and every reading lies between -40.0 and 79.9
  degrees.
\<close>

theorem Res2Temp_antimono:
  assumes "1678 < uint R" and "uint R \<le> uint R'" and "uint R' \<le> 203750"
  shows "\<exists>t t'. Res2Temp R = Some t \<and> Res2Temp R' = Some t' \<and> - 400 \<le> t' \<and> t' \<le> t \<and> t < 800"
proof -
  obtain k where k: "ntc_seg (uint R) k" using ntc_seg_exists [of "uint R"] assms by auto
  obtain k' where k': "ntc_seg (uint R') k'" using ntc_seg_exists [of "uint R'"] assms by auto
  have "k \<noteq> 120" "k' \<noteq> 120"
    using k k' assms by (auto simp: ntc_seg_def ntc_r_120)
  then have "ntc_temp (uint R) k < 800" "ntc_temp (uint R') k' < 800"
    using ntc_temp_top [OF k] ntc_temp_top [OF k'] by auto
  moreover have "- 400 \<le> ntc_temp (uint R') k'"
    using ntc_frac_bounds(1) [OF k'] by (simp add: ntc_temp_def)
  ultimately show ?thesis
    using Res2Temp_seg [OF k] Res2Temp_seg [OF k'] ntc_temp_antimono [OF k k' assms(2)] by auto
qed

theorem Res2Temp_antimono_witness:
  "\<exists>t t'. Res2Temp 5000 = Some t \<and> Res2Temp 20000 = Some t' \<and> - 400 \<le> t' \<and> t' \<le> t \<and> t < 800"
  by (rule Res2Temp_antimono) simp_all

section \<open>Sampling: twelve-bit conversions and the window of ten\<close>

text \<open>The resistance in integers: the 32-bit arithmetic of the source does not wrap.\<close>

definition ntc_ohm :: "int \<Rightarrow> int" where
  "ntc_ohm v = 10000 * (v * 3300 div 4096) div (3300 - v * 3300 div 4096)"

lemma uint_mult_small:
  fixes a b :: u32
  assumes "uint a * uint b < 4294967296"
  shows "uint (a * b) = uint a * uint b"
  using assms by (simp add: uint_word_ariths)

lemma ntc_res_12bit:
  assumes "v < 4096"
  shows "ntc_res v = Some (ntc_ohm (uint v))" and "0 \<le> ntc_ohm (uint v)"
    and "ntc_ohm (uint v) \<le> 32990000"
proof -
  have v: "0 \<le> uint v" "uint v \<le> 4095"
    using assms by (simp_all add: word_less_def)
  define vol :: u32 where "vol = v * 3300 div 4096"
  define d where "d = uint v * 3300 div 4096"
  have "uint (v * 3300) = uint v * 3300"
    using v by (subst uint_mult_small) simp_all
  then have uvol: "uint vol = d"
    by (simp add: vol_def d_def uint_div_distrib)
  have d: "0 \<le> d" "d \<le> 3299"
    using v zdiv_mono1 [of "uint v * 3300" "4095 * 3300" 4096]
    by (simp_all add: d_def pos_imp_zdiv_nonneg_iff)
  have sub: "uint (3300 - vol) = 3300 - d"
    using d uvol by (simp add: uint_word_ariths)
  then have ne: "3300 - vol \<noteq> 0"
    using d by force
  have num: "uint (10000 * vol) = 10000 * d"
    using d uvol by (subst uint_mult_small) auto
  have le: "10000 * d div (3300 - d) \<le> 32990000"
  proof -
    have "10000 * d div (3300 - d) \<le> 10000 * d div 1"
      using d by (intro zdiv_mono2) simp_all
    also have "10000 * d div 1 \<le> 32990000" using d by simp
    finally show ?thesis .
  qed
  have ge: "0 \<le> 10000 * d div (3300 - d)"
    using d by (simp add: pos_imp_zdiv_nonneg_iff)
  have q: "uint ((10000 * vol) div (3300 - vol)) = 10000 * d div (3300 - d)"
    by (simp only: uint_div_distrib num sub)
  have "sint ((10000 * vol) div (3300 - vol)) = 10000 * d div (3300 - d)"
    using le ge q by (simp add: sint_uint signed_take_bit_int_eq_self)
  with ne show "ntc_res v = Some (ntc_ohm (uint v))"
    by (simp add: ntc_res_def Let_def vol_def ntc_ohm_def d_def)
  show "0 \<le> ntc_ohm (uint v)" "ntc_ohm (uint v) \<le> 32990000"
    using ge le by (simp_all add: ntc_ohm_def d_def)
qed

fun ntc_calls :: "nat \<Rightarrow> 'a ntc_t_scheme \<Rightarrow> 'a ntc_t_scheme" where
  "ntc_calls 0 s = s"
| "ntc_calls (Suc n) s = snd (GetNtcValue (ntc_calls n s))"

definition ntc_ready :: "'a ntc_t_scheme \<Rightarrow> bool" where
  "ntc_ready s \<longleftrightarrow> adc_found s \<and> adc_disable_ret s = RT_EOK \<and>
     (\<forall>n. malloc_ok s n) \<and> (\<forall>n. adc_samples s n < 4096)"

definition ntc_window :: "(nat \<Rightarrow> u32) \<Rightarrow> nat \<Rightarrow> nat \<Rightarrow> int list" where
  "ntc_window smp p n = take 10 (rev (map (\<lambda>i. ntc_ohm (uint (smp (p + i)))) [0..<n]))"

lemma ntc_window_Suc:
  "ntc_window smp p (Suc n) = ntc_ohm (uint (smp (p + n))) #
     (if n < 10 then ntc_window smp p n else butlast (ntc_window smp p n))"
  by (simp add: ntc_window_def butlast_take take_Cons' not_less)

lemma ntc_window_length: "length (ntc_window smp p n) = min 10 n"
  by (simp add: ntc_window_def)

lemma GetNtcValue_step:
  assumes r: "ntc_ready s" and l: "ntc_list s = ntc_window (adc_samples s) p n" "adc_pos s = p + n"
  shows "GetNtcValue s =
    (if n < 10 then Some VALUE_NULL
     else Res2Temp (word_of_int (sum_list (ntc_window (adc_samples s) p (Suc n)) sdiv 10)),
     s\<lparr>adc_pos := p + Suc n, malloc_pos := malloc_pos s + 1,
       ntc_list := ntc_window (adc_samples s) p (Suc n)\<rparr>)"
proof -
  have v: "ntc_res (adc_samples s (p + n)) = Some (ntc_ohm (uint (adc_samples s (p + n))))"
    using r by (intro ntc_res_12bit) (simp add: ntc_ready_def)
  have len: "(of_nat (min 10 n) :: u8) < 10 \<longleftrightarrow> n < 10"
    by (simp add: word_less_nat_alt unat_of_nat min_def)
  show ?thesis
    using r len
    by (cases "n < 10")
      (simp_all add: GetNtcValue_def ntc_ready_def rt_adc_read_def malloc_outcome_def l v Let_def
        ntc_window_length ntc_window_Suc)
qed

lemma ntc_calls_window:
  assumes "ntc_ready s" "ntc_list s = []"
  shows "ntc_ready (ntc_calls n s) \<and> adc_samples (ntc_calls n s) = adc_samples s \<and>
    adc_pos (ntc_calls n s) = adc_pos s + n \<and>
    ntc_list (ntc_calls n s) = ntc_window (adc_samples s) (adc_pos s) n"
proof (induction n)
  case 0
  then show ?case using assms by (simp add: ntc_window_def)
next
  case (Suc n)
  then have "ntc_list (ntc_calls n s) = ntc_window (adc_samples (ntc_calls n s)) (adc_pos s) n"
    by simp
  from GetNtcValue_step [OF conjunct1 [OF Suc.IH] this] Suc.IH assms(1) show ?case
    by (simp add: ntc_ready_def)
qed

text \<open>
  C30. The sensor reading is a moving average. With a 12-bit ADC that can be read and memory for
  the nodes, the first ten calls of \<^verbatim>\<open>GetNtcValue\<close> from an empty list report
  \<^verbatim>\<open>VALUE_NULL\<close>; from then on each call reports the temperature of the mean of the ten
  latest resistances.
\<close>

theorem GetNtcValue_moving_average:
  assumes "ntc_ready s" and "ntc_list s = []"
  shows "fst (GetNtcValue (ntc_calls n s)) =
    (if n < 10 then Some VALUE_NULL
     else Res2Temp (word_of_int (sum_list (take 10 (rev (map (\<lambda>i. ntc_ohm (uint (adc_samples s (adc_pos s + i))))
       [0..<Suc n]))) sdiv 10)))"
proof -
  note C = ntc_calls_window [OF assms, of n]
  then have "ntc_list (ntc_calls n s) = ntc_window (adc_samples (ntc_calls n s)) (adc_pos s) n"
    by simp
  from GetNtcValue_step [OF conjunct1 [OF C] this] C show ?thesis
    by (simp add: ntc_window_def)
qed

definition ntc_demo :: ntc_t where
  "ntc_demo = \<lparr>pins = (\<lambda>_. 0), pin_modes = (\<lambda>_. 0), locationFlag = 0, unique_id = (0, 0, 0),
     rtc_regs = \<lparr>Seconds = 0, Minutes = 0, Hours = 0, Date = 1, Month = 1, Year = 23\<rparr>,
     rtc_found = True, hal_settime_ok = True, hal_setdate_ok = True,
     adc_found = True, adc_samples = (\<lambda>_. 2048), adc_pos = 0, adc_disable_ret = 0,
     malloc_ok = (\<lambda>_. True), malloc_pos = 0, ntc_list = []\<rparr>"

theorem GetNtcValue_moving_average_witness:
  "fst (GetNtcValue (ntc_calls 10 ntc_demo)) = Res2Temp 10000"
proof -
  have "sum_list (take 10 (rev (map (\<lambda>i. ntc_ohm (uint (2048 :: u32))) [0..<Suc 10]))) sdiv 10 = 10000"
    by (simp add: upt_conv_Cons ntc_ohm_def sdiv_nonneg)
  then show ?thesis
    by (subst GetNtcValue_moving_average) (simp_all add: ntc_ready_def ntc_demo_def)
qed

end
