(* ===== verification/Hvac_Control.thy ===== *)
theory Hvac_Control
  imports Hvac_Ntc
begin

text \<open>
  The thermostat: \<^verbatim>\<open>applications/Control/Control.c\<close> with the constants of
  \<^verbatim>\<open>Control.h\<close> and \<^verbatim>\<open>GlobalConfig.h\<close>. The module's globals and the static
  variables of \<^verbatim>\<open>ControlProgram\<close> are fields of the state.
\<close>

section \<open>State\<close>

record type_action_t =
  actionEn :: u8
  actionType :: u8
  setPoint :: s16

record type_info_t =
  registerState :: u8
  infoType :: u8
  addr :: u8
  daySetPoint :: s16
  nightSetPoint :: s16
  infoTemp :: u16
  deadBand :: u8
  mode :: u8
  infoUnit :: u8
  tempFrom :: u8
  dayStartTime :: u16
  dayEndTime :: u16
  infoCtrl :: u16
  CoolOrHeat :: u8
  connected :: u8
  moduleMode :: u8
  fanRun :: u8
  infoCrc :: u16

record type_sensor_t =
  co2 :: int
  humi :: int
  sensorTemp :: int
  light :: int
  sensorTime :: int

text \<open>The static variables of \<^verbatim>\<open>ControlProgram\<close>.\<close>

record control_statics =
  lastTime :: int
  lastTemp :: int
  stage :: u8
  lastCoolOrHeat :: u8

record ctl_t = ntc_t +
  gInfo :: type_info_t
  sensorInfo :: type_sensor_t
  actionInfo :: type_action_t
  timeRun :: int
  lastConnectTime :: int
  ctlStatics :: control_statics

section \<open>Constants\<close>

abbreviation (input) TIMEOUT :: int where "TIMEOUT \<equiv> 30"

abbreviation (input) MODULE_SLAVE :: u8 where "MODULE_SLAVE \<equiv> 0"
abbreviation (input) MODULE_MASTER :: u8 where "MODULE_MASTER \<equiv> 1"

abbreviation (input) ACTION_TYPE_USE_MASTER :: u8 where "ACTION_TYPE_USE_MASTER \<equiv> 0"
abbreviation (input) ACTION_TYPE_BY_AUTO :: u8 where "ACTION_TYPE_BY_AUTO \<equiv> 5"

abbreviation (input) NORUN :: u8 where "NORUN \<equiv> 0"
abbreviation (input) COOLING :: u8 where "COOLING \<equiv> 1"
abbreviation (input) HEATING :: u8 where "HEATING \<equiv> 2"

abbreviation (input) FAN_AUTO :: u8 where "FAN_AUTO \<equiv> 0"

abbreviation (input) IN_DAY :: u8 where "IN_DAY \<equiv> 0"
abbreviation (input) IN_NIGHT :: u8 where "IN_NIGHT \<equiv> 1"

abbreviation (input) MODE_1_CONVENTIONAL :: u8 where "MODE_1_CONVENTIONAL \<equiv> 1"
abbreviation (input) MODE_2_0 :: u8 where "MODE_2_0 \<equiv> 2"
abbreviation (input) MODE_3_B :: u8 where "MODE_3_B \<equiv> 3"

abbreviation (input) UNIT_CENTIGRADE :: u8 where "UNIT_CENTIGRADE \<equiv> 1"
abbreviation (input) UNIT_FAHRENHEIT :: u8 where "UNIT_FAHRENHEIT \<equiv> 2"

abbreviation (input) TEMP_FROM_REMOTE :: u8 where "TEMP_FROM_REMOTE \<equiv> 1"
abbreviation (input) TEMP_FROM_LOCAL :: u8 where "TEMP_FROM_LOCAL \<equiv> 2"

abbreviation (input) HVAC_TYPE :: u8 where "HVAC_TYPE \<equiv> 0x61"
abbreviation (input) DEFAULT_ADDR :: u8 where "DEFAULT_ADDR \<equiv> 1"
abbreviation (input) DEFAULT_SET_POINT :: s16 where "DEFAULT_SET_POINT \<equiv> 250"
abbreviation (input) DEFAULT_DAY_START :: u16 where "DEFAULT_DAY_START \<equiv> 0x0800"
abbreviation (input) DEFAULT_DAY_END :: u16 where "DEFAULT_DAY_END \<equiv> 0x1200"
abbreviation (input) DEFAULT_DEADBAND :: u8 where "DEFAULT_DEADBAND \<equiv> 50"

section \<open>Settings\<close>

definition InitGlobalInformation :: "'a ctl_t_scheme \<Rightarrow> 'a ctl_t_scheme" where
  "InitGlobalInformation s = s\<lparr>gInfo :=
     \<lparr>registerState = NO, infoType = HVAC_TYPE, addr = DEFAULT_ADDR,
      daySetPoint = DEFAULT_SET_POINT, nightSetPoint = DEFAULT_SET_POINT, infoTemp = 0,
      deadBand = DEFAULT_DEADBAND, mode = MODE_1_CONVENTIONAL, infoUnit = UNIT_CENTIGRADE,
      tempFrom = TEMP_FROM_REMOTE, dayStartTime = DEFAULT_DAY_START, dayEndTime = DEFAULT_DAY_END,
      infoCtrl = 0, CoolOrHeat = NORUN, connected = NO, moduleMode = MODULE_SLAVE,
      fanRun = FAN_AUTO, infoCrc = 0\<rparr>\<rparr>"

definition GetGlobalInfo :: "'a ctl_t_scheme \<Rightarrow> type_info_t" where
  "GetGlobalInfo s = gInfo s"

text \<open>Assignment through the pointer \<^verbatim>\<open>GetGlobalInfo()\<close> returns.\<close>

abbreviation upd_info :: "(type_info_t \<Rightarrow> type_info_t) \<Rightarrow> 'a ctl_t_scheme \<Rightarrow> 'a ctl_t_scheme" where
  "upd_info f s \<equiv> s\<lparr>gInfo := f (gInfo s)\<rparr>"

definition GetRegisterState :: "'a ctl_t_scheme \<Rightarrow> u8" where
  "GetRegisterState s = registerState (GetGlobalInfo s)"

definition SetRegisterState :: "u8 \<Rightarrow> 'a ctl_t_scheme \<Rightarrow> 'a ctl_t_scheme" where
  "SetRegisterState v s = upd_info (\<lambda>i. i\<lparr>registerState := v\<rparr>) s"

definition GetDayStart :: "'a ctl_t_scheme \<Rightarrow> u16" where
  "GetDayStart s = dayStartTime (GetGlobalInfo s)"

definition SetDayStart :: "u16 \<Rightarrow> 'a ctl_t_scheme \<Rightarrow> 'a ctl_t_scheme" where
  "SetDayStart v s = upd_info (\<lambda>i. i\<lparr>dayStartTime := v\<rparr>) s"

definition GetDayEnd :: "'a ctl_t_scheme \<Rightarrow> u16" where
  "GetDayEnd s = dayEndTime (GetGlobalInfo s)"

definition SetDayEnd :: "u16 \<Rightarrow> 'a ctl_t_scheme \<Rightarrow> 'a ctl_t_scheme" where
  "SetDayEnd v s = upd_info (\<lambda>i. i\<lparr>dayEndTime := v\<rparr>) s"

definition IdentifyDaYAndNight :: "'a ctl_t_scheme \<Rightarrow> u8" where
  "IdentifyDaYAndNight s =
     (let info = GetGlobalInfo s;
          time_for = getTimeForMat s;
          now = uint (hour time_for) * 3600 + uint (minute time_for) * 60 + uint (second time_for);
          start = uint (hi8 (dayStartTime info)) * 3600 + uint (lo8 (dayStartTime info)) * 60;
          end' = uint (hi8 (dayEndTime info)) * 3600 + uint (lo8 (dayEndTime info)) * 60
      in if end' > start then
           (if now > start \<and> now \<le> end' then IN_DAY else IN_NIGHT)
         else
           (if now > start \<or> now \<le> end' then IN_NIGHT else IN_DAY))"

definition GetControlMode :: "'a ctl_t_scheme \<Rightarrow> u8" where
  "GetControlMode s = mode (GetGlobalInfo s)"

definition SetControlMode :: "u8 \<Rightarrow> 'a ctl_t_scheme \<Rightarrow> 'a ctl_t_scheme" where
  "SetControlMode v s = upd_info (\<lambda>i. i\<lparr>mode := v\<rparr>) s"

definition GetUnit :: "'a ctl_t_scheme \<Rightarrow> u8" where
  "GetUnit s = infoUnit (GetGlobalInfo s)"

definition SetUnit :: "u8 \<Rightarrow> 'a ctl_t_scheme \<Rightarrow> 'a ctl_t_scheme" where
  "SetUnit v s = upd_info (\<lambda>i. i\<lparr>infoUnit := v\<rparr>) s"

definition GetTempFrom :: "'a ctl_t_scheme \<Rightarrow> u8" where
  "GetTempFrom s = tempFrom (GetGlobalInfo s)"

definition SetTempFrom :: "u8 \<Rightarrow> 'a ctl_t_scheme \<Rightarrow> 'a ctl_t_scheme" where
  "SetTempFrom v s = upd_info (\<lambda>i. i\<lparr>tempFrom := v\<rparr>) s"

definition GetTempDeadBand :: "'a ctl_t_scheme \<Rightarrow> u8" where
  "GetTempDeadBand s = deadBand (GetGlobalInfo s)"

definition SetTempDeadBand :: "u8 \<Rightarrow> 'a ctl_t_scheme \<Rightarrow> 'a ctl_t_scheme" where
  "SetTempDeadBand v s = upd_info (\<lambda>i. i\<lparr>deadBand := v\<rparr>) s"

definition GetDaySetPoint :: "'a ctl_t_scheme \<Rightarrow> s16" where
  "GetDaySetPoint s = daySetPoint (GetGlobalInfo s)"

definition SetDaySetPoint :: "s16 \<Rightarrow> 'a ctl_t_scheme \<Rightarrow> 'a ctl_t_scheme" where
  "SetDaySetPoint v s = upd_info (\<lambda>i. i\<lparr>daySetPoint := v\<rparr>) s"

definition GetNightSetPoint :: "'a ctl_t_scheme \<Rightarrow> s16" where
  "GetNightSetPoint s = nightSetPoint (GetGlobalInfo s)"

definition SetNightSetPoint :: "s16 \<Rightarrow> 'a ctl_t_scheme \<Rightarrow> 'a ctl_t_scheme" where
  "SetNightSetPoint v s = upd_info (\<lambda>i. i\<lparr>nightSetPoint := v\<rparr>) s"

definition GetActionInfo :: "'a ctl_t_scheme \<Rightarrow> type_action_t" where
  "GetActionInfo s = actionInfo s"

definition GetSensorInfo :: "'a ctl_t_scheme \<Rightarrow> type_sensor_t" where
  "GetSensorInfo s = sensorInfo s"

definition GetSetPoint :: "'a ctl_t_scheme \<Rightarrow> s16" where
  "GetSetPoint s =
     (let action = GetActionInfo s;
          info = GetGlobalInfo s
      in if moduleMode info = MODULE_SLAVE then
           if actionType action = ACTION_TYPE_BY_AUTO then
             (if IdentifyDaYAndNight s = IN_DAY then GetDaySetPoint s else GetNightSetPoint s)
           else if actionType action = ACTION_TYPE_USE_MASTER then setPoint action
           else word_of_int VALUE_NULL
         else (if IdentifyDaYAndNight s = IN_DAY then GetDaySetPoint s else GetNightSetPoint s))"

text \<open>
  The local branch samples the sensor once for the comparison and, when that passes, a second
  time for the value. \<open>None\<close> is a division by zero inside \<^verbatim>\<open>Res2Temp\<close>.
\<close>

definition GetTempValue :: "'a ctl_t_scheme \<Rightarrow> int option \<times> 'a ctl_t_scheme" where
  "GetTempValue s =
     (if GetTempFrom s = TEMP_FROM_REMOTE then (Some (sensorTemp (GetSensorInfo s)), s)
      else if GetTempFrom s = TEMP_FROM_LOCAL then
        (case GetNtcValue s of
           (None, s) \<Rightarrow> (None, s)
         | (Some v, s) \<Rightarrow> if v \<le> - 20 then (Some VALUE_NULL, s) else GetNtcValue s)
      else (Some VALUE_NULL, s))"

definition InitSensorInfomation :: "'a ctl_t_scheme \<Rightarrow> 'a ctl_t_scheme" where
  "InitSensorInfomation s = s\<lparr>sensorInfo := \<lparr>co2 = VALUE_NULL, humi = VALUE_NULL,
     sensorTemp = VALUE_NULL, light = VALUE_NULL, sensorTime = 0\<rparr>\<rparr>"

definition InitActionInfomation :: "'a ctl_t_scheme \<Rightarrow> 'a ctl_t_scheme" where
  "InitActionInfomation s = s\<lparr>actionInfo := \<lparr>actionEn = NO, actionType = ACTION_TYPE_BY_AUTO,
     setPoint = word_of_int VALUE_NULL\<rparr>\<rparr>"

definition SetActionInfo :: "u8 \<Rightarrow> u8 \<Rightarrow> s16 \<Rightarrow> 'a ctl_t_scheme \<Rightarrow> 'a ctl_t_scheme" where
  "SetActionInfo en type point s =
     s\<lparr>actionInfo := \<lparr>actionEn = en, actionType = type, setPoint = point\<rparr>\<rparr>"

definition InitTimeRun :: "'a ctl_t_scheme \<Rightarrow> 'a ctl_t_scheme" where
  "InitTimeRun s = s\<lparr>timeRun := 0\<rparr>"

definition GetTimeRun :: "'a ctl_t_scheme \<Rightarrow> int" where
  "GetTimeRun s = timeRun s"

definition TimeRunning :: "'a ctl_t_scheme \<Rightarrow> 'a ctl_t_scheme" where
  "TimeRunning s = s\<lparr>timeRun := timeRun s + 1\<rparr>"

definition InitLastConnectTime :: "'a ctl_t_scheme \<Rightarrow> 'a ctl_t_scheme" where
  "InitLastConnectTime s = s\<lparr>lastConnectTime := 0\<rparr>"

definition GetLastConnectTime :: "'a ctl_t_scheme \<Rightarrow> int" where
  "GetLastConnectTime s = lastConnectTime s"

definition SetLastConnectTime :: "int \<Rightarrow> 'a ctl_t_scheme \<Rightarrow> 'a ctl_t_scheme" where
  "SetLastConnectTime time s = s\<lparr>lastConnectTime := time\<rparr>"

definition MonitorConnectedState :: "'a ctl_t_scheme \<Rightarrow> 'a ctl_t_scheme" where
  "MonitorConnectedState s =
     (if GetLastConnectTime s = 0 then
        upd_info (\<lambda>i. i\<lparr>connected := NO, registerState := NO\<rparr>) s
      else if GetTimeRun s > GetLastConnectTime s + TIMEOUT then
        upd_info (\<lambda>i. i\<lparr>connected := NO, registerState := NO\<rparr>) s
      else upd_info (\<lambda>i. i\<lparr>connected := YES\<rparr>) s)"

section \<open>Relays\<close>

definition pin_writes :: "(nat \<times> u8) list \<Rightarrow> 'a gpio_t_scheme \<Rightarrow> 'a gpio_t_scheme" where
  "pin_writes ws s = fold (\<lambda>(p, v). rt_pin_write p v) ws s"

definition CtrlRelay_cool :: "u8 \<Rightarrow> u8 \<Rightarrow> 'a gpio_t_scheme \<Rightarrow> 'a gpio_t_scheme" where
  "CtrlRelay_cool md st s =
     (if st = 1 then
        if md = MODE_1_CONVENTIONAL then
          pin_writes [(RELAY_Y, YES), (RELAY_G, YES), (RELAY_W, NO), (RELAY_W2, NO), (RELAY_Y2, NO)] s
        else if md = MODE_2_0 then
          pin_writes [(RELAY_W, YES), (RELAY_Y, YES), (RELAY_G, YES), (RELAY_W2, NO), (RELAY_Y2, NO)] s
        else if md = MODE_3_B then
          pin_writes [(RELAY_Y, YES), (RELAY_G, YES), (RELAY_W, NO), (RELAY_W2, NO), (RELAY_Y2, NO)] s
        else s
      else if st = 2 then
        if md = MODE_1_CONVENTIONAL then
          pin_writes [(RELAY_Y, YES), (RELAY_G, YES), (RELAY_Y2, YES), (RELAY_W, NO), (RELAY_W2, NO)] s
        else if md = MODE_2_0 then
          pin_writes [(RELAY_W, YES), (RELAY_Y, YES), (RELAY_G, YES), (RELAY_Y2, YES), (RELAY_W2, NO)] s
        else if md = MODE_3_B then
          pin_writes [(RELAY_Y, YES), (RELAY_G, YES), (RELAY_Y2, YES), (RELAY_W, NO), (RELAY_W2, NO)] s
        else s
      else s)"

definition CtrlRelay_heat :: "u8 \<Rightarrow> u8 \<Rightarrow> 'a gpio_t_scheme \<Rightarrow> 'a gpio_t_scheme" where
  "CtrlRelay_heat md st s =
     (if st = 1 then
        if md = MODE_1_CONVENTIONAL then
          pin_writes [(RELAY_W, YES), (RELAY_G, YES), (RELAY_Y, NO), (RELAY_Y2, NO), (RELAY_W2, NO)] s
        else if md = MODE_2_0 then
          pin_writes [(RELAY_Y, YES), (RELAY_G, YES), (RELAY_W, NO), (RELAY_Y2, NO), (RELAY_W2, NO)] s
        else if md = MODE_3_B then
          pin_writes [(RELAY_W, YES), (RELAY_Y, YES), (RELAY_G, YES), (RELAY_Y2, NO), (RELAY_W2, NO)] s
        else s
      else if st = 2 then
        if md = MODE_1_CONVENTIONAL then
          pin_writes [(RELAY_W, YES), (RELAY_G, YES), (RELAY_W2, YES), (RELAY_Y, NO), (RELAY_Y2, NO)] s
        else if md = MODE_2_0 then
          pin_writes [(RELAY_Y, YES), (RELAY_G, YES), (RELAY_W2, YES), (RELAY_W, NO), (RELAY_Y2, NO)] s
        else if md = MODE_3_B then
          pin_writes [(RELAY_W, YES), (RELAY_Y, YES), (RELAY_G, YES), (RELAY_W2, YES), (RELAY_Y2, NO)] s
        else s
      else s)"

definition CtrlRelay :: "u8 \<Rightarrow> u8 \<Rightarrow> u8 \<Rightarrow> 'a ctl_t_scheme \<Rightarrow> 'a ctl_t_scheme" where
  "CtrlRelay coolOrHeat st en s =
     (let info = GetGlobalInfo s
      in if en = YES then
           if coolOrHeat = COOLING then CtrlRelay_cool (mode info) st s
           else if coolOrHeat = HEATING then CtrlRelay_heat (mode info) st s
           else s
         else
           pin_writes [(RELAY_W, NO), (RELAY_Y, NO), (RELAY_G, NO), (RELAY_W2, NO), (RELAY_Y2, NO)] s)"

section \<open>The control program\<close>

definition demand :: "int \<Rightarrow> s16 \<Rightarrow> u8 \<Rightarrow> u8" where
  "demand temperature point deadband =
     (let tempMin = (if sint point > uint deadband then sint point - uint deadband else 0);
          tempMax = sint point + uint deadband
      in if temperature > tempMax then COOLING
         else if temperature < tempMin then HEATING
         else NORUN)"

text \<open>A change of the decision restarts the first stage; the second follows after 300 seconds.\<close>

definition ControlProgram_stage :: "int \<Rightarrow> int \<Rightarrow> 'a ctl_t_scheme \<Rightarrow> 'a ctl_t_scheme" where
  "ControlProgram_stage temperature nowTime s =
     (let s = (if lastCoolOrHeat (ctlStatics s) \<noteq> CoolOrHeat (gInfo s) then
                 s\<lparr>ctlStatics := \<lparr>lastTime = GetTimeRun s, lastTemp = temperature, stage = 1,
                    lastCoolOrHeat = CoolOrHeat (gInfo s)\<rparr>\<rparr>
               else s)
      in if nowTime > lastTime (ctlStatics s) + 300 \<and>
            \<bar>temperature - lastTemp (ctlStatics s)\<bar> \<le> 10
         then s\<lparr>ctlStatics := (ctlStatics s)\<lparr>stage := 2\<rparr>\<rparr> else s)"

text \<open>\<open>None\<close>: the temperature could not be computed (division by zero in the source).\<close>

definition ControlProgram :: "'a ctl_t_scheme \<Rightarrow> 'a ctl_t_scheme option" where
  "ControlProgram s =
     (case GetTempValue s of
        (None, s) \<Rightarrow> None
      | (Some temperature, s) \<Rightarrow>
          (let action = GetActionInfo s;
               point = GetSetPoint s;
               nowTime = GetTimeRun s;
               controlMode = GetControlMode s
           in if temperature = VALUE_NULL \<or> sint point = VALUE_NULL then
                Some (CtrlRelay 0 0 NO (upd_info (\<lambda>i. i\<lparr>CoolOrHeat := NORUN\<rparr>) s))
              else if actionEn action = NO \<and> controlMode = MODULE_SLAVE then
                Some (CtrlRelay 0 0 NO (upd_info (\<lambda>i. i\<lparr>CoolOrHeat := NORUN\<rparr>) s))
              else
                (let d = demand temperature point (deadBand (GetGlobalInfo s));
                     s = upd_info (\<lambda>i. i\<lparr>CoolOrHeat := d\<rparr>) s;
                     s = (if d = NORUN then CtrlRelay 0 0 NO s else s);
                     s = ControlProgram_stage temperature nowTime s
                 in if connected (gInfo s) = NO \<and> controlMode = MODULE_SLAVE then
                      Some (CtrlRelay 0 0 NO (upd_info (\<lambda>i. i\<lparr>CoolOrHeat := NORUN\<rparr>) s))
                    else Some (CtrlRelay (CoolOrHeat (gInfo s)) (stage (ctlStatics s)) YES s))))"

section \<open>What the relays show\<close>

text \<open>The levels of W, Y, G, W2 and Y2, and the state with these levels.\<close>

definition relays :: "'a gpio_t_scheme \<Rightarrow> u8 \<times> u8 \<times> u8 \<times> u8 \<times> u8" where
  "relays s = (pins s RELAY_W, pins s RELAY_Y, pins s RELAY_G, pins s RELAY_W2, pins s RELAY_Y2)"

fun set_relays :: "u8 \<times> u8 \<times> u8 \<times> u8 \<times> u8 \<Rightarrow> 'a gpio_t_scheme \<Rightarrow> 'a gpio_t_scheme" where
  "set_relays (w, y, g, w2, y2) s =
     s\<lparr>pins := (pins s)(RELAY_W := w, RELAY_Y := y, RELAY_G := g, RELAY_W2 := w2, RELAY_Y2 := y2)\<rparr>"

text \<open>
  The wiring contract. \<open>W\<close> is the first heating stage of a conventional system and the
  reversing valve of a heat pump, energised for cooling in \<^verbatim>\<open>OB/-O\<close> and for heating in
  \<^verbatim>\<open>OB/-B\<close>. \<open>Y\<close> is the compressor, \<open>G\<close> the fan, \<open>Y2\<close> and
  \<open>W2\<close> the second stages of cooling and heating.
\<close>

datatype call = Idle | Cool | Heat

datatype wiring = Conventional | HeatPumpO | HeatPumpB

definition flag :: "bool \<Rightarrow> u8" where
  "flag b = (if b then 1 else 0)"

definition relay_spec :: "wiring \<Rightarrow> call \<Rightarrow> bool \<Rightarrow> u8 \<times> u8 \<times> u8 \<times> u8 \<times> u8" where
  "relay_spec w c high =
     (flag (if w = HeatPumpO then c = Cool else c = Heat),
      flag (c = Cool \<or> c = Heat \<and> w \<noteq> Conventional),
      flag (c \<noteq> Idle),
      flag (c = Heat \<and> high),
      flag (c = Cool \<and> high))"

definition wiring_of :: "u8 \<Rightarrow> wiring option" where
  "wiring_of m = (if m = 1 then Some Conventional else if m = 2 then Some HeatPumpO
     else if m = 3 then Some HeatPumpB else None)"

definition call_of :: "u8 \<Rightarrow> call" where
  "call_of d = (if d = COOLING then Cool else if d = HEATING then Heat else Idle)"

lemma relays_set_relays [simp]: "relays (set_relays v s) = v"
  by (cases v) (simp add: relays_def pin_defs)

lemma set_relays_frame [frame_simps]:
  "p \<notin> {RELAY_W, RELAY_Y, RELAY_G, RELAY_W2, RELAY_Y2} \<Longrightarrow> pins (set_relays v s) p = pins s p"
  by (cases v) simp

lemma set_relays_twice [simp]: "set_relays v (set_relays u s) = set_relays v s"
  by (cases v; cases u) (auto simp: pin_defs fun_eq_iff intro!: arg_cong [where f = "\<lambda>f. s\<lparr>pins := f\<rparr>"])

lemma rt_pin_write_valid: "p < 64 \<Longrightarrow> rt_pin_write p v s = s\<lparr>pins := (pins s)(p := flag (v \<noteq> 0))\<rparr>"
  by (simp add: rt_pin_write_def flag_def)

lemma pin_writes_relays:
  assumes "set (map fst ws) = {RELAY_W, RELAY_Y, RELAY_G, RELAY_W2, RELAY_Y2}"
  shows "pin_writes ws s = s\<lparr>pins := fold (\<lambda>(p, v) f. f(p := flag (v \<noteq> 0))) ws (pins s)\<rparr>"
proof -
  have "\<forall>p \<in> set (map fst ws). p < 64" using assms by auto
  then show ?thesis
    unfolding pin_writes_def
    by (induction ws arbitrary: s) (auto simp: rt_pin_write_valid)
qed

lemma CtrlRelay_off:
  "CtrlRelay d st NO s = set_relays (0, 0, 0, 0, 0) s"
  by (simp add: CtrlRelay_def pin_writes_relays flag_def insert_commute)

lemma CtrlRelay_idle:
  "call_of d = Idle \<Longrightarrow> CtrlRelay d st YES s = s"
  by (simp add: CtrlRelay_def call_of_def split: if_splits)

lemma CtrlRelay_on:
  assumes "wiring_of (mode (gInfo s)) = Some w" "call_of d \<noteq> Idle" "st = 1 \<or> st = 2"
  shows "CtrlRelay d st YES s = set_relays (relay_spec w (call_of d) (st = 2)) s"
proof -
  consider "mode (gInfo s) = 1 \<and> w = Conventional" | "mode (gInfo s) = 2 \<and> w = HeatPumpO"
    | "mode (gInfo s) = 3 \<and> w = HeatPumpB"
    using assms(1) by (auto simp: wiring_of_def split: if_splits)
  moreover have "d = 1 \<or> d = 2"
    using assms(2) by (auto simp: call_of_def split: if_splits)
  ultimately show ?thesis
    using assms(3)
    by (elim disjE; cases)
      (auto simp: CtrlRelay_def CtrlRelay_cool_def CtrlRelay_heat_def GetGlobalInfo_def call_of_def
        relay_spec_def flag_def pin_writes_relays insert_commute fun_eq_iff pin_defs
        intro!: arg_cong [where f = "\<lambda>f. s\<lparr>pins := f\<rparr>"])
qed

declare set_relays.simps [simp del]

section \<open>Abstract thermostat\<close>

text \<open>
  What the control program promises: a call for cooling above the dead band and for heating below
  it, the first stage at the start of a call, and the second stage once the call has lasted more
  than 300 seconds with the temperature within one degree of where the call started.
\<close>

record thermo =
  tcall :: call
  since :: int
  ref_temp :: int
  high :: bool

definition call_for :: "int \<Rightarrow> int \<Rightarrow> int \<Rightarrow> call" where
  "call_for t sp db =
     (if t > sp + db then Cool else if t < max 0 (sp - db) then Heat else Idle)"

definition thermo_step :: "int \<Rightarrow> int \<Rightarrow> int \<Rightarrow> int \<Rightarrow> thermo \<Rightarrow> thermo" where
  "thermo_step now t sp db a =
     (let c = call_for t sp db;
          a = (if c = tcall a then a else \<lparr>tcall = c, since = now, ref_temp = t, high = False\<rparr>)
      in if now > since a + 300 \<and> \<bar>t - ref_temp a\<bar> \<le> 10 then a\<lparr>high := True\<rparr> else a)"

lemma tcall_thermo_step: "tcall (thermo_step now t sp db a) = call_for t sp db"
  by (simp add: thermo_step_def Let_def)

definition thermo_abs :: "'a ctl_t_scheme \<Rightarrow> thermo" where
  "thermo_abs s = \<lparr>tcall = call_of (lastCoolOrHeat (ctlStatics s)), since = lastTime (ctlStatics s),
     ref_temp = lastTemp (ctlStatics s), high = (stage (ctlStatics s) = 2)\<rparr>"

definition thermo_inv :: "'a ctl_t_scheme \<Rightarrow> bool" where
  "thermo_inv s \<longleftrightarrow> stage (ctlStatics s) \<in> {1, 2} \<and> lastCoolOrHeat (ctlStatics s) \<in> {0, 1, 2}"

text \<open>
  The requirements document (\<^verbatim>\<open>src/2.*/HVAC*V2.docx\<close>) asks for a hysteresis: a
  call starts beyond the dead band and goes on until the set point is reached. The source forgets the
  call as soon as the temperature is back inside the dead band. For a dead band no larger than the
  set point the two differ there and nowhere else.
\<close>

definition required_call :: "call \<Rightarrow> int \<Rightarrow> int \<Rightarrow> int \<Rightarrow> call" where
  "required_call running t sp db =
     (if t > sp + db then Cool else if t < sp - db then Heat
      else if running = Cool \<and> t > sp then Cool else if running = Heat \<and> t < sp then Heat else Idle)"

lemma call_for_required:
  assumes "0 \<le> db" "db \<le> sp"
  shows "call_for t sp db = required_call c t sp db \<longleftrightarrow>
    \<not> (c = Cool \<and> sp < t \<and> t \<le> sp + db \<or> c = Heat \<and> sp - db \<le> t \<and> t < sp)"
  using assms by (auto simp: call_for_def required_call_def)

lemma call_of_demand: "call_of (demand t p db) = call_for t (sint p) (uint db)"
  by (auto simp: demand_def call_for_def call_of_def Let_def)

lemma demand_range: "demand t p db \<in> {0, 1, 2}"
  by (auto simp: demand_def Let_def)

lemma call_of_inject: "a \<in> {0, 1, 2} \<Longrightarrow> b \<in> {0, 1, 2} \<Longrightarrow> call_of a = call_of b \<longleftrightarrow> a = b"
  by (auto simp: call_of_def)

section \<open>Frames\<close>

text \<open>Reading the sensor moves the ADC and allocation positions and the window, nothing else.\<close>

lemma GetNtcValue_frame:
  "\<exists>a m l. snd (GetNtcValue s) = s\<lparr>adc_pos := a, malloc_pos := m, ntc_list := l\<rparr>"
proof -
  have id: "\<exists>a m l. (s :: 'a ntc_t_scheme) = s\<lparr>adc_pos := a, malloc_pos := m, ntc_list := l\<rparr>" for s
    by (rule exI [of _ "adc_pos s"], rule exI [of _ "malloc_pos s"], rule exI [of _ "ntc_list s"]) simp
  have a: "\<exists>a m l. s\<lparr>adc_pos := x\<rparr> = s\<lparr>adc_pos := a, malloc_pos := m, ntc_list := l\<rparr>" for x
    by (rule exI [of _ x], rule exI [of _ "malloc_pos s"], rule exI [of _ "ntc_list s"]) simp
  have am: "\<exists>a m l. s\<lparr>adc_pos := x, malloc_pos := y\<rparr> = s\<lparr>adc_pos := a, malloc_pos := m, ntc_list := l\<rparr>" for x y
    by (rule exI [of _ x], rule exI [of _ y], rule exI [of _ "ntc_list s"]) simp
  have aml: "\<exists>a m l. s\<lparr>adc_pos := x, malloc_pos := y, ntc_list := z\<rparr>
      = s\<lparr>adc_pos := a, malloc_pos := m, ntc_list := l\<rparr>" for x y z
    by blast
  show ?thesis
    by (simp add: GetNtcValue_def rt_adc_read_def malloc_outcome_def Let_def split: option.split)
      (use id a am aml in blast)
qed

lemma GetTempValue_frame:
  assumes "GetTempValue s = (r, s')"
  shows "\<exists>a m l. s' = s\<lparr>adc_pos := a, malloc_pos := m, ntc_list := l\<rparr>"
proof -
  obtain a m l where s1: "snd (GetNtcValue s) = s\<lparr>adc_pos := a, malloc_pos := m, ntc_list := l\<rparr>"
    using GetNtcValue_frame by blast
  obtain a' m' l' where "snd (GetNtcValue (snd (GetNtcValue s)))
      = (snd (GetNtcValue s))\<lparr>adc_pos := a', malloc_pos := m', ntc_list := l'\<rparr>"
    using GetNtcValue_frame by blast
  then have s2: "snd (GetNtcValue (snd (GetNtcValue s))) = s\<lparr>adc_pos := a', malloc_pos := m', ntc_list := l'\<rparr>"
    by (simp add: s1)
  have s0: "s = s\<lparr>adc_pos := adc_pos s, malloc_pos := malloc_pos s, ntc_list := ntc_list s\<rparr>"
    by simp
  have "s' = s \<or> s' = snd (GetNtcValue s) \<or> s' = snd (GetNtcValue (snd (GetNtcValue s)))"
    using assms by (auto simp: GetTempValue_def split: if_splits prod.splits option.splits)
  then show ?thesis using s0 s1 s2 by metis
qed

text \<open>What the temperature and the set point depend on.\<close>

definition ntc_view :: "'a ntc_t_scheme \<Rightarrow> bool \<times> (nat \<Rightarrow> u32) \<times> nat \<times> int \<times> (nat \<Rightarrow> bool) \<times> nat \<times> int list" where
  "ntc_view s = (adc_found s, adc_samples s, adc_pos s, adc_disable_ret s, malloc_ok s, malloc_pos s, ntc_list s)"

lemma GetNtcValue_cong:
  assumes "ntc_view s = ntc_view s'"
  shows "fst (GetNtcValue s) = fst (GetNtcValue s') \<and> ntc_view (snd (GetNtcValue s)) = ntc_view (snd (GetNtcValue s'))"
  using assms
  by (cases "ntc_res (adc_samples s' (adc_pos s'))")
    (simp_all add: ntc_view_def GetNtcValue_def rt_adc_read_def malloc_outcome_def Let_def)

lemma GetTempValue_cong:
  assumes "ntc_view s = ntc_view s'" "gInfo s = gInfo s'" "sensorInfo s = sensorInfo s'"
  shows "fst (GetTempValue s) = fst (GetTempValue s')"
proof -
  note c = GetNtcValue_cong [OF assms(1)]
  show ?thesis
    using c GetNtcValue_cong [OF conjunct2 [OF c]] assms(2,3)
    by (simp add: GetTempValue_def GetTempFrom_def GetGlobalInfo_def GetSensorInfo_def split_beta split: option.split)
qed

lemma GetSetPoint_cong:
  assumes "gInfo s = gInfo s'" "actionInfo s = actionInfo s'" "rtc_regs s = rtc_regs s'" "rtc_found s = rtc_found s'"
  shows "GetSetPoint s = GetSetPoint s'"
proof -
  have "getTimeForMat s = getTimeForMat s'"
    using assms(3,4) by (simp add: getTimeForMat_def getTimeStamp_def time_now_def get_rtc_timestamp_def)
  then have "IdentifyDaYAndNight s = IdentifyDaYAndNight s'"
    using assms(1) by (simp add: IdentifyDaYAndNight_def GetGlobalInfo_def)
  moreover have "GetDaySetPoint s = GetDaySetPoint s'" "GetNightSetPoint s = GetNightSetPoint s'"
    using assms(1) by (simp_all add: GetDaySetPoint_def GetNightSetPoint_def GetGlobalInfo_def)
  ultimately show ?thesis
    using assms(1,2) by (simp add: GetSetPoint_def GetActionInfo_def GetGlobalInfo_def Let_def)
qed

text \<open>The sensor's own bookkeeping does not enter the set point or the decision.\<close>

lemma time_now_sensor [simp]:
  "time_now (s\<lparr>adc_pos := a, malloc_pos := m, ntc_list := l\<rparr>) = time_now s"
  by (simp add: time_now_def get_rtc_timestamp_def)

lemma set_points_sensor [simp]:
  "GetDaySetPoint (s\<lparr>adc_pos := a, malloc_pos := m, ntc_list := l\<rparr>) = GetDaySetPoint s"
  "GetNightSetPoint (s\<lparr>adc_pos := a, malloc_pos := m, ntc_list := l\<rparr>) = GetNightSetPoint s"
  "IdentifyDaYAndNight (s\<lparr>adc_pos := a, malloc_pos := m, ntc_list := l\<rparr>) = IdentifyDaYAndNight s"
  by (simp_all add: GetDaySetPoint_def GetNightSetPoint_def IdentifyDaYAndNight_def
      GetGlobalInfo_def getTimeForMat_def getTimeStamp_def)

lemma GetSetPoint_sensor [simp]:
  "GetSetPoint (s\<lparr>adc_pos := a, malloc_pos := m, ntc_list := l\<rparr>) = GetSetPoint s"
  by (simp add: GetSetPoint_def GetActionInfo_def GetGlobalInfo_def Let_def)

lemmas control_getters = GetActionInfo_def GetGlobalInfo_def GetTimeRun_def GetControlMode_def

lemma set_relays_fields [simp]:
  "gInfo (set_relays v s) = gInfo s" "ctlStatics (set_relays v s) = ctlStatics s"
  "timeRun (set_relays v s) = timeRun s"
  by (cases v; simp add: set_relays.simps)+

section \<open>The control program implements the thermostat\<close>

lemma ControlProgram_null:
  assumes "GetTempValue s = (Some t, s1)" and "t = VALUE_NULL \<or> sint (GetSetPoint s) = VALUE_NULL"
  shows "ControlProgram s = Some (set_relays (0, 0, 0, 0, 0) (upd_info (\<lambda>i. i\<lparr>CoolOrHeat := NORUN\<rparr>) s1))"
proof -
  have "GetSetPoint s1 = GetSetPoint s"
    using GetTempValue_frame [OF assms(1)] by auto
  with assms show ?thesis
    by (auto simp: ControlProgram_def Let_def CtrlRelay_off)
qed

text \<open>The step of the statics for one decision \<open>d\<close>.\<close>

definition statics_step :: "int \<Rightarrow> int \<Rightarrow> u8 \<Rightarrow> control_statics \<Rightarrow> control_statics" where
  "statics_step now t d c =
     (let c = (if lastCoolOrHeat c \<noteq> d
               then \<lparr>lastTime = now, lastTemp = t, stage = 1, lastCoolOrHeat = d\<rparr> else c)
      in if now > lastTime c + 300 \<and> \<bar>t - lastTemp c\<bar> \<le> 10 then c\<lparr>stage := 2\<rparr> else c)"

lemma ControlProgram_stage_eq:
  "ControlProgram_stage t (timeRun s) s =
     s\<lparr>ctlStatics := statics_step (timeRun s) t (CoolOrHeat (gInfo s)) (ctlStatics s)\<rparr>"
  by (simp add: ControlProgram_stage_def statics_step_def Let_def GetTimeRun_def)

lemma statics_step_stage: "stage c \<in> {1, 2} \<Longrightarrow> stage (statics_step now t d c) \<in> {1, 2}"
  by (simp add: statics_step_def Let_def)

lemma statics_step_call: "lastCoolOrHeat (statics_step now t d c) = d"
  by (simp add: statics_step_def Let_def)

lemma relay_spec_Idle [simp]: "relay_spec w Idle h = (0, 0, 0, 0, 0)"
  by (simp add: relay_spec_def flag_def)

lemma set_relays_ctlStatics: "(set_relays v s)\<lparr>ctlStatics := c\<rparr> = set_relays v (s\<lparr>ctlStatics := c\<rparr>)"
  by (cases v) (simp add: set_relays.simps)

lemma CtrlRelay_decision:
  assumes "wiring_of (mode (gInfo s)) = Some w" "st = 1 \<or> st = 2"
  shows "CtrlRelay d st YES (if call_of d = Idle then set_relays (0, 0, 0, 0, 0) s else s)
    = set_relays (relay_spec w (call_of d) (st = 2)) s"
  using assms by (simp add: CtrlRelay_idle CtrlRelay_on)

lemma ControlProgram_active:
  assumes T: "GetTempValue s = (Some t, s1)"
    and t: "t \<noteq> VALUE_NULL" "sint (GetSetPoint s) \<noteq> VALUE_NULL"
    and w: "wiring_of (mode (gInfo s)) = Some w" and inv: "thermo_inv s"
  defines "d \<equiv> demand t (GetSetPoint s) (deadBand (gInfo s))"
  defines "c \<equiv> statics_step (timeRun s) t d (ctlStatics s)"
  shows "ControlProgram s = Some (set_relays (relay_spec w (call_of d) (stage c = 2))
      (upd_info (\<lambda>i. i\<lparr>CoolOrHeat := d\<rparr>) s1 \<lparr>ctlStatics := c\<rparr>))"
proof -
  obtain a m l where s1: "s1 = s\<lparr>adc_pos := a, malloc_pos := m, ntc_list := l\<rparr>"
    using GetTempValue_frame [OF T] by blast
  have m: "mode (gInfo s) \<noteq> MODULE_SLAVE"
    using w by (auto simp: wiring_of_def split: if_splits)
  have norun: "d = NORUN \<longleftrightarrow> call_of d = Idle"
    using demand_range [of t] by (auto simp: d_def call_of_def)
  let ?u = "upd_info (\<lambda>i. i\<lparr>CoolOrHeat := d\<rparr>) s1"
  let ?v = "if call_of d = Idle then set_relays (0, 0, 0, 0, 0) ?u else ?u"
  have st: "stage c = 1 \<or> stage c = 2"
    using statics_step_stage [of "ctlStatics s"] inv by (auto simp: c_def thermo_inv_def)
  have stg: "ControlProgram_stage t (timeRun s) ?v = ?v\<lparr>ctlStatics := c\<rparr>"
  proof -
    have "timeRun ?v = timeRun s" "CoolOrHeat (gInfo ?v) = d" "ctlStatics ?v = ctlStatics s"
      by (simp_all add: s1)
    with ControlProgram_stage_eq [of t ?v] show ?thesis by (simp only: c_def)
  qed
  have "ControlProgram s = Some (CtrlRelay (CoolOrHeat (gInfo (?v\<lparr>ctlStatics := c\<rparr>)))
      (stage (ctlStatics (?v\<lparr>ctlStatics := c\<rparr>))) YES (?v\<lparr>ctlStatics := c\<rparr>))"
    unfolding ControlProgram_def T prod.case option.case Let_def control_getters stg [symmetric]
    using t m by (simp add: s1 d_def [symmetric] norun CtrlRelay_off)
  also have "CoolOrHeat (gInfo (?v\<lparr>ctlStatics := c\<rparr>)) = d" by simp
  also have "stage (ctlStatics (?v\<lparr>ctlStatics := c\<rparr>)) = stage c" by simp
  also have "?v\<lparr>ctlStatics := c\<rparr> =
      (if call_of d = Idle then set_relays (0, 0, 0, 0, 0) (?u\<lparr>ctlStatics := c\<rparr>) else ?u\<lparr>ctlStatics := c\<rparr>)"
    by (simp add: set_relays_ctlStatics)
  also have "CtrlRelay d (stage c) YES \<dots> =
      set_relays (relay_spec w (call_of d) (stage c = 2)) (?u\<lparr>ctlStatics := c\<rparr>)"
    by (rule CtrlRelay_decision) (use w st in \<open>simp_all add: s1\<close>)
  finally show ?thesis .
qed

lemma thermo_abs_statics_step:
  assumes "thermo_inv s" "d \<in> {0, 1, 2}" "call_of d = call_for t sp db"
    and "ctlStatics s' = statics_step now t d (ctlStatics s)"
  shows "thermo_abs s' = thermo_step now t sp db (thermo_abs s)" and "thermo_inv s'"
proof -
  have "call_of (lastCoolOrHeat (ctlStatics s)) = call_of d \<longleftrightarrow> lastCoolOrHeat (ctlStatics s) = d"
    using assms by (intro call_of_inject) (auto simp: thermo_inv_def)
  then show "thermo_abs s' = thermo_step now t sp db (thermo_abs s)"
    using assms(3,4) by (auto simp: thermo_abs_def thermo_step_def statics_step_def Let_def)
  show "thermo_inv s'"
    using assms statics_step_stage [of "ctlStatics s" now t d]
    by (simp add: thermo_inv_def statics_step_call)
qed

text \<open>One pass of the program is one step of the abstract thermostat.\<close>

lemma ControlProgram_thermo:
  assumes T: "GetTempValue s = (Some t, s1)"
    and t: "t \<noteq> VALUE_NULL" "sint (GetSetPoint s) \<noteq> VALUE_NULL"
    and w: "wiring_of (mode (gInfo s)) = Some w" and inv: "thermo_inv s"
  shows "\<exists>s'. ControlProgram s = Some s' \<and> thermo_inv s' \<and>
    thermo_abs s' = thermo_step (timeRun s) t (sint (GetSetPoint s)) (uint (deadBand (gInfo s))) (thermo_abs s) \<and>
    relays s' = relay_spec w (tcall (thermo_abs s')) (high (thermo_abs s')) \<and>
    call_of (CoolOrHeat (gInfo s')) = tcall (thermo_abs s') \<and> timeRun s' = timeRun s"
proof -
  define d where "d = demand t (GetSetPoint s) (deadBand (gInfo s))"
  define c where "c = statics_step (timeRun s) t d (ctlStatics s)"
  define s' where "s' = set_relays (relay_spec w (call_of d) (stage c = 2))
      (upd_info (\<lambda>i. i\<lparr>CoolOrHeat := d\<rparr>) s1 \<lparr>ctlStatics := c\<rparr>)"
  have C: "ControlProgram s = Some s'"
    using ControlProgram_active [OF T t w inv] by (simp add: s'_def c_def d_def)
  have st: "ctlStatics s' = statics_step (timeRun s) t d (ctlStatics s)"
    by (simp add: s'_def c_def)
  note A = thermo_abs_statics_step [OF inv _ _ st, unfolded d_def, OF demand_range call_of_demand]
  have lc: "lastCoolOrHeat (ctlStatics s') = d" "stage (ctlStatics s') = stage c"
    by (simp_all add: st statics_step_call c_def)
  have "relays s' = relay_spec w (tcall (thermo_abs s')) (high (thermo_abs s'))"
    "call_of (CoolOrHeat (gInfo s')) = tcall (thermo_abs s')"
    unfolding thermo_abs_def lc by (simp_all add: s'_def)
  moreover have "timeRun s' = timeRun s" using GetTempValue_frame [OF T] by (auto simp: s'_def)
  ultimately show ?thesis using C A by blast
qed

text \<open>
  C5. \<^verbatim>\<open>ControlProgram\<close> implements the abstract thermostat of its own comments and
  conditions. Given a temperature, a set point and a wiring mode, it ends; its statics make the step
  of the specification; the five relays are the ones the wiring contract gives for the resulting call
  and stage; the reported state is the decision. Compared with the requirements document, the call is
  the required one except where a running call should go on from the edge of the dead band to the
  set point: there, and only there, the program stops early (for a dead band up to the set point; the
  staging and the missing restart delay, in which it also departs from the document, are in C9).
\<close>

theorem ControlProgram_refines:
  assumes T: "GetTempValue s = (Some t, s1)"
    and t: "t \<noteq> VALUE_NULL" "sint (GetSetPoint s) \<noteq> VALUE_NULL"
    and w: "wiring_of (mode (gInfo s)) = Some w" and inv: "thermo_inv s"
  shows "\<exists>s'. ControlProgram s = Some s' \<and> thermo_inv s' \<and>
    thermo_abs s' = thermo_step (timeRun s) t (sint (GetSetPoint s)) (uint (deadBand (gInfo s))) (thermo_abs s) \<and>
    relays s' = relay_spec w (tcall (thermo_abs s')) (high (thermo_abs s')) \<and>
    call_of (CoolOrHeat (gInfo s')) = tcall (thermo_abs s') \<and>
    (uint (deadBand (gInfo s)) \<le> sint (GetSetPoint s) \<longrightarrow>
      (tcall (thermo_abs s') = required_call (tcall (thermo_abs s)) t (sint (GetSetPoint s)) (uint (deadBand (gInfo s))) \<longleftrightarrow>
        \<not> (tcall (thermo_abs s) = Cool \<and> sint (GetSetPoint s) < t \<and> t \<le> sint (GetSetPoint s) + uint (deadBand (gInfo s)) \<or>
           tcall (thermo_abs s) = Heat \<and> sint (GetSetPoint s) - uint (deadBand (gInfo s)) \<le> t \<and> t < sint (GetSetPoint s))))"
proof -
  obtain s' where s': "ControlProgram s = Some s'" "thermo_inv s'"
    "thermo_abs s' = thermo_step (timeRun s) t (sint (GetSetPoint s)) (uint (deadBand (gInfo s))) (thermo_abs s)"
    "relays s' = relay_spec w (tcall (thermo_abs s')) (high (thermo_abs s'))"
    "call_of (CoolOrHeat (gInfo s')) = tcall (thermo_abs s')"
    using ControlProgram_thermo [OF assms] by blast
  have "tcall (thermo_abs s') = call_for t (sint (GetSetPoint s)) (uint (deadBand (gInfo s)))"
    using s'(3) by (simp add: tcall_thermo_step)
  with s' show ?thesis using call_for_required [OF uint_ge_0] by auto
qed

definition ctl_demo :: ctl_t where
  "ctl_demo = ntc_t.extend ntc_demo
     \<lparr>gInfo = \<lparr>registerState = 0, infoType = HVAC_TYPE, addr = 1, daySetPoint = 250,
        nightSetPoint = 250, infoTemp = 0, deadBand = 50, mode = 1, infoUnit = 1, tempFrom = 1,
        dayStartTime = 0x0800, dayEndTime = 0x1200, infoCtrl = 0, CoolOrHeat = 0, connected = 1,
        moduleMode = 0, fanRun = 0, infoCrc = 0\<rparr>,
      sensorInfo = \<lparr>co2 = VALUE_NULL, humi = VALUE_NULL, sensorTemp = 310, light = VALUE_NULL, sensorTime = 0\<rparr>,
      actionInfo = \<lparr>actionEn = 1, actionType = 0, setPoint = 250\<rparr>,
      timeRun = 100, lastConnectTime = 90,
      ctlStatics = \<lparr>lastTime = 0, lastTemp = 0, stage = 1, lastCoolOrHeat = 0\<rparr>\<rparr>"

lemma ctl_demo_simps [simp]:
  "GetTempValue ctl_demo = (Some 310, ctl_demo)" "GetSetPoint ctl_demo = 250"
  "mode (gInfo ctl_demo) = 1" "deadBand (gInfo ctl_demo) = 50" "timeRun ctl_demo = 100"
  "thermo_inv ctl_demo"
  "thermo_abs ctl_demo = \<lparr>tcall = Idle, since = 0, ref_temp = 0, high = False\<rparr>"
  by (simp_all add: ctl_demo_def ntc_t.defs ntc_demo_def GetTempValue_def GetTempFrom_def GetGlobalInfo_def
      GetSensorInfo_def GetSetPoint_def GetActionInfo_def thermo_inv_def thermo_abs_def call_of_def)

theorem ControlProgram_refines_witness:
  "\<exists>s'. ControlProgram ctl_demo = Some s' \<and>
     thermo_abs s' = \<lparr>tcall = Cool, since = 100, ref_temp = 310, high = False\<rparr> \<and>
     relays s' = (0, 1, 1, 0, 0)"
proof -
  have "thermo_step 100 310 250 50 \<lparr>tcall = Idle, since = 0, ref_temp = 0, high = False\<rparr>
      = \<lparr>tcall = Cool, since = 100, ref_temp = 310, high = False\<rparr>"
    by (simp add: thermo_step_def call_for_def)
  moreover have "relay_spec Conventional Cool False = (0, 1, 1, 0, 0)"
    by (simp add: relay_spec_def flag_def)
  ultimately show ?thesis
    using ControlProgram_refines [of ctl_demo 310 ctl_demo Conventional]
    by (auto simp: wiring_of_def)
qed

text \<open>
  C7. Without a temperature or without a set point the program switches every relay off and
  reports that nothing runs; the timing of the current call is left alone.
\<close>

theorem ControlProgram_no_value:
  assumes "GetTempValue s = (Some t, s1)" and "t = VALUE_NULL \<or> sint (GetSetPoint s) = VALUE_NULL"
  shows "\<exists>s'. ControlProgram s = Some s' \<and> relays s' = (0, 0, 0, 0, 0) \<and>
    CoolOrHeat (gInfo s') = NORUN \<and> ctlStatics s' = ctlStatics s"
  using ControlProgram_null [OF assms] GetTempValue_frame [OF assms(1)] by auto

theorem ControlProgram_no_value_witness:
  "\<exists>s'. ControlProgram (ctl_demo\<lparr>sensorInfo := \<lparr>co2 = 0, humi = 0, sensorTemp = VALUE_NULL, light = 0, sensorTime = 0\<rparr>\<rparr>)
     = Some s' \<and> relays s' = (0, 0, 0, 0, 0) \<and> CoolOrHeat (gInfo s') = NORUN \<and> ctlStatics s' = ctlStatics ctl_demo"
  using ControlProgram_no_value [of "ctl_demo\<lparr>sensorInfo := \<lparr>co2 = 0, humi = 0, sensorTemp = VALUE_NULL, light = 0, sensorTime = 0\<rparr>\<rparr>"
      VALUE_NULL]
  by (simp add: GetTempValue_def GetTempFrom_def GetGlobalInfo_def GetSensorInfo_def ctl_demo_def ntc_t.defs)

section \<open>Relay interlock\<close>

text \<open>
  Second stages never run together, never without their first stage, and nothing runs without the
  fan, whatever the wiring.
\<close>

definition relay_safe :: "u8 \<times> u8 \<times> u8 \<times> u8 \<times> u8 \<Rightarrow> bool" where
  "relay_safe r = (case r of (w, y, g, w2, y2) \<Rightarrow>
     {w, y, g, w2, y2} \<subseteq> {0, 1} \<and> \<not> (w2 = 1 \<and> y2 = 1) \<and> (y2 = 1 \<longrightarrow> y = 1) \<and>
     (w2 = 1 \<longrightarrow> w = 1 \<or> y = 1) \<and> (g = 1 \<longleftrightarrow> w = 1 \<or> y = 1))"

lemma relay_safe_spec: "relay_safe (relay_spec w c h)"
  by (cases c; cases w; cases h) (simp_all add: relay_safe_def relay_spec_def flag_def)

lemma relay_safe_off: "relay_safe (0, 0, 0, 0, 0)"
  by (simp add: relay_safe_def)

lemma CtrlRelay_unwired:
  "wiring_of (mode (gInfo s)) = None \<Longrightarrow> CtrlRelay d st YES s = s"
  by (simp add: CtrlRelay_def CtrlRelay_cool_def CtrlRelay_heat_def GetGlobalInfo_def wiring_of_def
      Let_def split: if_splits)

lemma CtrlRelay_safe:
  assumes "relay_safe (relays s)" "en = NO \<or> st = 1 \<or> st = 2"
  shows "relay_safe (relays (CtrlRelay d st en s))"
proof (cases "en = YES")
  case False
  then have "CtrlRelay d st en s = CtrlRelay d st NO s" by (simp add: CtrlRelay_def)
  then show ?thesis by (simp add: CtrlRelay_off relay_safe_off)
next
  case True
  then show ?thesis
    using assms
    by (cases "call_of d = Idle"; cases "wiring_of (mode (gInfo s))")
      (simp_all add: CtrlRelay_idle CtrlRelay_unwired CtrlRelay_on relay_safe_spec)
qed

lemma relays_frame [frame_simps]:
  "relays (s\<lparr>gInfo := g\<rparr>) = relays s" "relays (s\<lparr>ctlStatics := c\<rparr>) = relays s"
  "relays (s\<lparr>adc_pos := a\<rparr>) = relays s" "relays (s\<lparr>malloc_pos := m\<rparr>) = relays s"
  "relays (s\<lparr>ntc_list := l\<rparr>) = relays s"
  by (simp_all add: relays_def)

lemma pin_writes_form: "\<exists>p. pin_writes ws (s :: 'a ctl_t_scheme) = s\<lparr>pins := p\<rparr>"
proof (induction ws arbitrary: s)
  case Nil
  show ?case by (rule exI [of _ "pins s"]) (simp add: pin_writes_def)
next
  case (Cons x ws)
  obtain p where "rt_pin_write (fst x) (snd x) s = s\<lparr>pins := p\<rparr>"
    by (metis (no_types, lifting) rt_pin_write_def option.case_eq_if gpio_t.surjective gpio_t.update_convs(1))
  then show ?case
    using Cons [of "s\<lparr>pins := p\<rparr>"] by (auto simp: pin_writes_def split_beta)
qed

lemma CtrlRelay_form: "\<exists>p. CtrlRelay d st en s = s\<lparr>pins := p\<rparr>"
  unfolding CtrlRelay_def CtrlRelay_cool_def CtrlRelay_heat_def Let_def
  using pin_writes_form [of _ s] exI [of "\<lambda>p. s = s\<lparr>pins := p\<rparr>" "pins s"] by auto

lemma CtrlRelay_ctl [simp]:
  "gInfo (CtrlRelay d st en s) = gInfo s" "ctlStatics (CtrlRelay d st en s) = ctlStatics s"
  "timeRun (CtrlRelay d st en s) = timeRun s"
  using CtrlRelay_form [of d st en s] by auto

lemma ControlProgram_inv:
  assumes "relay_safe (relays s)" "thermo_inv s" "ControlProgram s = Some s'"
  shows "relay_safe (relays s') \<and> thermo_inv s'"
proof -
  obtain t s1 where T: "GetTempValue s = (Some t, s1)"
    using assms(3) by (auto simp: ControlProgram_def split: prod.splits option.splits)
  have s1: "relays s1 = relays s" "ctlStatics s1 = ctlStatics s"
    using GetTempValue_frame [OF T] by (auto simp: frame_simps)
  define f :: "'a ctl_t_scheme \<Rightarrow> 'a ctl_t_scheme" where
    "f = (\<lambda>s. upd_info (\<lambda>i. i\<lparr>CoolOrHeat := NORUN\<rparr>) s)"
  define d where "d = demand t (GetSetPoint s1) (deadBand (GetGlobalInfo s1))"
  define u where "u = upd_info (\<lambda>i. i\<lparr>CoolOrHeat := d\<rparr>) s1"
  define v where "v = (if d = NORUN then CtrlRelay 0 0 NO u else u)"
  define x where "x = v\<lparr>ctlStatics := statics_step (timeRun s1) t d (ctlStatics s1)\<rparr>"
  have v: "relay_safe (relays v)" "ctlStatics v = ctlStatics s" "CoolOrHeat (gInfo v) = d" "timeRun v = timeRun s1"
    using assms(1) by (auto simp: v_def u_def frame_simps s1 CtrlRelay_off relay_safe_off)
  have stg: "ControlProgram_stage t (GetTimeRun s1) v = x"
    using ControlProgram_stage_eq [of t v] v by (simp add: x_def s1 GetTimeRun_def)
  have x: "relay_safe (relays x)" "thermo_inv x" "stage (ctlStatics x) = 1 \<or> stage (ctlStatics x) = 2"
    using v statics_step_stage [of "ctlStatics s" "timeRun s1" t d] assms(2) demand_range [of t]
    by (auto simp: x_def frame_simps s1 thermo_inv_def statics_step_call d_def)
  have "s' = CtrlRelay 0 0 NO (f s1) \<or> s' = CtrlRelay 0 0 NO (f x) \<or>
      s' = CtrlRelay (CoolOrHeat (gInfo x)) (stage (ctlStatics x)) YES x"
    using assms(3)
    unfolding ControlProgram_def T prod.case option.case Let_def
      d_def [symmetric] u_def [symmetric] v_def [symmetric] stg f_def
    by (auto split: if_splits)
  then show ?thesis
    using x assms(1,2) s1
    by (elim disjE) (auto intro!: CtrlRelay_safe simp: f_def frame_simps thermo_inv_def)
qed

text \<open>
  C6. The relay interlock is invariant under \<^verbatim>\<open>ControlProgram\<close>, for every wiring mode
  including unknown ones, every temperature and every setting.
\<close>

theorem ControlProgram_interlock:
  assumes "relay_safe (relays s)" and "thermo_inv s" and "ControlProgram s = Some s'"
  shows "relay_safe (relays s') \<and> thermo_inv s'"
  by (rule ControlProgram_inv [OF assms])

theorem ControlProgram_interlock_witness:
  "\<exists>s'. ControlProgram ctl_demo = Some s' \<and> relay_safe (relays s') \<and> thermo_inv s'"
proof -
  have "relay_safe (relays ctl_demo)"
    by (simp add: ctl_demo_def ntc_t.defs ntc_demo_def relays_def relay_safe_def)
  moreover obtain s' where "ControlProgram ctl_demo = Some s'"
    using ControlProgram_active [of ctl_demo 310 ctl_demo Conventional] by (auto simp: wiring_of_def)
  ultimately show ?thesis
    using ControlProgram_interlock [of ctl_demo s'] by auto
qed

section \<open>A call over time\<close>

text \<open>
  \<open>control_run\<close>: the control program on a sequence of times and remote temperatures.
\<close>

fun control_run :: "(int \<times> int) list \<Rightarrow> 'a ctl_t_scheme \<Rightarrow> 'a ctl_t_scheme option" where
  "control_run [] s = Some s"
| "control_run ((now, t) # xs) s =
     Option.bind (ControlProgram (s\<lparr>timeRun := now, sensorInfo := (sensorInfo s)\<lparr>sensorTemp := t\<rparr>\<rparr>)) (control_run xs)"

lemma GetTempValue_remote:
  "tempFrom (gInfo s) = TEMP_FROM_REMOTE \<Longrightarrow> GetTempValue s = (Some (sensorTemp (sensorInfo s)), s)"
  by (simp add: GetTempValue_def GetTempFrom_def GetGlobalInfo_def GetSensorInfo_def)

lemma GetSetPoint_control [simp]:
  "GetSetPoint (set_relays v s) = GetSetPoint s"
  "GetSetPoint (s\<lparr>ctlStatics := c\<rparr>) = GetSetPoint s"
  "GetSetPoint (s\<lparr>gInfo := (gInfo s)\<lparr>CoolOrHeat := x\<rparr>\<rparr>) = GetSetPoint s"
  "GetSetPoint (s\<lparr>timeRun := n\<rparr>) = GetSetPoint s"
  "GetSetPoint (s\<lparr>sensorInfo := y\<rparr>) = GetSetPoint s"
  by (cases v; simp add: GetSetPoint_def GetActionInfo_def GetGlobalInfo_def IdentifyDaYAndNight_def
      GetDaySetPoint_def GetNightSetPoint_def getTimeForMat_def getTimeStamp_def time_now_def
      get_rtc_timestamp_def set_relays.simps Let_def)+

definition run_settings :: "int \<Rightarrow> int \<Rightarrow> wiring \<Rightarrow> 'a ctl_t_scheme \<Rightarrow> bool" where
  "run_settings sp db w s \<longleftrightarrow> tempFrom (gInfo s) = TEMP_FROM_REMOTE \<and> sint (GetSetPoint s) = sp \<and>
     sp \<noteq> VALUE_NULL \<and> uint (deadBand (gInfo s)) = db \<and> wiring_of (mode (gInfo s)) = Some w \<and> thermo_inv s"

lemma control_run_step:
  assumes "run_settings sp db w s" "t \<noteq> VALUE_NULL"
  obtains s' where "ControlProgram (s\<lparr>timeRun := now, sensorInfo := (sensorInfo s)\<lparr>sensorTemp := t\<rparr>\<rparr>) = Some s'"
    "run_settings sp db w s'" "thermo_abs s' = thermo_step now t sp db (thermo_abs s)"
    "relays s' = relay_spec w (tcall (thermo_abs s')) (high (thermo_abs s'))"
proof -
  let ?s = "s\<lparr>timeRun := now, sensorInfo := (sensorInfo s)\<lparr>sensorTemp := t\<rparr>\<rparr>"
  define d where "d = demand t (GetSetPoint s) (deadBand (gInfo s))"
  define c where "c = statics_step now t d (ctlStatics s)"
  define s' where "s' = set_relays (relay_spec w (call_of d) (stage c = 2))
      (upd_info (\<lambda>i. i\<lparr>CoolOrHeat := d\<rparr>) ?s \<lparr>ctlStatics := c\<rparr>)"
  have inv: "thermo_inv ?s" "thermo_inv s"
    using assms by (auto simp: run_settings_def thermo_inv_def)
  have "ControlProgram ?s = Some s'"
    using ControlProgram_active [of ?s t ?s w] assms inv GetTempValue_remote [of ?s]
    by (simp add: run_settings_def s'_def d_def c_def)
  moreover have st: "ctlStatics s' = statics_step now t d (ctlStatics s)"
    by (simp add: s'_def c_def)
  note A = thermo_abs_statics_step [OF inv(2) _ _ st, unfolded d_def, OF demand_range call_of_demand]
  have "run_settings sp db w s'"
    using assms A(2) GetSetPoint_control(3) [of d ?s] by (simp add: run_settings_def s'_def)
  moreover have "relays s' = relay_spec w (tcall (thermo_abs s')) (high (thermo_abs s'))"
    by (simp add: thermo_abs_def st statics_step_call) (simp add: s'_def c_def)
  ultimately show thesis
    using A(1) assms(1) that by (simp add: run_settings_def)
qed

lemma control_run_refines:
  assumes "run_settings sp db w s" "\<forall>(now, t) \<in> set xs. t \<noteq> VALUE_NULL"
  shows "\<exists>s'. control_run xs s = Some s' \<and> run_settings sp db w s' \<and>
    thermo_abs s' = foldl (\<lambda>a (now, t). thermo_step now t sp db a) (thermo_abs s) xs \<and>
    (xs \<noteq> [] \<longrightarrow> relays s' = relay_spec w (tcall (thermo_abs s')) (high (thermo_abs s')))"
  using assms
proof (induction xs arbitrary: s)
  case (Cons x xs)
  obtain now t where x: "x = (now, t)" by force
  have "t \<noteq> VALUE_NULL" using Cons.prems x by auto
  then obtain s1 where s1:
    "ControlProgram (s\<lparr>timeRun := now, sensorInfo := (sensorInfo s)\<lparr>sensorTemp := t\<rparr>\<rparr>) = Some s1"
    "run_settings sp db w s1" "thermo_abs s1 = thermo_step now t sp db (thermo_abs s)"
    "relays s1 = relay_spec w (tcall (thermo_abs s1)) (high (thermo_abs s1))"
    by (rule control_run_step [OF Cons.prems(1)])
  from Cons.IH [OF s1(2)] Cons.prems(2) obtain s2 where
    "control_run xs s1 = Some s2" "run_settings sp db w s2"
    "thermo_abs s2 = foldl (\<lambda>a (now, t). thermo_step now t sp db a) (thermo_abs s1) xs"
    "xs \<noteq> [] \<longrightarrow> relays s2 = relay_spec w (tcall (thermo_abs s2)) (high (thermo_abs s2))"
    by auto
  with s1 x show ?case by (cases xs) auto
qed simp

lemma thermo_call_run:
  assumes "\<forall>(now, t) \<in> set xs. call_for t sp db = tcall a"
  shows "foldl (\<lambda>a (now, t). thermo_step now t sp db a) a xs =
    a\<lparr>high := high a \<or> (\<exists>(now, t) \<in> set xs. now > since a + 300 \<and> \<bar>t - ref_temp a\<bar> \<le> 10)\<rparr>"
  using assms
proof (induction xs arbitrary: a)
  case (Cons x xs)
  obtain now t where x: "x = (now, t)" by force
  define a' where "a' = thermo_step now t sp db a"
  have a': "a' = a\<lparr>high := high a \<or> now > since a + 300 \<and> \<bar>t - ref_temp a\<bar> \<le> 10\<rparr>"
    using Cons.prems x by (cases a) (auto simp: a'_def thermo_step_def Let_def)
  have "foldl (\<lambda>a (now, t). thermo_step now t sp db a) a' xs =
      a'\<lparr>high := high a' \<or> (\<exists>(now, t) \<in> set xs. now > since a' + 300 \<and> \<bar>t - ref_temp a'\<bar> \<le> 10)\<rparr>"
    using Cons.prems by (intro Cons.IH) (simp add: a')
  then show ?case by (auto simp: x a'_def [symmetric]) (simp_all add: a')
qed simp

text \<open>
  C9. Staging of a call. Let a call for cooling or heating start at time \<open>n0\<close> with
  temperature \<open>t0\<close> and go on through any further readings that ask for the same. The program
  handles every reading, and at the end the second stage runs exactly when some reading came more
  than 300 seconds after the start within one degree of \<open>t0\<close>. This is what the comment in the
  source says; the requirements document asks for the second stage after one minute in which the
  temperature has not come closer to the set point, and for a pause of five minutes before a call
  starts again, which the program does not make (a new call starts at once, at any time \<open>n0\<close>).
\<close>

theorem second_stage_iff:
  assumes S: "run_settings sp db w s" and new: "tcall (thermo_abs s) \<noteq> c"
    and t: "\<forall>(now, t) \<in> set ((n0, t0) # xs). t \<noteq> VALUE_NULL \<and> call_for t sp db = c"
  shows "\<exists>s'. control_run ((n0, t0) # xs) s = Some s' \<and>
    relays s' = relay_spec w c (\<exists>(now, t) \<in> set xs. now > n0 + 300 \<and> \<bar>t - t0\<bar> \<le> 10)"
proof -
  let ?f = "\<lambda>a (now, t). thermo_step now t sp db a"
  have "\<forall>(now, t) \<in> set ((n0, t0) # xs). t \<noteq> VALUE_NULL" using t by auto
  from control_run_refines [OF S this] obtain s' where
    s': "control_run ((n0, t0) # xs) s = Some s'"
      "thermo_abs s' = foldl ?f (thermo_abs s) ((n0, t0) # xs)"
      "relays s' = relay_spec w (tcall (thermo_abs s')) (high (thermo_abs s'))"
    by blast
  define a where "a = \<lparr>tcall = c, since = n0, ref_temp = t0, high = False\<rparr>"
  have "thermo_step n0 t0 sp db (thermo_abs s) = a"
    using new t by (auto simp: thermo_step_def Let_def a_def)
  then have "thermo_abs s' = foldl ?f a xs" using s'(2) by simp
  also have "\<dots> = a\<lparr>high := high a \<or> (\<exists>(now, t) \<in> set xs. now > since a + 300 \<and> \<bar>t - ref_temp a\<bar> \<le> 10)\<rparr>"
    by (rule thermo_call_run) (use t in \<open>auto simp: a_def\<close>)
  finally show ?thesis using s' by (auto simp: a_def)
qed

theorem second_stage_iff_witness:
  "\<exists>s'. control_run [(100, 310), (200, 312), (401, 305)] ctl_demo = Some s' \<and> relays s' = (0, 1, 1, 0, 1)"
proof -
  have rs: "run_settings 250 50 Conventional ctl_demo"
    by (simp add: run_settings_def wiring_of_def) (simp add: ctl_demo_def ntc_t.defs)
  have "relay_spec Conventional Cool True = (0, 1, 1, 0, 1)"
    by (simp add: relay_spec_def flag_def)
  then show ?thesis
    using second_stage_iff [OF rs, of Cool 100 310 "[(200, 312), (401, 305)]"]
    by (simp add: call_for_def)
qed

section \<open>Day, night and the link\<close>

lemma getTimeForMat_clock:
  assumes "0 \<le> time_now s"
  shows "uint (hour (getTimeForMat s)) * 3600 + uint (minute (getTimeForMat s)) * 60 + uint (second (getTimeForMat s))
     = time_now s mod 86400"
proof -
  note T = time_of_day [OF assms time_now_range(2)]
  have *: "uint (word_of_int x :: u16) = x" if "0 \<le> x" "x < 65536" for x
    using that by (simp add: uint_word_of_int)
  have "uint (hour (getTimeForMat s)) = tm_hour (localtime (time_now s))"
    "uint (minute (getTimeForMat s)) = tm_min (localtime (time_now s))"
    "uint (second (getTimeForMat s)) = tm_sec (localtime (time_now s))"
    using T by (simp_all add: getTimeForMat_def getTimeStamp_def Let_def *)
  with T(1) show ?thesis by simp
qed

text \<open>Seconds after midnight of a packed time: the hour in the high byte, the minute in the low.\<close>

definition clock_secs :: "u16 \<Rightarrow> int" where
  "clock_secs x = uint (hi8 x) * 3600 + uint (lo8 x) * 60"

text \<open>Day and night. The program is in the day exactly when the time of day lies after the earlier
  and not after the later of the two configured times, whichever of them is called the start. A
  window that should span midnight is therefore its complement.
\<close>

theorem IdentifyDaYAndNight_window:
  assumes "0 \<le> time_now s"
  shows "IdentifyDaYAndNight s = IN_DAY \<longleftrightarrow>
     min (clock_secs (dayStartTime (gInfo s))) (clock_secs (dayEndTime (gInfo s))) < time_now s mod 86400 \<and>
     time_now s mod 86400 \<le> max (clock_secs (dayStartTime (gInfo s))) (clock_secs (dayEndTime (gInfo s)))"
  unfolding IdentifyDaYAndNight_def Let_def getTimeForMat_clock [OF assms] GetGlobalInfo_def clock_secs_def [symmetric]
  by (auto simp: min_def max_def)

fun ticks :: "nat \<Rightarrow> 'a ctl_t_scheme \<Rightarrow> 'a ctl_t_scheme" where
  "ticks 0 s = s"
| "ticks (Suc n) s = TimeRunning (ticks n s)"

lemma ticks_eq: "ticks n s = s\<lparr>timeRun := timeRun s + int n\<rparr>"
  by (induction n) (simp_all add: TimeRunning_def)

text \<open>
  Loss of the link. After a message accepted at a non-zero second counter, the module counts as
  connected for 30 ticks of silence; from the 31st tick it is disconnected and unregistered.
\<close>

theorem link_timeout:
  assumes "timeRun s \<noteq> 0"
  shows "connected (gInfo (MonitorConnectedState (ticks n (SetLastConnectTime (GetTimeRun s) s))))
      = (if n \<le> 30 then YES else NO) \<and>
    (30 < n \<longrightarrow> registerState (gInfo (MonitorConnectedState (ticks n (SetLastConnectTime (GetTimeRun s) s)))) = NO)"
  using assms
  by (auto simp: MonitorConnectedState_def ticks_eq SetLastConnectTime_def GetTimeRun_def GetLastConnectTime_def)

theorem link_timeout_witness:
  "connected (gInfo (MonitorConnectedState (ticks 30 (SetLastConnectTime (GetTimeRun ctl_demo) ctl_demo)))) = YES \<and>
   connected (gInfo (MonitorConnectedState (ticks 31 (SetLastConnectTime (GetTimeRun ctl_demo) ctl_demo)))) = NO"
  using link_timeout [of ctl_demo 30] link_timeout [of ctl_demo 31] by simp

text \<open>
  C40. What the decision depends on. In a wiring mode from 1 to 3 two states that agree on the
  temperature read, the set point, the dead band, the mode, the second counter and the statics get
  the same relays and the same report: neither the master's enable flag nor the state of the link
  enters, since both are compared together with a mode value of 0.
\<close>

theorem ControlProgram_determined:
  assumes "GetTempValue s = (Some t, s1)" and "GetTempValue s' = (Some t, s1')"
    and "GetSetPoint s' = GetSetPoint s" and "deadBand (gInfo s') = deadBand (gInfo s)"
    and "mode (gInfo s') = mode (gInfo s)" and "timeRun s' = timeRun s" and "ctlStatics s' = ctlStatics s"
    and "mode (gInfo s) \<in> {1, 2, 3}" and "thermo_inv s"
  shows "\<exists>u u'. ControlProgram s = Some u \<and> ControlProgram s' = Some u' \<and>
    relays u' = relays u \<and> CoolOrHeat (gInfo u') = CoolOrHeat (gInfo u)"
proof (cases "t = VALUE_NULL \<or> sint (GetSetPoint s) = VALUE_NULL")
  case True
  then show ?thesis
    using ControlProgram_null [OF assms(1)] ControlProgram_null [OF assms(2)] assms(3) by simp
next
  case False
  obtain w where "wiring_of (mode (gInfo s)) = Some w"
    using assms(8) by (auto simp: wiring_of_def)
  moreover have "thermo_inv s'" using assms(7,9) by (simp add: thermo_inv_def)
  ultimately show ?thesis
    using ControlProgram_active [OF assms(1)] ControlProgram_active [OF assms(2)] assms False by simp
qed

theorem ControlProgram_determined_witness:
  "\<exists>u u'. ControlProgram ctl_demo = Some u \<and>
     ControlProgram (ctl_demo\<lparr>gInfo := (gInfo ctl_demo)\<lparr>connected := NO\<rparr>,
       actionInfo := (actionInfo ctl_demo)\<lparr>actionEn := NO\<rparr>\<rparr>) = Some u' \<and> relays u' = relays u"
proof -
  let ?s = "ctl_demo\<lparr>gInfo := (gInfo ctl_demo)\<lparr>connected := NO\<rparr>,
       actionInfo := (actionInfo ctl_demo)\<lparr>actionEn := NO\<rparr>\<rparr>"
  have "GetTempValue ?s = (Some 310, ?s)" "GetSetPoint ?s = 250"
    by (simp_all add: ctl_demo_def ntc_t.defs ntc_demo_def GetTempValue_def GetTempFrom_def
        GetGlobalInfo_def GetSensorInfo_def GetSetPoint_def GetActionInfo_def)
  then show ?thesis
    using ControlProgram_determined [of ctl_demo 310 ctl_demo ?s ?s] by simp blast
qed

end
