(* ===== verification/Hvac_Comm.thy ===== *)
theory Hvac_Comm
  imports Hvac_Control Hvac_List
begin

text \<open>
  The message lists of \<^verbatim>\<open>applications/Uart/Communicate.c\<close> and the transmitter
  \<^verbatim>\<open>SendToMaster\<close>. A list is the sequence of its messages from the head's successor
  onwards; \<open>Hvac_List\<close> shows that the pointer operations implement the list operations used
  here. What the UART sends is a log of frames, each with the level of the driver-enable pin at the
  time. The locale \<open>msg_list\<close> is the contract of a message list; the send and the receive list
  are its instances.
\<close>

section \<open>State\<close>

abbreviation (input) MSG_SIZE :: nat where "MSG_SIZE \<equiv> 20"
abbreviation (input) MSG_LIST_MAX :: nat where "MSG_LIST_MAX \<equiv> 20"

record rt_massage_list =
  msg_data :: "u8 list"
  msg_len :: u8

record comm_t = ctl_t +
  sendMsgList :: "rt_massage_list list"
  recvMsgList :: "rt_massage_list list"
  uart1_tx :: "(u8 \<times> u8 list) list"

section \<open>Memory\<close>

text \<open>\<^verbatim>\<open>rt_memcmp\<close>: the first difference, as a signed number, or 0.\<close>

fun rt_memcmp :: "u8 list \<Rightarrow> u8 list \<Rightarrow> nat \<Rightarrow> int" where
  "rt_memcmp cs ct 0 = 0"
| "rt_memcmp cs ct (Suc n) =
     (let res = uint (hd cs) - uint (hd ct)
      in if res \<noteq> 0 then res else rt_memcmp (tl cs) (tl ct) n)"

lemma rt_memcmp_eq_0:
  "n \<le> length a \<Longrightarrow> n \<le> length b \<Longrightarrow> rt_memcmp a b n = 0 \<longleftrightarrow> take n a = take n b"
proof (induction n arbitrary: a b)
  case (Suc n)
  then show ?case by (cases a; cases b) (auto simp: Let_def simp flip: word_uint_eq_iff)
qed simp

text \<open>A fresh node: \<^verbatim>\<open>rt_calloc\<close> clears it, \<^verbatim>\<open>rt_memcpy\<close> fills the first bytes.\<close>

definition new_msg :: "u8 list \<Rightarrow> u8 \<Rightarrow> rt_massage_list" where
  "new_msg data len = \<lparr>msg_data = take (unat len) data @ replicate (MSG_SIZE - unat len) 0, msg_len = len\<rparr>"

section \<open>The send list\<close>

definition InitSendMsgList :: "'a comm_t_scheme \<Rightarrow> 'a comm_t_scheme" where
  "InitSendMsgList s = s\<lparr>sendMsgList := []\<rparr>"

definition GetSendMsgListSize :: "'a comm_t_scheme \<Rightarrow> u16" where
  "GetSendMsgListSize s = of_nat (length (sendMsgList s))"

definition AddToSendMsgList :: "u8 list \<Rightarrow> u8 \<Rightarrow> 'a comm_t_scheme \<Rightarrow> int \<times> 'a comm_t_scheme" where
  "AddToSendMsgList data len s =
     (if unat len > MSG_SIZE \<or> unat (GetSendMsgListSize s) \<ge> MSG_LIST_MAX then (RT_ERROR, s)
      else
        (let (ok, s) = malloc_outcome s
         in if ok then
              if length (sendMsgList s) = 0 then
                (RT_EOK, s\<lparr>sendMsgList := new_msg data len # sendMsgList s\<rparr>)
              else if \<exists>temp \<in> set (sendMsgList s). rt_memcmp data (msg_data temp) (unat len) = 0 then
                (RT_ERROR, s)
              else (RT_EOK, s\<lparr>sendMsgList := new_msg data len # sendMsgList s\<rparr>)
            else (RT_ERROR, s)))"

text \<open>\<^verbatim>\<open>rt_list_for_each_entry_safe\<close> up to the first node that compares equal.\<close>

fun remove_match :: "u8 list \<Rightarrow> nat \<Rightarrow> rt_massage_list list \<Rightarrow> rt_massage_list list option" where
  "remove_match data n [] = None"
| "remove_match data n (pos # ms) =
     (if rt_memcmp data (msg_data pos) n = 0 then Some ms
      else map_option ((#) pos) (remove_match data n ms))"

definition RemoveFromSendMsgList :: "u8 list \<Rightarrow> u8 \<Rightarrow> 'a comm_t_scheme \<Rightarrow> int \<times> 'a comm_t_scheme" where
  "RemoveFromSendMsgList data len s =
     (if unat len > MSG_SIZE \<or> len = 0 then (RT_ERROR, s)
      else case remove_match data (unat len) (sendMsgList s) of
             Some ms \<Rightarrow> (RT_EOK, s\<lparr>sendMsgList := ms\<rparr>)
           | None \<Rightarrow> (RT_ERROR, s))"

definition SendToMaster :: "u8 list \<Rightarrow> u16 \<Rightarrow> 'a comm_t_scheme \<Rightarrow> 'a comm_t_scheme" where
  "SendToMaster data n s =
     (let s = rt_pin_write UART1_EN IN_SEND s;
          s = s\<lparr>uart1_tx := uart1_tx s @ [(rt_pin_read s UART1_EN, take (unat n) data)]\<rparr>
      in rt_pin_write UART1_EN IN_RECV s)"

definition SendMsgHandle :: "'a comm_t_scheme \<Rightarrow> 'a comm_t_scheme" where
  "SendMsgHandle s =
     (if GetSendMsgListSize s = 0 then s
      else case sendMsgList s of
             [] \<Rightarrow> s
           | first # _ \<Rightarrow>
               if msg_len first \<noteq> 0 then
                 (let s = SendToMaster (msg_data first) (ucast (msg_len first)) s
                  in snd (RemoveFromSendMsgList (msg_data first) 20 s))
               else s)"

section \<open>The receive list\<close>

definition InitRecvMsgList :: "'a comm_t_scheme \<Rightarrow> 'a comm_t_scheme" where
  "InitRecvMsgList s = s\<lparr>recvMsgList := []\<rparr>"

definition GetRecvMsgListSize :: "'a comm_t_scheme \<Rightarrow> u16" where
  "GetRecvMsgListSize s = of_nat (length (recvMsgList s))"

definition AddToRecvMsgList :: "u8 list \<Rightarrow> u8 \<Rightarrow> 'a comm_t_scheme \<Rightarrow> int \<times> 'a comm_t_scheme" where
  "AddToRecvMsgList data len s =
     (if unat len > MSG_SIZE \<or> unat (GetRecvMsgListSize s) \<ge> MSG_LIST_MAX then (RT_ERROR, s)
      else
        (let (ok, s) = malloc_outcome s
         in if ok then
              if length (recvMsgList s) = 0 then
                (RT_EOK, s\<lparr>recvMsgList := new_msg data len # recvMsgList s\<rparr>)
              else if \<exists>temp \<in> set (recvMsgList s). rt_memcmp data (msg_data temp) (unat len) = 0 then
                (RT_ERROR, s)
              else (RT_EOK, s\<lparr>recvMsgList := new_msg data len # recvMsgList s\<rparr>)
            else (RT_ERROR, s)))"

definition RemoveFromRecvMsgList :: "u8 list \<Rightarrow> u8 \<Rightarrow> 'a comm_t_scheme \<Rightarrow> int \<times> 'a comm_t_scheme" where
  "RemoveFromRecvMsgList data len s =
     (if unat len > MSG_SIZE \<or> len = 0 then (RT_ERROR, s)
      else case remove_match data (unat len) (recvMsgList s) of
             Some ms \<Rightarrow> (RT_EOK, s\<lparr>recvMsgList := ms\<rparr>)
           | None \<Rightarrow> (RT_ERROR, s))"

section \<open>The contract of a message list\<close>

text \<open>
  Well-formed lists: at most twenty messages, each in a cleared twenty-byte buffer, no two buffers
  equal.
\<close>

definition msg_ok :: "rt_massage_list \<Rightarrow> bool" where
  "msg_ok m \<longleftrightarrow> length (msg_data m) = MSG_SIZE \<and> unat (msg_len m) \<le> MSG_SIZE \<and>
     (\<forall>i \<in> {unat (msg_len m)..<MSG_SIZE}. msg_data m ! i = 0)"

definition msgs_ok :: "rt_massage_list list \<Rightarrow> bool" where
  "msgs_ok ms \<longleftrightarrow> length ms \<le> MSG_LIST_MAX \<and> list_all msg_ok ms \<and> distinct (map msg_data ms)"

definition is_prefix_of_some :: "u8 list \<Rightarrow> nat \<Rightarrow> rt_massage_list list \<Rightarrow> bool" where
  "is_prefix_of_some data n ms \<longleftrightarrow> (\<exists>m \<in> set ms. take n data = take n (msg_data m))"

lemma new_msg_ok: "unat len \<le> MSG_SIZE \<Longrightarrow> unat len \<le> length data \<Longrightarrow> msg_ok (new_msg data len)"
  by (auto simp: new_msg_def msg_ok_def nth_append)

lemma new_msg_prefix:
  "unat len \<le> length data \<Longrightarrow> take (unat len) (msg_data (new_msg data len)) = take (unat len) data"
  by (simp add: new_msg_def)

lemma remove_match_ok: "remove_match d n ms = Some ms' \<Longrightarrow> msgs_ok ms \<Longrightarrow> msgs_ok ms'"
proof -
  have "remove_match d n ms = Some ms' \<Longrightarrow> length ms' \<le> length ms \<and> set ms' \<subseteq> set ms \<and>
      (distinct (map msg_data ms) \<longrightarrow> distinct (map msg_data ms'))" for ms'
  proof (induction ms arbitrary: ms')
    case (Cons m ms)
    show ?case
    proof (cases "rt_memcmp d (msg_data m) n = 0")
      case False
      with Cons.prems obtain r where r: "remove_match d n ms = Some r" "ms' = m # r" by auto
      from Cons.IH [OF r(1)] r(2) show ?thesis by (auto simp: image_subset_iff)
    qed (use Cons.prems in auto)
  qed simp
  then show "remove_match d n ms = Some ms' \<Longrightarrow> msgs_ok ms \<Longrightarrow> msgs_ok ms'"
    by (fastforce simp: msgs_ok_def list_all_iff)
qed

locale msg_list =
  fixes msgs :: "'s \<Rightarrow> rt_massage_list list"
    and add :: "u8 list \<Rightarrow> u8 \<Rightarrow> 's \<Rightarrow> int \<times> 's"
    and remove :: "u8 list \<Rightarrow> u8 \<Rightarrow> 's \<Rightarrow> int \<times> 's"
    and can_alloc :: "'s \<Rightarrow> bool"
  assumes add_spec: "msgs_ok (msgs s) \<Longrightarrow> unat len \<le> length data \<Longrightarrow> add data len s = (r, s') \<Longrightarrow>
      (if unat len \<le> MSG_SIZE \<and> length (msgs s) < MSG_LIST_MAX \<and> can_alloc s \<and>
          \<not> is_prefix_of_some data (unat len) (msgs s)
       then r = RT_EOK \<and> msgs s' = new_msg data len # msgs s
       else r = RT_ERROR \<and> msgs s' = msgs s)"
    and remove_spec: "remove data len s = (r, s') \<Longrightarrow>
      (if 0 < unat len \<and> unat len \<le> MSG_SIZE \<and> remove_match data (unat len) (msgs s) \<noteq> None
       then r = RT_EOK \<and> Some (msgs s') = remove_match data (unat len) (msgs s)
       else r = RT_ERROR \<and> msgs s' = msgs s)"
begin

lemma add_ok:
  assumes "msgs_ok (msgs s)" "unat len \<le> length data" "add data len s = (r, s')"
  shows "msgs_ok (msgs s')"
proof -
  have *: "msg_data (new_msg data len) \<notin> msg_data ` set (msgs s)"
    if "\<not> is_prefix_of_some data (unat len) (msgs s)"
    using that new_msg_prefix [OF assms(2)] by (force simp: is_prefix_of_some_def)
  show ?thesis
    using add_spec [OF assms] assms(1) new_msg_ok [OF _ assms(2)] *
    by (auto simp: msgs_ok_def split: if_splits)
qed

lemma remove_ok:
  assumes "msgs_ok (msgs s)" "remove data len s = (r, s')"
  shows "msgs_ok (msgs s')"
proof -
  have "msgs s' = msgs s \<or> remove_match data (unat len) (msgs s) = Some (msgs s')"
    using remove_spec [OF assms(2)] by (metis (no_types))
  then show ?thesis
    using assms(1) remove_match_ok [OF _ assms(1)] by (elim disjE) (simp, blast)
qed

text \<open>What was added can be taken out again by its own buffer.\<close>

lemma add_remove:
  assumes "msgs_ok (msgs s)" "unat len \<le> length data" "add data len s = (RT_EOK, s')"
    and "remove (msg_data (new_msg data len)) 20 s' = (r, s'')"
  shows "r = RT_EOK \<and> msgs s'' = msgs s"
proof -
  have a: "msgs s' = new_msg data len # msgs s"
    using add_spec [OF assms(1,2,3)] by (auto split: if_splits)
  have "rt_memcmp x x n = 0" for x n by (induction n arbitrary: x) simp_all
  then show ?thesis
    using remove_spec [OF assms(4)] by (simp add: a split: if_splits)
qed

text \<open>A message already queued, or any prefix of one, is refused.\<close>

lemma add_duplicate:
  assumes "msgs_ok (msgs s)" "unat len \<le> length data" "is_prefix_of_some data (unat len) (msgs s)"
  shows "fst (add data len s) = RT_ERROR \<and> msgs (snd (add data len s)) = msgs s"
  using add_spec [OF assms(1,2), of "fst (add data len s)" "snd (add data len s)"] assms(3) by simp

end

definition can_malloc :: "'a comm_t_scheme \<Rightarrow> bool" where
  "can_malloc s \<longleftrightarrow> malloc_ok s (malloc_pos s)"

lemma memcmp_some:
  assumes "msgs_ok ms" "n \<le> MSG_SIZE" "n \<le> length data"
  shows "(\<exists>temp \<in> set ms. rt_memcmp data (msg_data temp) n = 0) \<longleftrightarrow> is_prefix_of_some data n ms"
  using assms by (auto simp: is_prefix_of_some_def msgs_ok_def list_all_iff msg_ok_def rt_memcmp_eq_0)

lemma list_size_16: "msgs_ok ms \<Longrightarrow> unat (of_nat (length ms) :: u16) = length ms"
  by (auto simp: msgs_ok_def unat_of_nat)

interpretation send: msg_list sendMsgList AddToSendMsgList RemoveFromSendMsgList can_malloc
proof
  fix s s' :: "'a comm_t_scheme" and data :: "u8 list" and len :: u8 and r :: int
  assume ok: "msgs_ok (sendMsgList s)" and l: "unat len \<le> length data" and a: "AddToSendMsgList data len s = (r, s')"
  show "if unat len \<le> MSG_SIZE \<and> length (sendMsgList s) < MSG_LIST_MAX \<and> can_malloc s \<and>
          \<not> is_prefix_of_some data (unat len) (sendMsgList s)
       then r = RT_EOK \<and> sendMsgList s' = new_msg data len # sendMsgList s
       else r = RT_ERROR \<and> sendMsgList s' = sendMsgList s"
    using a memcmp_some [OF ok _ l] list_size_16 [OF ok]
    by (auto simp: AddToSendMsgList_def GetSendMsgListSize_def malloc_outcome_def can_malloc_def
        is_prefix_of_some_def split: if_splits)
next
  fix s s' :: "'a comm_t_scheme" and data :: "u8 list" and len :: u8 and r :: int
  assume "RemoveFromSendMsgList data len s = (r, s')"
  then show "if 0 < unat len \<and> unat len \<le> MSG_SIZE \<and> remove_match data (unat len) (sendMsgList s) \<noteq> None
       then r = RT_EOK \<and> Some (sendMsgList s') = remove_match data (unat len) (sendMsgList s)
       else r = RT_ERROR \<and> sendMsgList s' = sendMsgList s"
    by (auto simp: RemoveFromSendMsgList_def unat_gt_0 split: if_splits option.splits)
qed

interpretation recv: msg_list recvMsgList AddToRecvMsgList RemoveFromRecvMsgList can_malloc
proof
  fix s s' :: "'a comm_t_scheme" and data :: "u8 list" and len :: u8 and r :: int
  assume ok: "msgs_ok (recvMsgList s)" and l: "unat len \<le> length data" and a: "AddToRecvMsgList data len s = (r, s')"
  show "if unat len \<le> MSG_SIZE \<and> length (recvMsgList s) < MSG_LIST_MAX \<and> can_malloc s \<and>
          \<not> is_prefix_of_some data (unat len) (recvMsgList s)
       then r = RT_EOK \<and> recvMsgList s' = new_msg data len # recvMsgList s
       else r = RT_ERROR \<and> recvMsgList s' = recvMsgList s"
    using a memcmp_some [OF ok _ l] list_size_16 [OF ok]
    by (auto simp: AddToRecvMsgList_def GetRecvMsgListSize_def malloc_outcome_def can_malloc_def
        is_prefix_of_some_def split: if_splits)
next
  fix s s' :: "'a comm_t_scheme" and data :: "u8 list" and len :: u8 and r :: int
  assume "RemoveFromRecvMsgList data len s = (r, s')"
  then show "if 0 < unat len \<and> unat len \<le> MSG_SIZE \<and> remove_match data (unat len) (recvMsgList s) \<noteq> None
       then r = RT_EOK \<and> Some (recvMsgList s') = remove_match data (unat len) (recvMsgList s)
       else r = RT_ERROR \<and> recvMsgList s' = recvMsgList s"
    by (auto simp: RemoveFromRecvMsgList_def unat_gt_0 split: if_splits option.splits)
qed

section \<open>Sending\<close>

lemma rt_memcmp_refl [simp]: "rt_memcmp x x n = 0"
  by (induction n arbitrary: x) simp_all

definition idle_bus :: "'a comm_t_scheme \<Rightarrow> 'a comm_t_scheme" where
  "idle_bus s = s\<lparr>pins := (pins s)(UART1_EN := IN_RECV)\<rparr>"

lemma SendToMaster_eq:
  "SendToMaster data n s = (idle_bus s)\<lparr>uart1_tx := uart1_tx s @ [(IN_SEND, take (unat n) data)]\<rparr>"
  by (simp add: SendToMaster_def idle_bus_def rt_pin_write_valid flag_def)

lemma SendMsgHandle_Cons:
  assumes "msgs_ok (m # ms)" "sendMsgList s = m # ms" "msg_len m \<noteq> 0"
  shows "SendMsgHandle s = (idle_bus s)\<lparr>uart1_tx := uart1_tx s @ [(IN_SEND, take (unat (msg_len m)) (msg_data m))],
    sendMsgList := ms\<rparr>"
proof -
  have "GetSendMsgListSize s \<noteq> 0"
    using list_size_16 [OF assms(1)] assms(2) by (auto simp: GetSendMsgListSize_def unat_eq_zero)
  moreover have "unat (ucast (msg_len m) :: u16) = unat (msg_len m)"
    using unsigned_less [of "msg_len m", where 'a = nat] by (simp add: unsigned_ucast_eq take_bit_nat_eq_self)
  ultimately show ?thesis
    using assms(2,3)
    by (simp add: SendMsgHandle_def SendToMaster_eq RemoveFromSendMsgList_def idle_bus_def Let_def)
qed

fun send_calls :: "nat \<Rightarrow> 'a comm_t_scheme \<Rightarrow> 'a comm_t_scheme" where
  "send_calls 0 s = s"
| "send_calls (Suc n) s = send_calls n (SendMsgHandle s)"

text \<open>
  C14. Draining the send list. From a well-formed list of non-empty messages, as many calls of
  \<^verbatim>\<open>SendMsgHandle\<close> as there are messages empty it; each message goes out exactly once, from
  the head of the list on (the latest added first), every one with the bus driver enabled, and the
  bus is left in receive direction.
\<close>

theorem send_list_drained:
  assumes "msgs_ok (sendMsgList s)" and "\<forall>m \<in> set (sendMsgList s). msg_len m \<noteq> 0"
  shows "sendMsgList (send_calls (length (sendMsgList s)) s) = [] \<and>
    uart1_tx (send_calls (length (sendMsgList s)) s) =
      uart1_tx s @ map (\<lambda>m. (IN_SEND, take (unat (msg_len m)) (msg_data m))) (sendMsgList s) \<and>
    (sendMsgList s \<noteq> [] \<longrightarrow> pins (send_calls (length (sendMsgList s)) s) UART1_EN = IN_RECV)"
  using assms
proof (induction "sendMsgList s" arbitrary: s)
  case (Cons m ms)
  let ?s = "SendMsgHandle s"
  note e = Cons.hyps(2) [symmetric]
  have h: "?s = (idle_bus s)\<lparr>uart1_tx := uart1_tx s @ [(IN_SEND, take (unat (msg_len m)) (msg_data m))],
      sendMsgList := ms\<rparr>"
    using Cons.prems e by (intro SendMsgHandle_Cons) auto
  then have "ms = sendMsgList ?s" "msgs_ok (sendMsgList ?s)" "\<forall>m \<in> set (sendMsgList ?s). msg_len m \<noteq> 0"
    using Cons.prems e by (auto simp: msgs_ok_def)
  note IH = Cons.hyps(1) [OF this]
  show ?case
  proof (cases "ms = []")
    case True
    then show ?thesis using h e by (simp add: idle_bus_def)
  next
    case False
    then show ?thesis using IH h e by simp
  qed
qed simp

definition comm_demo :: comm_t where
  "comm_demo = ctl_t.extend ctl_demo \<lparr>sendMsgList = [], recvMsgList = [], uart1_tx = []\<rparr>"

theorem send_list_drained_witness:
  "uart1_tx (send_calls 2 (comm_demo\<lparr>sendMsgList := [new_msg [2, 3] 2, new_msg [1] 1]\<rparr>)) = [(1, [2, 3]), (1, [1])]"
proof -
  let ?s = "comm_demo\<lparr>sendMsgList := [new_msg [2, 3] 2, new_msg [1] 1]\<rparr>"
  have "msgs_ok (sendMsgList ?s)"
    using new_msg_ok [of 2 "[2, 3]"] new_msg_ok [of 1 "[1]"] by (simp add: msgs_ok_def) (simp add: new_msg_def)
  then have T: "uart1_tx (send_calls (length (sendMsgList ?s)) ?s) =
      uart1_tx ?s @ map (\<lambda>m. (IN_SEND, take (unat (msg_len m)) (msg_data m))) (sendMsgList ?s)"
    by (intro conjunct1 [OF conjunct2 [OF send_list_drained]]) (simp_all add: new_msg_def)
  have "uart1_tx ?s = []" and len: "length (sendMsgList ?s) = 2" by (simp_all add: comm_demo_def ctl_t.defs)
  with T [unfolded len] show ?thesis by (simp add: new_msg_def del: send_calls.simps)
qed

text \<open>What the two lists promise, as functions on lists.\<close>

definition add_result :: "u8 list \<Rightarrow> u8 \<Rightarrow> bool \<Rightarrow> rt_massage_list list \<Rightarrow> int \<times> rt_massage_list list" where
  "add_result data len memory ms =
     (if unat len \<le> 20 \<and> length ms < 20 \<and> memory \<and> \<not> is_prefix_of_some data (unat len) ms
      then (RT_EOK, new_msg data len # ms) else (RT_ERROR, ms))"

definition remove_result :: "u8 list \<Rightarrow> u8 \<Rightarrow> rt_massage_list list \<Rightarrow> int \<times> rt_massage_list list" where
  "remove_result data len ms =
     (let other = (\<lambda>m. take (unat len) (msg_data m) \<noteq> take (unat len) data)
      in if 0 < unat len \<and> unat len \<le> 20 \<and> is_prefix_of_some data (unat len) ms
         then (RT_EOK, takeWhile other ms @ tl (dropWhile other ms)) else (RT_ERROR, ms))"

lemma remove_match_first:
  assumes "n \<le> length data" "\<forall>m \<in> set ms. n \<le> length (msg_data m)"
  shows "remove_match data n ms =
    (if is_prefix_of_some data n ms
     then Some (takeWhile (\<lambda>m. take n (msg_data m) \<noteq> take n data) ms @ tl (dropWhile (\<lambda>m. take n (msg_data m) \<noteq> take n data) ms))
     else None)"
  using assms(2)
proof (induction ms)
  case (Cons m ms)
  then have "rt_memcmp data (msg_data m) n = 0 \<longleftrightarrow> take n (msg_data m) = take n data"
    using rt_memcmp_eq_0 [OF assms(1), of "msg_data m"] by auto
  then show ?case using Cons by (auto simp: is_prefix_of_some_def)
qed (simp add: is_prefix_of_some_def)

context msg_list
begin

lemma add_law:
  assumes "msgs_ok (msgs s)" "unat len \<le> length data" "add data len s = (r, s')"
  shows "(r, msgs s') = add_result data len (can_alloc s) (msgs s) \<and> msgs_ok (msgs s')"
  using add_spec [OF assms] add_ok [OF assms] by (auto simp: add_result_def split: if_splits)

lemma remove_law:
  assumes "msgs_ok (msgs s)" "unat len \<le> length data" "remove data len s = (r, s')"
  shows "(r, msgs s') = remove_result data len (msgs s) \<and> msgs_ok (msgs s')"
proof -
  have "\<forall>m \<in> set (msgs s). unat len \<le> length (msg_data m)" if "unat len \<le> 20"
    using assms(1) that by (auto simp: msgs_ok_def msg_ok_def list_all_iff)
  then show ?thesis
    using remove_spec [OF assms(3)] remove_ok [OF assms(1,3)] remove_match_first [OF assms(2), of "msgs s"]
    by (auto simp: remove_result_def Let_def split: if_splits)
qed

end

text \<open>
  C15. The message lists. On well-formed lists (at most twenty messages in cleared twenty-byte
  buffers with pairwise different contents) each of the four operations gives the result of its
  specification, keeps its list well formed and does not touch the other list. An addition puts the
  message in front; it fails, with the list unchanged, exactly when the message is longer than twenty
  bytes, the list is full, no memory is left, or the message is a prefix of a queued one. A removal
  takes out the first message that begins with the given bytes; it fails, with the list unchanged,
  exactly when no message does or the length is 0 or above twenty.
\<close>

theorem message_lists_contract:
  assumes "msgs_ok (sendMsgList s)" and "msgs_ok (recvMsgList s)" and "unat len \<le> length data"
  shows "(let (r, s') = AddToSendMsgList data len s in
      (r, sendMsgList s') = add_result data len (can_malloc s) (sendMsgList s) \<and>
      msgs_ok (sendMsgList s') \<and> recvMsgList s' = recvMsgList s) \<and>
    (let (r, s') = AddToRecvMsgList data len s in
      (r, recvMsgList s') = add_result data len (can_malloc s) (recvMsgList s) \<and>
      msgs_ok (recvMsgList s') \<and> sendMsgList s' = sendMsgList s) \<and>
    (let (r, s') = RemoveFromSendMsgList data len s in
      (r, sendMsgList s') = remove_result data len (sendMsgList s) \<and>
      msgs_ok (sendMsgList s') \<and> recvMsgList s' = recvMsgList s) \<and>
    (let (r, s') = RemoveFromRecvMsgList data len s in
      (r, recvMsgList s') = remove_result data len (recvMsgList s) \<and>
      msgs_ok (recvMsgList s') \<and> sendMsgList s' = sendMsgList s)"
proof -
  have other: "recvMsgList (snd (AddToSendMsgList data len s)) = recvMsgList s"
    "sendMsgList (snd (AddToRecvMsgList data len s)) = sendMsgList s"
    "recvMsgList (snd (RemoveFromSendMsgList data len s)) = recvMsgList s"
    "sendMsgList (snd (RemoveFromRecvMsgList data len s)) = sendMsgList s"
    by (simp_all add: AddToSendMsgList_def AddToRecvMsgList_def RemoveFromSendMsgList_def RemoveFromRecvMsgList_def
        malloc_outcome_def Let_def split: option.split)
  show ?thesis
    using send.add_law [OF assms(1,3) prod.collapse [symmetric]] recv.add_law [OF assms(2,3) prod.collapse [symmetric]]
      send.remove_law [OF assms(1,3) prod.collapse [symmetric]] recv.remove_law [OF assms(2,3) prod.collapse [symmetric]] other
    by (simp add: Let_def split_beta)
qed

theorem message_lists_contract_witness:
  "fst (AddToSendMsgList [1, 2, 3] 3 comm_demo) = RT_EOK \<and>
   fst (RemoveFromRecvMsgList [1, 2, 3] 3 comm_demo) = RT_ERROR"
proof -
  have "msgs_ok (sendMsgList comm_demo)" "msgs_ok (recvMsgList comm_demo)" "sendMsgList comm_demo = []" "recvMsgList comm_demo = []"
    "can_malloc comm_demo"
    by (simp_all add: comm_demo_def ctl_t.defs ctl_demo_def ntc_t.defs ntc_demo_def msgs_ok_def can_malloc_def)
  then show ?thesis
    using message_lists_contract [of comm_demo 3 "[1, 2, 3]"]
    by (simp add: is_prefix_of_some_def add_result_def remove_result_def split_beta Let_def)
qed

end
