(* ===== verification/Hvac_Modbus.thy ===== *)
theory Hvac_Modbus
  imports Hvac_Comm
begin

text \<open>
  The protocol layer \<^verbatim>\<open>applications/Uart/UartDataLayer.c\<close>: reception, registration,
  the Modbus commands and the register file. The receive buffer is \<open>rx_data\<close>, 1024 bytes that
  keep what earlier frames left behind. Writes past the end of a buffer are undefined behaviour and
  make the result \<open>None\<close>.
\<close>

section \<open>State\<close>

abbreviation (input) UART_MSG_SIZE :: nat where "UART_MSG_SIZE \<equiv> 1024"

record rx_msg =
  rx_size :: nat
  messageFlag :: u8
  rx_data :: "u8 list"

record uart_t = comm_t +
  uart1_open :: bool
  uart1_msg :: rx_msg
  timeCorrect :: int

section \<open>Constants\<close>

abbreviation (input) REGISTER_CODE :: u8 where "REGISTER_CODE \<equiv> 0xFA"
abbreviation (input) REGISTER_ANSER :: u8 where "REGISTER_ANSER \<equiv> 0x80"
abbreviation (input) READ_MUTI :: u8 where "READ_MUTI \<equiv> 0x03"
abbreviation (input) WRITE_SINGLE :: u8 where "WRITE_SINGLE \<equiv> 0x06"
abbreviation (input) WRITE_MUTI :: u8 where "WRITE_MUTI \<equiv> 0x10"
abbreviation (input) READ_CMD :: u8 where "READ_CMD \<equiv> 0"
abbreviation (input) WRITE_CMD :: u8 where "WRITE_CMD \<equiv> 1"

abbreviation (input) LOCATION :: u16 where "LOCATION \<equiv> 0x0000"
abbreviation (input) REG_NOW_TIME :: u16 where "REG_NOW_TIME \<equiv> 0x0009"
abbreviation (input) REG_NOW_TIME1 :: u16 where "REG_NOW_TIME1 \<equiv> 0x000A"
abbreviation (input) REG_PORT_SIZE :: u16 where "REG_PORT_SIZE \<equiv> 0x0400"
abbreviation (input) REG_CTRL :: u16 where "REG_CTRL \<equiv> 0x0401"
abbreviation (input) REG_PORT_STATE :: u16 where "REG_PORT_STATE \<equiv> 0x0402"
abbreviation (input) REG_UNIT :: u16 where "REG_UNIT \<equiv> 0x0403"
abbreviation (input) REG_MODE :: u16 where "REG_MODE \<equiv> 0x0404"
abbreviation (input) REG_DEADBAND :: u16 where "REG_DEADBAND \<equiv> 0x0405"
abbreviation (input) REG_CTRL_MODE :: u16 where "REG_CTRL_MODE \<equiv> 0x0406"
abbreviation (input) REG_DAY_SETPOINT :: u16 where "REG_DAY_SETPOINT \<equiv> 0x0407"
abbreviation (input) REG_NIGHT_SETPOINT :: u16 where "REG_NIGHT_SETPOINT \<equiv> 0x0408"
abbreviation (input) REG_DAY_COOL :: u16 where "REG_DAY_COOL \<equiv> 0x0409"
abbreviation (input) REG_DAY_HEAT :: u16 where "REG_DAY_HEAT \<equiv> 0x040A"
abbreviation (input) REG_NIGHT_COOL :: u16 where "REG_NIGHT_COOL \<equiv> 0x040B"
abbreviation (input) REG_NIGHT_HEAT :: u16 where "REG_NIGHT_HEAT \<equiv> 0x040C"
abbreviation (input) REG_TEMP_FROM :: u16 where "REG_TEMP_FROM \<equiv> 0x040D"
abbreviation (input) REG_DAY_START :: u16 where "REG_DAY_START \<equiv> 0x040E"
abbreviation (input) REG_DAY_END :: u16 where "REG_DAY_END \<equiv> 0x040F"
abbreviation (input) REG_NOW_CO2 :: u16 where "REG_NOW_CO2 \<equiv> 0xF000"
abbreviation (input) REG_NOW_HUMI :: u16 where "REG_NOW_HUMI \<equiv> 0xF001"
abbreviation (input) REG_NOW_TEMP :: u16 where "REG_NOW_TEMP \<equiv> 0xF002"
abbreviation (input) REG_NOW_LIGHT :: u16 where "REG_NOW_LIGHT \<equiv> 0xF003"

section \<open>Reception\<close>

definition InitUart1 :: "'a uart_t_scheme \<Rightarrow> 'a uart_t_scheme" where
  "InitUart1 s = s\<lparr>uart1_open := True\<rparr>"

text \<open>
  The receive callback: the driver hands over the bytes of one frame, which are copied to the front
  of the buffer. More bytes than the buffer holds overflow it.
\<close>

definition Uart1_input :: "u8 list \<Rightarrow> 'a uart_t_scheme \<Rightarrow> (int \<times> 'a uart_t_scheme) option" where
  "Uart1_input bytes s =
     (let n = length bytes
      in if n > UART_MSG_SIZE then None
         else
           (let data = bytes @ drop n (rx_data (uart1_msg s));
                s = s\<lparr>uart1_msg := (uart1_msg s)\<lparr>rx_size := n, rx_data := data\<rparr>\<rparr>
            in if 2 > n then Some (RT_ERROR, s)
               else if mk16 (data ! (n - 1)) (data ! (n - 2)) = usModbusRTU_CRC (take (n - 2) data) then
                 Some (RT_EOK,
                   if data ! 0 = 0xFA \<or> data ! 0 = 0 \<or> addr (GetGlobalInfo s) = data ! 0
                   then s\<lparr>uart1_msg := (uart1_msg s)\<lparr>messageFlag := YES\<rparr>\<rparr> else s)
               else Some (RT_ERROR, s)))"

definition Uart1HasRecv :: "'a uart_t_scheme \<Rightarrow> u8" where
  "Uart1HasRecv s = messageFlag (uart1_msg s)"

definition Uart1CleanRecvFlag :: "'a uart_t_scheme \<Rightarrow> 'a uart_t_scheme" where
  "Uart1CleanRecvFlag s = s\<lparr>uart1_msg := (uart1_msg s)\<lparr>messageFlag := NO\<rparr>\<rparr>"

definition GetUart1Message :: "'a uart_t_scheme \<Rightarrow> rx_msg" where
  "GetUart1Message s = uart1_msg s"

section \<open>The register file\<close>

text \<open>
  \<^verbatim>\<open>ModbusCommand\<close> reads or writes one register. The model returns the value left in
  \<^verbatim>\<open>*data\<close>. The switch is cut in three; a part answers \<open>None\<close> for a register of
  another part.
\<close>

definition port_state :: "'a uart_t_scheme \<Rightarrow> u16" where
  "port_state s =
     (let d = (0 :: u16);
          d = (if rt_pin_read s RELAY_Y2 = YES then d OR 0x0010 else d);
          d = (if rt_pin_read s RELAY_W2 = YES then d OR 0x0008 else d);
          d = (if rt_pin_read s RELAY_G = YES then d OR 0x0004 else d);
          d = (if rt_pin_read s RELAY_Y = YES then d OR 0x0002 else d);
          d = (if rt_pin_read s RELAY_W = YES then d OR 0x0001 else d)
      in d)"

definition write_ctrl :: "u16 \<Rightarrow> 'a uart_t_scheme \<Rightarrow> 'a uart_t_scheme" where
  "write_ctrl data s =
     (let s = upd_info (\<lambda>i. i\<lparr>infoCtrl := data\<rparr>) s;
          ctrl = infoCtrl (gInfo s);
          en = ucast (drop_bit 15 ctrl) :: u8;
          type = ucast (drop_bit 8 ctrl AND 0x0F) :: u8;
          point = (ctrl AND 0x00FF) * 10
      in SetActionInfo en type point s)"

definition ModbusCommand_ctrl ::
  "u8 \<Rightarrow> u16 \<Rightarrow> u16 \<Rightarrow> 'a uart_t_scheme \<Rightarrow> (u16 \<times> 'a uart_t_scheme) option" where
  "ModbusCommand_ctrl rw reg data s =
     (let info = GetGlobalInfo s
      in if reg = LOCATION then
           Some (if rw = READ_CMD then (0x0000, ModuleLocation s) else (data, s))
         else if reg = REG_PORT_SIZE then
           Some (if rw = READ_CMD then (0x05, s) else (data, s))
         else if reg = REG_CTRL then
           Some (if rw = READ_CMD then (infoCtrl info, s)
                 else if rw = WRITE_CMD then (data, write_ctrl data s) else (data, s))
         else if reg = REG_PORT_STATE then
           Some (if rw = READ_CMD then (port_state s, s) else (data, s))
         else if reg = REG_UNIT then
           Some (if rw = READ_CMD then (ucast (infoUnit info), s)
                 else if rw = WRITE_CMD then (data, upd_info (\<lambda>i. i\<lparr>infoUnit := ucast data\<rparr>) s) else (data, s))
         else if reg = REG_MODE then
           Some (if rw = READ_CMD then (ucast (mode info), s)
                 else if rw = WRITE_CMD then (data, upd_info (\<lambda>i. i\<lparr>mode := ucast data\<rparr>) s) else (data, s))
         else if reg = REG_DEADBAND then
           Some (if rw = READ_CMD then (ucast (deadBand info), s)
                 else if rw = WRITE_CMD then (data, upd_info (\<lambda>i. i\<lparr>deadBand := ucast data\<rparr>) s) else (data, s))
         else if reg = REG_CTRL_MODE then
           Some (if rw = READ_CMD then (0x00, s) else (data, s))
         else None)"

definition ModbusCommand_set ::
  "u8 \<Rightarrow> u16 \<Rightarrow> u16 \<Rightarrow> 'a uart_t_scheme \<Rightarrow> (u16 \<times> 'a uart_t_scheme) option" where
  "ModbusCommand_set rw reg data s =
     (let info = GetGlobalInfo s
      in if reg = REG_DAY_SETPOINT then
           Some (if rw = READ_CMD then (daySetPoint info, s)
                 else if rw = WRITE_CMD then (data, upd_info (\<lambda>i. i\<lparr>daySetPoint := data\<rparr>) s) else (data, s))
         else if reg = REG_NIGHT_SETPOINT then
           Some (if rw = READ_CMD then (nightSetPoint info, s)
                 else if rw = WRITE_CMD then (data, upd_info (\<lambda>i. i\<lparr>nightSetPoint := data\<rparr>) s) else (data, s))
         else if reg = REG_DAY_COOL then Some (0xFFFF, s)
         else if reg = REG_DAY_HEAT then Some (0xFFFF, s)
         else if reg = REG_NIGHT_COOL then Some (0xFFFF, s)
         else if reg = REG_NIGHT_HEAT then Some (0xFFFF, s)
         else if reg = REG_TEMP_FROM then
           Some (if rw = READ_CMD then (ucast (tempFrom info), s)
                 else if rw = WRITE_CMD then (data, upd_info (\<lambda>i. i\<lparr>tempFrom := ucast data\<rparr>) s) else (data, s))
         else if reg = REG_DAY_START then
           Some (if rw = READ_CMD then (dayStartTime info, s)
                 else if rw = WRITE_CMD then (data, upd_info (\<lambda>i. i\<lparr>dayStartTime := data\<rparr>) s) else (data, s))
         else if reg = REG_DAY_END then
           Some (if rw = READ_CMD then (dayEndTime info, s)
                 else if rw = WRITE_CMD then (data, upd_info (\<lambda>i. i\<lparr>dayEndTime := data\<rparr>) s) else (data, s))
         else None)"

abbreviation upd_sensor :: "(type_sensor_t \<Rightarrow> type_sensor_t) \<Rightarrow> 'a uart_t_scheme \<Rightarrow> 'a uart_t_scheme" where
  "upd_sensor f s \<equiv> s\<lparr>sensorInfo := f (sensorInfo s)\<rparr>"

text \<open>
  The clock arrives in two registers. \<^verbatim>\<open>*data << 16\<close> is an \<^verbatim>\<open>int\<close>: from
  \<^verbatim>\<open>0x8000\<close> on it is negative. The second register sets the calendar.
\<close>

definition time_high :: "u16 \<Rightarrow> int" where
  "time_high data = sint (push_bit 16 (ucast data) :: u32)"

definition correct_time :: "'a uart_t_scheme \<Rightarrow> 'a uart_t_scheme" where
  "correct_time s =
     (let timeFor = GetSysTimeByTimestamp (sensorTime (sensorInfo s));
          s = snd (set_date (uint (year timeFor)) (uint (month timeFor)) (uint (day timeFor)) s)
      in snd (set_time (uint (hour timeFor)) (uint (minute timeFor)) (uint (second timeFor)) s))"

definition ModbusCommand_sensor ::
  "u8 \<Rightarrow> u16 \<Rightarrow> u16 \<Rightarrow> 'a uart_t_scheme \<Rightarrow> u16 \<times> 'a uart_t_scheme" where
  "ModbusCommand_sensor rw reg data s =
     (if reg = REG_NOW_CO2 then
        (data, if rw = WRITE_CMD then upd_sensor (\<lambda>i. i\<lparr>co2 := uint data\<rparr>) s else s)
      else if reg = REG_NOW_HUMI then
        (data, if rw = WRITE_CMD then upd_sensor (\<lambda>i. i\<lparr>humi := uint data\<rparr>) s else s)
      else if reg = REG_NOW_TEMP then
        (data, if rw = WRITE_CMD then upd_sensor (\<lambda>i. i\<lparr>sensorTemp := uint data\<rparr>) s else s)
      else if reg = REG_NOW_LIGHT then
        (data, if rw = WRITE_CMD then upd_sensor (\<lambda>i. i\<lparr>light := uint data\<rparr>) s else s)
      else if reg = REG_NOW_TIME then
        (data, if rw = WRITE_CMD then s\<lparr>timeCorrect := 0 OR time_high data\<rparr> else s)
      else if reg = REG_NOW_TIME1 then
        (data, if rw = WRITE_CMD then
           (let s = s\<lparr>timeCorrect := timeCorrect s OR uint data\<rparr>;
                s = upd_sensor (\<lambda>i. i\<lparr>sensorTime := timeCorrect s\<rparr>) s
            in correct_time s)
         else s)
      else (0xFFFF, s))"

definition ModbusCommand :: "u8 \<Rightarrow> u16 \<Rightarrow> u16 \<Rightarrow> 'a uart_t_scheme \<Rightarrow> u16 \<times> 'a uart_t_scheme" where
  "ModbusCommand rw reg data s =
     (case ModbusCommand_ctrl rw reg data s of
        Some r \<Rightarrow> r
      | None \<Rightarrow>
          (case ModbusCommand_set rw reg data s of
             Some r \<Rightarrow> r
           | None \<Rightarrow> ModbusCommand_sensor rw reg data s))"

section \<open>Commands\<close>

text \<open>
  The loop of \<^verbatim>\<open>READ_MUTI\<close>: \<^verbatim>\<open>test\<close> is not cleared between registers.
\<close>

fun read_loop :: "nat \<Rightarrow> u16 \<Rightarrow> u16 \<Rightarrow> 'a uart_t_scheme \<Rightarrow> u16 list \<times> 'a uart_t_scheme" where
  "read_loop 0 reg test s = ([], s)"
| "read_loop (Suc n) reg test s =
     (let (test, s) = ModbusCommand READ_CMD reg test s;
          (vs, s) = read_loop n (reg + 1) test s
      in (test # vs, s))"

fun write_loop :: "nat \<Rightarrow> nat \<Rightarrow> u16 \<Rightarrow> u8 list \<Rightarrow> 'a uart_t_scheme \<Rightarrow> 'a uart_t_scheme" where
  "write_loop 0 i reg data s = s"
| "write_loop (Suc n) i reg data s =
     (let test = mk16 (data ! (7 + i * 2)) (data ! (8 + i * 2));
          s = snd (ModbusCommand WRITE_CMD (reg + of_nat i) test s)
      in write_loop n (i + 1) reg data s)"

definition with_crc :: "u8 list \<Rightarrow> u8 list" where
  "with_crc xs = xs @ [lo8 (usModbusRTU_CRC xs), hi8 (usModbusRTU_CRC xs)]"

definition read_reply :: "u8 \<Rightarrow> u8 \<Rightarrow> u8 \<Rightarrow> u16 list \<Rightarrow> u8 list" where
  "read_reply ad cmd sz vs = with_crc ([ad, cmd, sz] @ concat (map (\<lambda>v. [hi8 v, lo8 v]) vs))"

text \<open>
  \<^verbatim>\<open>len = size * 2 + 5\<close> is a \<^verbatim>\<open>u8\<close>. When it wraps, the reply is written past the
  end of the allocated block.
\<close>

definition cmd_read_muti :: "u8 list \<Rightarrow> 'a uart_t_scheme \<Rightarrow> 'a uart_t_scheme option" where
  "cmd_read_muti data s =
     (let ad = data ! 0; cmd = data ! 1;
          reg = mk16 (data ! 2) (data ! 3);
          sz = lo8 (mk16 (data ! 4) (data ! 5));
          len = sz * 2 + 5;
          (ok, s) = malloc_outcome s
      in if ok then
           if unat sz * 2 + 5 > unat len then None
           else
             (let (vs, s) = read_loop (unat sz) reg 0 s;
                  reply = read_reply ad cmd sz vs
              in Some (snd (AddToSendMsgList reply len s)))
         else Some s)"

definition cmd_write_single :: "u8 list \<Rightarrow> 'a uart_t_scheme \<Rightarrow> 'a uart_t_scheme" where
  "cmd_write_single data s =
     (let reg = mk16 (data ! 2) (data ! 3);
          test = mk16 (data ! 4) (data ! 5);
          s = snd (ModbusCommand WRITE_CMD reg test s)
      in if data ! 0 \<noteq> 0 then snd (AddToSendMsgList data 8 s) else s)"

definition cmd_write_muti :: "u8 list \<Rightarrow> 'a uart_t_scheme \<Rightarrow> 'a uart_t_scheme" where
  "cmd_write_muti data s =
     (let ad = data ! 0; cmd = data ! 1;
          reg = mk16 (data ! 2) (data ! 3);
          sz = lo8 (mk16 (data ! 4) (data ! 5));
          s = write_loop (unat sz) 0 reg data s
      in if ad \<noteq> 0 then
           (let (ok, s) = malloc_outcome s
            in if ok then snd (AddToSendMsgList (with_crc [ad, cmd, hi8 reg, lo8 reg, 0, sz]) 8 s) else s)
         else s)"

definition ModbusCommandAnalysis :: "u8 list \<Rightarrow> 'a uart_t_scheme \<Rightarrow> 'a uart_t_scheme option" where
  "ModbusCommandAnalysis data s =
     (let cmd = data ! 1
      in if cmd = READ_MUTI then cmd_read_muti data s
         else if cmd = WRITE_SINGLE then Some (cmd_write_single data s)
         else if cmd = WRITE_MUTI then Some (cmd_write_muti data s)
         else Some s)"

section \<open>Frames\<close>

definition be32 :: "u8 \<Rightarrow> u8 \<Rightarrow> u8 \<Rightarrow> u8 \<Rightarrow> u32" where
  "be32 a b c d = push_bit 24 (ucast a) OR push_bit 16 (ucast b) OR push_bit 8 (ucast c) OR ucast d"

definition Uart1Analysis :: "u8 list \<Rightarrow> u8 \<Rightarrow> 'a uart_t_scheme \<Rightarrow> 'a uart_t_scheme option" where
  "Uart1Analysis data len s =
     (let n = unat len
      in if n \<le> 2 then Some s
         else if mk16 (data ! (n - 1)) (data ! (n - 2)) \<noteq> usModbusRTU_CRC (take (n - 2) data) then Some s
         else if data ! 0 = REGISTER_CODE then
           (let s = (if data ! 1 = REGISTER_ANSER then
                       (let readId = be32 (data ! 2) (data ! 3) (data ! 4) (data ! 5)
                        in if ReadUniqueId s = readId
                           then upd_info (\<lambda>i. i\<lparr>registerState := YES, addr := data ! 7\<rparr>) s else s)
                     else s)
            in Some (SetLastConnectTime (GetTimeRun s) s))
         else if registerState (GetGlobalInfo s) = NO then Some s
         else if data ! 0 \<noteq> addr (GetGlobalInfo s) \<and> data ! 0 \<noteq> 0 then Some s
         else map_option (\<lambda>s. SetLastConnectTime (GetTimeRun s) s) (ModbusCommandAnalysis data s))"

definition GenerateRegisterData :: "'a uart_t_scheme \<Rightarrow> u8 list" where
  "GenerateRegisterData s =
     (let id = ReadUniqueId s
      in with_crc [REGISTER_CODE, 0, 0, 0, 0, 0, 6, addr (GetGlobalInfo s), infoType (GetGlobalInfo s),
           ucast (drop_bit 24 id), ucast (drop_bit 16 id), ucast (drop_bit 8 id), ucast id])"

section \<open>What a register access leaves alone\<close>

text \<open>The outputs, the timing of the control program and the message lists.\<close>

definition io_same :: "'a uart_t_scheme \<Rightarrow> 'a uart_t_scheme \<Rightarrow> bool" where
  "io_same s s' \<longleftrightarrow> pins s' = pins s \<and> unique_id s' = unique_id s \<and> ctlStatics s' = ctlStatics s \<and>
     timeRun s' = timeRun s \<and> lastConnectTime s' = lastConnectTime s \<and>
     sendMsgList s' = sendMsgList s \<and> recvMsgList s' = recvMsgList s \<and> uart1_tx s' = uart1_tx s \<and>
     uart1_msg s' = uart1_msg s \<and> malloc_ok s' = malloc_ok s \<and> malloc_pos s' = malloc_pos s"

lemma io_same_refl [simp]: "io_same s s"
  by (simp add: io_same_def)

lemma io_same_trans: "io_same s u \<Longrightarrow> io_same u v \<Longrightarrow> io_same s v"
  by (simp add: io_same_def)

lemma rtc_set_time_regs: "\<exists>r. snd (rtc_set_time now s) = s\<lparr>rtc_regs := r\<rparr>"
proof -
  have "\<exists>r. s = s\<lparr>rtc_regs := r\<rparr>" by (rule exI [of _ "rtc_regs s"]) simp
  then show ?thesis
    by (auto simp: rtc_set_time_def set_rtc_time_stamp_def Let_def split: prod.split)
qed

lemma set_clock_regs:
  "\<exists>r. snd (set_date y m d s) = s\<lparr>rtc_regs := r\<rparr>" "\<exists>r. snd (set_time h mi se s) = s\<lparr>rtc_regs := r\<rparr>"
proof -
  have "\<exists>r. s = s\<lparr>rtc_regs := r\<rparr>" by (rule exI [of _ "rtc_regs s"]) simp
  then show "\<exists>r. snd (set_date y m d s) = s\<lparr>rtc_regs := r\<rparr>" "\<exists>r. snd (set_time h mi se s) = s\<lparr>rtc_regs := r\<rparr>"
    using rtc_set_time_regs
    by (auto simp: set_date_def set_time_def Let_def split: option.split)
qed

lemma correct_time_regs: "\<exists>r. correct_time s = s\<lparr>rtc_regs := r\<rparr>"
proof -
  let ?t = "GetSysTimeByTimestamp (sensorTime (sensorInfo s))"
  obtain r where r: "snd (set_date (uint (year ?t)) (uint (month ?t)) (uint (day ?t)) s) = s\<lparr>rtc_regs := r\<rparr>"
    using set_clock_regs(1) by blast
  obtain r' where "snd (set_time (uint (hour ?t)) (uint (minute ?t)) (uint (second ?t)) (s\<lparr>rtc_regs := r\<rparr>))
      = s\<lparr>rtc_regs := r, rtc_regs := r'\<rparr>"
    using set_clock_regs(2) by blast
  then show ?thesis by (auto simp: correct_time_def Let_def r)
qed

lemma ModbusCommand_io: "io_same s (snd (ModbusCommand rw reg data s))"
proof -
  have c: "io_same s (snd r)" if "ModbusCommand_ctrl rw reg data s = Some r" for r
    using that
    by (auto simp: ModbusCommand_ctrl_def io_same_def ModuleLocation_def write_ctrl_def SetActionInfo_def
        Let_def split: if_splits)
  have b: "io_same s (snd r)" if "ModbusCommand_set rw reg data s = Some r" for r
    using that by (auto simp: ModbusCommand_set_def io_same_def Let_def split: if_splits)
  have t: "io_same (u :: 'a uart_t_scheme) (correct_time u)" for u
    using correct_time_regs [of u] by (auto simp: io_same_def)
  have "io_same s (snd (ModbusCommand_sensor rw reg data s))"
    using t [of "upd_sensor (\<lambda>i. i\<lparr>sensorTime := timeCorrect s OR uint data\<rparr>) (s\<lparr>timeCorrect := timeCorrect s OR uint data\<rparr>)"]
    by (auto simp: ModbusCommand_sensor_def io_same_def Let_def)
  with b c show ?thesis
    by (auto simp: ModbusCommand_def split: option.split)
qed

lemma read_loop_io: "read_loop n reg test s = (vs, s') \<Longrightarrow> io_same s s' \<and> length vs = n"
proof (induction n arbitrary: reg test s vs s')
  case (Suc n)
  obtain t1 s1 where m: "ModbusCommand READ_CMD reg test s = (t1, s1)" by force
  obtain vs1 s2 where r: "read_loop n (reg + 1) t1 s1 = (vs1, s2)" by force
  show ?case
    using Suc.prems Suc.IH [OF r] ModbusCommand_io [of s READ_CMD reg test] io_same_trans [of s s1 s2]
    by (auto simp: m r)
qed simp

lemma write_loop_io: "io_same s (write_loop n i reg data s)"
proof (induction n arbitrary: i s)
  case (Suc n)
  show ?case
    unfolding write_loop.simps Let_def
    by (rule io_same_trans [OF ModbusCommand_io Suc.IH])
qed simp

section \<open>The register file\<close>

text \<open>Registers that can be written and read back, and whether the value is kept in a byte.\<close>

definition rw_register :: "u16 \<Rightarrow> bool option" where
  "rw_register reg =
     (if reg \<in> {REG_CTRL, REG_DAY_SETPOINT, REG_NIGHT_SETPOINT, REG_DAY_START, REG_DAY_END} then Some False
      else if reg \<in> {REG_UNIT, REG_MODE, REG_DEADBAND, REG_TEMP_FROM} then Some True
      else None)"

definition reg_val :: "u16 \<Rightarrow> type_info_t \<Rightarrow> u16" where
  "reg_val reg i =
     (if reg = REG_CTRL then infoCtrl i else if reg = REG_DAY_SETPOINT then daySetPoint i
      else if reg = REG_NIGHT_SETPOINT then nightSetPoint i else if reg = REG_DAY_START then dayStartTime i
      else if reg = REG_DAY_END then dayEndTime i else if reg = REG_UNIT then ucast (infoUnit i)
      else if reg = REG_MODE then ucast (mode i) else if reg = REG_DEADBAND then ucast (deadBand i)
      else ucast (tempFrom i))"

definition reg_set :: "u16 \<Rightarrow> u16 \<Rightarrow> type_info_t \<Rightarrow> type_info_t" where
  "reg_set reg v i =
     (if reg = REG_CTRL then i\<lparr>infoCtrl := v\<rparr> else if reg = REG_DAY_SETPOINT then i\<lparr>daySetPoint := v\<rparr>
      else if reg = REG_NIGHT_SETPOINT then i\<lparr>nightSetPoint := v\<rparr> else if reg = REG_DAY_START then i\<lparr>dayStartTime := v\<rparr>
      else if reg = REG_DAY_END then i\<lparr>dayEndTime := v\<rparr> else if reg = REG_UNIT then i\<lparr>infoUnit := ucast v\<rparr>
      else if reg = REG_MODE then i\<lparr>mode := ucast v\<rparr> else if reg = REG_DEADBAND then i\<lparr>deadBand := ucast v\<rparr>
      else i\<lparr>tempFrom := ucast v\<rparr>)"

lemma rw_register_cases:
  assumes "rw_register reg = Some b"
  obtains "reg = REG_CTRL" "\<not> b" | "reg = REG_DAY_SETPOINT" "\<not> b" | "reg = REG_NIGHT_SETPOINT" "\<not> b"
    | "reg = REG_DAY_START" "\<not> b" | "reg = REG_DAY_END" "\<not> b"
    | "reg = REG_UNIT" "b" | "reg = REG_MODE" "b" | "reg = REG_DEADBAND" "b" | "reg = REG_TEMP_FROM" "b"
  using assms by (auto simp: rw_register_def split: if_splits)

lemma ModbusCommand_read_rw:
  assumes "rw_register reg = Some b"
  shows "fst (ModbusCommand READ_CMD reg x s) = reg_val reg (gInfo s)"
  using assms
  by (cases rule: rw_register_cases)
    (simp_all add: ModbusCommand_def ModbusCommand_ctrl_def ModbusCommand_set_def GetGlobalInfo_def reg_val_def Let_def)

lemma ModbusCommand_write_rw:
  assumes "rw_register reg = Some b"
  shows "gInfo (snd (ModbusCommand WRITE_CMD reg v s)) = reg_set reg v (gInfo s)"
  using assms
  by (cases rule: rw_register_cases)
    (simp_all add: ModbusCommand_def ModbusCommand_ctrl_def ModbusCommand_set_def GetGlobalInfo_def reg_set_def
      write_ctrl_def SetActionInfo_def Let_def)

lemma reg_val_set_same:
  assumes "rw_register reg = Some b"
  shows "reg_val reg (reg_set reg v i) = (if b then ucast (ucast v :: u8) else v)"
  using assms by (cases rule: rw_register_cases) (simp_all add: reg_val_def reg_set_def)

lemma reg_val_set_other: "reg' \<noteq> reg \<Longrightarrow> rw_register reg = Some b \<Longrightarrow> rw_register reg' = Some b' \<Longrightarrow>
    reg_val reg' (reg_set reg v i) = reg_val reg' i"
  by (erule rw_register_cases) (auto simp: reg_set_def reg_val_def rw_register_def)

text \<open>
  C11. Register round trip. Every configuration register reads back what was written to it, in full
  for the 16-bit registers and reduced to a byte for unit, wiring mode, dead band and temperature
  source; writing one leaves what the others read as.
\<close>

theorem ModbusCommand_write_read:
  assumes "rw_register reg = Some byte" and "rw_register reg' = Some byte'" and "reg' \<noteq> reg"
  shows "fst (ModbusCommand READ_CMD reg x (snd (ModbusCommand WRITE_CMD reg v s)))
      = (if byte then ucast (ucast v :: u8) else v) \<and>
    fst (ModbusCommand READ_CMD reg' x (snd (ModbusCommand WRITE_CMD reg v s)))
      = fst (ModbusCommand READ_CMD reg' x s)"
  using assms
  by (simp add: ModbusCommand_read_rw ModbusCommand_write_rw reg_val_set_same reg_val_set_other)

definition uart_demo :: uart_t where
  "uart_demo = comm_t.extend comm_demo
     \<lparr>uart1_open = True, uart1_msg = \<lparr>rx_size = 0, messageFlag = 0, rx_data = replicate 1024 0\<rparr>, timeCorrect = 0\<rparr>"

theorem ModbusCommand_write_read_witness:
  "fst (ModbusCommand READ_CMD REG_MODE 0 (snd (ModbusCommand WRITE_CMD REG_MODE 0x0102 uart_demo))) = 2"
  using ModbusCommand_write_read [of REG_MODE True REG_UNIT True 0 "0x0102" uart_demo]
  by (simp add: rw_register_def)

text \<open>
  The port register. Reading \<^verbatim>\<open>REG_PORT_STATE\<close> reports, in the bits from 0 to 4, exactly
  which of the relays W, Y, G, W2 and Y2 are on.
\<close>

theorem port_state_bits:
  "bit (fst (ModbusCommand READ_CMD REG_PORT_STATE x s)) n \<longleftrightarrow>
     (n = 0 \<and> pins s RELAY_W = 1) \<or> (n = 1 \<and> pins s RELAY_Y = 1) \<or> (n = 2 \<and> pins s RELAY_G = 1) \<or>
     (n = 3 \<and> pins s RELAY_W2 = 1) \<or> (n = 4 \<and> pins s RELAY_Y2 = 1)"
proof -
  have b: "bit (0x10 :: u16) n \<longleftrightarrow> n = 4" "bit (0x08 :: u16) n \<longleftrightarrow> n = 3" "bit (0x04 :: u16) n \<longleftrightarrow> n = 2"
    "bit (0x02 :: u16) n \<longleftrightarrow> n = 1" "bit (0x01 :: u16) n \<longleftrightarrow> n = 0"
    using bit_exp_iff [of 4 n, where 'a = "16 word"] bit_exp_iff [of 3 n, where 'a = "16 word"]
      bit_exp_iff [of 2 n, where 'a = "16 word"] bit_exp_iff [of 1 n, where 'a = "16 word"]
      bit_1_iff [of n, where 'a = "16 word"]
    by (cases "n < 16"; simp)+
  have "fst (ModbusCommand READ_CMD REG_PORT_STATE x s) = port_state s"
    by (simp add: ModbusCommand_def ModbusCommand_ctrl_def Let_def)
  moreover have "bit (if c then d OR m else d) n \<longleftrightarrow> bit d n \<or> c \<and> bit m n" for c and d m :: u16
    by (simp add: bit_or_iff)
  ultimately show ?thesis
    by (simp only: port_state_def Let_def b rt_pin_read_valid board_pins_valid) (simp, blast)
qed

section \<open>The clock over the bus\<close>

lemma or_low16:
  fixes a :: int and lo :: u16
  shows "push_bit 16 a OR uint lo = a * 65536 + uint lo"
proof -
  have l: "uint lo = take_bit 16 (uint lo)"
    using uint_lt2p [of lo] by (simp add: take_bit_int_eq_self)
  have "push_bit 16 a AND uint lo = 0"
    by (subst l) (rule bit_eqI, auto simp: bit_simps)
  then have "push_bit 16 a + uint lo = push_bit 16 a OR uint lo"
    by (rule disjunctive_add_eq_or)
  then show ?thesis by (simp add: push_bit_eq_mult)
qed

lemma time_high_pos:
  assumes "hi < 0x8000"
  shows "time_high hi = push_bit 16 (uint hi)"
proof -
  have hi: "uint hi < 32768" using assms by (simp add: word_less_def)
  have "uint (ucast hi :: u32) = uint hi"
    using uint_lt2p [of hi] by (simp add: unsigned_ucast_eq take_bit_int_eq_self)
  then have u: "uint (push_bit 16 (ucast hi) :: u32) = uint hi * 65536"
    using hi uint_lt2p [of hi] by (simp add: push_bit_eq_mult uint_word_ariths)
  have "sint (push_bit 16 (ucast hi) :: u32) = uint hi * 65536"
    using hi unfolding sint_uint u
    by (intro signed_take_bit_int_eq_self) (simp_all add: order_trans [of "- 32768" 0])
  then show ?thesis by (simp add: time_high_def push_bit_eq_mult)
qed

lemma GetSysTimeByTimestamp_fields:
  assumes "0 \<le> t" "t < 2147483648"
  shows "uint (year (GetSysTimeByTimestamp t)) = tm_year (localtime t) + 1900"
    "uint (month (GetSysTimeByTimestamp t)) = tm_mon (localtime t) + 1"
    "uint (day (GetSysTimeByTimestamp t)) = tm_mday (localtime t)"
    "uint (hour (GetSysTimeByTimestamp t)) = tm_hour (localtime t)"
    "uint (minute (GetSysTimeByTimestamp t)) = tm_min (localtime t)"
    "uint (second (GetSysTimeByTimestamp t)) = tm_sec (localtime t)"
proof -
  have *: "uint (word_of_int x :: u16) = x" if "0 \<le> x" "x < 65536" for x
    using that by (simp add: uint_word_of_int)
  show "uint (year (GetSysTimeByTimestamp t)) = tm_year (localtime t) + 1900"
    "uint (month (GetSysTimeByTimestamp t)) = tm_mon (localtime t) + 1"
    "uint (day (GetSysTimeByTimestamp t)) = tm_mday (localtime t)"
    "uint (hour (GetSysTimeByTimestamp t)) = tm_hour (localtime t)"
    "uint (minute (GetSysTimeByTimestamp t)) = tm_min (localtime t)"
    "uint (second (GetSysTimeByTimestamp t)) = tm_sec (localtime t)"
    unfolding GetSysTimeByTimestamp_def Let_def type_sys_time.select_convs
    by (rule *; use localtime_date [OF assms] time_of_day [OF assms] in linarith)+
qed

lemma correct_time_sets:
  assumes "rtc_ok s" "sensorTime (sensorInfo s) = t" "946684800 \<le> t" "t < 2147472000" "0 \<le> time_now s"
  shows "time_now (correct_time s) = t"
proof -
  have t: "0 \<le> t" "t < 2147483648" using assms by simp_all
  obtain s1 where s1: "set_date (tm_year (localtime t) + 1900) (tm_mon (localtime t) + 1) (tm_mday (localtime t)) s = (RT_EOK, s1)"
    "time_now s1 = t div 86400 * 86400 + time_now s mod 86400" "rtc_ok s1"
    using set_date_of [OF assms(1) assms(5,3,4)] by blast
  have d: "10957 \<le> t div 86400" "t div 86400 < 24855"
    using assms zdiv_mono1 [of 946684800 t 86400] zdiv_mono1 [of t 2147471999 86400] by simp_all
  then have u: "946684800 \<le> time_now s1" "time_now s1 < 2147472000"
    using pos_mod_bound [of 86400 "time_now s"] pos_mod_sign [of 86400 "time_now s"] s1(2) by linarith+
  obtain s2 where s2: "set_time (tm_hour (localtime t)) (tm_min (localtime t)) (tm_sec (localtime t)) s1 = (RT_EOK, s2)"
    "time_now s2 = time_now s1 div 86400 * 86400 + t mod 86400"
    using set_time_of [OF s1(3) u t] by blast
  have "correct_time s = s2"
    by (simp add: correct_time_def Let_def assms(2) GetSysTimeByTimestamp_fields [OF t] s1(1) s2(1))
  moreover have "time_now s1 div 86400 = t div 86400"
    using s1(2) by simp
  ultimately show ?thesis by (simp add: s2(2))
qed

lemma cmd_write_muti_clock:
  assumes "rtc_ok s" and "946684800 \<le> t" and "t < 2147472000"
    and "data ! 0 = 0" and "data ! 2 = 0" and "data ! 3 = 9" and "data ! 4 = 0" and "data ! 5 = 2"
    and "mk16 (data ! 7) (data ! 8) = word_of_int (t div 65536)" and "mk16 (data ! 9) (data ! 10) = word_of_int (t mod 65536)"
    and "0 \<le> time_now s"
  shows "time_now (cmd_write_muti data s) = t \<and> sendMsgList (cmd_write_muti data s) = sendMsgList s"
proof -
  define hi :: u16 where "hi = word_of_int (t div 65536)"
  define lo :: u16 where "lo = word_of_int (t mod 65536)"
  have q: "0 \<le> t div 65536" "t div 65536 < 32768"
    using assms zdiv_mono1 [of t 2147483647 65536] by (simp_all add: pos_imp_zdiv_nonneg_iff)
  then have hi: "uint hi = t div 65536" by (simp add: hi_def uint_word_of_int)
  then have hi8: "hi < 0x8000" using q by (simp add: word_less_def)
  have lo: "uint lo = t mod 65536" by (simp add: lo_def uint_word_of_int)
  define s1 where "s1 = s\<lparr>timeCorrect := 0 OR time_high hi\<rparr>"
  define s2 where "s2 = s1\<lparr>timeCorrect := t, sensorInfo := (sensorInfo s)\<lparr>sensorTime := t\<rparr>\<rparr>"
  have m: "mk16 0 9 = (9 :: u16)" "lo8 (mk16 0 2) = 2" by (simp_all add: mk16_def lo8_def)
  have tc: "timeCorrect s1 OR uint lo = t"
    by (simp add: s1_def time_high_pos [OF hi8] or_low16) (simp add: hi lo)
  have c1: "snd (ModbusCommand WRITE_CMD 9 hi s) = s1"
    by (simp add: ModbusCommand_def ModbusCommand_ctrl_def ModbusCommand_set_def ModbusCommand_sensor_def s1_def Let_def)
  have c2: "snd (ModbusCommand WRITE_CMD 10 lo s1) = correct_time s2"
    by (simp add: ModbusCommand_def ModbusCommand_ctrl_def ModbusCommand_set_def ModbusCommand_sensor_def s2_def
        Let_def tc) (simp add: s1_def)
  have w: "write_loop 2 0 9 data s = correct_time s2"
    using assms(9,10) by (simp add: numeral_2_eq_2 hi_def [symmetric] lo_def [symmetric] c1 c2 eval_nat_numeral)
  then have "cmd_write_muti data s = correct_time s2"
    using assms(4-8) by (simp add: cmd_write_muti_def Let_def m)
  moreover have "rtc_ok s2" "sensorTime (sensorInfo s2) = t"
    using assms(1) by (simp_all add: s2_def s1_def rtc_ok_def)
  moreover have "sendMsgList (correct_time s2) = sendMsgList s"
    using correct_time_regs [of s2] by (auto simp: s2_def s1_def)
  moreover have "time_now s2 = time_now s" by (simp add: s2_def s1_def time_now_def get_rtc_timestamp_def)
  ultimately show ?thesis
    using correct_time_sets [of s2 t] assms(2,3,11) by simp
qed

section \<open>Frames: acceptance and rejection\<close>

lemma with_crc_residue: "usModbusRTU_CRC (with_crc xs) = 0"
  by (simp add: with_crc_def crc16_residue)

lemma with_crc_length: "length (with_crc xs) = length xs + 2"
  by (simp add: with_crc_def)

lemma frame_check_buffer:
  assumes "2 \<le> length f"
  shows "mk16 ((f @ r) ! (length f - 1)) ((f @ r) ! (length f - 2)) = usModbusRTU_CRC (take (length f - 2) (f @ r))
    \<longleftrightarrow> usModbusRTU_CRC f = 0"
  using frame_check_residue [OF assms] assms by (cases "f = []") (simp_all add: nth_append)

lemma of_nat_u8_length: "length f \<le> 255 \<Longrightarrow> unat (of_nat (length f) :: u8) = length f"
  by (simp add: unat_of_nat)

text \<open>
  C12. Setting the clock over the bus. A broadcast frame that writes the two halves of a stamp
  from the year 2000 to the end of 2038-01-18 to the registers 9 and 10 leaves the real-time clock of
  a registered module at exactly that stamp, queues no answer and restarts the link timer. The clock
  may show any time before 2038-01-19 03:14:08 meanwhile; from then on the stamp the source reads is
  negative, and date and time of day are mixed wrongly on the way.
\<close>

theorem broadcast_sets_clock:
  assumes "rtc_ok s" and "registerState (gInfo s) = YES" and "946684800 \<le> t" and "t < 2147472000"
    and "0 \<le> time_now s" and "h = word_of_int (t div 65536)" and "l = word_of_int (t mod 65536)"
  shows "\<exists>u. Uart1Analysis (with_crc [0, WRITE_MUTI, 0, 9, 0, 2, 4, hi8 h, lo8 h, hi8 l, lo8 l] @ rest) 13 s = Some u \<and>
    time_now u = t \<and> sendMsgList u = sendMsgList s \<and> lastConnectTime u = timeRun s"
proof -
  define f where "f = with_crc [0, WRITE_MUTI, 0, 9, 0, 2, 4, hi8 h, lo8 h, hi8 l, lo8 l]"
  have f: "length f = 13" "(f @ rest) ! 0 = 0" "(f @ rest) ! 1 = WRITE_MUTI" "(f @ rest) ! 2 = 0" "(f @ rest) ! 3 = 9"
    "(f @ rest) ! 4 = 0" "(f @ rest) ! 5 = 2" "(f @ rest) ! 7 = hi8 h" "(f @ rest) ! 8 = lo8 h" "(f @ rest) ! 9 = hi8 l"
    "(f @ rest) ! 10 = lo8 l"
    by (simp_all add: f_def with_crc_def)
  have crc: "mk16 ((f @ rest) ! 12) ((f @ rest) ! 11) = usModbusRTU_CRC (take 11 (f @ rest))"
    using frame_check_buffer [of f rest] f(1) with_crc_residue by (simp add: f_def)
  define x where "x = cmd_write_muti (f @ rest) s"
  have x: "time_now x = t" "sendMsgList x = sendMsgList s"
    using cmd_write_muti_clock [OF assms(1,3,4), of "f @ rest"] f assms(5-7) by (simp_all add: x_def)
  have "io_same s x" unfolding x_def cmd_write_muti_def f Let_def by (simp add: write_loop_io)
  then have "timeRun x = timeRun s" by (simp add: io_same_def)
  moreover have "Uart1Analysis (f @ rest) 13 s = Some (SetLastConnectTime (GetTimeRun x) x)"
    using assms(2) f crc by (simp add: Uart1Analysis_def ModbusCommandAnalysis_def GetGlobalInfo_def x_def Let_def)
  moreover have "time_now (SetLastConnectTime n x) = time_now x" for n
    by (simp add: time_now_def get_rtc_timestamp_def SetLastConnectTime_def)
  ultimately show ?thesis using x unfolding f_def by (simp add: GetTimeRun_def SetLastConnectTime_def)
qed

theorem broadcast_sets_clock_witness:
  "\<exists>u. Uart1Analysis (with_crc [0, WRITE_MUTI, 0, 9, 0, 2, 4, 0x65, 0x53, 0xF1, 0x00] @ []) 13
       (uart_demo\<lparr>gInfo := (gInfo uart_demo)\<lparr>registerState := YES\<rparr>\<rparr>) = Some u \<and> time_now u = 1700000000"
proof -
  let ?s = "uart_demo\<lparr>gInfo := (gInfo uart_demo)\<lparr>registerState := YES\<rparr>\<rparr>"
  have "rtc_ok ?s"
    by (simp add: rtc_ok_def uart_demo_def comm_t.defs comm_demo_def ctl_t.defs ctl_demo_def ntc_t.defs ntc_demo_def)
  moreover have "mktime \<lparr>tm_sec = 0, tm_min = 0, tm_hour = 0, tm_mday = 1, tm_mon = 0, tm_year = 123, tm_wday = 0, tm_yday = 0\<rparr> =
      Some 1672531200"
    by code_simp
  then have "0 \<le> time_now ?s"
    unfolding time_now_def get_rtc_timestamp_def by (simp add: time_t_id uart_demo_def comm_t.defs comm_demo_def ctl_t.defs ctl_demo_def ntc_t.defs ntc_demo_def)
  moreover have "hi8 25939 = 0x65" "lo8 25939 = 0x53" "hi8 61696 = 0xF1" "lo8 61696 = 0x00" by (simp_all add: hi8_def lo8_def)
  ultimately show ?thesis
    using broadcast_sets_clock [of ?s 1700000000 25939 61696 "[]"] by auto
qed

text \<open>
  C10. A corrupted frame does nothing. Take a frame of up to 255 bytes that passes the check and
  replace any one of its bytes, the checksum included. The receive callback then reports an error
  and does not raise the message flag, and the analysis of the buffer leaves the whole state as it
  is.
\<close>

theorem corrupted_frame_ignored:
  assumes "usModbusRTU_CRC f = 0" and "2 < length f" and "length f \<le> 255"
    and "i < length f" and "v \<noteq> f ! i"
  shows "Uart1Analysis (f[i := v] @ rest) (of_nat (length f)) s = Some s \<and>
    (\<exists>s'. Uart1_input (f[i := v]) s = Some (RT_ERROR, s') \<and> messageFlag (uart1_msg s') = messageFlag (uart1_msg s))"
proof (rule conjI)
  let ?f = "f[i := v]"
  have "usModbusRTU_CRC ?f \<noteq> 0"
    using crc16_detects_byte [OF assms(4,5)] assms(1) by simp
  then have bad: "mk16 ((?f @ r) ! (length f - 1)) ((?f @ r) ! (length f - 2))
      \<noteq> usModbusRTU_CRC (take (length f - 2) (?f @ r))" for r
    using frame_check_buffer [of ?f r] assms(2) by simp
  show "Uart1Analysis (?f @ rest) (of_nat (length f)) s = Some s"
    using bad assms(2) by (simp add: Uart1Analysis_def Let_def of_nat_u8_length [OF assms(3)] del: take_append)
  show "\<exists>s'. Uart1_input ?f s = Some (RT_ERROR, s') \<and> messageFlag (uart1_msg s') = messageFlag (uart1_msg s)"
    using bad [of "drop (length f) (rx_data (uart1_msg s))"] assms(2,3)
    by (simp add: Uart1_input_def Let_def del: take_append)
qed

lemma demo_frame: "usModbusRTU_CRC (with_crc [1, 6, 4, 7, 0, 250]) = 0"
  by (rule with_crc_residue)

theorem corrupted_frame_ignored_witness:
  "Uart1Analysis ((with_crc [1, 6, 4, 7, 0, 250])[3 := 8] @ []) 8 uart_demo = Some uart_demo"
  using corrupted_frame_ignored [of "with_crc [1, 6, 4, 7, 0, 250]" 3 8 "[]" uart_demo]
  by (simp add: with_crc_residue with_crc_length) (simp add: with_crc_def)

text \<open>
  Before registration the bus can change nothing but the registration itself. While the module
  is unregistered, analysing any buffer ends; the settings stay as they are unless the frame is the
  registration answer for the module's own identifier, which registers it under the address the
  answer carries; no command runs, nothing is queued, no output changes.
\<close>

theorem unregistered_gate:
  assumes "registerState (gInfo s) = NO"
  shows "\<exists>s'. Uart1Analysis data len s = Some s' \<and> io_same (s\<lparr>lastConnectTime := lastConnectTime s'\<rparr>) s' \<and>
    sensorInfo s' = sensorInfo s \<and> actionInfo s' = actionInfo s \<and>
    (gInfo s' = gInfo s \<or>
     (data ! 0 = 0xFA \<and> data ! 1 = 0x80 \<and> be32 (data ! 2) (data ! 3) (data ! 4) (data ! 5) = ReadUniqueId s \<and>
      gInfo s' = (gInfo s)\<lparr>registerState := YES, addr := data ! 7\<rparr>))"
  using assms
  by (auto simp: Uart1Analysis_def Let_def GetGlobalInfo_def io_same_def SetLastConnectTime_def)

theorem unregistered_gate_witness:
  "\<exists>s'. Uart1Analysis [1, 6, 4, 4, 0, 2, 0, 0] 8 uart_demo = Some s' \<and> gInfo s' = gInfo uart_demo"
proof -
  have "registerState (gInfo uart_demo) = NO"
    by (simp add: uart_demo_def comm_t.defs comm_demo_def ctl_t.defs ctl_demo_def ntc_t.defs)
  from unregistered_gate [OF this, of "[1, 6, 4, 4, 0, 2, 0, 0]" 8] show ?thesis by auto
qed

section \<open>Registration\<close>

lemma be32_bytes: "be32 (ucast (drop_bit 24 w)) (ucast (drop_bit 16 w)) (ucast (drop_bit 8 w)) (ucast w) = w"
proof (rule bit_word_eqI)
  fix n
  assume "n < LENGTH(32)"
  then consider "n < 8" | "8 \<le> n" "n < 16" | "16 \<le> n" "n < 24" | "24 \<le> n" "n < 32"
    by fastforce
  then show "bit (be32 (ucast (drop_bit 24 w)) (ucast (drop_bit 16 w)) (ucast (drop_bit 8 w)) (ucast w)) n = bit w n"
    by cases (auto simp: be32_def bit_simps)
qed

text \<open>The registration handshake. The request is a fifteen-byte frame with a valid checksum; a
  master that answers with the identifier bytes taken from the request and a new address registers
  the module under that address and starts the link timer.
\<close>

theorem registration_handshake:
  "let req = GenerateRegisterData s; ans = with_crc [0xFA, 0x80, req ! 9, req ! 10, req ! 11, req ! 12, x, a]
   in length req = 15 \<and> usModbusRTU_CRC req = 0 \<and>
    (\<exists>s'. Uart1Analysis ans 10 s = Some s' \<and> registerState (gInfo s') = YES \<and> addr (gInfo s') = a \<and>
      lastConnectTime s' = timeRun s)"
proof -
  define req where "req = GenerateRegisterData s"
  define ans where "ans = with_crc [0xFA, 0x80, req ! 9, req ! 10, req ! 11, req ! 12, x, a]"
  have ans: "length ans = 10" "ans ! 0 = 0xFA" "ans ! 1 = 0x80" "ans ! 7 = a"
    "be32 (ans ! 2) (ans ! 3) (ans ! 4) (ans ! 5) = ReadUniqueId s"
    by (simp_all add: ans_def req_def GenerateRegisterData_def with_crc_def Let_def be32_bytes)
  have "mk16 (ans ! 9) (ans ! 8) = usModbusRTU_CRC (take 8 ans)"
    using frame_check_residue [of ans] ans(1) with_crc_residue by (simp add: ans_def)
  then have "Uart1Analysis ans 10 s = Some (SetLastConnectTime (timeRun s)
      (upd_info (\<lambda>i. i\<lparr>registerState := YES, addr := a\<rparr>) s))"
    by (simp add: Uart1Analysis_def Let_def ans ans(3) [unfolded One_nat_def] GetTimeRun_def)
  moreover have "length req = 15" "usModbusRTU_CRC req = 0"
    by (simp_all add: req_def GenerateRegisterData_def Let_def with_crc_residue with_crc_length)
  ultimately show ?thesis
    by (simp add: SetLastConnectTime_def Let_def req_def [symmetric] ans_def [symmetric])
qed

section \<open>Answers to reads\<close>

lemma AddToSendMsgList_frame [simp]:
  fixes s :: "'a uart_t_scheme"
  shows "pins (snd (AddToSendMsgList data len s)) = pins s"
    "ctlStatics (snd (AddToSendMsgList data len s)) = ctlStatics s"
    "gInfo (snd (AddToSendMsgList data len s)) = gInfo s"
    "timeRun (snd (AddToSendMsgList data len s)) = timeRun s"
    "malloc_ok (snd (AddToSendMsgList data len s)) = malloc_ok s"
    "uart1_msg (snd (AddToSendMsgList data len s)) = uart1_msg s"
    "uart1_tx (snd (AddToSendMsgList data len s)) = uart1_tx s"
  by (simp_all add: AddToSendMsgList_def malloc_outcome_def)

lemma concat_bytes_length: "length (concat (map (\<lambda>v. [hi8 v, lo8 v]) vs)) = 2 * length vs"
  by (induction vs) simp_all

lemma concat_bytes_nth:
  "i < length vs \<Longrightarrow> concat (map (\<lambda>v. [hi8 v, lo8 v]) vs) ! (2 * i) = hi8 (vs ! i) \<and>
     concat (map (\<lambda>v. [hi8 v, lo8 v]) vs) ! Suc (2 * i) = lo8 (vs ! i)"
proof (induction vs arbitrary: i)
  case (Cons v vs)
  then show ?case by (cases i) auto
qed simp

lemma read_reply_nth:
  assumes "i < length vs"
  shows "mk16 (read_reply ad cmd sz vs ! (3 + 2 * i)) (read_reply ad cmd sz vs ! (4 + 2 * i)) = vs ! i"
proof -
  have "Suc (2 * i) < length (concat (map (\<lambda>v. [hi8 v, lo8 v]) vs))" using assms by (simp add: concat_bytes_length)
  then have "read_reply ad cmd sz vs ! (3 + 2 * i) = hi8 (vs ! i)" "read_reply ad cmd sz vs ! (4 + 2 * i) = lo8 (vs ! i)"
    using concat_bytes_nth [OF assms] by (simp_all add: read_reply_def with_crc_def nth_append nth_Cons' eval_nat_numeral)
  then show ?thesis by simp
qed

lemma ModbusCommand_read_info: "gInfo (snd (ModbusCommand READ_CMD reg x s)) = gInfo s"
  by (simp add: ModbusCommand_def ModbusCommand_ctrl_def ModbusCommand_set_def ModbusCommand_sensor_def ModuleLocation_def Let_def)

lemma read_loop_values:
  assumes "read_loop n reg x s = (vs, s')" "i < n" "rw_register (reg + of_nat i) \<noteq> None"
  shows "vs ! i = reg_val (reg + of_nat i) (gInfo s)"
  using assms
proof (induction n arbitrary: reg x s vs s' i)
  case (Suc n)
  obtain t1 s1 where m: "ModbusCommand READ_CMD reg x s = (t1, s1)" by force
  obtain us s2 where r: "read_loop n (reg + 1) t1 s1 = (us, s2)" by force
  have vs: "vs = t1 # us" and g: "gInfo s1 = gInfo s"
    using Suc.prems(1) ModbusCommand_read_info [of reg x s] by (simp_all add: m r)
  show ?case
  proof (cases i)
    case 0
    then obtain b where "rw_register reg = Some b" using Suc.prems(3) by auto
    from ModbusCommand_read_rw [OF this, of x s] show ?thesis using 0 vs by (simp add: m)
  next
    case (Suc j)
    then show ?thesis using Suc.IH [OF r, of j] Suc.prems vs g by (simp add: add.assoc)
  qed
qed simp

lemma read_reply_length: "length (read_reply ad cmd sz vs) = 2 * length vs + 5"
  by (simp add: read_reply_def with_crc_length concat_bytes_length)

lemma read_len:
  "unat sz \<le> 125 \<Longrightarrow> unat (sz * 2 + 5 :: u8) = unat sz * 2 + 5"
  "125 < unat sz \<Longrightarrow> unat (sz * 2 + 5 :: u8) < unat sz * 2 + 5"
proof -
  have u: "unat (sz * 2 + 5 :: u8) = (unat sz * 2 + 5) mod 256"
    by (simp add: unat_word_ariths mod_simps)
  show "unat sz \<le> 125 \<Longrightarrow> unat (sz * 2 + 5 :: u8) = unat sz * 2 + 5" by (simp add: u)
  show "125 < unat sz \<Longrightarrow> unat (sz * 2 + 5 :: u8) < unat sz * 2 + 5"
    unfolding u using mod_less_divisor [of 256 "unat sz * 2 + 5"] by linarith
qed

text \<open>
  C38. Answers to \<^verbatim>\<open>READ_MUTI\<close>, with memory available. Up to 125 registers the command ends;
  with up to 7 the queue gets, in front, one frame of \<^verbatim>\<open>2 * size + 5\<close> bytes with a valid
  checksum that carries the value of every configuration register asked for (unless the queue is
  full or already holds a message that starts with it); from 8 to 125
  no answer is ever queued, the frame being longer than a queue entry; from 126 the eight-bit
  length wraps and the reply overruns its block.
\<close>

theorem read_muti_answer:
  assumes "\<forall>n. malloc_ok s n" and "msgs_ok (sendMsgList s)"
  shows "let k = unat (data ! 5) in
    (k \<le> 7 \<longrightarrow> (\<exists>s' reply. cmd_read_muti data s = Some s' \<and> length reply = 2 * k + 5 \<and>
        usModbusRTU_CRC reply = 0 \<and> take 2 reply = [data ! 0, data ! 1] \<and>
        (\<forall>i < k. rw_register (mk16 (data ! 2) (data ! 3) + of_nat i) \<noteq> None \<longrightarrow>
           mk16 (reply ! (3 + 2 * i)) (reply ! (4 + 2 * i)) = reg_val (mk16 (data ! 2) (data ! 3) + of_nat i) (gInfo s)) \<and>
        (if length (sendMsgList s) < 20 \<and> \<not> is_prefix_of_some reply (2 * k + 5) (sendMsgList s)
         then sendMsgList s' = new_msg reply (of_nat (2 * k + 5)) # sendMsgList s
         else sendMsgList s' = sendMsgList s))) \<and>
    (7 < k \<and> k \<le> 125 \<longrightarrow> (\<exists>s'. cmd_read_muti data s = Some s' \<and> sendMsgList s' = sendMsgList s)) \<and>
    (125 < k \<longrightarrow> cmd_read_muti data s = None)"
proof -
  define sz where "sz = data ! 5"
  define reg where "reg = mk16 (data ! 2) (data ! 3)"
  define s0 where "s0 = snd (malloc_outcome s)"
  obtain vs s1 where r: "read_loop (unat sz) reg 0 s0 = (vs, s1)" by force
  note R = read_loop_io [OF r]
  define reply where "reply = read_reply (data ! 0) (data ! 1) sz vs"
  have len: "length reply = 2 * unat sz + 5" using R by (simp add: reply_def read_reply_length)
  have crc: "usModbusRTU_CRC reply = 0" by (simp add: reply_def read_reply_def with_crc_residue)
  have head: "take 2 reply = [data ! 0, data ! 1]" by (simp add: reply_def read_reply_def with_crc_def)
  have payload: "\<forall>i < unat sz. rw_register (reg + of_nat i) \<noteq> None \<longrightarrow>
      mk16 (reply ! (3 + 2 * i)) (reply ! (4 + 2 * i)) = reg_val (reg + of_nat i) (gInfo s)"
    using read_loop_values [OF r] R by (simp add: reply_def read_reply_nth s0_def malloc_outcome_def)
  have s1: "sendMsgList s1 = sendMsgList s" "can_malloc s1" "msgs_ok (sendMsgList s1)"
    using R assms by (simp_all add: io_same_def s0_def malloc_outcome_def can_malloc_def)
  have run: "cmd_read_muti data s = Some (snd (AddToSendMsgList reply (sz * 2 + 5) s1))" if "unat sz \<le> 125"
    using assms(1) read_len(1) [OF that] r
    by (simp add: cmd_read_muti_def Let_def malloc_outcome_def sz_def [symmetric] reg_def [symmetric] s0_def reply_def)
  have add: "unat (sz * 2 + 5) \<le> length reply" if "unat sz \<le> 125"
    using read_len(1) [OF that] len by simp
  note A = send.add_spec [OF s1(3) add, of "fst (AddToSendMsgList reply (sz * 2 + 5) s1)"
      "snd (AddToSendMsgList reply (sz * 2 + 5) s1)", simplified]
  have w: "of_nat (2 * unat sz + 5) = sz * 2 + 5" by (simp add: mult.commute)
  have small: "\<exists>s' reply. cmd_read_muti data s = Some s' \<and> length reply = 2 * unat sz + 5 \<and>
        usModbusRTU_CRC reply = 0 \<and> take 2 reply = [data ! 0, data ! 1] \<and>
        (\<forall>i < unat sz. rw_register (reg + of_nat i) \<noteq> None \<longrightarrow>
           mk16 (reply ! (3 + 2 * i)) (reply ! (4 + 2 * i)) = reg_val (reg + of_nat i) (gInfo s)) \<and>
        (if length (sendMsgList s) < 20 \<and> \<not> is_prefix_of_some reply (2 * unat sz + 5) (sendMsgList s)
         then sendMsgList s' = new_msg reply (of_nat (2 * unat sz + 5)) # sendMsgList s
         else sendMsgList s' = sendMsgList s)" if k: "unat sz \<le> 7"
  proof (intro exI conjI)
    have k': "unat sz \<le> 125" using k by simp
    show "cmd_read_muti data s = Some (snd (AddToSendMsgList reply (sz * 2 + 5) s1))" by (rule run [OF k'])
    show "if length (sendMsgList s) < 20 \<and> \<not> is_prefix_of_some reply (2 * unat sz + 5) (sendMsgList s)
      then sendMsgList (snd (AddToSendMsgList reply (sz * 2 + 5) s1)) = new_msg reply (of_nat (2 * unat sz + 5)) # sendMsgList s
      else sendMsgList (snd (AddToSendMsgList reply (sz * 2 + 5) s1)) = sendMsgList s"
      using A [OF k'] k read_len(1) [OF k'] s1 by (simp add: w mult.commute split: if_splits)
  qed (fact len crc head payload)+
  have large: "sendMsgList (snd (AddToSendMsgList reply (sz * 2 + 5) s1)) = sendMsgList s"
    if "7 < unat sz" "unat sz \<le> 125"
    using that A [OF that(2)] read_len(1) [OF that(2)] s1 by simp
  have huge: "cmd_read_muti data s = None" if "125 < unat sz"
    using that assms(1) read_len(2) [OF that]
    by (simp add: cmd_read_muti_def Let_def malloc_outcome_def sz_def [symmetric])
  show ?thesis
    unfolding Let_def sz_def [symmetric] reg_def [symmetric] using small large huge run by blast
qed

theorem read_muti_answer_witness:
  "cmd_read_muti [1, 3, 4, 0, 0, 200] uart_demo = None"
proof -
  have "\<forall>n. malloc_ok uart_demo n" "msgs_ok (sendMsgList uart_demo)"
    by (simp_all add: uart_demo_def comm_t.defs comm_demo_def ctl_t.defs ctl_demo_def ntc_t.defs ntc_demo_def msgs_ok_def)
  from read_muti_answer [OF this, of "[1, 3, 4, 0, 0, 200]"] show ?thesis by (simp add: Let_def)
qed

section \<open>What the analysis of a frame keeps\<close>

lemma ModbusCommandAnalysis_keeps:
  assumes "ModbusCommandAnalysis data s = Some s'"
  shows "pins s' = pins s" "ctlStatics s' = ctlStatics s" "timeRun s' = timeRun s" "uart1_tx s' = uart1_tx s"
proof -
  have r: "pins s' = pins s \<and> ctlStatics s' = ctlStatics s \<and> timeRun s' = timeRun s \<and> uart1_tx s' = uart1_tx s"
    if "cmd_read_muti data s = Some s'"
    using that read_loop_io [of "unat (lo8 (mk16 (data ! 4) (data ! 5)))" "mk16 (data ! 2) (data ! 3)" 0 "snd (malloc_outcome s)"]
    by (auto simp: cmd_read_muti_def Let_def malloc_outcome_def io_same_def split: if_splits prod.splits)
  have w: "io_same s (snd (ModbusCommand WRITE_CMD reg d s))" for reg d by (rule ModbusCommand_io)
  have "pins s' = pins s \<and> ctlStatics s' = ctlStatics s \<and> timeRun s' = timeRun s \<and> uart1_tx s' = uart1_tx s"
    if "s' = cmd_write_single data s"
    using that w [of "mk16 (data ! 2) (data ! 3)" "mk16 (data ! 4) (data ! 5)"]
    by (simp add: cmd_write_single_def Let_def io_same_def)
  moreover have "pins s' = pins s \<and> ctlStatics s' = ctlStatics s \<and> timeRun s' = timeRun s \<and> uart1_tx s' = uart1_tx s"
    if "s' = cmd_write_muti data s"
    using that write_loop_io [of s "unat (data ! 5)" 0 "mk16 (data ! 2) (data ! 3)" data]
    by (simp add: cmd_write_muti_def Let_def io_same_def malloc_outcome_def)
  ultimately show "pins s' = pins s" "ctlStatics s' = ctlStatics s" "timeRun s' = timeRun s" "uart1_tx s' = uart1_tx s"
    using assms r by (auto simp: ModbusCommandAnalysis_def Let_def split: if_splits)
qed

lemma Uart1Analysis_keeps:
  assumes "Uart1Analysis data len s = Some s'"
  shows "pins s' = pins s" "ctlStatics s' = ctlStatics s" "timeRun s' = timeRun s" "uart1_tx s' = uart1_tx s"
  using assms ModbusCommandAnalysis_keeps [of data s]
  by (auto simp: Uart1Analysis_def Let_def SetLastConnectTime_def split: if_splits)

end
