(* ===== verification/Hvac_Uart.thy ===== *)
theory Hvac_Uart
  imports Hvac_Modbus
begin

text \<open>
  The communication task \<^verbatim>\<open>applications/Uart/Uart.c\<close>: the settings in flash and the task's
  loop. The flash is a byte map; erasing a page fills it with \<^verbatim>\<open>0xFF\<close>; erasing and
  programming may fail as the HAL's outcomes say. The settings are written as the 25 bytes of the
  packed structure, rounded up to whole double words, so that seven bytes that follow the structure in
  memory, \<open>after_info\<close>, are written too.
\<close>

section \<open>State\<close>

record flash_t = uart_t +
  flash :: "nat \<Rightarrow> u8"
  hal_erase_ok :: bool
  hal_program_ok :: "nat \<Rightarrow> bool"
  program_pos :: nat
  after_info :: "u8 list"
  last_crc :: u16
  uart_time1S :: u16
  uart_time10S :: u16
  uart_Timer10sTouch :: u8

abbreviation (input) DATA_BLOCK_START :: nat where "DATA_BLOCK_START \<equiv> 0x801FF00"
abbreviation (input) STM32_FLASH_END_ADDRESS :: nat where "STM32_FLASH_END_ADDRESS \<equiv> 0x8020000"
abbreviation (input) RT_EINVAL :: int where "RT_EINVAL \<equiv> 10"

section \<open>The packed settings\<close>

definition le16 :: "u16 \<Rightarrow> u8 list" where
  "le16 w = [lo8 w, hi8 w]"

definition info_bytes :: "type_info_t \<Rightarrow> u8 list" where
  "info_bytes i =
     [registerState i, infoType i, addr i] @ le16 (daySetPoint i) @ le16 (nightSetPoint i) @ le16 (infoTemp i) @
     [deadBand i, mode i, infoUnit i, tempFrom i] @ le16 (dayStartTime i) @ le16 (dayEndTime i) @ le16 (infoCtrl i) @
     [CoolOrHeat i, connected i, moduleMode i, fanRun i] @ le16 (infoCrc i)"

definition info_of_bytes :: "u8 list \<Rightarrow> type_info_t" where
  "info_of_bytes b =
     \<lparr>registerState = b ! 0, infoType = b ! 1, addr = b ! 2, daySetPoint = mk16 (b ! 4) (b ! 3),
      nightSetPoint = mk16 (b ! 6) (b ! 5), infoTemp = mk16 (b ! 8) (b ! 7), deadBand = b ! 9, mode = b ! 10,
      infoUnit = b ! 11, tempFrom = b ! 12, dayStartTime = mk16 (b ! 14) (b ! 13), dayEndTime = mk16 (b ! 16) (b ! 15),
      infoCtrl = mk16 (b ! 18) (b ! 17), CoolOrHeat = b ! 19, connected = b ! 20, moduleMode = b ! 21,
      fanRun = b ! 22, infoCrc = mk16 (b ! 24) (b ! 23)\<rparr>"

abbreviation (input) INFO_SIZE :: nat where "INFO_SIZE \<equiv> 25"

text \<open>\<^verbatim>\<open>usModbusRTU_CRC((u8 *)info, sizeof(type_info_t) - 2)\<close>\<close>

definition info_crc :: "type_info_t \<Rightarrow> u16" where
  "info_crc i = usModbusRTU_CRC (take (INFO_SIZE - 2) (info_bytes i))"

section \<open>Flash\<close>

definition stm32_flash_read :: "nat \<Rightarrow> nat \<Rightarrow> 'a flash_t_scheme \<Rightarrow> u8 list option" where
  "stm32_flash_read address n s =
     (if address + n > STM32_FLASH_END_ADDRESS then None else Some (map (flash s) [address..<address + n]))"

text \<open>Page 63 holds the last 2048 bytes of the flash.\<close>

definition HAL_FLASHEx_Erase :: "'a flash_t_scheme \<Rightarrow> bool \<times> 'a flash_t_scheme" where
  "HAL_FLASHEx_Erase s =
     (if hal_erase_ok s
      then (True, s\<lparr>flash := (\<lambda>a. if a \<in> {0x801F800..<0x8020000} then 0xFF else flash s a)\<rparr>)
      else (False, s))"

definition store_bytes :: "nat \<Rightarrow> u8 list \<Rightarrow> (nat \<Rightarrow> u8) \<Rightarrow> nat \<Rightarrow> u8" where
  "store_bytes address bs m a = (if a \<in> {address..<address + length bs} then bs ! (a - address) else m a)"

definition HAL_FLASH_Program :: "nat \<Rightarrow> u8 list \<Rightarrow> 'a flash_t_scheme \<Rightarrow> bool \<times> 'a flash_t_scheme" where
  "HAL_FLASH_Program address dword s =
     (let ok = hal_program_ok s (program_pos s);
          s = s\<lparr>program_pos := program_pos s + 1\<rparr>
      in (ok, if ok then s\<lparr>flash := store_bytes address dword (flash s)\<rparr> else s))"

fun flash_write_loop :: "nat \<Rightarrow> nat \<Rightarrow> u8 list \<Rightarrow> bool \<Rightarrow> 'a flash_t_scheme \<Rightarrow> bool \<times> 'a flash_t_scheme" where
  "flash_write_loop 0 address data ret s = (ret, s)"
| "flash_write_loop (Suc n) address data ret s =
     (let (ret, s) = HAL_FLASH_Program address (take 8 data) s
      in flash_write_loop n (address + 8) (drop 8 data) ret s)"

text \<open>\<open>data\<close> is the memory from the source pointer on. The result is the HAL status.\<close>

definition flash_write :: "nat \<Rightarrow> u8 list \<Rightarrow> nat \<Rightarrow> 'a flash_t_scheme \<Rightarrow> int \<times> 'a flash_t_scheme" where
  "flash_write address data n s =
     (let (ok, s) = HAL_FLASHEx_Erase s
      in if \<not> ok then (2, s)
         else
           (let len = (if n mod 8 = 0 then n div 8 else n div 8 + 1);
                (ret, s) = flash_write_loop len address data True s
            in (if ret then 0 else 1, s)))"

definition TakeGlobalInfo :: "'a flash_t_scheme \<Rightarrow> 'a flash_t_scheme" where
  "TakeGlobalInfo s =
     (let s = (case stm32_flash_read DATA_BLOCK_START INFO_SIZE s of
                 Some bs \<Rightarrow> s\<lparr>gInfo := info_of_bytes bs\<rparr>
               | None \<Rightarrow> s);
          crc = info_crc (gInfo s)
      in if crc \<noteq> infoCrc (gInfo s) then InitGlobalInformation s else s)"

definition SaveGlobalInfo :: "'a flash_t_scheme \<Rightarrow> 'a flash_t_scheme" where
  "SaveGlobalInfo s =
     (let crc = info_crc (gInfo s)
      in if last_crc s \<noteq> crc then
           (let s = s\<lparr>last_crc := crc\<rparr>;
                s = upd_info (\<lambda>i. i\<lparr>infoCrc := crc\<rparr>) s
            in snd (flash_write DATA_BLOCK_START (info_bytes (gInfo s) @ after_info s) INFO_SIZE s))
         else s)"

section \<open>The task\<close>

definition uart_task_start :: "'a flash_t_scheme \<Rightarrow> 'a flash_t_scheme" where
  "uart_task_start s =
     (let s = InitUart1 s;
          s = TakeGlobalInfo s;
          s = InitSensorInfomation s;
          s = InitActionInfomation s;
          s = InitLastConnectTime s;
          s = InitRecvMsgList s;
          s = InitSendMsgList s
      in upd_info (\<lambda>i. i\<lparr>registerState := NO\<rparr>) s)"

text \<open>One pass of the loop of \<^verbatim>\<open>UartEntry\<close>.\<close>

definition UartEntry_pass :: "'a flash_t_scheme \<Rightarrow> 'a flash_t_scheme option" where
  "UartEntry_pass s =
     (let (t1, f1) = TimerTask (uart_time1S s) (1000 div 20);
          (t10, f10) = TimerTask (uart_time10S s) (10000 div 20);
          s = s\<lparr>uart_time1S := t1, uart_time10S := t10, uart_Timer10sTouch := f10\<rparr>;
          r = (if Uart1HasRecv s = YES then
                 (let s = Uart1CleanRecvFlag s;
                      m = GetUart1Message s
                  in Uart1Analysis (rx_data m) (of_nat (rx_size m)) s)
               else Some (SendMsgHandle s))
      in case r of
           None \<Rightarrow> None
         | Some s \<Rightarrow>
             Some (if uart_Timer10sTouch s = YES then
                     (let s = (if registerState (gInfo s) = NO
                               then snd (AddToSendMsgList (GenerateRegisterData s) 15 s) else s)
                      in SaveGlobalInfo s)
                   else s))"

section \<open>The packed structure\<close>

lemma info_bytes_length [simp]: "length (info_bytes i) = INFO_SIZE"
  by (simp add: info_bytes_def le16_def)

lemma info_of_bytes_info_bytes [simp]: "info_of_bytes (info_bytes i) = i"
  by (simp add: info_of_bytes_def info_bytes_def le16_def)

lemma info_bytes_of_bytes:
  assumes "length b = INFO_SIZE"
  shows "info_bytes (info_of_bytes b) = b"
proof -
  obtain b0 b1 b2 b3 b4 b5 b6 b7 b8 b9 b10 b11 b12 b13 b14 b15 b16 b17 b18 b19 b20 b21 b22 b23 b24 where
    "b = [b0, b1, b2, b3, b4, b5, b6, b7, b8, b9, b10, b11, b12, b13, b14, b15, b16, b17, b18, b19, b20, b21, b22, b23, b24]"
    using assms by (auto simp: length_Suc_conv eval_nat_numeral)
  then show ?thesis by (simp add: info_of_bytes_def info_bytes_def le16_def)
qed

lemma take_info_crc [simp]:
  "take (INFO_SIZE - 2) (info_bytes (i\<lparr>infoCrc := c\<rparr>)) = take (INFO_SIZE - 2) (info_bytes i)"
  by (simp add: info_bytes_def le16_def)

lemma info_crc_upd [simp]: "info_crc (i\<lparr>infoCrc := c\<rparr>) = info_crc i"
  unfolding info_crc_def take_info_crc ..

text \<open>The bytes of the settings block.\<close>

definition info_block :: "'a flash_t_scheme \<Rightarrow> u8 list" where
  "info_block s = map (flash s) [DATA_BLOCK_START..<DATA_BLOCK_START + INFO_SIZE]"

lemma map_upt_nth: "i < n \<Longrightarrow> map f [a..<a + n] ! i = f (a + i)"
  by simp

lemma info_block_length [simp]: "length (info_block s) = INFO_SIZE"
  unfolding info_block_def length_map length_upt by (rule diff_add_inverse)

lemma info_block_nth: "i < INFO_SIZE \<Longrightarrow> info_block s ! i = flash s (DATA_BLOCK_START + i)"
  unfolding info_block_def by (rule map_upt_nth)

lemma info_block_eqI:
  assumes "length b = INFO_SIZE" "\<And>i. i < INFO_SIZE \<Longrightarrow> flash s (DATA_BLOCK_START + i) = b ! i"
  shows "info_block s = b"
  by (rule nth_equalityI) (use assms in \<open>simp_all add: info_block_nth\<close>)

lemma info_crc_residue:
  assumes "length b = INFO_SIZE"
  shows "info_crc (info_of_bytes b) = infoCrc (info_of_bytes b) \<longleftrightarrow> usModbusRTU_CRC b = 0"
proof -
  have "info_crc (info_of_bytes b) = usModbusRTU_CRC (take (length b - 2) b)"
    unfolding info_crc_def info_bytes_of_bytes [OF assms] assms ..
  moreover have "infoCrc (info_of_bytes b) = mk16 (b ! (length b - 1)) (b ! (length b - 2))"
    by (simp add: info_of_bytes_def assms)
  ultimately show ?thesis
    using frame_check_residue [of b] assms by auto
qed

lemma TakeGlobalInfo_eq:
  "gInfo (TakeGlobalInfo s) =
     (if usModbusRTU_CRC (info_block s) = 0 then info_of_bytes (info_block s) else gInfo (InitGlobalInformation s))"
proof -
  have r: "stm32_flash_read DATA_BLOCK_START INFO_SIZE s = Some (info_block s)"
    unfolding stm32_flash_read_def info_block_def by simp
  show ?thesis
    unfolding TakeGlobalInfo_def r option.case Let_def
    using info_crc_residue [of "info_block s"] by (simp add: InitGlobalInformation_def)
qed

section \<open>Writing\<close>

lemma store_bytes_chunk:
  "store_bytes (a + 8) (drop 8 d) (store_bytes a (take 8 d) m) = store_bytes a d m"
proof
  fix x
  show "store_bytes (a + 8) (drop 8 d) (store_bytes a (take 8 d) m) x = store_bytes a d m x"
    by (auto simp: store_bytes_def nth_append less_diff_conv)
qed

definition flash_ok :: "'a flash_t_scheme \<Rightarrow> bool" where
  "flash_ok s \<longleftrightarrow> hal_erase_ok s \<and> (\<forall>n. hal_program_ok s n) \<and> length (after_info s) = 7"

lemma store_bytes_Nil [simp]: "store_bytes a [] m = m"
  by (simp add: store_bytes_def fun_eq_iff)

lemma flash_write_loop_ok:
  assumes "\<forall>n. hal_program_ok s n" "length data = 8 * n"
  shows "flash_write_loop n a data True s =
    (True, s\<lparr>flash := store_bytes a data (flash s), program_pos := program_pos s + n\<rparr>)"
  using assms
proof (induction n arbitrary: a data s)
  case (Suc n)
  then show ?case
    by (simp add: HAL_FLASH_Program_def Let_def store_bytes_chunk)
qed simp

text \<open>What \<^verbatim>\<open>SaveGlobalInfo\<close> leaves, when flash works and the settings changed.\<close>

lemma SaveGlobalInfo_writes:
  assumes "flash_ok s" "last_crc s \<noteq> info_crc (gInfo s)"
  defines "i \<equiv> (gInfo s)\<lparr>infoCrc := info_crc (gInfo s)\<rparr>"
  shows "gInfo (SaveGlobalInfo s) = i" "info_block (SaveGlobalInfo s) = info_bytes i"
    "last_crc (SaveGlobalInfo s) = info_crc (gInfo s)"
proof -
  define s1 where "s1 = s\<lparr>last_crc := info_crc (gInfo s), gInfo := i\<rparr>"
  define m where "m = (\<lambda>a. if a \<in> {0x801F800..<0x8020000} then 0xFF else flash s a)"
  have "SaveGlobalInfo s = snd (flash_write DATA_BLOCK_START (info_bytes i @ after_info s) INFO_SIZE s1)"
    using assms(2) by (simp add: SaveGlobalInfo_def Let_def s1_def i_def)
  also have "\<dots> = s1\<lparr>flash := store_bytes DATA_BLOCK_START (info_bytes i @ after_info s) m, program_pos := program_pos s + 4\<rparr>"
    using assms(1) flash_write_loop_ok [of "s1\<lparr>flash := m\<rparr>" "info_bytes i @ after_info s" 4]
    by (simp add: flash_write_def HAL_FLASHEx_Erase_def flash_ok_def s1_def m_def Let_def cong: if_cong)
  finally have S: "SaveGlobalInfo s = \<dots>" .
  show "gInfo (SaveGlobalInfo s) = i" "last_crc (SaveGlobalInfo s) = info_crc (gInfo s)"
    by (simp_all add: S s1_def)
  show "info_block (SaveGlobalInfo s) = info_bytes i"
    by (rule info_block_eqI) (simp_all add: S store_bytes_def nth_append)
qed

text \<open>
  C13. The settings survive a restart. \<^verbatim>\<open>SaveGlobalInfo\<close> compares checksums, not
  settings. When the checksum of the settings differs from the last one seen and the flash works, then
  a start of the communication task from the flash contents it leaves, with anything in memory,
  brings back every field but the registration, which a start always clears; the checksum field holds
  the checksum. When the checksum is the last one seen, nothing is written, also if the settings did
  change (the witness shows such a change: set points 25.0 and 25.0 against 1.0 and 19.0 degrees).
\<close>

theorem settings_survive_restart:
  assumes "flash_ok s" and "flash s' = flash (SaveGlobalInfo s)"
  shows "if last_crc s \<noteq> info_crc (gInfo s)
    then gInfo (uart_task_start s') = (gInfo s)\<lparr>infoCrc := info_crc (gInfo s), registerState := NO\<rparr>
    else SaveGlobalInfo s = s"
proof (cases "last_crc s \<noteq> info_crc (gInfo s)")
  case True
  let ?i = "(gInfo s)\<lparr>infoCrc := info_crc (gInfo s)\<rparr>"
  have f: "flash (InitUart1 s') = flash (SaveGlobalInfo s)" using assms(2) by (simp add: InitUart1_def)
  have "info_block (InitUart1 s') = info_bytes ?i"
    using SaveGlobalInfo_writes(2) [OF assms(1) True] unfolding info_block_def f .
  moreover have "usModbusRTU_CRC (info_bytes ?i) = 0"
    using info_crc_residue [of "info_bytes ?i"] by simp
  ultimately have "gInfo (TakeGlobalInfo (InitUart1 s')) = ?i" by (simp add: TakeGlobalInfo_eq)
  then have "gInfo (uart_task_start s') = ?i\<lparr>registerState := NO\<rparr>"
    by (simp add: uart_task_start_def Let_def InitSensorInfomation_def InitActionInfomation_def InitLastConnectTime_def
        InitRecvMsgList_def InitSendMsgList_def)
  with True show ?thesis by simp
qed (simp add: SaveGlobalInfo_def)

definition flash_demo :: flash_t where
  "flash_demo = uart_t.extend uart_demo
     \<lparr>flash = (\<lambda>_. 0xFF), hal_erase_ok = True, hal_program_ok = (\<lambda>_. True), program_pos = 0,
      after_info = replicate 7 0, last_crc = 0, uart_time1S = 0, uart_time10S = 0, uart_Timer10sTouch = 0\<rparr>"

lemma info_crc_demo: "info_crc (gInfo flash_demo) \<noteq> 0"
proof -
  have "gInfo flash_demo = \<lparr>registerState = 0, infoType = 0x61, addr = 1, daySetPoint = 250,
        nightSetPoint = 250, infoTemp = 0, deadBand = 50, mode = 1, infoUnit = 1, tempFrom = 1,
        dayStartTime = 0x0800, dayEndTime = 0x1200, infoCtrl = 0, CoolOrHeat = 0, connected = 1,
        moduleMode = 0, fanRun = 0, infoCrc = 0\<rparr>" (is "_ = ?i")
    by (simp add: flash_demo_def uart_t.defs uart_demo_def comm_t.defs comm_demo_def ctl_t.defs ctl_demo_def ntc_t.defs)
  moreover have "info_crc ?i \<noteq> 0" by code_simp
  ultimately show ?thesis by simp
qed

lemma info_crc_equal:
  "info_crc ((gInfo flash_demo)\<lparr>daySetPoint := 10, nightSetPoint := 190\<rparr>) = info_crc (gInfo flash_demo)"
proof -
  have s: "info_crc i = foldl crc16_byte (usModbusRTU_CRC (take 7 (take 23 (info_bytes i)))) (drop 7 (take 23 (info_bytes i)))" for i
    using usModbusRTU_CRC_append [of "take 7 (take 23 (info_bytes i))" "drop 7 (take 23 (info_bytes i))"]
    by (simp add: info_crc_def del: take_take drop_take)
  have "usModbusRTU_CRC [0, 0x61, 1, 10, 0, 190, 0] = usModbusRTU_CRC [0, 0x61, 1, 250, 0, 250, 0]" by code_simp
  then show ?thesis
    unfolding s by (simp add: flash_demo_def uart_t.defs uart_demo_def comm_t.defs comm_demo_def ctl_t.defs ctl_demo_def ntc_t.defs
        info_bytes_def le16_def lo8_def hi8_def)
qed

theorem settings_survive_restart_witness:
  "gInfo (uart_task_start (SaveGlobalInfo flash_demo)) =
     (gInfo flash_demo)\<lparr>infoCrc := info_crc (gInfo flash_demo), registerState := NO\<rparr> \<and>
   (let s = flash_demo\<lparr>last_crc := info_crc (gInfo flash_demo), gInfo := (gInfo flash_demo)\<lparr>daySetPoint := 10, nightSetPoint := 190\<rparr>\<rparr>
    in SaveGlobalInfo s = s)"
proof -
  have ok: "flash_ok flash_demo" by (simp add: flash_ok_def flash_demo_def uart_t.defs)
  have "last_crc flash_demo \<noteq> info_crc (gInfo flash_demo)"
    using info_crc_demo by (simp add: flash_demo_def uart_t.defs)
  moreover have "flash_ok (flash_demo\<lparr>last_crc := c, gInfo := i\<rparr>)" for c i using ok by (simp add: flash_ok_def)
  ultimately show ?thesis
    using settings_survive_restart [OF ok refl]
      settings_survive_restart [of "flash_demo\<lparr>last_crc := info_crc (gInfo flash_demo),
        gInfo := (gInfo flash_demo)\<lparr>daySetPoint := 10, nightSetPoint := 190\<rparr>\<rparr>", OF _ refl] info_crc_equal
    by (simp add: Let_def)
qed

text \<open>
  Damaged settings are never used. If the settings block in flash passes its checksum, then
  after changing any one of its 25 bytes a start loads the defaults; the same holds for an erased
  page.
\<close>

theorem damaged_settings_rejected:
  "(usModbusRTU_CRC (info_block s) = 0 \<and> j < 25 \<and> v \<noteq> flash s (0x801FF00 + j) \<longrightarrow>
     gInfo (TakeGlobalInfo (s\<lparr>flash := (flash s)(0x801FF00 + j := v)\<rparr>)) = gInfo (InitGlobalInformation s)) \<and>
   ((\<forall>a. flash s a = 0xFF) \<longrightarrow> gInfo (TakeGlobalInfo s) = gInfo (InitGlobalInformation s))"
proof (intro conjI impI)
  assume a: "usModbusRTU_CRC (info_block s) = 0 \<and> j < 25 \<and> v \<noteq> flash s (0x801FF00 + j)"
  let ?s = "s\<lparr>flash := (flash s)(0x801FF00 + j := v)\<rparr>"
  have "info_block ?s = (info_block s)[j := v]"
    using a by (intro info_block_eqI) (auto simp: info_block_nth nth_list_update)
  moreover have "usModbusRTU_CRC ((info_block s)[j := v]) \<noteq> 0"
    using crc16_detects_byte [of j "info_block s" v] a by (simp add: info_block_nth)
  ultimately show "gInfo (TakeGlobalInfo ?s) = gInfo (InitGlobalInformation s)"
    by (simp add: TakeGlobalInfo_eq InitGlobalInformation_def)
next
  assume "\<forall>a. flash s a = 0xFF"
  then have "info_block s = replicate 25 0xFF"
    by (intro info_block_eqI) simp_all
  moreover have "usModbusRTU_CRC (replicate 25 0xFF) \<noteq> 0" by code_simp
  ultimately show "gInfo (TakeGlobalInfo s) = gInfo (InitGlobalInformation s)"
    by (simp add: TakeGlobalInfo_eq)
qed

theorem damaged_settings_rejected_witness:
  "gInfo (TakeGlobalInfo flash_demo) = gInfo (InitGlobalInformation flash_demo)"
  using damaged_settings_rejected [of flash_demo 0 0] by (simp add: flash_demo_def uart_t.defs)

text \<open>
  Saving unchanged settings writes nothing: a second \<^verbatim>\<open>SaveGlobalInfo\<close> right after the
  first leaves the whole state, the flash and the count of programming operations included, as it
  is, also when the first one failed to write.
\<close>

theorem save_idempotent: "SaveGlobalInfo (SaveGlobalInfo s) = SaveGlobalInfo s"
proof -
  have w: "gInfo (snd (flash_write a d n s)) = gInfo s \<and> last_crc (snd (flash_write a d n s)) = last_crc s"
    for a d n and s :: "'a flash_t_scheme"
  proof -
    have "gInfo (snd (flash_write_loop k a d r s)) = gInfo s \<and> last_crc (snd (flash_write_loop k a d r s)) = last_crc s"
      for k a d r and s :: "'a flash_t_scheme"
      by (induction k arbitrary: a d r s) (simp_all add: HAL_FLASH_Program_def Let_def)
    then show ?thesis
      by (simp add: flash_write_def HAL_FLASHEx_Erase_def Let_def split_beta)
  qed
  have "last_crc (SaveGlobalInfo s) = info_crc (gInfo (SaveGlobalInfo s))"
    unfolding SaveGlobalInfo_def Let_def by (simp add: w)
  then show ?thesis
    by (subst SaveGlobalInfo_def) (simp add: Let_def)
qed

end
