(* ===== verification/Hvac_Lcd.thy ===== *)
theory Hvac_Lcd
  imports Hvac_Uart
begin

text \<open>
  The display driver \<^verbatim>\<open>applications/Oled/st7567/ST7567.c\<close>. The frame buffer is a list of
  1056 bytes: eight pages of 132 columns, a byte per eight vertical pixels. The software SPI is
  modelled at pin level; what the display controller samples, the data/command line and the data
  bit at every rising clock edge with the chip select low, is the log \<open>lcd_bits\<close>. Glyphs come from the tables of
  \<^verbatim>\<open>ascii_fonts.c\<close>, which are data and enter as the field \<open>fdata\<close> of a font.
  Coordinates are \<^verbatim>\<open>uint16_t\<close>.
\<close>

section \<open>State\<close>

record lcd_t = flash_t +
  lcd_buf :: "u8 list"
  after_lcd :: "u8 list"
  CurrentX :: u16
  CurrentY :: u16
  Inverted :: u8
  lcd_bits :: "(u8 \<times> u8) list"

record FontDef_t =
  fwidth :: nat
  fheight :: nat
  forder :: nat
  fbytes :: nat
  fdata :: "nat \<Rightarrow> u8"

abbreviation (input) ST7567_WIDTH :: nat where "ST7567_WIDTH \<equiv> 128"
abbreviation (input) ST7567_HEIGHT :: nat where "ST7567_HEIGHT \<equiv> 64"
abbreviation (input) LCD_BUF_SIZE :: nat where "LCD_BUF_SIZE \<equiv> 1056"

section \<open>The serial interface\<close>

text \<open>
  The clock line is driven high. The controller takes a sample when that is an edge, the line having
  been low, and its chip select is low.
\<close>

definition sck_high :: "'a lcd_t_scheme \<Rightarrow> 'a lcd_t_scheme" where
  "sck_high s =
     (let s' = rt_pin_write LCD_SCK 1 s
      in if rt_pin_read s LCD_SCK = 0 \<and> rt_pin_read s LCD_CS = 0
         then s'\<lparr>lcd_bits := lcd_bits s' @ [(rt_pin_read s' LCD_A0, rt_pin_read s' LCD_MOSI)]\<rparr>
         else s')"

fun transmit_loop :: "nat \<Rightarrow> u8 \<Rightarrow> 'a lcd_t_scheme \<Rightarrow> 'a lcd_t_scheme" where
  "transmit_loop 0 dat s = s"
| "transmit_loop (Suc n) dat s =
     (let s = rt_pin_write LCD_SCK 0 s;
          s = (if dat AND 0x80 \<noteq> 0 then rt_pin_write LCD_MOSI 1 s else rt_pin_write LCD_MOSI 0 s);
          s = sck_high s
      in transmit_loop n (push_bit 1 dat) s)"

definition ST7567_TransmitByte :: "u8 \<Rightarrow> 'a lcd_t_scheme \<Rightarrow> 'a lcd_t_scheme" where
  "ST7567_TransmitByte dat s =
     (let s = rt_pin_write LCD_CS 0 s;
          s = transmit_loop 8 dat s
      in rt_pin_write LCD_CS 1 s)"

definition ST7567_Transmit :: "u8 list \<Rightarrow> 'a lcd_t_scheme \<Rightarrow> 'a lcd_t_scheme" where
  "ST7567_Transmit pData s = fold ST7567_TransmitByte pData s"

definition ST7567_WriteCommand :: "u8 \<Rightarrow> 'a lcd_t_scheme \<Rightarrow> 'a lcd_t_scheme" where
  "ST7567_WriteCommand command s =
     rt_pin_write LCD_A0 1 (ST7567_TransmitByte command (rt_pin_write LCD_A0 0 s))"

definition ST7567_WriteData :: "u8 \<Rightarrow> 'a lcd_t_scheme \<Rightarrow> 'a lcd_t_scheme" where
  "ST7567_WriteData data s = ST7567_TransmitByte data s"

definition ST7567_Reset :: "'a lcd_t_scheme \<Rightarrow> 'a lcd_t_scheme" where
  "ST7567_Reset s = rt_pin_write LCD_RST 1 (rt_pin_write LCD_RST 0 s)"

definition ST7567_BackLight_On :: "'a lcd_t_scheme \<Rightarrow> 'a lcd_t_scheme" where
  "ST7567_BackLight_On s = rt_pin_write LCD_BK 1 s"

definition ST7567_BackLight_Off :: "'a lcd_t_scheme \<Rightarrow> 'a lcd_t_scheme" where
  "ST7567_BackLight_Off s = rt_pin_write LCD_BK 0 s"

definition ST7567_Init :: "'a lcd_t_scheme \<Rightarrow> 'a lcd_t_scheme" where
  "ST7567_Init s =
     fold ST7567_WriteCommand
       [0xE2, 0x28 OR 0x04 OR 0x02 OR 0x01, 0x81, 0x3F AND 0x20, 0xA2, 0xA0, 0xC8, 0x20 OR 0x03, 0xA6, 0xAF, 0xA4,
        0x40 OR (0x00 AND 0x3F), 0xB0 OR (0x00 AND 0x07), 0x10, 0x00]
       (ST7567_BackLight_Off (ST7567_Reset s))"

definition ST7567_SetContrast :: "u8 \<Rightarrow> 'a lcd_t_scheme \<Rightarrow> 'a lcd_t_scheme" where
  "ST7567_SetContrast val s = ST7567_WriteCommand (0x3F AND val) (ST7567_WriteCommand 0x81 s)"

text \<open>
  Nine pages of 132 bytes are sent; the buffer has eight. The ninth comes from the memory that
  follows the buffer, \<open>after_lcd\<close>.
\<close>

definition send_page :: "nat \<Rightarrow> 'a lcd_t_scheme \<Rightarrow> 'a lcd_t_scheme" where
  "send_page i s =
     (let mem = lcd_buf s @ after_lcd s;
          s = ST7567_WriteCommand (0xB0 + of_nat i) s;
          s = ST7567_WriteCommand 0x10 s;
          s = ST7567_WriteCommand 0x00 s
      in fold (\<lambda>j. ST7567_WriteData (mem ! (i * 132 + j))) [0..<132] s)"

definition ST7567_UpdateScreen :: "'a lcd_t_scheme \<Rightarrow> 'a lcd_t_scheme" where
  "ST7567_UpdateScreen s = fold send_page [0..<9] s"

definition ST7567_ToggleInvert :: "'a lcd_t_scheme \<Rightarrow> 'a lcd_t_scheme" where
  "ST7567_ToggleInvert s =
     (let s = s\<lparr>Inverted := (if Inverted s = 0 then 1 else 0)\<rparr>
      in if Inverted s \<noteq> 0 then ST7567_WriteCommand 0xA7 s else ST7567_WriteCommand 0xA6 s)"

section \<open>Pixels\<close>

definition ST7567_Fill :: "u8 \<Rightarrow> 'a lcd_t_scheme \<Rightarrow> 'a lcd_t_scheme" where
  "ST7567_Fill color s = s\<lparr>lcd_buf := replicate LCD_BUF_SIZE (if color = 0 then 0x00 else 0xFF)\<rparr>"

definition ST7567_DrawPixel :: "u16 \<Rightarrow> u16 \<Rightarrow> u8 \<Rightarrow> 'a lcd_t_scheme \<Rightarrow> 'a lcd_t_scheme" where
  "ST7567_DrawPixel x y color s =
     (if unat x \<ge> ST7567_WIDTH \<or> unat y \<ge> ST7567_HEIGHT then s
      else
        (let i = unat x + (unat y div 8) * 132
         in if color = 1
            then s\<lparr>lcd_buf := (lcd_buf s)[i := lcd_buf s ! i OR push_bit (unat y mod 8) 1]\<rparr>
            else s\<lparr>lcd_buf := (lcd_buf s)[i := lcd_buf s ! i AND NOT (push_bit (unat y mod 8) 1)]\<rparr>))"

text \<open>A sequence of calls of \<^verbatim>\<open>ST7567_DrawPixel\<close>, in order.\<close>

definition draw_pixels :: "(u16 \<times> u16 \<times> u8) list \<Rightarrow> 'a lcd_t_scheme \<Rightarrow> 'a lcd_t_scheme" where
  "draw_pixels ps s = fold (\<lambda>(x, y, c). ST7567_DrawPixel x y c) ps s"

definition ST7567_GotoXY :: "u16 \<Rightarrow> u16 \<Rightarrow> 'a lcd_t_scheme \<Rightarrow> 'a lcd_t_scheme" where
  "ST7567_GotoXY x y s = s\<lparr>CurrentX := x, CurrentY := y\<rparr>"

section \<open>Text\<close>

text \<open>
  \<^verbatim>\<open>font->width - j * 8\<close> is unsigned: it wraps when the row has more bytes than the width
  needs, and then all eight bits are drawn.
\<close>

definition row_bits :: "FontDef_t \<Rightarrow> nat \<Rightarrow> nat" where
  "row_bits font j = (if j * 8 \<le> fwidth font then min 8 (fwidth font - j * 8) else 8)"

definition glyph_byte :: "FontDef_t \<Rightarrow> char \<Rightarrow> nat \<Rightarrow> nat \<Rightarrow> u8" where
  "glyph_byte font ch i j =
     fdata font (nat ((((of_char ch - 32) * int (fheight font) + int i) * int (fbytes font) + int j) mod 2 ^ 32))"

definition glyph_bit :: "FontDef_t \<Rightarrow> u8 \<Rightarrow> nat \<Rightarrow> bool" where
  "glyph_bit font b k = (if forder font = 0 then bit b (7 - k) else bit b k)"

definition putc_pixels :: "(u8 \<Rightarrow> u8) \<Rightarrow> FontDef_t \<Rightarrow> char \<Rightarrow> u8 \<Rightarrow> u16 \<Rightarrow> u16 \<Rightarrow> (u16 \<times> u16 \<times> u8) list" where
  "putc_pixels g font ch color cx cy =
     concat (map (\<lambda>i. concat (map (\<lambda>j.
       map (\<lambda>k. (cx + of_nat (j * 8) + of_nat k, cy + of_nat i,
                 if glyph_bit font (g (glyph_byte font ch i j)) k then color else if color = 0 then 1 else 0))
         [0..<row_bits font j]) [0..<fbytes font])) [0..<fheight font])"

definition ST7567_Putc :: "char \<Rightarrow> FontDef_t \<Rightarrow> u8 \<Rightarrow> 'a lcd_t_scheme \<Rightarrow> 'a lcd_t_scheme" where
  "ST7567_Putc ch font color s =
     (let s = draw_pixels (putc_pixels id font ch color (CurrentX s) (CurrentY s)) s
      in s\<lparr>CurrentX := CurrentX s + of_nat (fwidth font)\<rparr>)"

definition ST7567_Putc_Hightlight :: "char \<Rightarrow> FontDef_t \<Rightarrow> u8 \<Rightarrow> 'a lcd_t_scheme \<Rightarrow> 'a lcd_t_scheme" where
  "ST7567_Putc_Hightlight ch font color s =
     (let s = draw_pixels (putc_pixels NOT font ch color (CurrentX s) (CurrentY s)) s
      in s\<lparr>CurrentX := CurrentX s + of_nat (fwidth font)\<rparr>)"

text \<open>The characters up to the terminating zero; \<^verbatim>\<open>ST7567_Putc\<close> returns its argument.\<close>

definition ST7567_Puts :: "string \<Rightarrow> FontDef_t \<Rightarrow> u8 \<Rightarrow> 'a lcd_t_scheme \<Rightarrow> 'a lcd_t_scheme" where
  "ST7567_Puts str font color s =
     fold (\<lambda>ch. ST7567_Putc ch font color) (takeWhile (\<lambda>c. c \<noteq> char_of (0 :: nat)) str) s"

definition ST7567_Puts_HightLight :: "string \<Rightarrow> FontDef_t \<Rightarrow> u8 \<Rightarrow> 'a lcd_t_scheme \<Rightarrow> 'a lcd_t_scheme" where
  "ST7567_Puts_HightLight str font color s =
     fold (\<lambda>ch. ST7567_Putc_Hightlight ch font color) (takeWhile (\<lambda>c. c \<noteq> char_of (0 :: nat)) str) s"

section \<open>Lines\<close>

text \<open>
  The general loop of \<^verbatim>\<open>ST7567_DrawLine\<close>, with fuel: the points in drawing order, or
  \<open>None\<close> when the fuel runs out before the end point. After clamping, every quantity stays far
  inside the \<^verbatim>\<open>int16_t\<close> range.
\<close>

fun line_loop :: "nat \<Rightarrow> int \<Rightarrow> int \<Rightarrow> int \<Rightarrow> int \<Rightarrow> int \<Rightarrow> int \<Rightarrow> int \<Rightarrow> int \<Rightarrow> int \<Rightarrow> (int \<times> int) list option" where
  "line_loop 0 x0 y0 x1 y1 dx dy sx sy err = None"
| "line_loop (Suc n) x0 y0 x1 y1 dx dy sx sy err =
     (if x0 = x1 \<and> y0 = y1 then Some [(x0, y0)]
      else
        (let e2 = err;
             (err, x) = (if e2 > - dx then (err - dy, x0 + sx) else (err, x0));
             (err, y) = (if e2 < dy then (err + dx, y0 + sy) else (err, y0))
         in map_option ((#) (x0, y0)) (line_loop n x y x1 y1 dx dy sx sy err)))"

definition clamp :: "nat \<Rightarrow> u16 \<Rightarrow> int" where
  "clamp n v = (if unat v \<ge> n then int n - 1 else uint v)"

definition line_points :: "int \<Rightarrow> int \<Rightarrow> int \<Rightarrow> int \<Rightarrow> (int \<times> int) list option" where
  "line_points x0 y0 x1 y1 =
     (let dx = \<bar>x1 - x0\<bar>; dy = \<bar>y1 - y0\<bar>;
          sx = (if x0 < x1 then 1 else - 1); sy = (if y0 < y1 then 1 else - 1);
          err = (if dx > dy then dx else - dy) sdiv 2
      in if dx = 0 then Some (map (\<lambda>i. (x0, i)) [min y0 y1..max y0 y1])
         else if dy = 0 then Some (map (\<lambda>i. (i, y0)) [min x0 x1..max x0 x1])
         else line_loop (nat (max dx dy) + 1) x0 y0 x1 y1 dx dy sx sy err)"

definition draw_points :: "(int \<times> int) list \<Rightarrow> u8 \<Rightarrow> 'a lcd_t_scheme \<Rightarrow> 'a lcd_t_scheme" where
  "draw_points ps c s = draw_pixels (map (\<lambda>(x, y). (word_of_int x, word_of_int y, c)) ps) s"

definition ST7567_DrawLine :: "u16 \<Rightarrow> u16 \<Rightarrow> u16 \<Rightarrow> u16 \<Rightarrow> u8 \<Rightarrow> 'a lcd_t_scheme \<Rightarrow> 'a lcd_t_scheme" where
  "ST7567_DrawLine x0 y0 x1 y1 c s =
     (case line_points (clamp ST7567_WIDTH x0) (clamp ST7567_HEIGHT y0) (clamp ST7567_WIDTH x1) (clamp ST7567_HEIGHT y1) of
        Some ps \<Rightarrow> draw_points ps c s
      | None \<Rightarrow> s)"

section \<open>Shapes\<close>

text \<open>\<^verbatim>\<open>x + w\<close> is compared as an \<^verbatim>\<open>int\<close>; the arguments of the lines are truncated to 16 bits.\<close>

definition clip_extent :: "nat \<Rightarrow> u16 \<Rightarrow> u16 \<Rightarrow> u16" where
  "clip_extent n x w = (if unat x + unat w \<ge> n then of_nat n - x else w)"

definition ST7567_DrawRectangle :: "u16 \<Rightarrow> u16 \<Rightarrow> u16 \<Rightarrow> u16 \<Rightarrow> u8 \<Rightarrow> 'a lcd_t_scheme \<Rightarrow> 'a lcd_t_scheme" where
  "ST7567_DrawRectangle x y w h c s =
     (if unat x \<ge> ST7567_WIDTH \<or> unat y \<ge> ST7567_HEIGHT then s
      else
        (let w = clip_extent ST7567_WIDTH x w;
             h = clip_extent ST7567_HEIGHT y h;
             s = ST7567_DrawLine x y (x + w) y c s;
             s = ST7567_DrawLine x (y + h) (x + w) (y + h) c s;
             s = ST7567_DrawLine x y x (y + h) c s
         in ST7567_DrawLine (x + w) y (x + w) (y + h) c s))"

definition ST7567_DrawFilledRectangle :: "u16 \<Rightarrow> u16 \<Rightarrow> u16 \<Rightarrow> u16 \<Rightarrow> u8 \<Rightarrow> 'a lcd_t_scheme \<Rightarrow> 'a lcd_t_scheme" where
  "ST7567_DrawFilledRectangle x y w h c s =
     (if unat x \<ge> ST7567_WIDTH \<or> unat y \<ge> ST7567_HEIGHT then s
      else
        (let w = clip_extent ST7567_WIDTH x w;
             h = clip_extent ST7567_HEIGHT y h
         in fold (\<lambda>i. ST7567_DrawLine x (y + of_nat i) (x + w) (y + of_nat i) c) [0..<unat h + 1] s))"

definition ST7567_DrawTriangle ::
  "u16 \<Rightarrow> u16 \<Rightarrow> u16 \<Rightarrow> u16 \<Rightarrow> u16 \<Rightarrow> u16 \<Rightarrow> u8 \<Rightarrow> 'a lcd_t_scheme \<Rightarrow> 'a lcd_t_scheme" where
  "ST7567_DrawTriangle x1 y1 x2 y2 x3 y3 color s =
     (let s = ST7567_DrawLine x1 y1 x2 y2 color s;
          s = ST7567_DrawLine x2 y2 x3 y3 color s
      in ST7567_DrawLine x3 y3 x1 y1 color s)"

text \<open>
  In the filled triangle and the circles the \<^verbatim>\<open>int16_t\<close> working variables are
  \<open>int\<close>: the definitions are the code's for coordinates and radii up to \<open>2 ^ 13\<close>, far
  beyond the screen, where none of the variables leaves its range.
\<close>

text \<open>The edge from the first to the second corner, as \<^verbatim>\<open>curpixel\<close> steps along it.\<close>

fun edge_loop :: "nat \<Rightarrow> int \<Rightarrow> int \<Rightarrow> int \<Rightarrow> int \<Rightarrow> int \<Rightarrow> int \<Rightarrow> int \<Rightarrow> int \<Rightarrow> int \<Rightarrow> (int \<times> int) list" where
  "edge_loop 0 x y num numadd den xinc1 yinc1 xinc2 yinc2 = []"
| "edge_loop (Suc n) x y num numadd den xinc1 yinc1 xinc2 yinc2 =
     (let num' = num + numadd;
          (num', x', y') = (if num' \<ge> den then (num' - den, x + xinc1, y + yinc1) else (num', x, y))
      in (x, y) # edge_loop n (x' + xinc2) (y' + yinc2) num' numadd den xinc1 yinc1 xinc2 yinc2)"

definition edge_points :: "int \<Rightarrow> int \<Rightarrow> int \<Rightarrow> int \<Rightarrow> (int \<times> int) list" where
  "edge_points x1 y1 x2 y2 =
     (let deltax = \<bar>x2 - x1\<bar>; deltay = \<bar>y2 - y1\<bar>;
          xinc = (if x2 \<ge> x1 then 1 else - 1); yinc = (if y2 \<ge> y1 then 1 else - 1)
      in if deltax \<ge> deltay
         then edge_loop (nat deltax + 1) x1 y1 (deltax div 2) deltay deltax 0 yinc xinc 0
         else edge_loop (nat deltay + 1) x1 y1 (deltay div 2) deltax deltay xinc 0 0 yinc)"

definition ST7567_DrawFilledTriangle ::
  "u16 \<Rightarrow> u16 \<Rightarrow> u16 \<Rightarrow> u16 \<Rightarrow> u16 \<Rightarrow> u16 \<Rightarrow> u8 \<Rightarrow> 'a lcd_t_scheme \<Rightarrow> 'a lcd_t_scheme" where
  "ST7567_DrawFilledTriangle x1 y1 x2 y2 x3 y3 color s =
     fold (\<lambda>(x, y). ST7567_DrawLine (word_of_int x) (word_of_int y) x3 y3 color)
       (edge_points (uint x1) (uint y1) (uint x2) (uint y2)) s"

text \<open>The midpoint loop of the circles: the offsets of each round.\<close>

function circle_loop :: "int \<Rightarrow> int \<Rightarrow> int \<Rightarrow> int \<Rightarrow> int \<Rightarrow> (int \<times> int) list" where
  "circle_loop f ddF_x ddF_y x y =
     (if x < y then
        (let (y, ddF_y, f) = (if f \<ge> 0 then (y - 1, ddF_y + 2, f + (ddF_y + 2)) else (y, ddF_y, f));
             x = x + 1;
             ddF_x = ddF_x + 2;
             f = f + ddF_x
         in (x, y) # circle_loop f ddF_x ddF_y x y)
      else [])"
  by pat_completeness auto
termination
  by (relation "measure (\<lambda>(f, ddF_x, ddF_y, x, y). nat (y - x))") (auto split: if_splits)

declare circle_loop.simps [simp del]

definition circle_axis :: "int \<Rightarrow> int \<Rightarrow> int \<Rightarrow> (int \<times> int) list" where
  "circle_axis x0 y0 r = [(x0, y0 + r), (x0, y0 - r), (x0 + r, y0), (x0 - r, y0)]"

definition ST7567_DrawCircle :: "int \<Rightarrow> int \<Rightarrow> int \<Rightarrow> u8 \<Rightarrow> 'a lcd_t_scheme \<Rightarrow> 'a lcd_t_scheme" where
  "ST7567_DrawCircle x0 y0 r c s =
     draw_points (circle_axis x0 y0 r @
       concat (map (\<lambda>(x, y). [(x0 + x, y0 + y), (x0 - x, y0 + y), (x0 + x, y0 - y), (x0 - x, y0 - y),
                              (x0 + y, y0 + x), (x0 - y, y0 + x), (x0 + y, y0 - x), (x0 - y, y0 - x)])
         (circle_loop (1 - r) 1 (- 2 * r) 0 r))) c s"

definition int_line :: "u8 \<Rightarrow> int \<times> int \<times> int \<times> int \<Rightarrow> 'a lcd_t_scheme \<Rightarrow> 'a lcd_t_scheme" where
  "int_line c l s = (case l of (x0, y0, x1, y1) \<Rightarrow>
     ST7567_DrawLine (word_of_int x0) (word_of_int y0) (word_of_int x1) (word_of_int y1) c s)"

definition ST7567_DrawFilledCircle :: "int \<Rightarrow> int \<Rightarrow> int \<Rightarrow> u8 \<Rightarrow> 'a lcd_t_scheme \<Rightarrow> 'a lcd_t_scheme" where
  "ST7567_DrawFilledCircle x0 y0 r c s =
     (let s = draw_points (circle_axis x0 y0 r) c s;
          s = int_line c (x0 - r, y0, x0 + r, y0) s
      in fold (\<lambda>(x, y) s.
           fold (int_line c)
             [(x0 - x, y0 + y, x0 + x, y0 + y), (x0 + x, y0 - y, x0 - x, y0 - y),
              (x0 + y, y0 + x, x0 - y, y0 + x), (x0 + y, y0 - x, x0 - y, y0 - x)] s)
         (circle_loop (1 - r) 1 (- 2 * r) 0 r) s)"

section \<open>Images\<close>

definition ST7567_Image :: "(nat \<Rightarrow> u8) \<Rightarrow> u8 \<Rightarrow> u8 \<Rightarrow> u8 \<Rightarrow> 'a lcd_t_scheme \<Rightarrow> 'a lcd_t_scheme" where
  "ST7567_Image img frame x y s =
     (if frame \<ge> img 2 then s
      else
        (let start = unat frame * (unat (img 3) + unat (img 4) * 256);
             w = unat (img 0); h = unat (img 1)
         in draw_pixels (concat (map (\<lambda>i. map (\<lambda>j.
              (let b = i * w + j
               in (ucast x + of_nat j, ucast y + of_nat i, drop_bit (b mod 8) (img (b div 8 + 5 + start)) AND 1)))
              [0..<w]) [0..<h])) s))"

definition ST7567_TestDisplayRAM :: "'a lcd_t_scheme \<Rightarrow> 'a lcd_t_scheme" where
  "ST7567_TestDisplayRAM s =
     (let row = map of_nat [0..<ST7567_WIDTH] @ [0x11, 0x11, 0x11, 0x11];
          s = s\<lparr>lcd_buf := row @ row @ drop 264 (lcd_buf s)\<rparr>
      in ST7567_Transmit (lcd_buf s) s)"

definition ST7567_Show_Image :: "(nat \<Rightarrow> u8) \<Rightarrow> 'a lcd_t_scheme \<Rightarrow> 'a lcd_t_scheme" where
  "ST7567_Show_Image img s =
     fold (\<lambda>i s.
       (let s = ST7567_WriteCommand (0xB0 + of_nat i) s;
            s = ST7567_WriteCommand 0x10 s;
            s = ST7567_WriteCommand 0x00 s
        in fold (\<lambda>j. ST7567_WriteData (img (i * 128 + j))) [0..<128] s)) [0..<9] s"

section \<open>Pixels are independent\<close>

definition lcd_ok :: "'a lcd_t_scheme \<Rightarrow> bool" where
  "lcd_ok s \<longleftrightarrow> length (lcd_buf s) = LCD_BUF_SIZE"

definition lcd_pixel :: "'a lcd_t_scheme \<Rightarrow> nat \<Rightarrow> nat \<Rightarrow> bool" where
  "lcd_pixel s x y = bit (lcd_buf s ! (x + (y div 8) * 132)) (y mod 8)"

lemma lcd_index_bound:
  assumes "x < 128" "y < 64"
  shows "x + (y div 8) * 132 < (1056 :: nat)"
proof -
  have "y div 8 \<le> 7" using assms(2) by simp
  then show ?thesis using assms(1) by linarith
qed

lemma lcd_index_inj:
  assumes "x < 128" "x' < 128" "x + (y div 8) * 132 = x' + (y' div 8) * 132" "y mod 8 = y' mod 8"
  shows "x = x' \<and> y = (y' :: nat)"
proof -
  have "x = (x + (y div 8) * 132) mod 132" "x' = (x' + (y' div 8) * 132) mod 132"
    using assms(1,2) by simp_all
  then have "x = x'" using assms(3) by simp
  moreover have "y div 8 = y' div 8" using assms(3) calculation by simp
  ultimately show ?thesis using assms(4) by (metis div_mod_decomp)
qed

lemma DrawPixel_pixel:
  assumes "lcd_ok s" "a < 128" "b < 64"
  shows "lcd_pixel (ST7567_DrawPixel x y c s) a b =
    (if unat x = a \<and> unat y = b then c = 1 else lcd_pixel s a b)"
proof (cases "unat x < 128 \<and> unat y < 64")
  case True
  let ?i = "unat x + (unat y div 8) * 132" and ?j = "a + (b div 8) * 132"
  have i: "?i < length (lcd_buf s)" using True assms lcd_index_bound by (auto simp: lcd_ok_def)
  have bb: "bit (push_bit (unat y mod 8) 1 :: u8) n \<longleftrightarrow> n = unat y mod 8" if "n < 8" for n
    using that by (auto simp: bit_simps)
  show ?thesis
  proof (cases "?j = ?i")
    case True
    have "unat x = a \<and> unat y = b \<longleftrightarrow> b mod 8 = unat y mod 8"
      using lcd_index_inj [of a "unat x" b "unat y"] True \<open>unat x < 128 \<and> unat y < 64\<close> assms by auto
    then show ?thesis
      using True i bb [of "b mod 8"] \<open>unat x < 128 \<and> unat y < 64\<close>
      by (auto simp: lcd_pixel_def ST7567_DrawPixel_def Let_def bit_or_iff bit_and_iff bit_not_iff)
  next
    case False
    then have "\<not> (unat x = a \<and> unat y = b)" by auto
    with False True show ?thesis
      by (auto simp: lcd_pixel_def ST7567_DrawPixel_def Let_def)
  qed
next
  case False
  then show ?thesis using assms by (auto simp: ST7567_DrawPixel_def)
qed

lemma DrawPixel_lcd_ok: "lcd_ok (ST7567_DrawPixel x y c s) = lcd_ok s"
  by (simp add: lcd_ok_def ST7567_DrawPixel_def Let_def)

lemma draw_pixels_Cons: "draw_pixels ((x, y, c) # ps) s = draw_pixels ps (ST7567_DrawPixel x y c s)"
  by (simp add: draw_pixels_def)

lemma draw_pixels_lcd_ok: "lcd_ok (draw_pixels ps s) = lcd_ok s"
proof (induction ps arbitrary: s)
  case Nil
  show ?case by (simp add: draw_pixels_def)
next
  case (Cons p ps)
  obtain x y c where p: "p = (x, y, c)" by (cases p)
  show ?case by (simp only: p draw_pixels_Cons Cons.IH DrawPixel_lcd_ok)
qed

definition pixel_of :: "int \<times> int \<Rightarrow> nat \<times> nat" where
  "pixel_of p = (unat (word_of_int (fst p) :: u16), unat (word_of_int (snd p) :: u16))"

lemma draw_points_Cons:
  "draw_points (p # ps) c s = draw_points ps c (ST7567_DrawPixel (word_of_int (fst p)) (word_of_int (snd p)) c s)"
  by (simp add: draw_points_def draw_pixels_Cons split_beta)

lemma draw_points_pixel:
  assumes "lcd_ok s" "a < 128" "b < 64"
  shows "lcd_pixel (draw_points ps c s) a b = (if (a, b) \<in> pixel_of ` set ps then c = 1 else lcd_pixel s a b)"
  using assms
proof (induction ps arbitrary: s)
  case Nil
  then show ?case by (simp add: draw_points_def draw_pixels_def)
next
  case (Cons p ps)
  let ?s = "ST7567_DrawPixel (word_of_int (fst p)) (word_of_int (snd p)) c s"
  have h: "lcd_pixel ?s a b = (if pixel_of p = (a, b) then c = 1 else lcd_pixel s a b)"
    unfolding pixel_of_def prod.inject by (rule DrawPixel_pixel [OF Cons.prems])
  have t: "lcd_pixel (draw_points ps c ?s) a b = (if (a, b) \<in> pixel_of ` set ps then c = 1 else lcd_pixel ?s a b)"
    using Cons.prems by (intro Cons.IH) (simp_all add: DrawPixel_lcd_ok)
  have m: "(a, b) \<in> pixel_of ` set (p # ps) \<longleftrightarrow> pixel_of p = (a, b) \<or> (a, b) \<in> pixel_of ` set ps"
    by auto
  show ?case unfolding draw_points_Cons t h m by simp
qed

text \<open>Drawing a pixel changes that pixel and no other. With the buffer of 1056 bytes every access is
  in range; inside the 128 by 64 screen the pixel at the given coordinates takes the given colour
  and every other keeps its own; coordinates off the screen draw nothing.
\<close>

theorem DrawPixel_exact:
  assumes "lcd_ok s" and "a < 128" and "b < 64"
  shows "lcd_ok (ST7567_DrawPixel x y c s) \<and>
    lcd_pixel (ST7567_DrawPixel x y c s) a b = (if unat x = a \<and> unat y = b then c = 1 else lcd_pixel s a b)"
  using assms by (simp add: DrawPixel_pixel DrawPixel_lcd_ok)

definition lcd_demo :: lcd_t where
  "lcd_demo = flash_t.extend flash_demo
     \<lparr>lcd_buf = replicate 1056 0, after_lcd = replicate 132 0, CurrentX = 0, CurrentY = 0, Inverted = 0, lcd_bits = []\<rparr>"

lemma lcd_demo_ok: "lcd_ok lcd_demo"
  by (simp add: lcd_ok_def lcd_demo_def flash_t.defs)

theorem DrawPixel_exact_witness: "lcd_pixel (ST7567_DrawPixel 3 17 1 lcd_demo) 3 17"
  using DrawPixel_exact [OF lcd_demo_ok, of 3 17 3 17 1] by simp

section \<open>Lines\<close>

text \<open>One round of the loop: which coordinates move.\<close>

lemma line_loop_steps:
  assumes "x0 \<noteq> x1 \<or> y0 \<noteq> y1"
  shows "err > - dx \<Longrightarrow> \<not> err < dy \<Longrightarrow> line_loop (Suc n) x0 y0 x1 y1 dx dy sx sy err =
      map_option ((#) (x0, y0)) (line_loop n (x0 + sx) y0 x1 y1 dx dy sx sy (err - dy))"
    and "err > - dx \<Longrightarrow> err < dy \<Longrightarrow> line_loop (Suc n) x0 y0 x1 y1 dx dy sx sy err =
      map_option ((#) (x0, y0)) (line_loop n (x0 + sx) (y0 + sy) x1 y1 dx dy sx sy (err - dy + dx))"
    and "\<not> err > - dx \<Longrightarrow> err < dy \<Longrightarrow> line_loop (Suc n) x0 y0 x1 y1 dx dy sx sy err =
      map_option ((#) (x0, y0)) (line_loop n x0 (y0 + sy) x1 y1 dx dy sx sy (err + dx))"
  using assms by (auto simp: Let_def)

declare line_loop.simps(2) [simp del]

lemma line_loop_end: "line_loop (Suc n) x1 y1 x1 y1 dx dy sx sy err = Some [(x1, y1)]"
  by (simp add: line_loop.simps(2))

text \<open>
  \<open>line_to sx sy x1 y1 n a b ps\<close>: the points \<open>ps\<close> end in the end point after
  \<open>n\<close> steps and stay in the box of the \<open>a\<close> by \<open>b\<close> steps still to go.
\<close>

definition line_to :: "int \<Rightarrow> int \<Rightarrow> int \<Rightarrow> int \<Rightarrow> nat \<Rightarrow> nat \<Rightarrow> nat \<Rightarrow> (int \<times> int) list \<Rightarrow> bool" where
  "line_to sx sy x1 y1 n a b ps \<longleftrightarrow> length ps = Suc n \<and> last ps = (x1, y1) \<and>
     (\<forall>p \<in> set ps. \<exists>k \<le> a. \<exists>l \<le> b. p = (x1 - sx * int k, y1 - sy * int l))"

lemma line_to_Cons:
  assumes "line_to sx sy x1 y1 n a' b' ps" "a' \<le> a" "b' \<le> b"
  shows "line_to sx sy x1 y1 (Suc n) a b ((x1 - sx * int a, y1 - sy * int b) # ps)"
proof -
  have "\<exists>k \<le> a. \<exists>l \<le> b. p = (x1 - sx * int k, y1 - sy * int l)" if "p \<in> set ps" for p
    using assms that unfolding line_to_def by (meson order_trans)
  moreover have "ps \<noteq> []" using assms(1) by (auto simp: line_to_def)
  ultimately show ?thesis using assms(1) by (auto simp: line_to_def)
qed

lemma step_back: "x1 - sx * int (Suc a) + sx = x1 - sx * int a"
  by (simp add: algebra_simps)

lemma line_loop_flat:
  assumes d: "0 < dy" "dy < dx" and sx: "sx \<noteq> 0"
    and "err = dx div 2 + int a * dy - int b * dx" "0 \<le> err" "err < dx"
  shows "\<exists>ps. line_loop (Suc a) (x1 - sx * int a) (y1 - sy * int b) x1 y1 dx dy sx sy err = Some ps \<and>
    line_to sx sy x1 y1 a a b ps"
  using assms(4-6)
proof (induction a arbitrary: b err)
  case 0
  have "b = 0"
  proof (rule ccontr)
    assume "b \<noteq> 0"
    then have "dx \<le> int b * dx" using d mult_right_mono [of 1 "int b" dx] by simp
    moreover have "dx div 2 < dx" using d by simp
    moreover have "err = dx div 2 - int b * dx" using 0 by simp
    ultimately show False using 0(2) by linarith
  qed
  then show ?case by (simp add: line_to_def line_loop_end)
next
  case (Suc a)
  have ne: "x1 - sx * int (Suc a) \<noteq> x1 \<or> y1 - sy * int b \<noteq> y1" using sx by simp
  have gt: "err > - dx" using Suc.prems d by linarith
  have pos: "0 \<le> int a * dy" "0 \<le> dx div 2" using d by simp_all
  show ?case
  proof (cases "err < dy")
    case True
    have "int (Suc a) * dy = dy + int a * dy" by (simp add: algebra_simps)
    then have "b \<noteq> 0" using Suc.prems(1) True pos by (intro notI) simp
    then obtain b' where b: "b = Suc b'" by (cases b) auto
    have "\<exists>ps. line_loop (Suc a) (x1 - sx * int a) (y1 - sy * int b') x1 y1 dx dy sx sy (err - dy + dx) = Some ps \<and>
        line_to sx sy x1 y1 a a b' ps"
      using Suc.prems True d by (intro Suc.IH) (simp_all add: b algebra_simps)
    then obtain ps where "line_loop (Suc a) (x1 - sx * int a) (y1 - sy * int b') x1 y1 dx dy sx sy (err - dy + dx) = Some ps"
        "line_to sx sy x1 y1 a a b' ps" by blast
    then show ?thesis
      using line_to_Cons [of sx sy x1 y1 a a b' ps "Suc a" b]
      unfolding line_loop_steps(2) [OF ne gt True, of "Suc a" sx sy] unfolding b step_back by simp
  next
    case False
    have "\<exists>ps. line_loop (Suc a) (x1 - sx * int a) (y1 - sy * int b) x1 y1 dx dy sx sy (err - dy) = Some ps \<and>
        line_to sx sy x1 y1 a a b ps"
      using Suc.prems False d by (intro Suc.IH) (simp_all add: algebra_simps)
    then obtain ps where "line_loop (Suc a) (x1 - sx * int a) (y1 - sy * int b) x1 y1 dx dy sx sy (err - dy) = Some ps"
        "line_to sx sy x1 y1 a a b ps" by blast
    then show ?thesis
      using line_to_Cons [of sx sy x1 y1 a a b ps "Suc a" b]
      unfolding line_loop_steps(1) [OF ne gt False, of "Suc a" sx sy] step_back by simp
  qed
qed

lemma line_loop_steep:
  assumes d: "0 < dx" "dx \<le> dy" and sy: "sy \<noteq> 0"
    and "err = - (dy div 2) + int a * dy - int b * dx" "- dy < err" "err \<le> 0"
  shows "\<exists>ps. line_loop (Suc b) (x1 - sx * int a) (y1 - sy * int b) x1 y1 dx dy sx sy err = Some ps \<and>
    line_to sx sy x1 y1 b a b ps"
  using assms(4-6)
proof (induction b arbitrary: a err)
  case 0
  have "a = 0"
  proof (rule ccontr)
    assume "a \<noteq> 0"
    then have "dy \<le> int a * dy" using d mult_right_mono [of 1 "int a" dy] by simp
    moreover have "dy div 2 < dy" using d by simp
    moreover have "err = int a * dy - dy div 2" using 0 by simp
    ultimately show False using 0(3) by linarith
  qed
  then show ?case by (simp add: line_to_def line_loop_end)
next
  case (Suc b)
  have ne: "x1 - sx * int a \<noteq> x1 \<or> y1 - sy * int (Suc b) \<noteq> y1" using sy by simp
  have lt: "err < dy" using Suc.prems d by linarith
  have pos: "0 \<le> int b * dx" "0 \<le> dy div 2" using d by simp_all
  show ?case
  proof (cases "err > - dx")
    case True
    have "int (Suc b) * dx = dx + int b * dx" by (simp add: algebra_simps)
    then have "a \<noteq> 0" using Suc.prems(1) True pos by (intro notI) simp
    then obtain a' where a: "a = Suc a'" by (cases a) auto
    have "\<exists>ps. line_loop (Suc b) (x1 - sx * int a') (y1 - sy * int b) x1 y1 dx dy sx sy (err - dy + dx) = Some ps \<and>
        line_to sx sy x1 y1 b a' b ps"
      using Suc.prems True d by (intro Suc.IH) (simp_all add: a algebra_simps)
    then obtain ps where "line_loop (Suc b) (x1 - sx * int a') (y1 - sy * int b) x1 y1 dx dy sx sy (err - dy + dx) = Some ps"
        "line_to sx sy x1 y1 b a' b ps" by blast
    then show ?thesis
      using line_to_Cons [of sx sy x1 y1 b a' b ps a "Suc b"]
      unfolding line_loop_steps(2) [OF ne True lt, of "Suc b" sx sy] unfolding a step_back by simp
  next
    case False
    have "\<exists>ps. line_loop (Suc b) (x1 - sx * int a) (y1 - sy * int b) x1 y1 dx dy sx sy (err + dx) = Some ps \<and>
        line_to sx sy x1 y1 b a b ps"
      using Suc.prems False d by (intro Suc.IH) (simp_all add: algebra_simps)
    then obtain ps where "line_loop (Suc b) (x1 - sx * int a) (y1 - sy * int b) x1 y1 dx dy sx sy (err + dx) = Some ps"
        "line_to sx sy x1 y1 b a b ps" by blast
    then show ?thesis
      using line_to_Cons [of sx sy x1 y1 b a b ps a "Suc b"]
      unfolding line_loop_steps(3) [OF ne False lt, of "Suc b" sx sy] step_back by simp
  qed
qed

lemma sdiv_2: "x sdiv 2 = (if 0 \<le> x then x div 2 else - ((- x) div 2))" for x :: int
  by (simp add: signed_divide_int_def sgn_if)

lemma line_points_loop:
  assumes "x0 \<noteq> x1" "y0 \<noteq> y1"
  shows "\<exists>ps. line_points x0 y0 x1 y1 = Some ps \<and>
    line_to (if x0 < x1 then 1 else - 1) (if y0 < y1 then 1 else - 1) x1 y1
      (nat (max \<bar>x1 - x0\<bar> \<bar>y1 - y0\<bar>)) (nat \<bar>x1 - x0\<bar>) (nat \<bar>y1 - y0\<bar>) ps"
proof -
  let ?dx = "\<bar>x1 - x0\<bar>" and ?dy = "\<bar>y1 - y0\<bar>"
  let ?sx = "if x0 < x1 then 1 else - 1 :: int" and ?sy = "if y0 < y1 then 1 else - 1 :: int"
  have p: "x1 - ?sx * int (nat ?dx) = x0" "y1 - ?sy * int (nat ?dy) = y0" by auto
  have d: "0 < ?dx" "0 < ?dy" using assms by auto
  show ?thesis
  proof (cases "?dx > ?dy")
    case True
    then have m: "max ?dx ?dy = ?dx" by simp
    have "?dx div 2 = ?dx div 2 + int (nat ?dx) * ?dy - int (nat ?dy) * ?dx" by simp
    from line_loop_flat [OF d(2) True _ this, of ?sx x1 y1 ?sy] d
    have "\<exists>ps. line_loop (Suc (nat ?dx)) x0 y0 x1 y1 ?dx ?dy ?sx ?sy (?dx div 2) = Some ps \<and>
        line_to ?sx ?sy x1 y1 (nat ?dx) (nat ?dx) (nat ?dy) ps"
      unfolding p by simp
    then show ?thesis
      using True d unfolding line_points_def Let_def m sdiv_2 by simp
  next
    case False
    then have m: "max ?dx ?dy = ?dy" by simp
    have "- (?dy div 2) = - (?dy div 2) + int (nat ?dx) * ?dy - int (nat ?dy) * ?dx" by simp
    from line_loop_steep [OF d(1) _ _ this, of ?sy x1 ?sx y1] d False
    have "\<exists>ps. line_loop (Suc (nat ?dy)) x0 y0 x1 y1 ?dx ?dy ?sx ?sy (- (?dy div 2)) = Some ps \<and>
        line_to ?sx ?sy x1 y1 (nat ?dy) (nat ?dx) (nat ?dy) ps"
      unfolding p by simp
    then show ?thesis
      using False d unfolding line_points_def Let_def m sdiv_2 by simp
  qed
qed

text \<open>Consecutive points touch.\<close>

definition touching :: "int \<times> int \<Rightarrow> int \<times> int \<Rightarrow> bool" where
  "touching p q \<longleftrightarrow> \<bar>fst q - fst p\<bar> \<le> 1 \<and> \<bar>snd q - snd p\<bar> \<le> 1"

lemma line_loop_connected:
  assumes "\<bar>sx\<bar> = 1" "\<bar>sy\<bar> = 1" "line_loop n x0 y0 x1 y1 dx dy sx sy err = Some ps"
  shows "ps \<noteq> [] \<and> hd ps = (x0, y0) \<and> successively touching ps"
  using assms(3)
proof (induction n arbitrary: x0 y0 err ps)
  case 0
  then show ?case by simp
next
  case (Suc n)
  show ?case
  proof (cases "x0 = x1 \<and> y0 = y1")
    case True
    then show ?thesis using Suc.prems by (auto simp: line_loop_end)
  next
    case False
    define x y e where "x = (if err > - dx then x0 + sx else x0)" and "y = (if err < dy then y0 + sy else y0)"
      and "e = err - (if err > - dx then dy else 0) + (if err < dy then dx else 0)"
    have "map_option ((#) (x0, y0)) (line_loop n x y x1 y1 dx dy sx sy e) = Some ps"
      using Suc.prems False by (auto simp: line_loop.simps(2) x_def y_def e_def Let_def split: if_splits)
    then obtain qs where q: "line_loop n x y x1 y1 dx dy sx sy e = Some qs" "ps = (x0, y0) # qs"
      by auto
    moreover have "touching (x0, y0) (x, y)" using assms(1,2) by (auto simp: touching_def x_def y_def)
    ultimately show ?thesis using Suc.IH [OF q(1)] by (cases qs) auto
  qed
qed

lemma hd_last_upto: "a \<le> b \<Longrightarrow> hd [a..b] = a \<and> last [a..b] = b \<and> length [a..b] = nat (b - a) + 1" for a b :: int
  by (subst upto_rec1, simp, subst (2) upto_rec2, auto simp: upto_rec1)

lemma successively_upto: "successively (\<lambda>i j. j = i + 1) [a..b]" for a b :: int
proof (induction "nat (b - a + 1)" arbitrary: a)
  case 0
  then show ?case by simp
next
  case (Suc n)
  then have "successively (\<lambda>i j. j = i + 1) [a + 1..b]" by (intro Suc.hyps) simp
  then show ?case using Suc.hyps(2) by (cases "a + 1 \<le> b") (simp_all add: upto_rec1)
qed

text \<open>The points of every line, whatever branch of the code draws it.\<close>

definition line_between :: "int \<Rightarrow> int \<Rightarrow> int \<Rightarrow> int \<Rightarrow> (int \<times> int) list \<Rightarrow> bool" where
  "line_between x0 y0 x1 y1 ps \<longleftrightarrow>
     length ps = nat (max \<bar>x1 - x0\<bar> \<bar>y1 - y0\<bar>) + 1 \<and> {hd ps, last ps} = {(x0, y0), (x1, y1)} \<and>
     successively touching ps \<and> set ps \<subseteq> {min x0 x1..max x0 x1} \<times> {min y0 y1..max y0 y1}"

lemma line_points_column:
  "line_between x0 y0 x0 y1 (map (\<lambda>i. (x0, i)) [min y0 y1..max y0 y1])"
proof -
  have s: "successively touching (map (\<lambda>i. (x0, i)) [min y0 y1..max y0 y1])"
    unfolding successively_map
    by (rule successively_mono [OF successively_upto]) (simp_all add: touching_def)
  show ?thesis
    using hd_last_upto [of "min y0 y1" "max y0 y1"] s
    by (auto simp: line_between_def hd_map last_map)
qed

lemma line_points_row:
  "line_between x0 y0 x1 y0 (map (\<lambda>i. (i, y0)) [min x0 x1..max x0 x1])"
proof -
  have s: "successively touching (map (\<lambda>i. (i, y0)) [min x0 x1..max x0 x1])"
    unfolding successively_map
    by (rule successively_mono [OF successively_upto]) (simp_all add: touching_def)
  show ?thesis
    using hd_last_upto [of "min x0 x1" "max x0 x1"] s
    by (auto simp: line_between_def hd_map last_map)
qed

lemma line_points_between: "\<exists>ps. line_points x0 y0 x1 y1 = Some ps \<and> line_between x0 y0 x1 y1 ps"
proof (cases "x0 = x1 \<or> y0 = y1")
  case True
  then show ?thesis
    using line_points_column [of x0 y0 y1] line_points_row [of x0 y0 x1]
    by (auto simp: line_points_def Let_def)
next
  case False
  let ?sx = "if x0 < x1 then 1 else - 1 :: int" and ?sy = "if y0 < y1 then 1 else - 1 :: int"
  obtain ps where ps: "line_points x0 y0 x1 y1 = Some ps"
    "line_to ?sx ?sy x1 y1 (nat (max \<bar>x1 - x0\<bar> \<bar>y1 - y0\<bar>)) (nat \<bar>x1 - x0\<bar>) (nat \<bar>y1 - y0\<bar>) ps"
    using line_points_loop [of x0 x1 y0 y1] False by blast
  have c: "ps \<noteq> [] \<and> hd ps = (x0, y0) \<and> successively touching ps"
    using ps(1) False unfolding line_points_def Let_def
    by (intro line_loop_connected [where sx = ?sx and sy = ?sy]) auto
  have "p \<in> {min x0 x1..max x0 x1} \<times> {min y0 y1..max y0 y1}" if p: "p \<in> set ps" for p
  proof -
    obtain k l where k: "k \<le> nat \<bar>x1 - x0\<bar>" "l \<le> nat \<bar>y1 - y0\<bar>" "p = (x1 - ?sx * int k, y1 - ?sy * int l)"
      using ps(2) p unfolding line_to_def by blast
    then show ?thesis by (auto split: if_splits)
  qed
  then have "line_between x0 y0 x1 y1 ps" using c ps(2) by (auto simp: line_between_def line_to_def)
  then show ?thesis using ps(1) by blast
qed

lemma draw_points_lcd_ok: "lcd_ok (draw_points ps c s) = lcd_ok s"
  by (simp add: draw_points_def draw_pixels_lcd_ok)

lemma clamp_range: "0 < n \<Longrightarrow> 0 \<le> clamp n v \<and> clamp n v < int n"
proof -
  assume "0 < n"
  moreover have "uint v < int n \<longleftrightarrow> \<not> n \<le> unat v"
    by (metis linorder_not_le of_nat_less_iff uint_nat)
  ultimately show ?thesis unfolding clamp_def by (cases "n \<le> unat v") simp_all
qed

lemma pixel_of_onscreen:
  assumes "set ps \<subseteq> {0..<128} \<times> {0..<64}"
  shows "(a, b) \<in> pixel_of ` set ps \<longleftrightarrow> (int a, int b) \<in> set ps"
proof -
  have h: "pixel_of p = (nat (fst p), nat (snd p))" if "p \<in> set ps" for p
    using assms that by (cases p) (auto simp: pixel_of_def unat_eq_nat_uint uint_word_of_int)
  have "(a, b) \<in> pixel_of ` set ps \<longleftrightarrow> (\<exists>p \<in> set ps. nat (fst p) = a \<and> nat (snd p) = b)"
    using h by force
  also have "\<dots> \<longleftrightarrow> (int a, int b) \<in> set ps"
    using assms by force
  finally show ?thesis .
qed

text \<open>
  C36. A line is drawn completely and nothing else is. With the end points clamped to the screen,
  the loop reaches the far end point (the fuel is never exhausted); the points it draws begin and
  end in the two end points, each touches the one before it, they are as many as the longer side of
  the box they span, and stay inside that box. Those pixels take the colour; every other pixel of
  the screen keeps its own.
\<close>

theorem DrawLine_draws_line:
  assumes "lcd_ok s"
  shows "\<exists>ps. line_between (clamp 128 x0) (clamp 64 y0) (clamp 128 x1) (clamp 64 y1) ps \<and>
    lcd_ok (ST7567_DrawLine x0 y0 x1 y1 c s) \<and>
    (\<forall>a b. a < 128 \<longrightarrow> b < 64 \<longrightarrow> lcd_pixel (ST7567_DrawLine x0 y0 x1 y1 c s) a b =
       (if (int a, int b) \<in> set ps then c = 1 else lcd_pixel s a b))"
proof -
  obtain ps where ps: "line_points (clamp 128 x0) (clamp 64 y0) (clamp 128 x1) (clamp 64 y1) = Some ps"
    "line_between (clamp 128 x0) (clamp 64 y0) (clamp 128 x1) (clamp 64 y1) ps"
    using line_points_between by blast
  have d: "ST7567_DrawLine x0 y0 x1 y1 c s = draw_points ps c s"
    by (simp add: ST7567_DrawLine_def ps)
  let ?B = "{min (clamp 128 x0) (clamp 128 x1)..max (clamp 128 x0) (clamp 128 x1)} \<times>
    {min (clamp 64 y0) (clamp 64 y1)..max (clamp 64 y0) (clamp 64 y1)}"
  have "set ps \<subseteq> ?B" using ps(2) unfolding line_between_def by blast
  also have "?B \<subseteq> {0..<128} \<times> {0..<64}"
    using clamp_range [of 128 x0] clamp_range [of 128 x1] clamp_range [of 64 y0] clamp_range [of 64 y1]
    by (intro Sigma_mono) auto
  finally have on: "(a, b) \<in> pixel_of ` set ps \<longleftrightarrow> (int a, int b) \<in> set ps" for a b
    by (rule pixel_of_onscreen)
  have "lcd_pixel (draw_points ps c s) a b = (if (int a, int b) \<in> set ps then c = 1 else lcd_pixel s a b)"
    if "a < 128" "b < 64" for a b
    unfolding draw_points_pixel [OF assms that] on by (rule refl)
  then show ?thesis unfolding d draw_points_lcd_ok using ps(2) assms by blast
qed

theorem DrawLine_draws_line_witness:
  "\<exists>ps. line_between 10 5 127 40 ps \<and> lcd_ok (ST7567_DrawLine 10 5 300 40 1 lcd_demo) \<and>
    (\<forall>a b. a < 128 \<longrightarrow> b < 64 \<longrightarrow> lcd_pixel (ST7567_DrawLine 10 5 300 40 1 lcd_demo) a b =
       (if (int a, int b) \<in> set ps then (1 :: u8) = 1 else lcd_pixel lcd_demo a b))"
proof -
  have "clamp 128 10 = 10" "clamp 64 5 = 5" "clamp 128 300 = 127" "clamp 64 40 = 40" by (simp_all add: clamp_def)
  then show ?thesis using DrawLine_draws_line [OF lcd_demo_ok, of 10 5 300 40 1] by (simp only:)
qed

section \<open>What reaches the display\<close>

definition byte_bits :: "u8 \<Rightarrow> u8 list" where
  "byte_bits d = map (\<lambda>i. if bit d i then 1 else 0) (rev [0..<8])"

text \<open>The bytes the display has received, each with the level of the data/command line.\<close>

fun sampled :: "(u8 \<times> u8) list \<Rightarrow> (u8 \<times> u8) list" where
  "sampled [] = []"
| "sampled ((dc, d) # ds) = map (Pair dc) (byte_bits d) @ sampled ds"

lemma sampled_append: "sampled (xs @ ys) = sampled xs @ sampled ys"
  by (induction xs rule: sampled.induct) simp_all

lemma lcd_bits_rt_pin_write [simp]: "lcd_bits (rt_pin_write p v s) = lcd_bits s"
  by (simp add: rt_pin_write_def split: option.split)

lemma lcd_pins_less: "LCD_SCK < 64" "LCD_MOSI < 64" "LCD_A0 < 64" "LCD_CS < 64"
  by (simp_all add: pin_defs)

lemma lcd_pins_distinct:
  "LCD_SCK \<noteq> LCD_MOSI" "LCD_SCK \<noteq> LCD_A0" "LCD_MOSI \<noteq> LCD_A0" "LCD_CS \<noteq> LCD_A0" "LCD_CS \<noteq> LCD_SCK" "LCD_CS \<noteq> LCD_MOSI"
  by (simp_all add: pin_defs)

lemma msb_test: "dat AND 0x80 \<noteq> 0 \<longleftrightarrow> bit dat 7" for dat :: u8
  using bit_iff_and_push_bit_not_eq_0 [of dat 7] by simp

lemma sck_high_bits:
  "pins s LCD_SCK = 0 \<Longrightarrow> pins s LCD_CS = 0 \<Longrightarrow> lcd_bits (sck_high s) = lcd_bits s @ [(pins s LCD_A0, pins s LCD_MOSI)]"
  "pins (sck_high s) = (pins s)(LCD_SCK := 1)"
  using lcd_pins_distinct by (simp_all add: sck_high_def Let_def rt_pin_read_def get_pin_def lcd_pins_less)

lemma transmit_loop_bits:
  assumes "pins s LCD_CS = 0"
  shows "lcd_bits (transmit_loop n dat s) =
      lcd_bits s @ map (\<lambda>i. (pins s LCD_A0, if bit (push_bit i dat) 7 then 1 else 0)) [0..<n] \<and>
    pins (transmit_loop n dat s) LCD_A0 = pins s LCD_A0"
  using assms
proof (induction n arbitrary: dat s)
  case 0
  show ?case by simp
next
  case (Suc n)
  let ?m = "if dat AND 0x80 \<noteq> 0 then 1 else (0 :: u8)"
  let ?s = "rt_pin_write LCD_MOSI ?m (rt_pin_write LCD_SCK 0 s)"
  have l: "transmit_loop (Suc n) dat s = transmit_loop n (push_bit 1 dat) (sck_high ?s)" by (simp add: Let_def)
  have p: "pins ?s LCD_SCK = 0" "pins ?s LCD_CS = 0" "pins ?s LCD_A0 = pins s LCD_A0" "pins ?s LCD_MOSI = ?m"
    using lcd_pins_distinct Suc.prems by (simp_all add: lcd_pins_less)
  have q: "pins (sck_high ?s) LCD_CS = 0" "pins (sck_high ?s) LCD_A0 = pins s LCD_A0"
    "lcd_bits (sck_high ?s) = lcd_bits s @ [(pins s LCD_A0, ?m)]"
    using lcd_pins_distinct lcd_pins_distinct [symmetric] p by (simp_all only: sck_high_bits fun_upd_apply if_False lcd_bits_rt_pin_write)
  show ?case
    unfolding l using Suc.IH [OF q(1), of "push_bit 1 dat"] q(2,3)
    by (simp add: msb_test upt_conv_Cons map_Suc_upt [symmetric] del: upt_Suc)
qed

lemma rev_byte_bits: "map (\<lambda>i. if bit (push_bit i d) 7 then 1 else 0) [0..<8] = byte_bits d" for d :: u8
  by (simp add: byte_bits_def bit_simps upt_rec numeral_eq_Suc)

lemma TransmitByte_bits:
  "lcd_bits (ST7567_TransmitByte d s) = lcd_bits s @ sampled [(pins s LCD_A0, d)]"
  "pins (ST7567_TransmitByte d s) LCD_A0 = pins s LCD_A0"
  using lcd_pins_distinct transmit_loop_bits [of "rt_pin_write LCD_CS 0 s" 8 d]
  by (simp_all add: ST7567_TransmitByte_def Let_def lcd_pins_less rev_byte_bits [symmetric])

lemma WriteCommand_bits:
  "lcd_bits (ST7567_WriteCommand c s) = lcd_bits s @ sampled [(0, c)]"
  "pins (ST7567_WriteCommand c s) LCD_A0 = 1"
  by (simp_all add: ST7567_WriteCommand_def TransmitByte_bits lcd_pins_less)

lemma WriteData_fold_bits:
  assumes "pins s LCD_A0 = 1"
  shows "lcd_bits (fold (\<lambda>j. ST7567_WriteData (f j)) js s) = lcd_bits s @ sampled (map (\<lambda>j. (1, f j)) js) \<and>
    pins (fold (\<lambda>j. ST7567_WriteData (f j)) js s) LCD_A0 = 1"
  using assms
  by (induction js arbitrary: s) (simp_all add: ST7567_WriteData_def TransmitByte_bits)

lemma lcd_mem_rt_pin_write [simp]:
  "lcd_buf (rt_pin_write p v s) = lcd_buf s" "after_lcd (rt_pin_write p v s) = after_lcd s"
  by (simp_all add: rt_pin_write_def split: option.split)

lemma transmit_loop_mem [simp]:
  "lcd_buf (transmit_loop n d s) = lcd_buf s" "after_lcd (transmit_loop n d s) = after_lcd s"
  by (induction n arbitrary: d s) (simp_all add: Let_def sck_high_def)

lemma TransmitByte_mem [simp]:
  "lcd_buf (ST7567_TransmitByte d s) = lcd_buf s" "after_lcd (ST7567_TransmitByte d s) = after_lcd s"
  by (simp_all add: ST7567_TransmitByte_def Let_def)

lemma WriteCommand_mem [simp]:
  "lcd_buf (ST7567_WriteCommand d s) = lcd_buf s" "after_lcd (ST7567_WriteCommand d s) = after_lcd s"
  by (simp_all add: ST7567_WriteCommand_def)

lemma WriteData_fold_mem:
  "lcd_buf (fold (\<lambda>j. ST7567_WriteData (f j)) js s) = lcd_buf s \<and>
   after_lcd (fold (\<lambda>j. ST7567_WriteData (f j)) js s) = after_lcd s"
  by (induction js arbitrary: s) (simp_all add: ST7567_WriteData_def)

definition page_stream :: "u8 list \<Rightarrow> nat \<Rightarrow> (u8 \<times> u8) list" where
  "page_stream mem i =
     [(0, 0xB0 + of_nat i), (0, 0x10), (0, 0x00)] @ map (\<lambda>j. (1, mem ! (i * 132 + j))) [0..<132]"

lemma send_page_bits:
  "lcd_bits (send_page i s) = lcd_bits s @ sampled (page_stream (lcd_buf s @ after_lcd s) i) \<and>
   lcd_buf (send_page i s) = lcd_buf s \<and> after_lcd (send_page i s) = after_lcd s"
proof -
  let ?m = "lcd_buf s @ after_lcd s"
  let ?s = "ST7567_WriteCommand 0x00 (ST7567_WriteCommand 0x10 (ST7567_WriteCommand (0xB0 + of_nat i) s))"
  have "pins ?s LCD_A0 = 1" by (simp only: WriteCommand_bits)
  note w = WriteData_fold_bits [OF this, of "\<lambda>j. ?m ! (i * 132 + j)" "[0..<132]"]
  have p: "send_page i s = fold (\<lambda>j. ST7567_WriteData (?m ! (i * 132 + j))) [0..<132] ?s"
    by (simp only: send_page_def Let_def)
  show ?thesis
    unfolding p page_stream_def sampled_append
    using w WriteData_fold_mem [of "\<lambda>j. ?m ! (i * 132 + j)" "[0..<132]" ?s]
    by (simp add: WriteCommand_bits del: upt_Suc fold_simps)
qed

lemma send_pages_bits:
  "lcd_bits (fold send_page is s) = lcd_bits s @ sampled (concat (map (page_stream (lcd_buf s @ after_lcd s)) is)) \<and>
   lcd_buf (fold send_page is s) = lcd_buf s"
proof (induction "is" arbitrary: s)
  case Nil
  show ?case by simp
next
  case (Cons i "is")
  show ?case using Cons.IH [of "send_page i s"] send_page_bits [of i s] by (simp add: sampled_append)
qed

lemma page_stream_inside:
  assumes "length mem = 1056" "i < 8"
  shows "page_stream (mem @ rest) i = page_stream mem i"
proof -
  have "(mem @ rest) ! (i * 132 + j) = mem ! (i * 132 + j)" if "j < 132" for j
  proof -
    have "i * 132 \<le> 7 * 132" using assms(2) by (intro mult_right_mono) simp_all
    then show ?thesis using that assms(1) by (simp add: nth_append)
  qed
  then show ?thesis by (simp add: page_stream_def del: upt_Suc)
qed

text \<open>
  C37. What the display samples, at the rising clock edges with its chip select low, when the screen is
  updated: for each of the eight pages the three
  addressing commands and the page's 132 buffer bytes, every byte most significant bit first and
  with the data/command line at the level its kind needs; the buffer itself is kept. A ninth page is
  sent too, with 132 bytes of whatever memory follows the buffer.
\<close>

theorem UpdateScreen_stream:
  assumes "lcd_ok s"
  shows "lcd_bits (ST7567_UpdateScreen s) = lcd_bits s @
      sampled (concat (map (page_stream (lcd_buf s)) [0..<8])) @
      sampled ([(0, 0xB8), (0, 0x10), (0, 0x00)] @ map (\<lambda>j. (1, after_lcd s ! j)) [0..<132]) \<and>
    lcd_buf (ST7567_UpdateScreen s) = lcd_buf s"
proof -
  have e: "map (page_stream (lcd_buf s @ after_lcd s)) [0..<8] = map (page_stream (lcd_buf s)) [0..<8]"
    using assms by (intro map_cong) (simp_all add: page_stream_inside lcd_ok_def)
  have n: "page_stream (lcd_buf s @ after_lcd s) 8 =
      [(0, 0xB8), (0, 0x10), (0, 0x00)] @ map (\<lambda>j. (1, after_lcd s ! j)) [0..<132]"
    using assms by (simp add: page_stream_def nth_append lcd_ok_def del: upt_Suc)
  have "[0..<9] = [0..<8] @ [8 :: nat]" by (simp add: upt_rec)
  then have "concat (map (page_stream (lcd_buf s @ after_lcd s)) [0..<9]) =
      concat (map (page_stream (lcd_buf s)) [0..<8]) @
      ([(0, 0xB8), (0, 0x10), (0, 0x00)] @ map (\<lambda>j. (1, after_lcd s ! j)) [0..<132])"
    by (simp only: map_append concat_append e n list.map concat.simps append_Nil2)
  then show ?thesis
    using send_pages_bits [of "[0..<9]" s] unfolding ST7567_UpdateScreen_def by (simp only: sampled_append)
qed

theorem UpdateScreen_stream_witness:
  "lcd_ok lcd_demo \<and> lcd_buf (ST7567_UpdateScreen lcd_demo) = replicate 1056 0"
  using UpdateScreen_stream [OF lcd_demo_ok] lcd_demo_ok by (simp add: lcd_demo_def flash_t.defs)

end
