(* ===== verification/Hvac_Pages.thy ===== *)
theory Hvac_Pages
  imports Hvac_Lcd "HOL-Library.Monad_Syntax"
begin

text \<open>
  The pages of the display, \<^verbatim>\<open>applications/Oled/Pages.c\<close>, with the page state of
  \<^verbatim>\<open>applications/Oled/Oled.c\<close> they share: what is drawn, how the buttons move the cursor
  and how the setting page edits the settings and the clock. A \<^verbatim>\<open>sprintf\<close> into a local
  buffer that does not hold the text is undefined in C; such a call, and every function it ends,
  yields \<open>None\<close>. So does reading the table of row names out of range, and so does printing
  \<^verbatim>\<open>temp1\<close>, a local of \<^verbatim>\<open>SettingPage\<close> without an initial value, before any row has written it. The
  \<^verbatim>\<open>static\<close> locals of a function are fields of the state. The glyph tables are data:
  \<open>font_rom k\<close> is the table of the \<open>k\<close>-th font.
\<close>

section \<open>State\<close>

record type_page_t =
  cusor_show :: u8
  cusor_home :: u8
  cusor_max :: u8
  cusor :: u8
  showMore :: u8
  select :: u8
  lastCusor :: u8
  changeValue :: u8
  up :: u8
  down :: u8

text \<open>
  \<open>fan_cnt\<close>, \<open>set_min\<close>, \<open>set_max\<close>, \<open>set_cnt\<close>,
  \<open>tsp_cnt\<close> and \<open>tsp_num\<close> are the static variables of
  \<^verbatim>\<open>showFanRun\<close>, \<^verbatim>\<open>SettingPage\<close> and \<^verbatim>\<open>TimeSelectPage\<close>.
  The static \<^verbatim>\<open>lastData\<close> is written before every use and kept nowhere.
\<close>

record pages_t = lcd_t +
  pageSelect :: type_page_t
  pageInfor :: u64
  reflash_flag :: u8
  backlightTime :: int
  fan_cnt :: u8
  set_max :: u8
  set_min :: u8
  set_cnt :: u8
  tsp_cnt :: u8
  tsp_num :: u32
  font_rom :: "nat \<Rightarrow> nat \<Rightarrow> u8"

abbreviation upd_page :: "(type_page_t \<Rightarrow> type_page_t) \<Rightarrow> 'a pages_t_scheme \<Rightarrow> 'a pages_t_scheme" where
  "upd_page f s \<equiv> s\<lparr>pageSelect := f (pageSelect s)\<rparr>"

definition Font_6x12 :: "'a pages_t_scheme \<Rightarrow> FontDef_t" where
  "Font_6x12 s = \<lparr>fwidth = 6, fheight = 12, forder = 1, fbytes = 1, fdata = font_rom s 0\<rparr>"

definition Font_8x16 :: "'a pages_t_scheme \<Rightarrow> FontDef_t" where
  "Font_8x16 s = \<lparr>fwidth = 8, fheight = 16, forder = 1, fbytes = 1, fdata = font_rom s 1\<rparr>"

definition Font_12x24 :: "'a pages_t_scheme \<Rightarrow> FontDef_t" where
  "Font_12x24 s = \<lparr>fwidth = 12, fheight = 24, forder = 1, fbytes = 2, fdata = font_rom s 2\<rparr>"

definition Font_chinese_8X16 :: "'a pages_t_scheme \<Rightarrow> FontDef_t" where
  "Font_chinese_8X16 s = \<lparr>fwidth = 16, fheight = 16, forder = 0, fbytes = 2, fdata = font_rom s 3\<rparr>"

definition Image_Temp :: "'a pages_t_scheme \<Rightarrow> FontDef_t" where
  "Image_Temp s = \<lparr>fwidth = 17, fheight = 25, forder = 0, fbytes = 3, fdata = font_rom s 4\<rparr>"

section \<open>The page stack\<close>

abbreviation (input) HOME_PAGE :: u8 where "HOME_PAGE \<equiv> 0"
abbreviation (input) SETTING_PAGE :: u8 where "SETTING_PAGE \<equiv> 1"
abbreviation (input) TIME_SELECT_PAGE :: u8 where "TIME_SELECT_PAGE \<equiv> 2"

definition GetReflashFlag :: "'a pages_t_scheme \<Rightarrow> u8" where
  "GetReflashFlag s = reflash_flag s"

definition SetReflashFlag :: "u8 \<Rightarrow> 'a pages_t_scheme \<Rightarrow> 'a pages_t_scheme" where
  "SetReflashFlag v s = s\<lparr>reflash_flag := v\<rparr>"

definition GetPageSelect :: "'a pages_t_scheme \<Rightarrow> type_page_t" where
  "GetPageSelect s = pageSelect s"

definition BackPage :: "'a pages_t_scheme \<Rightarrow> u8 \<times> 'a pages_t_scheme" where
  "BackPage s =
     (let page = ucast (pageInfor s AND 0xFF);
          s = s\<lparr>pageInfor := drop_bit 8 (pageInfor s)\<rparr>;
          s = upd_page (\<lambda>p. p\<lparr>lastCusor := cusor p\<rparr>) s
      in (page, s))"

definition push_page :: "u8 \<Rightarrow> 'a pages_t_scheme \<Rightarrow> 'a pages_t_scheme" where
  "push_page page s = s\<lparr>pageInfor := push_bit 8 (pageInfor s) OR ucast page\<rparr>"

section \<open>Formatted text\<close>

text \<open>
  The conversions the pages use of \<^verbatim>\<open>sprintf\<close>. \<open>fmt_tenths\<close> is
  \<^verbatim>\<open>"%2.1f"\<close> of a number of tenths divided by ten in \<^verbatim>\<open>float\<close>: within the
  16-bit values the program passes, the rounding of the division is far below the printed digit.
\<close>

definition digit :: "nat \<Rightarrow> char" where
  "digit n = char_of (48 + n)"

fun dec_digits :: "nat \<Rightarrow> string" where
  "dec_digits n = (if n < 10 then [digit n] else dec_digits (n div 10) @ [digit (n mod 10)])"

declare dec_digits.simps [simp del]

definition pad_left :: "nat \<Rightarrow> char \<Rightarrow> string \<Rightarrow> string" where
  "pad_left w c t = replicate (w - length t) c @ t"

definition pad_right :: "nat \<Rightarrow> char \<Rightarrow> string \<Rightarrow> string" where
  "pad_right w c t = t @ replicate (w - length t) c"

definition fmt_int :: "int \<Rightarrow> string" where
  "fmt_int i = (if i < 0 then ''-'' else []) @ dec_digits (nat \<bar>i\<bar>)"

definition fmt_d :: "nat \<Rightarrow> int \<Rightarrow> string" where
  "fmt_d w i = pad_left w (CHR '' '') (fmt_int i)"

definition fmt_0d :: "nat \<Rightarrow> int \<Rightarrow> string" where
  "fmt_0d w i =
     (if i < 0 then ''-'' @ pad_left (w - 1) (CHR ''0'') (dec_digits (nat \<bar>i\<bar>))
      else pad_left w (CHR ''0'') (dec_digits (nat i)))"

definition fmt_tenths :: "int \<Rightarrow> string" where
  "fmt_tenths i =
     (if i < 0 then ''-'' else []) @ dec_digits (nat \<bar>i\<bar> div 10) @ ''.'' @ [digit (nat \<bar>i\<bar> mod 10)]"

definition sprintf :: "nat \<Rightarrow> string \<Rightarrow> string option" where
  "sprintf n t = (if length t < n then Some t else None)"

definition puts_at :: "u16 \<Rightarrow> u16 \<Rightarrow> string \<Rightarrow> FontDef_t \<Rightarrow> u8 \<Rightarrow> 'a lcd_t_scheme \<Rightarrow> 'a lcd_t_scheme" where
  "puts_at x y t font color s = ST7567_Puts t font color (ST7567_GotoXY x y s)"

section \<open>The home page\<close>

definition ShowTempUnits :: "u8 \<Rightarrow> u8 \<Rightarrow> 'a pages_t_scheme \<Rightarrow> 'a pages_t_scheme" where
  "ShowTempUnits x y s =
     (let s = ST7567_DrawCircle (uint x) (uint y) 1 1 s;
          x = x + 2;
          y = y - 2
      in puts_at (ucast x) (ucast y) ''C'' (Font_6x12 s) 1 s)"

definition ShowTempNum :: "u8 \<Rightarrow> u8 \<Rightarrow> int \<Rightarrow> 'a pages_t_scheme \<Rightarrow> 'a pages_t_scheme option" where
  "ShowTempNum x y temp s =
     (if temp = VALUE_NULL then Some (puts_at (ucast x) (ucast y) '' --'' (Font_12x24 s) 1 s)
      else do {
        v \<leftarrow> sprintf 6 (fmt_tenths temp);
        v1 \<leftarrow> sprintf 6 (pad_left 5 (CHR '' '') v);
        Some (puts_at (ucast x) (ucast y) v1 (Font_12x24 s) 1 s)
      })"

definition showFanRun :: "u8 \<Rightarrow> u8 \<Rightarrow> u8 \<Rightarrow> 'a pages_t_scheme \<Rightarrow> 'a pages_t_scheme" where
  "showFanRun x y runFlag s =
     (let c = (if runFlag = YES then 0x20 + unat (fan_cnt s mod 4) else 0x20);
          s = (if runFlag = YES then s\<lparr>fan_cnt := fan_cnt s + 1\<rparr> else s)
      in puts_at (ucast x) (ucast y) [char_of c] (Font_chinese_8X16 s) 1 s)"

definition showTemp :: "u8 \<Rightarrow> u8 \<Rightarrow> u8 \<Rightarrow> 'a pages_t_scheme \<Rightarrow> 'a pages_t_scheme" where
  "showTemp x y runFlag s =
     (let c = (if runFlag = COOLING then 0x21 else if runFlag = HEATING then 0x22 else (0x20 :: nat))
      in puts_at (ucast x) (ucast y) [char_of c] (Image_Temp s) 1 s)"

definition home_title :: "'a pages_t_scheme \<Rightarrow> string" where
  "home_title s =
     (let time = getTimeForMat s;
          info = GetGlobalInfo s;
          clock = '' '' @ fmt_0d 2 (uint (hour time)) @ '':'' @ fmt_0d 2 (uint (minute time)) @ '':'' @
                  fmt_0d 2 (uint (second time))
      in if connected info = YES then clock @ ''     ID:'' @ fmt_d 3 (uint (addr info)) @ '' ''
         else clock @ ''            '')"

definition HomePage :: "'a pages_t_scheme \<Rightarrow> 'a pages_t_scheme option" where
  "HomePage s = do {
     title \<leftarrow> sprintf 25 (home_title s);
     let s = puts_at 0 0 title (Font_6x12 s) 0 s;
     let (t, s) = GetTempValue s;
     currentTemp \<leftarrow> t;
     s \<leftarrow> ShowTempNum 0 14 currentTemp s;
     let s = ShowTempUnits 60 28 s;
     let s = puts_at 60 14 ''CV'' (Font_6x12 s) 1 s;
     s \<leftarrow> ShowTempNum 0 40 (sint (GetSetPoint s)) s;
     let s = ShowTempUnits 60 54 s;
     let s = puts_at 60 40 ''SV'' (Font_6x12 s) 1 s;
     let s = ST7567_DrawLine 80 18 80 57 1 s;
     let s = (if CoolOrHeat (GetGlobalInfo s) = NORUN then showFanRun 88 24 NO s else showFanRun 88 24 YES s);
     let s = showTemp 106 16 (CoolOrHeat (GetGlobalInfo s)) s;
     mode_text \<leftarrow> sprintf 25 (''Mode'' @ fmt_int (uint (mode (GetGlobalInfo s))));
     let s = puts_at 88 48 mode_text (Font_6x12 s) 0 s;
     Some (ST7567_UpdateScreen s)
   }"

section \<open>Editing values\<close>

definition AddData :: "u8 \<Rightarrow> u8 \<Rightarrow> u8 \<Rightarrow> u8" where
  "AddData lo hi data = (if data < hi then data + 1 else lo)"

definition SubData :: "u8 \<Rightarrow> u8 \<Rightarrow> u8 \<Rightarrow> u8" where
  "SubData lo hi data = (if data > lo then data - 1 else hi)"

definition AddData_u16 :: "u16 \<Rightarrow> u16 \<Rightarrow> u16 \<Rightarrow> u16" where
  "AddData_u16 lo hi data = (if data < hi then data + 1 else lo)"

definition SubData_u16 :: "u16 \<Rightarrow> u16 \<Rightarrow> u16 \<Rightarrow> u16" where
  "SubData_u16 lo hi data = (if data > lo then data - 1 else hi)"

text \<open>The set points move in whole degrees, the dead band in steps of ten.\<close>

definition setpoint_up :: "s16 \<Rightarrow> s16" where
  "setpoint_up p = (if sint p < 490 then p + 10 else 0)"

definition setpoint_down :: "s16 \<Rightarrow> s16" where
  "setpoint_down p = (if sint p > 10 then p - 10 else 500)"

definition deadband_up :: "u8 \<Rightarrow> u8" where
  "deadband_up d = (if d < 50 then d + 10 else 10)"

definition deadband_down :: "u8 \<Rightarrow> u8" where
  "deadband_down d = (if d > 10 then d - 10 else 50)"

text \<open>
  The text of a cell. \<open>temp\<close> is what the buffer held before, \<open>None\<close> if nothing has been
  written to it: a value without a name leaves the buffer as it is.
\<close>

definition SettingPageGetChar :: "nat \<Rightarrow> int \<Rightarrow> string option \<Rightarrow> string option" where
  "SettingPageGetChar num data temp =
     (if num = 1 then (if data = 1 then Some ''Master'' else if data = 0 then Some ''Slave'' else temp)
      else if num = 2 then
        (if data = 1 then Some ''Mode 1'' else if data = 2 then Some ''Mode 2'' else if data = 3 then Some ''Mode 3'' else temp)
      else if num = 3 then (if data = 1 then Some ''C'' else if data = 2 then Some ''F'' else temp)
      else if num \<in> {4, 5, 6} then
        (if data = VALUE_NULL then Some ''- -'' else sprintf 20 (fmt_int (data sdiv 10) @ ''.0''))
      else if num = 7 then (if data = 0 then Some ''Auto'' else if data = 1 then Some ''Open'' else temp)
      else if num = 8 then (if data = 1 then Some ''Remote'' else if data = 2 then Some ''Local'' else temp)
      else if num = 9 then sprintf 20 (fmt_d 4 data @ ''/'')
      else if num = 10 then sprintf 20 (fmt_0d 2 data @ ''/'')
      else if num \<in> {12, 13, 15, 17} then sprintf 20 (fmt_0d 2 data @ '':'')
      else if num \<in> {11, 14, 16, 18} then sprintf 20 (fmt_0d 2 data)
      else Some '' '')"

text \<open>
  The frame every row shares: when the cursor is on the row's cell and the value is being changed,
  a pending \<^verbatim>\<open>up\<close> is applied and cleared, then a pending \<^verbatim>\<open>down\<close>.
\<close>

definition on_keys ::
  "u8 \<Rightarrow> ('a pages_t_scheme \<Rightarrow> 'a pages_t_scheme) \<Rightarrow> ('a pages_t_scheme \<Rightarrow> 'a pages_t_scheme) \<Rightarrow>
   'a pages_t_scheme \<Rightarrow> 'a pages_t_scheme" where
  "on_keys cell fup fdown s =
     (if cusor (pageSelect s) = cell \<and> changeValue (pageSelect s) = YES then
        (let s = (if up (pageSelect s) = YES then upd_page (\<lambda>p. p\<lparr>up := NO\<rparr>) (fup s) else s)
         in if down (pageSelect s) = YES then upd_page (\<lambda>p. p\<lparr>down := NO\<rparr>) (fdown s) else s)
      else s)"

definition edit_info ::
  "u8 \<Rightarrow> (type_info_t \<Rightarrow> type_info_t) \<Rightarrow> (type_info_t \<Rightarrow> type_info_t) \<Rightarrow> 'a pages_t_scheme \<Rightarrow> 'a pages_t_scheme" where
  "edit_info cell fup fdown s = on_keys cell (upd_info fup) (upd_info fdown) s"

text \<open>The first eight rows: the edit of each, then the value shown.\<close>

definition edit_row :: "nat \<Rightarrow> 'a pages_t_scheme \<Rightarrow> 'a pages_t_scheme" where
  "edit_row i s =
     (if i = 0 then edit_info 1 (\<lambda>r. r\<lparr>moduleMode := AddData MODULE_SLAVE MODULE_MASTER (moduleMode r)\<rparr>)
                                (\<lambda>r. r\<lparr>moduleMode := SubData MODULE_SLAVE MODULE_MASTER (moduleMode r)\<rparr>) s
      else if i = 1 then edit_info 2 (\<lambda>r. r\<lparr>mode := AddData MODE_1_CONVENTIONAL MODE_3_B (mode r)\<rparr>)
                                     (\<lambda>r. r\<lparr>mode := SubData MODE_1_CONVENTIONAL MODE_3_B (mode r)\<rparr>) s
      else if i = 2 then edit_info 3 (\<lambda>r. r\<lparr>infoUnit := AddData UNIT_CENTIGRADE UNIT_FAHRENHEIT (infoUnit r)\<rparr>)
                                     (\<lambda>r. r\<lparr>infoUnit := SubData UNIT_CENTIGRADE UNIT_FAHRENHEIT (infoUnit r)\<rparr>) s
      else if i = 3 then edit_info 4 (\<lambda>r. r\<lparr>daySetPoint := setpoint_up (daySetPoint r)\<rparr>)
                                     (\<lambda>r. r\<lparr>daySetPoint := setpoint_down (daySetPoint r)\<rparr>) s
      else if i = 4 then edit_info 5 (\<lambda>r. r\<lparr>nightSetPoint := setpoint_up (nightSetPoint r)\<rparr>)
                                     (\<lambda>r. r\<lparr>nightSetPoint := setpoint_down (nightSetPoint r)\<rparr>) s
      else if i = 5 then edit_info 6 (\<lambda>r. r\<lparr>deadBand := deadband_up (deadBand r)\<rparr>)
                                     (\<lambda>r. r\<lparr>deadBand := deadband_down (deadBand r)\<rparr>) s
      else if i = 6 then edit_info 7 (\<lambda>r. r\<lparr>fanRun := AddData FAN_AUTO 1 (fanRun r)\<rparr>)
                                     (\<lambda>r. r\<lparr>fanRun := SubData FAN_AUTO 1 (fanRun r)\<rparr>) s
      else if i = 7 then edit_info 8 (\<lambda>r. r\<lparr>tempFrom := AddData TEMP_FROM_REMOTE TEMP_FROM_LOCAL (tempFrom r)\<rparr>)
                                     (\<lambda>r. r\<lparr>tempFrom := SubData TEMP_FROM_REMOTE TEMP_FROM_LOCAL (tempFrom r)\<rparr>) s
      else s)"

definition row_data :: "nat \<Rightarrow> type_info_t \<Rightarrow> int" where
  "row_data i r =
     (if i = 0 then uint (moduleMode r) else if i = 1 then uint (mode r) else if i = 2 then uint (infoUnit r)
      else if i = 3 then sint (daySetPoint r) else if i = 4 then sint (nightSetPoint r)
      else if i = 5 then uint (deadBand r) else if i = 6 then uint (fanRun r) else uint (tempFrom r))"

text \<open>
  The date and time rows edit the local copy \<^verbatim>\<open>time_for\<close> and hand it to the clock, whose
  result is ignored.
\<close>

definition edit_time ::
  "u8 \<Rightarrow> (type_sys_time \<Rightarrow> type_sys_time) \<Rightarrow> (type_sys_time \<Rightarrow> type_sys_time) \<Rightarrow>
   (type_sys_time \<Rightarrow> 'a pages_t_scheme \<Rightarrow> 'a pages_t_scheme) \<Rightarrow>
   type_sys_time \<times> 'a pages_t_scheme \<Rightarrow> type_sys_time \<times> 'a pages_t_scheme" where
  "edit_time cell fup fdown put ts =
     (case ts of (t, s) \<Rightarrow>
       (if cusor (pageSelect s) = cell \<and> changeValue (pageSelect s) = YES then
          (let (t, s) = (if up (pageSelect s) = YES then (fup t, upd_page (\<lambda>p. p\<lparr>up := NO\<rparr>) (put (fup t) s)) else (t, s))
           in if down (pageSelect s) = YES then (fdown t, upd_page (\<lambda>p. p\<lparr>down := NO\<rparr>) (put (fdown t) s)) else (t, s))
        else (t, s)))"

definition put_date :: "type_sys_time \<Rightarrow> 'a pages_t_scheme \<Rightarrow> 'a pages_t_scheme" where
  "put_date t s = snd (set_date (uint (year t)) (uint (month t)) (uint (day t)) s)"

definition put_time :: "type_sys_time \<Rightarrow> 'a pages_t_scheme \<Rightarrow> 'a pages_t_scheme" where
  "put_time t s = snd (set_time (uint (hour t)) (uint (minute t)) (uint (second t)) s)"

definition edit_date_row :: "type_sys_time \<times> 'a pages_t_scheme \<Rightarrow> type_sys_time \<times> 'a pages_t_scheme" where
  "edit_date_row ts =
     (let ts = edit_time 9 (\<lambda>t. t\<lparr>year := AddData_u16 2000 2100 (year t)\<rparr>) (\<lambda>t. t\<lparr>year := SubData_u16 2000 2100 (year t)\<rparr>) put_date ts;
          ts = edit_time 10 (\<lambda>t. t\<lparr>month := AddData_u16 1 12 (month t)\<rparr>) (\<lambda>t. t\<lparr>month := SubData_u16 1 12 (month t)\<rparr>) put_date ts
      in edit_time 11 (\<lambda>t. t\<lparr>day := AddData_u16 1 31 (day t)\<rparr>) (\<lambda>t. t\<lparr>day := SubData_u16 1 31 (day t)\<rparr>) put_date ts)"

definition edit_clock_row :: "type_sys_time \<times> 'a pages_t_scheme \<Rightarrow> type_sys_time \<times> 'a pages_t_scheme" where
  "edit_clock_row ts =
     (let ts = edit_time 12 (\<lambda>t. t\<lparr>hour := AddData_u16 0 23 (hour t)\<rparr>) (\<lambda>t. t\<lparr>hour := SubData_u16 0 23 (hour t)\<rparr>) put_time ts;
          ts = edit_time 13 (\<lambda>t. t\<lparr>minute := AddData_u16 0 59 (minute t)\<rparr>) (\<lambda>t. t\<lparr>minute := SubData_u16 0 59 (minute t)\<rparr>) put_time ts
      in edit_time 14 (\<lambda>t. t\<lparr>second := AddData_u16 0 59 (second t)\<rparr>) (\<lambda>t. t\<lparr>second := SubData_u16 0 59 (second t)\<rparr>) put_time ts)"

text \<open>The high byte of a day boundary is its hour, the low byte its minute.\<close>

definition edit_start_row :: "'a pages_t_scheme \<Rightarrow> 'a pages_t_scheme" where
  "edit_start_row s =
     (let s = edit_info 15 (\<lambda>r. r\<lparr>dayStartTime := mk16 (AddData 0 23 (hi8 (dayStartTime r))) (lo8 (dayStartTime r))\<rparr>)
                           (\<lambda>r. r\<lparr>dayStartTime := mk16 (SubData 0 23 (hi8 (dayStartTime r))) (lo8 (dayStartTime r))\<rparr>) s
      in edit_info 16 (\<lambda>r. r\<lparr>dayStartTime := mk16 (hi8 (dayStartTime r)) (AddData 0 59 (lo8 (dayStartTime r)))\<rparr>)
                      (\<lambda>r. r\<lparr>dayStartTime := mk16 (hi8 (dayStartTime r)) (SubData 0 59 (lo8 (dayStartTime r)))\<rparr>) s)"

definition edit_end_row :: "'a pages_t_scheme \<Rightarrow> 'a pages_t_scheme" where
  "edit_end_row s =
     (let s = edit_info 17 (\<lambda>r. r\<lparr>dayEndTime := mk16 (AddData 0 23 (hi8 (dayEndTime r))) (lo8 (dayEndTime r))\<rparr>)
                           (\<lambda>r. r\<lparr>dayEndTime := mk16 (SubData 0 23 (hi8 (dayEndTime r))) (lo8 (dayEndTime r))\<rparr>) s
      in edit_info 18 (\<lambda>r. r\<lparr>dayEndTime := mk16 (hi8 (dayEndTime r)) (AddData 0 59 (lo8 (dayEndTime r)))\<rparr>)
                      (\<lambda>r. r\<lparr>dayEndTime := mk16 (hi8 (dayEndTime r)) (SubData 0 59 (lo8 (dayEndTime r)))\<rparr>) s)"

section \<open>The setting page\<close>

definition row_names :: "string list" where
  "row_names = [''Module'', ''Mode'', ''Uint'', ''Day Point'', ''Night Point'', ''DeadBand'', ''Fan'', ''Temp From'',
     ''Date'', ''Time'', ''Day Start'', ''Day End'']"

text \<open>The colour of a cell: inverted under the cursor, blinking while its value is changed.\<close>

definition cell_color :: "u8 \<Rightarrow> 'a pages_t_scheme \<Rightarrow> u8" where
  "cell_color cell s =
     (if changeValue (pageSelect s) = YES
      then (if cell = cusor (pageSelect s) then (if set_cnt s mod 2 = 0 then 0 else 1) else 1)
      else (if cell = cusor (pageSelect s) then 0 else 1))"

definition put_cell :: "u8 \<Rightarrow> u8 \<Rightarrow> string \<Rightarrow> u8 \<Rightarrow> 'a pages_t_scheme \<Rightarrow> 'a pages_t_scheme" where
  "put_cell x y t cell s = puts_at (ucast x) (ucast y) t (Font_6x12 s) (cell_color cell s) s"

text \<open>
  One row. The result is the local copy of the time and the buffer \<^verbatim>\<open>temp1\<close>, which the
  next row may still show, and the state; \<open>None\<close> in place of the text is a buffer nothing
  has been written to.
\<close>

definition value_row ::
  "nat \<Rightarrow> u8 \<Rightarrow> string option \<Rightarrow> 'a pages_t_scheme \<Rightarrow> (string option \<times> 'a pages_t_scheme) option" where
  "value_row i y temp1 s = do {
     let s = edit_row i s;
     temp1 \<leftarrow> SettingPageGetChar (i + 1) (row_data i (GetGlobalInfo s)) temp1;
     temp \<leftarrow> sprintf 20 (pad_left 11 (CHR '' '') temp1);
     Some (Some temp1, put_cell 62 y temp (of_nat (i + 1)) s)
   }"

definition three_cells ::
  "u8 \<Rightarrow> nat \<times> u8 \<Rightarrow> int \<times> int \<times> int \<Rightarrow> string option \<Rightarrow> 'a pages_t_scheme \<Rightarrow>
   (string option \<times> 'a pages_t_scheme) option" where
  "three_cells y cw d temp1 s =
     (case (cw, d) of ((c, w), (d2, d1, d0)) \<Rightarrow> do {
        temp3 \<leftarrow> SettingPageGetChar c d2 None;
        temp2 \<leftarrow> SettingPageGetChar (c + 1) d1 None;
        temp1 \<leftarrow> SettingPageGetChar (c + 2) d0 temp1;
        let s = put_cell 62 y temp3 (of_nat c) s;
        let s = put_cell (62 + w) y temp2 (of_nat (c + 1)) s;
        Some (Some temp1, put_cell (62 + w + 18) y temp1 (of_nat (c + 2)) s)
      })"

definition two_cells ::
  "u8 \<Rightarrow> nat \<Rightarrow> u16 \<Rightarrow> string option \<Rightarrow> 'a pages_t_scheme \<Rightarrow> (string option \<times> 'a pages_t_scheme) option" where
  "two_cells y c v temp1 s = do {
     temp2 \<leftarrow> SettingPageGetChar c (uint (hi8 v)) None;
     temp1 \<leftarrow> SettingPageGetChar (c + 1) (uint (lo8 v)) temp1;
     let s = put_cell 62 y temp2 (of_nat c) s;
     Some (Some temp1, put_cell (62 + 18) y temp1 (of_nat (c + 1)) s)
   }"

definition setting_row ::
  "nat \<Rightarrow> u8 \<Rightarrow> string option \<times> type_sys_time \<times> 'a pages_t_scheme \<Rightarrow>
   (string option \<times> type_sys_time \<times> 'a pages_t_scheme) option" where
  "setting_row i y r =
     (case r of (temp1, t, s) \<Rightarrow>
       if i \<ge> length row_names then None
       else do {
         temp \<leftarrow> sprintf 20 (pad_right 10 (CHR '' '') (row_names ! i));
         let s = puts_at 2 (ucast y) temp (Font_6x12 s) 1 s;
         if i < 8 then do {
           (temp1, s) \<leftarrow> value_row i y temp1 s;
           Some (temp1, t, s)
         } else if i = 8 then do {
           let (t, s) = edit_date_row (t, s);
           (temp1, s) \<leftarrow> three_cells y (9, 30) (uint (year t), uint (month t), uint (day t)) temp1 s;
           Some (temp1, t, s)
         } else if i = 9 then do {
           let (t, s) = edit_clock_row (t, s);
           (temp1, s) \<leftarrow> three_cells y (12, 18) (uint (hour t), uint (minute t), uint (second t)) temp1 s;
           Some (temp1, t, s)
         } else if i = 10 then do {
           let s = edit_start_row s;
           (temp1, s) \<leftarrow> two_cells y 15 (dayStartTime (GetGlobalInfo s)) temp1 s;
           Some (temp1, t, s)
         } else do {
           let s = edit_end_row s;
           (temp1, s) \<leftarrow> two_cells y 17 (dayEndTime (GetGlobalInfo s)) temp1 s;
           Some (temp1, t, s)
         }
       })"

text \<open>The rows from \<open>i\<close> on, \<open>n\<close> of them.\<close>

fun setting_rows ::
  "nat \<Rightarrow> nat \<Rightarrow> u8 \<Rightarrow> string option \<times> type_sys_time \<times> 'a pages_t_scheme \<Rightarrow>
   (string option \<times> type_sys_time \<times> 'a pages_t_scheme) option" where
  "setting_rows 0 i y r = Some r"
| "setting_rows (Suc n) i y r = do {
     r \<leftarrow> setting_row i y r;
     setting_rows n (i + 1) (y + 12) r
   }"

definition show_menu :: "u8 \<Rightarrow> u8" where
  "show_menu c =
     (if c < 9 then c else if c \<in> {9, 10, 11} then 9 else if c \<in> {12, 13, 14} then 10
      else if c \<in> {15, 16} then 11 else if c \<in> {17, 18} then 12 else 0)"

definition scroll_menu :: "'a pages_t_scheme \<Rightarrow> 'a pages_t_scheme" where
  "scroll_menu s =
     (let showMenu = show_menu (cusor (pageSelect s))
      in if showMenu < set_min s then s\<lparr>set_min := showMenu, set_max := showMenu + 4\<rparr>
         else if showMenu > set_max s then s\<lparr>set_max := showMenu, set_min := showMenu - 4\<rparr>
         else s)"

definition setting_frame :: "'a pages_t_scheme \<Rightarrow> 'a pages_t_scheme" where
  "setting_frame s =
     (let s = ST7567_DrawLine 62 0 62 62 1 s;
          s = fold (\<lambda>y. ST7567_DrawLine 0 y 128 y 1) [12, 24, 36, 48] s
      in ST7567_DrawRectangle 0 0 128 60 1 s)"

definition SettingPage :: "'a pages_t_scheme \<Rightarrow> 'a pages_t_scheme option" where
  "SettingPage s =
     (let s = s\<lparr>set_cnt := set_cnt s + 1\<rparr>;
          time_for = getTimeForMat s;
          s = scroll_menu s
      in if set_min s = 0 then None
         else do {
           (temp1, t, s) \<leftarrow> setting_rows (unat (set_max s) + 1 - unat (set_min s)) (unat (set_min s) - 1) 0
                            (None, time_for, s);
           Some (ST7567_UpdateScreen (setting_frame s))
         })"

section \<open>The other pages\<close>

text \<open>
  \<^verbatim>\<open>TimeSelectPage\<close> edits a value behind a pointer: \<open>mem\<close> is the memory there,
  \<open>fl\<close> the caller's flag. Copying more than the four bytes of \<^verbatim>\<open>num\<close> or of the
  memory given is undefined.
\<close>

definition of_le32 :: "u8 list \<Rightarrow> u32" where
  "of_le32 b = ucast (b ! 0) OR push_bit 8 (ucast (b ! 1)) OR push_bit 16 (ucast (b ! 2)) OR push_bit 24 (ucast (b ! 3))"

definition tsp_load :: "u16 \<Rightarrow> u16 \<Rightarrow> u8 list \<Rightarrow> nat \<Rightarrow> u32 \<Rightarrow> u32" where
  "tsp_load lo hi mem n num =
     (let num = of_le32 (take n mem @ drop n (le32 num))
      in if sint num < uint lo then ucast lo else if sint num > uint hi then ucast hi else num)"

definition tsp_arrow :: "bool \<Rightarrow> bool \<Rightarrow> 'a pages_t_scheme \<Rightarrow> 'a pages_t_scheme" where
  "tsp_arrow upper sel s =
     (let c = (if sel \<and> tsp_cnt s mod 2 = 0 then 0 else 1)
      in if upper then ST7567_DrawFilledTriangle 56 15 64 15 60 11 c s
         else ST7567_DrawFilledTriangle 56 33 64 33 60 37 c s)"

definition tsp_select :: "u16 \<Rightarrow> u16 \<Rightarrow> u8 \<Rightarrow> u8 list \<Rightarrow> nat \<Rightarrow> 'a pages_t_scheme \<Rightarrow> u8 list \<times> 'a pages_t_scheme" where
  "tsp_select lo hi step mem n s =
     (let num = sint (tsp_num s);
          c = cusor (pageSelect s)
      in if c = 1 then
           (mem, s\<lparr>tsp_num := (if num + uint step < uint hi then tsp_num s + ucast step else ucast lo)\<rparr>)
         else if c = 2 then
           (mem, s\<lparr>tsp_num := (if num > uint lo + uint step then tsp_num s - ucast step else ucast hi)\<rparr>)
         else if c = 3 then (take n (le32 (tsp_num s)) @ drop n mem, snd (BackPage s))
         else if c = 4 then (mem, snd (BackPage s))
         else (mem, s))"

definition TimeSelectPage ::
  "u16 \<Rightarrow> u16 \<Rightarrow> u8 \<Rightarrow> u8 list \<Rightarrow> u8 \<Rightarrow> u8 \<Rightarrow> 'a pages_t_scheme \<Rightarrow> (u8 list \<times> u8 \<times> 'a pages_t_scheme) option" where
  "TimeSelectPage lo hi step mem size' fl s =
     (let n = unat size'
      in if (n > 4 \<or> n > length mem) \<and>
           (fl = YES \<or> select (pageSelect s) = YES \<and> cusor (pageSelect s) = 3) then None
         else do {
           let s = (if fl = YES then s\<lparr>tsp_num := tsp_load lo hi mem n (tsp_num s)\<rparr> else s);
           let fl' = (if fl = YES then NO else fl);
           let s = s\<lparr>tsp_cnt := tsp_cnt s + 1\<rparr>;
           let c = cusor (pageSelect s);
           let s = tsp_arrow True (c = 1) s;
           temp \<leftarrow> sprintf 20 (fmt_d 4 (sint (tsp_num s)));
           let s = puts_at 48 16 temp (Font_8x16 s) 1 s;
           let s = tsp_arrow False (c = 2) s;
           let s = puts_at 40 48 ''YES'' (Font_8x16 s) (if c = 3 then 0 else 1) s;
           let s = puts_at 72 48 ''NO'' (Font_8x16 s) (if c = 4 then 0 else 1) s;
           let (mem, s) = (if select (pageSelect s) = YES then
                             (let (mem, s) = tsp_select lo hi step mem n s
                              in (mem, upd_page (\<lambda>p. p\<lparr>select := NO\<rparr>) s))
                           else (mem, s));
           Some (mem, fl', ST7567_UpdateScreen s)
         })"

definition data_line :: "u16 \<Rightarrow> u8 \<Rightarrow> u16 \<times> u16 \<times> u16 \<Rightarrow> 'a pages_t_scheme \<Rightarrow> 'a pages_t_scheme option" where
  "data_line column c d s =
     (case d of (d0, d1, d2) \<Rightarrow> do {
        t0 \<leftarrow> sprintf 20 (fmt_0d 4 (uint d0));
        t1 \<leftarrow> sprintf 20 (fmt_0d 2 (uint d1));
        t2 \<leftarrow> sprintf 20 (fmt_0d 2 (uint d2));
        let x0 = (3 :: nat);
        let x1 = x0 + length t0 + 1;
        let x2 = x1 + length t1 + 1;
        let color = (\<lambda>k. if k = cusor (pageSelect s) then 0 else 1);
        let s = puts_at (of_nat (8 * x0)) column t0 (Font_8x16 s) (color c) s;
        let s = puts_at (of_nat (8 * x1)) column t1 (Font_8x16 s) (color (c + 1)) s;
        Some (puts_at (of_nat (8 * x2)) column t2 (Font_8x16 s) (color (c + 2)) s)
      })"

definition DataPrintPage :: "(nat \<Rightarrow> u16) \<Rightarrow> 'a pages_t_scheme \<Rightarrow> 'a pages_t_scheme option" where
  "DataPrintPage data s = do {
     s \<leftarrow> data_line 16 1 (data 0, data 1, data 2) s;
     s \<leftarrow> data_line 32 4 (data 3, data 4, data 5) s;
     let s = puts_at 40 48 ''YES'' (Font_8x16 s) (if cusor (pageSelect s) = 7 then 0 else 1) s;
     let s = puts_at 72 48 ''NO'' (Font_8x16 s) (if cusor (pageSelect s) = 8 then 0 else 1) s;
     Some (ST7567_UpdateScreen s)
   }"

section \<open>Back light and buttons\<close>

definition GetBackLightTime :: "'a pages_t_scheme \<Rightarrow> int" where
  "GetBackLightTime s = backlightTime s"

definition wakeUpOledBackLight :: "'a pages_t_scheme \<Rightarrow> 'a pages_t_scheme" where
  "wakeUpOledBackLight s = rt_pin_write LCD_BK YES (s\<lparr>backlightTime := GetTimeRun s\<rparr>)"

definition monitorBackLight :: "'a pages_t_scheme \<Rightarrow> 'a pages_t_scheme" where
  "monitorBackLight s =
     (if GetBackLightTime s + 60 < GetTimeRun s then snd (BackPage (rt_pin_write LCD_BK NO s)) else s)"

abbreviation (input) NULL_PRESS :: u8 where "NULL_PRESS \<equiv> 0"
abbreviation (input) SHORT_PRESS :: u8 where "SHORT_PRESS \<equiv> 1"
abbreviation (input) LONG_PRESS :: u8 where "LONG_PRESS \<equiv> 2"

definition EnterBtnCallBack :: "u8 \<Rightarrow> 'a pages_t_scheme \<Rightarrow> 'a pages_t_scheme" where
  "EnterBtnCallBack type s =
     (if type = SHORT_PRESS then
        (let s = wakeUpOledBackLight s;
             s = upd_page (\<lambda>p. p\<lparr>select := YES\<rparr>) s
         in SetReflashFlag YES s)
      else if type = LONG_PRESS then SetReflashFlag YES (snd (BackPage s))
      else s)"

definition UpBtnCallBack :: "u8 \<Rightarrow> 'a pages_t_scheme \<Rightarrow> 'a pages_t_scheme" where
  "UpBtnCallBack type s =
     (if type = SHORT_PRESS then
        (let s = (if changeValue (GetPageSelect s) = NO then
                    upd_page (\<lambda>p. p\<lparr>cusor := (if cusor p > cusor_home p then cusor p - 1 else cusor_max p)\<rparr>) s
                  else s);
             s = wakeUpOledBackLight s;
             s = SetReflashFlag YES s
         in upd_page (\<lambda>p. p\<lparr>up := YES\<rparr>) s)
      else s)"

definition DowmBtnCallBack :: "u8 \<Rightarrow> 'a pages_t_scheme \<Rightarrow> 'a pages_t_scheme" where
  "DowmBtnCallBack type s =
     (if type = SHORT_PRESS then
        (let s = (if changeValue (GetPageSelect s) = NO \<and> cusor_max (GetPageSelect s) > 0 then
                    upd_page (\<lambda>p. p\<lparr>cusor := (if cusor p < cusor_max p then cusor p + 1 else cusor_home p)\<rparr>) s
                  else s);
             s = wakeUpOledBackLight s;
             s = SetReflashFlag YES s
         in upd_page (\<lambda>p. p\<lparr>down := YES\<rparr>) s)
      else s)"

end
