(* ===== verification/Hvac_Settings.thy ===== *)
theory Hvac_Settings
  imports Hvac_Pages
begin

text \<open>
  Properties of the pages of \<^verbatim>\<open>applications/Oled/Pages.c\<close>: drawing leaves everything but the
  frame buffer alone, the texts of the setting page fit their buffers, and editing changes exactly the
  setting under the cursor and keeps every setting in its range.
\<close>

section \<open>Drawing changes only the frame buffer\<close>

definition redrawn :: "'a lcd_t_scheme \<Rightarrow> 'a lcd_t_scheme \<Rightarrow> bool" where
  "redrawn s s' \<longleftrightarrow> (\<exists>B X Y. s' = s\<lparr>lcd_buf := B, CurrentX := X, CurrentY := Y\<rparr>)"

lemma redrawn_refl [simp, intro]: "redrawn s s"
  unfolding redrawn_def by (intro exI [of _ "lcd_buf s"] exI [of _ "CurrentX s"] exI [of _ "CurrentY s"]) simp

lemma redrawn_trans [trans]: "redrawn s s' \<Longrightarrow> redrawn s' s'' \<Longrightarrow> redrawn s s''"
  unfolding redrawn_def by fastforce

lemma redrawn_pos: "redrawn s (s\<lparr>CurrentX := x\<rparr>)" "redrawn s (s\<lparr>CurrentX := x, CurrentY := y\<rparr>)"
  unfolding redrawn_def
  by (intro exI [of _ "lcd_buf s"] exI [of _ x] exI [of _ "CurrentY s"], simp,
      intro exI [of _ "lcd_buf s"] exI [of _ x] exI [of _ y], simp)

lemma redrawn_buf: "redrawn s (s\<lparr>lcd_buf := b\<rparr>)"
  unfolding redrawn_def
  by (intro exI [of _ b] exI [of _ "CurrentX s"] exI [of _ "CurrentY s"]) simp

lemma redrawn_fold:
  assumes "\<And>x s. redrawn s (f x s)"
  shows "redrawn s (fold f xs s)"
proof (induction xs arbitrary: s)
  case Nil
  show ?case by simp
next
  case (Cons x xs)
  then show ?case using assms [of s x] redrawn_trans by (simp, blast)
qed

lemma redrawn_DrawPixel: "redrawn s (ST7567_DrawPixel x y c s)"
  unfolding ST7567_DrawPixel_def Let_def by (simp add: redrawn_buf)

lemma redrawn_draw_pixels: "redrawn s (draw_pixels ps s)"
  unfolding draw_pixels_def by (rule redrawn_fold) (simp add: split_beta redrawn_DrawPixel)

lemma redrawn_draw_points: "redrawn s (draw_points ps c s)"
  unfolding draw_points_def by (rule redrawn_draw_pixels)

lemma redrawn_DrawLine: "redrawn s (ST7567_DrawLine x0 y0 x1 y1 c s)"
  unfolding ST7567_DrawLine_def by (simp add: redrawn_draw_points split: option.split)

lemma redrawn_Putc: "redrawn s (ST7567_Putc ch font c s)"
  unfolding ST7567_Putc_def Let_def by (rule redrawn_trans [OF redrawn_draw_pixels redrawn_pos(1)])

lemma redrawn_puts_at: "redrawn s (puts_at x y t font c s)"
  unfolding puts_at_def ST7567_Puts_def ST7567_GotoXY_def
  by (rule redrawn_trans [OF redrawn_pos(2) redrawn_fold [OF redrawn_Putc]])

lemma redrawn_DrawCircle: "redrawn s (ST7567_DrawCircle x0 y0 r c s)"
  unfolding ST7567_DrawCircle_def by (rule redrawn_draw_points)

lemma redrawn_DrawRectangle: "redrawn s (ST7567_DrawRectangle x y w h c s)"
  unfolding ST7567_DrawRectangle_def Let_def
  by (simp add: redrawn_trans [OF _ redrawn_DrawLine])

lemma redrawn_ShowTempUnits: "redrawn s (ShowTempUnits x y s)"
  unfolding ShowTempUnits_def Let_def by (rule redrawn_trans [OF redrawn_DrawCircle redrawn_puts_at])

lemma redrawn_put_cell: "redrawn s (put_cell x y t c s)"
  unfolding put_cell_def by (rule redrawn_puts_at)

lemma redrawn_setting_frame: "redrawn s (setting_frame s)"
  unfolding setting_frame_def Let_def
  by (rule redrawn_trans [OF redrawn_trans [OF redrawn_DrawLine redrawn_fold] redrawn_DrawRectangle], rule redrawn_DrawLine)

text \<open>What a redrawn state still holds.\<close>

lemma redrawn_gpio: "redrawn s s' \<Longrightarrow> pins s' = pins s \<and> locationFlag s' = locationFlag s"
  by (auto simp: redrawn_def)

lemma redrawn_ctl:
  "redrawn s s' \<Longrightarrow> gInfo s' = gInfo s \<and> rtc_regs s' = rtc_regs s \<and> timeRun s' = timeRun s \<and>
     ctlStatics s' = ctlStatics s \<and> sensorInfo s' = sensorInfo s \<and> actionInfo s' = actionInfo s"
  by (auto simp: redrawn_def)

lemma redrawn_page:
  "redrawn s s' \<Longrightarrow> pageSelect s' = pageSelect s \<and> pageInfor s' = pageInfor s \<and> set_min s' = set_min s \<and>
     set_max s' = set_max s \<and> set_cnt s' = set_cnt s \<and> font_rom s' = font_rom s \<and>
     backlightTime s' = backlightTime s \<and> reflash_flag s' = reflash_flag s"
  by (auto simp: redrawn_def)

section \<open>Buffers\<close>

lemma dec_digits_length: "n < 10 ^ k \<Longrightarrow> 0 < k \<Longrightarrow> length (dec_digits n) \<le> k"
proof (induction k arbitrary: n)
  case 0
  then show ?case by simp
next
  case (Suc k)
  show ?case
  proof (cases "n < 10")
    case True
    then show ?thesis by (simp add: dec_digits.simps)
  next
    case False
    then have "0 < k" using Suc.prems by (cases k) auto
    moreover have "n div 10 < 10 ^ k" using Suc.prems by (simp add: div_less_iff_less_mult mult.commute)
    ultimately show ?thesis using Suc.IH [of "n div 10"] False by (subst dec_digits.simps) simp
  qed
qed

lemma dec_digits_min: "10 ^ k \<le> n \<Longrightarrow> k < length (dec_digits n)"
proof (induction k arbitrary: n)
  case 0
  then show ?case by (subst dec_digits.simps) simp
next
  case (Suc k)
  have "10 \<le> n" using Suc.prems order_trans [of 10 "10 ^ Suc k" n] by simp
  moreover have "10 ^ k \<le> n div 10" using Suc.prems by (simp add: less_eq_div_iff_mult_less_eq mult.commute)
  ultimately show ?case using Suc.IH [of "n div 10"] by (subst dec_digits.simps) simp
qed

lemma pad_left_length [simp]: "length (pad_left w c t) = max w (length t)"
  by (simp add: pad_left_def)

lemma pad_right_length [simp]: "length (pad_right w c t) = max w (length t)"
  by (simp add: pad_right_def)

lemma unat_16_bound: "unat w < 10 ^ 5" for w :: u16
  by (rule order_less_le_trans [OF unsigned_less]) simp

lemma fmt_u16_length:
  "length (fmt_0d 2 (uint (w :: u16))) \<le> 5" "length (fmt_d 4 (uint (w :: u16))) \<le> 5"
  using dec_digits_length [OF unat_16_bound [of w]] by (simp_all add: fmt_0d_def fmt_d_def fmt_int_def)

lemma fmt_u8_length: "length (fmt_0d 2 (uint (w :: u8))) \<le> 5"
proof -
  have "unat w < 10 ^ 5" by (rule order_less_le_trans [OF unsigned_less]) simp
  from dec_digits_length [OF this] show ?thesis by (simp add: fmt_0d_def)
qed

lemma fmt_degrees_length:
  assumes "\<bar>d\<bar> \<le> 32768"
  shows "length (fmt_int (d sdiv 10) @ ''.0'') \<le> 8"
proof -
  have "nat \<bar>d sdiv 10\<bar> < 10 ^ 5" using assms by (simp add: signed_divide_int_def abs_mult) linarith
  from dec_digits_length [OF this] show ?thesis
    by (cases "d sdiv 10 < 0") (simp_all add: fmt_int_def)
qed

lemma row_data_bound: "\<bar>row_data i r\<bar> \<le> 32768"
proof -
  have u: "uint b \<le> 32768" for b :: u8 using uint_bounded [of b] by simp
  have s: "\<bar>sint w\<bar> \<le> 32768" for w :: s16 using sint_range_size [of w] by (auto simp: word_size)
  show ?thesis unfolding row_data_def by (simp add: u s)
qed

text \<open>The texts of the setting page fit their buffers, whatever the settings hold.\<close>

lemma sprintf_fits: "length t < n \<Longrightarrow> sprintf n t = Some t"
  by (simp add: sprintf_def)

text \<open>
  Five of the first eight rows show a name, and a value outside the table has none. The buffer is
  then shown as the row before left it; on the first row of a pass nothing has been written to it.
\<close>

definition row_named :: "nat \<Rightarrow> type_info_t \<Rightarrow> bool" where
  "row_named i r \<longleftrightarrow> (i \<in> {0, 6} \<longrightarrow> row_data i r \<in> {0, 1}) \<and> (i = 1 \<longrightarrow> row_data i r \<in> {1, 2, 3}) \<and>
     (i \<in> {2, 7} \<longrightarrow> row_data i r \<in> {1, 2})"

definition text_ok :: "string option \<Rightarrow> bool" where
  "text_ok temp \<longleftrightarrow> (case temp of None \<Rightarrow> True | Some t \<Rightarrow> length t < 20)"

lemma text_ok_simps [simp]: "text_ok None" "text_ok (Some t) \<longleftrightarrow> length t < 20"
  by (simp_all add: text_ok_def)

lemma SettingPageGetChar_row:
  assumes "i < 8" "text_ok temp"
  shows "if temp = None \<and> \<not> row_named i r then SettingPageGetChar (i + 1) (row_data i r) temp = None
    else \<exists>t. SettingPageGetChar (i + 1) (row_data i r) temp = Some t \<and> length t < 20"
proof -
  let ?d = "fmt_int (row_data i r sdiv 10) @ ''.0''"
  have d: "sprintf 20 ?d = Some ?d \<and> length ?d < 20"
    using fmt_degrees_length [OF row_data_bound [of i r]] by (intro conjI sprintf_fits) simp_all
  then have d': "\<exists>t. (if row_data i r = VALUE_NULL then Some ''- -'' else sprintf 20 ?d) = Some t \<and> length t < 20"
    by (simp del: length_append)
  have t: "temp = None \<or> (\<exists>t. temp = Some t \<and> length t < 20)" using assms(2) by (cases temp) auto
  have "i \<in> {0, 1, 2, 3, 4, 5, 6, 7}" using assms(1) by auto
  then consider "i \<in> {3, 4, 5}" | "i \<in> {0, 6}" | "i = 1" | "i \<in> {2, 7}" by blast
  then show ?thesis
  proof cases
    case 1
    then have "SettingPageGetChar (i + 1) (row_data i r) temp = (if row_data i r = VALUE_NULL then Some ''- -'' else sprintf 20 ?d)"
      by (elim insertE) (simp_all add: SettingPageGetChar_def)
    moreover have "row_named i r" using 1 by (auto simp: row_named_def)
    ultimately show ?thesis using d' by simp
  next
    case 2
    then show ?thesis using t by (elim insertE) (auto simp: SettingPageGetChar_def row_named_def)
  next
    case 3
    then show ?thesis using t by (auto simp: SettingPageGetChar_def row_named_def)
  next
    case 4
    then show ?thesis using t by (elim insertE) (auto simp: SettingPageGetChar_def row_named_def)
  qed
qed

lemma SettingPageGetChar_date:
  assumes "9 \<le> c" "c \<le> 18"
  shows "\<exists>t. SettingPageGetChar c (uint (w :: u16)) temp = Some t \<and> length t < 20"
    and "\<exists>t. SettingPageGetChar c (uint (b :: u8)) temp = Some t \<and> length t < 20"
proof -
  have c: "c \<in> {9, 10, 11, 12, 13, 14, 15, 16, 17, 18}" using assms unfolding insert_iff empty_iff by presburger
  then show "\<exists>t. SettingPageGetChar c (uint (w :: u16)) temp = Some t \<and> length t < 20"
    using fmt_u16_length [of w] unfolding SettingPageGetChar_def by (elim insertE) (simp_all add: sprintf_def)
  have "length (fmt_d 4 (uint b)) \<le> 5"
    using fmt_u16_length(2) [of "ucast b"] by (simp add: uint_up_ucast is_up)
  with c show "\<exists>t. SettingPageGetChar c (uint (b :: u8)) temp = Some t \<and> length t < 20"
    using fmt_u8_length [of b] unfolding SettingPageGetChar_def by (elim insertE) (simp_all add: sprintf_def)
qed

section \<open>Editing the cell under the cursor\<close>

definition info_cell :: "u8 \<Rightarrow> (type_info_t \<Rightarrow> type_info_t) \<times> (type_info_t \<Rightarrow> type_info_t)" where
  "info_cell c =
     (if c = 1 then (\<lambda>r. r\<lparr>moduleMode := AddData 0 1 (moduleMode r)\<rparr>, \<lambda>r. r\<lparr>moduleMode := SubData 0 1 (moduleMode r)\<rparr>)
      else if c = 2 then (\<lambda>r. r\<lparr>mode := AddData 1 3 (mode r)\<rparr>, \<lambda>r. r\<lparr>mode := SubData 1 3 (mode r)\<rparr>)
      else if c = 3 then (\<lambda>r. r\<lparr>infoUnit := AddData 1 2 (infoUnit r)\<rparr>, \<lambda>r. r\<lparr>infoUnit := SubData 1 2 (infoUnit r)\<rparr>)
      else if c = 4 then (\<lambda>r. r\<lparr>daySetPoint := setpoint_up (daySetPoint r)\<rparr>, \<lambda>r. r\<lparr>daySetPoint := setpoint_down (daySetPoint r)\<rparr>)
      else if c = 5 then (\<lambda>r. r\<lparr>nightSetPoint := setpoint_up (nightSetPoint r)\<rparr>, \<lambda>r. r\<lparr>nightSetPoint := setpoint_down (nightSetPoint r)\<rparr>)
      else if c = 6 then (\<lambda>r. r\<lparr>deadBand := deadband_up (deadBand r)\<rparr>, \<lambda>r. r\<lparr>deadBand := deadband_down (deadBand r)\<rparr>)
      else if c = 7 then (\<lambda>r. r\<lparr>fanRun := AddData 0 1 (fanRun r)\<rparr>, \<lambda>r. r\<lparr>fanRun := SubData 0 1 (fanRun r)\<rparr>)
      else if c = 8 then (\<lambda>r. r\<lparr>tempFrom := AddData 1 2 (tempFrom r)\<rparr>, \<lambda>r. r\<lparr>tempFrom := SubData 1 2 (tempFrom r)\<rparr>)
      else if c = 15 then (\<lambda>r. r\<lparr>dayStartTime := mk16 (AddData 0 23 (hi8 (dayStartTime r))) (lo8 (dayStartTime r))\<rparr>,
                           \<lambda>r. r\<lparr>dayStartTime := mk16 (SubData 0 23 (hi8 (dayStartTime r))) (lo8 (dayStartTime r))\<rparr>)
      else if c = 16 then (\<lambda>r. r\<lparr>dayStartTime := mk16 (hi8 (dayStartTime r)) (AddData 0 59 (lo8 (dayStartTime r)))\<rparr>,
                           \<lambda>r. r\<lparr>dayStartTime := mk16 (hi8 (dayStartTime r)) (SubData 0 59 (lo8 (dayStartTime r)))\<rparr>)
      else if c = 17 then (\<lambda>r. r\<lparr>dayEndTime := mk16 (AddData 0 23 (hi8 (dayEndTime r))) (lo8 (dayEndTime r))\<rparr>,
                           \<lambda>r. r\<lparr>dayEndTime := mk16 (SubData 0 23 (hi8 (dayEndTime r))) (lo8 (dayEndTime r))\<rparr>)
      else if c = 18 then (\<lambda>r. r\<lparr>dayEndTime := mk16 (hi8 (dayEndTime r)) (AddData 0 59 (lo8 (dayEndTime r)))\<rparr>,
                           \<lambda>r. r\<lparr>dayEndTime := mk16 (hi8 (dayEndTime r)) (SubData 0 59 (lo8 (dayEndTime r)))\<rparr>)
      else (id, id))"

text \<open>The effect of the pending keys on the settings, given the page state.\<close>

definition keyed :: "type_page_t \<Rightarrow> type_info_t \<Rightarrow> type_info_t" where
  "keyed p r =
     (if changeValue p = YES then
        (let r = (if up p = YES then fst (info_cell (cusor p)) r else r)
         in if down p = YES then snd (info_cell (cusor p)) r else r)
      else r)"

text \<open>One row's edit, as \<^verbatim>\<open>SettingPage\<close> performs it.\<close>

definition row_edit :: "nat \<Rightarrow> type_sys_time \<times> 'a pages_t_scheme \<Rightarrow> type_sys_time \<times> 'a pages_t_scheme" where
  "row_edit i ts =
     (if i < 8 then (fst ts, edit_row i (snd ts)) else if i = 8 then edit_date_row ts
      else if i = 9 then edit_clock_row ts else if i = 10 then (fst ts, edit_start_row (snd ts))
      else (fst ts, edit_end_row (snd ts)))"

abbreviation (input) lcd_upd :: "u8 list \<Rightarrow> u16 \<Rightarrow> u16 \<Rightarrow> 'a lcd_t_scheme \<Rightarrow> 'a lcd_t_scheme" where
  "lcd_upd B X Y s \<equiv> s\<lparr>lcd_buf := B, CurrentX := X, CurrentY := Y\<rparr>"

lemma on_keys_lcd:
  assumes "\<And>s. f (lcd_upd B X Y s) = lcd_upd B X Y (f s)" "\<And>s. g (lcd_upd B X Y s) = lcd_upd B X Y (g s)"
  shows "on_keys c f g (lcd_upd B X Y s) = lcd_upd B X Y (on_keys c f g s)"
proof -
  have p: "pageSelect (lcd_upd B X Y s) = pageSelect s" for s :: "'a pages_t_scheme" by simp
  have u: "(lcd_upd B X Y s)\<lparr>pageSelect := q\<rparr> = lcd_upd B X Y (s\<lparr>pageSelect := q\<rparr>)" for s :: "'a pages_t_scheme" and q by simp
  show ?thesis
    by (cases "cusor (pageSelect s) = c \<and> changeValue (pageSelect s) = YES"; cases "up (pageSelect s) = YES")
      (simp_all only: on_keys_def Let_def p u assms simp_thms if_True if_False if_distrib [of "lcd_upd B X Y"])
qed

lemma edit_info_lcd: "edit_info c f g (lcd_upd B X Y s) = lcd_upd B X Y (edit_info c f g s)"
  unfolding edit_info_def by (rule on_keys_lcd) simp_all

lemma edit_row_lcd: "edit_row i (lcd_upd B X Y s) = lcd_upd B X Y (edit_row i s)"
  unfolding edit_row_def by (simp only: edit_info_lcd if_distrib [of "lcd_upd B X Y"] cong: if_cong)

lemma time_now_lcd: "time_now (lcd_upd B X Y s) = time_now s"
  by (simp add: time_now_def get_rtc_timestamp_def)

lemma rtc_set_time_lcd: "snd (rtc_set_time n (lcd_upd B X Y s)) = lcd_upd B X Y (snd (rtc_set_time n s))"
proof -
  have r: "rtc_found (lcd_upd B X Y s) = rtc_found s" "hal_settime_ok (lcd_upd B X Y s) = hal_settime_ok s" by simp_all
  show ?thesis
    by (cases "rtc_found s"; cases "tm_year (localtime (time_t (n mod 2 ^ 32))) < 100"; cases "hal_settime_ok s"; cases "hal_setdate_ok s")
      (simp_all add: rtc_set_time_def set_rtc_time_stamp_def Let_def)
qed

lemma clock_case_lcd:
  "snd (case v of None \<Rightarrow> (e, lcd_upd B X Y s) | Some n \<Rightarrow> rtc_set_time n (lcd_upd B X Y s)) =
   lcd_upd B X Y (snd (case v of None \<Rightarrow> (e, s) | Some n \<Rightarrow> rtc_set_time n s))"
  by (cases v) (simp_all only: option.case rtc_set_time_lcd snd_conv)

lemma set_clock_lcd:
  "snd (set_date y m d (lcd_upd B X Y s)) = lcd_upd B X Y (snd (set_date y m d s))"
  "snd (set_time h n c (lcd_upd B X Y s)) = lcd_upd B X Y (snd (set_time h n c s))"
  unfolding set_date_def set_time_def Let_def time_now_lcd by (rule clock_case_lcd)+

lemma put_lcd:
  "put_date t (lcd_upd B X Y s) = lcd_upd B X Y (put_date t s)"
  "put_time t (lcd_upd B X Y s) = lcd_upd B X Y (put_time t s)"
  unfolding put_date_def put_time_def by (rule set_clock_lcd)+

lemma edit_time_lcd:
  assumes "\<And>t s. put (t :: type_sys_time) (lcd_upd B X Y s) = lcd_upd B X Y (put t s)"
  shows "edit_time c f g put (t, lcd_upd B X Y s) = map_prod id (lcd_upd B X Y) (edit_time c f g put (t, s))"
proof -
  have p: "pageSelect (lcd_upd B X Y s) = pageSelect s" for s :: "'a pages_t_scheme" by simp
  have u: "(lcd_upd B X Y s)\<lparr>pageSelect := q\<rparr> = lcd_upd B X Y (s\<lparr>pageSelect := q\<rparr>)" for s :: "'a pages_t_scheme" and q by simp
  show ?thesis
    by (cases "cusor (pageSelect s) = c \<and> changeValue (pageSelect s) = YES"; cases "up (pageSelect s) = YES")
      (simp_all only: edit_time_def Let_def p u assms simp_thms if_True if_False prod.case map_prod_simp id_apply
        if_distrib [of "map_prod id (lcd_upd B X Y)"])
qed

lemma row_edit_lcd: "row_edit i (t, lcd_upd B X Y s) = map_prod id (lcd_upd B X Y) (row_edit i (t, s))"
proof -
  have d: "edit_time c f g put_date (map_prod id (lcd_upd B X Y) ts) = map_prod id (lcd_upd B X Y) (edit_time c f g put_date ts)"
    for c f g and ts :: "type_sys_time \<times> 'a pages_t_scheme"
    using edit_time_lcd [where put = put_date and c = c and f = f and g = g and t = "fst ts" and s = "snd ts" and B = B and X = X and Y = Y,
      OF put_lcd(1)] by (cases ts) simp
  have h: "edit_time c f g put_time (map_prod id (lcd_upd B X Y) ts) = map_prod id (lcd_upd B X Y) (edit_time c f g put_time ts)"
    for c f g and ts :: "type_sys_time \<times> 'a pages_t_scheme"
    using edit_time_lcd [where put = put_time and c = c and f = f and g = g and t = "fst ts" and s = "snd ts" and B = B and X = X and Y = Y,
      OF put_lcd(2)] by (cases ts) simp
  have m: "(t, lcd_upd B X Y s) = map_prod id (lcd_upd B X Y) (t, s)" by simp
  have dr: "edit_date_row (t, lcd_upd B X Y s) = map_prod id (lcd_upd B X Y) (edit_date_row (t, s))"
    unfolding m edit_date_row_def Let_def by (simp only: d)
  have hr: "edit_clock_row (t, lcd_upd B X Y s) = map_prod id (lcd_upd B X Y) (edit_clock_row (t, s))"
    unfolding m edit_clock_row_def Let_def by (simp only: h)
  show ?thesis
    unfolding row_edit_def edit_start_row_def edit_end_row_def Let_def
    by (simp only: dr hr fst_conv snd_conv edit_row_lcd edit_info_lcd map_prod_simp id_apply
        if_distrib [of "map_prod id (lcd_upd B X Y)"] cong: if_cong)
qed

lemma row_edit_redrawn:
  assumes "redrawn s0 s"
  shows "fst (row_edit i (t, s)) = fst (row_edit i (t, s0)) \<and> redrawn (snd (row_edit i (t, s0))) (snd (row_edit i (t, s)))"
proof -
  obtain B X Y where s: "s = lcd_upd B X Y s0" using assms unfolding redrawn_def by blast
  have "redrawn (snd (row_edit i (t, s0))) (lcd_upd B X Y (snd (row_edit i (t, s0))))"
    unfolding redrawn_def by blast
  then show ?thesis unfolding s row_edit_lcd by simp
qed

lemma value_row_effect:
  assumes "i < 8" "text_ok temp1"
  shows "if temp1 = None \<and> \<not> row_named i (gInfo (edit_row i s)) then value_row i y temp1 s = None
    else \<exists>t' s'. value_row i y temp1 s = Some (Some t', s') \<and> length t' < 20 \<and> redrawn (edit_row i s) s'"
proof -
  let ?g = "SettingPageGetChar (i + 1) (row_data i (gInfo (edit_row i s))) temp1"
  have v: "value_row i y temp1 s = (case ?g of None \<Rightarrow> None | Some t \<Rightarrow>
      (case sprintf 20 (pad_left 11 (CHR '' '') t) of None \<Rightarrow> None
       | Some u \<Rightarrow> Some (Some t, put_cell 62 y u (of_nat (i + 1)) (edit_row i s))))"
    by (simp add: value_row_def Let_def GetGlobalInfo_def split: option.split)
  show ?thesis
  proof (cases "temp1 = None \<and> \<not> row_named i (gInfo (edit_row i s))")
    case True
    then show ?thesis using SettingPageGetChar_row [where r = "gInfo (edit_row i s)", OF assms] unfolding v by simp
  next
    case False
    then obtain t' where t': "?g = Some t'" "length t' < 20"
      using SettingPageGetChar_row [where r = "gInfo (edit_row i s)", OF assms] by metis
    then have "sprintf 20 (pad_left 11 (CHR '' '') t') = Some (pad_left 11 (CHR '' '') t')"
      by (intro sprintf_fits) simp
    then have "value_row i y temp1 s = Some (Some t', put_cell 62 y (pad_left 11 (CHR '' '') t') (of_nat (i + 1)) (edit_row i s))"
      unfolding v by (simp only: t'(1) option.case)
    then show ?thesis unfolding if_not_P [OF False] using t'(2) redrawn_put_cell by blast
  qed
qed

lemma three_cells_effect:
  assumes "c \<in> {9, 12}"
  shows "\<exists>t' s'. three_cells y (c, w) (uint (a :: u16), uint (b :: u16), uint (d :: u16)) temp1 s = Some (Some t', s') \<and>
    length t' < 20 \<and> redrawn s s'"
proof -
  have c: "9 \<le> c" "c + 2 \<le> 18" using assms by auto
  obtain t3 t2 t1 where t: "SettingPageGetChar c (uint a) None = Some t3" "SettingPageGetChar (c + 1) (uint b) None = Some t2"
    "SettingPageGetChar (c + 2) (uint d) temp1 = Some t1" "length t1 < 20"
    using SettingPageGetChar_date(1) [of c a None] SettingPageGetChar_date(1) [of "c + 1" b None]
      SettingPageGetChar_date(1) [of "c + 2" d temp1] c by auto
  show ?thesis
    unfolding three_cells_def Let_def using t by (simp add: redrawn_trans [OF _ redrawn_put_cell])
qed

lemma two_cells_effect:
  assumes "c \<in> {15, 17}"
  shows "\<exists>t' s'. two_cells y c v temp1 s = Some (Some t', s') \<and> length t' < 20 \<and> redrawn s s'"
proof -
  have c: "9 \<le> c" "c + 1 \<le> 18" using assms by auto
  obtain t2 t1 where t: "SettingPageGetChar c (uint (hi8 v)) None = Some t2"
    "SettingPageGetChar (c + 1) (uint (lo8 v)) temp1 = Some t1" "length t1 < 20"
    using SettingPageGetChar_date(2) [of c "hi8 v" None] SettingPageGetChar_date(2) [of "c + 1" "lo8 v" temp1] c by auto
  show ?thesis
    unfolding two_cells_def Let_def using t by (simp add: redrawn_trans [OF _ redrawn_put_cell])
qed

lemma row_names_fit: "i < 12 \<Longrightarrow> sprintf 20 (pad_right 10 (CHR '' '') (row_names ! i)) = Some (pad_right 10 (CHR '' '') (row_names ! i))"
proof -
  assume "i < 12"
  moreover have "\<forall>x \<in> set row_names. length x \<le> 11" by (simp add: row_names_def)
  moreover have "length row_names = 12" by (simp add: row_names_def)
  ultimately have "length (row_names ! i) \<le> 11" by simp
  then show ?thesis by (intro sprintf_fits) simp
qed

lemma setting_row_effect:
  assumes i: "i < 12" and l: "text_ok temp1" and r: "redrawn s0 s"
  shows "if temp1 = None \<and> \<not> row_named i (gInfo (snd (row_edit i (t, s0)))) then setting_row i y (temp1, t, s) = None
    else \<exists>temp1' s'. setting_row i y (temp1, t, s) = Some (Some temp1', fst (row_edit i (t, s0)), s') \<and> length temp1' < 20 \<and>
      redrawn (snd (row_edit i (t, s0))) s'"
proof -
  let ?s = "puts_at 2 (ucast y) (pad_right 10 (CHR '' '') (row_names ! i)) (Font_6x12 s) 1 s"
  have n: "length row_names = 12" by (simp add: row_names_def)
  have e: "fst (row_edit i (t, ?s)) = fst (row_edit i (t, s0))" "redrawn (snd (row_edit i (t, s0))) (snd (row_edit i (t, ?s)))"
    using row_edit_redrawn [OF redrawn_trans [OF r redrawn_puts_at]] by blast+
  have u: "setting_row i y (temp1, t, s) =
      (if i < 8 then (do { (temp1, s) \<leftarrow> value_row i y temp1 ?s; Some (temp1, t, s) })
       else if i = 8 then (case edit_date_row (t, ?s) of (t, s) \<Rightarrow>
         do { (temp1, s) \<leftarrow> three_cells y (9, 30) (uint (year t), uint (month t), uint (day t)) temp1 s; Some (temp1, t, s) })
       else if i = 9 then (case edit_clock_row (t, ?s) of (t, s) \<Rightarrow>
         do { (temp1, s) \<leftarrow> three_cells y (12, 18) (uint (hour t), uint (minute t), uint (second t)) temp1 s; Some (temp1, t, s) })
       else if i = 10 then
         do { (temp1, s) \<leftarrow> two_cells y 15 (dayStartTime (GetGlobalInfo (edit_start_row ?s))) temp1 (edit_start_row ?s); Some (temp1, t, s) }
       else do { (temp1, s) \<leftarrow> two_cells y 17 (dayEndTime (GetGlobalInfo (edit_end_row ?s))) temp1 (edit_end_row ?s); Some (temp1, t, s) })"
    using i unfolding setting_row_def Let_def by (simp only: prod.case n row_names_fit [OF i] bind.bind_lunit not_le if_True if_False) simp
  have g: "gInfo (snd (row_edit i (t, ?s))) = gInfo (snd (row_edit i (t, s0)))" using redrawn_ctl [OF e(2)] by blast
  have late: "row_named i x" if "8 \<le> i" for x using that by (auto simp: row_named_def)
  consider "i < 8" | "i = 8" | "i = 9" | "i = 10" | "i = 11" using i by linarith
  then have "if temp1 = None \<and> \<not> row_named i (gInfo (snd (row_edit i (t, ?s)))) then setting_row i y (temp1, t, s) = None
    else \<exists>temp1' s'. setting_row i y (temp1, t, s) = Some (Some temp1', fst (row_edit i (t, ?s)), s') \<and> length temp1' < 20 \<and>
      redrawn (snd (row_edit i (t, ?s))) s'"
  proof cases
    case 1
    have "row_edit i (t, ?s) = (t, edit_row i ?s)" using 1 by (simp add: row_edit_def)
    then show ?thesis
      using value_row_effect [where s = ?s and y = y, OF 1 l] 1 unfolding u
      by (cases "temp1 = None \<and> \<not> row_named i (gInfo (edit_row i ?s))") auto
  next
    case 2
    obtain t2 s2 where d: "edit_date_row (t, ?s) = (t2, s2)" by fastforce
    show ?thesis
      using three_cells_effect [of 9 y 30 "year t2" "month t2" "day t2" temp1 s2] d 2 late unfolding u by (auto simp: row_edit_def)
  next
    case 3
    obtain t2 s2 where d: "edit_clock_row (t, ?s) = (t2, s2)" by fastforce
    show ?thesis
      using three_cells_effect [of 12 y 18 "hour t2" "minute t2" "second t2" temp1 s2] d 3 late unfolding u by (auto simp: row_edit_def)
  next
    case 4
    then show ?thesis
      using two_cells_effect [of 15 y "dayStartTime (GetGlobalInfo (edit_start_row ?s))" temp1 "edit_start_row ?s"] late
      unfolding u by (auto simp: row_edit_def)
  next
    case 5
    then show ?thesis
      using two_cells_effect [of 17 y "dayEndTime (GetGlobalInfo (edit_end_row ?s))" temp1 "edit_end_row ?s"] late
      unfolding u by (auto simp: row_edit_def)
  qed
  then show ?thesis
    using e(1) redrawn_trans [OF e(2)] unfolding g
    by (cases "temp1 = None \<and> \<not> row_named i (gInfo (snd (row_edit i (t, s0))))") auto
qed

text \<open>Once a row has written the buffer, the rows below are drawn whatever they show.\<close>

lemma setting_rows_effect:
  assumes "i + n \<le> 12" "length temp1 < 20" "redrawn s0 s"
  shows "\<exists>temp1' s'. setting_rows n i y (Some temp1, t, s) = Some (temp1', fst (fold row_edit [i..<i + n] (t, s0)), s') \<and>
    redrawn (snd (fold row_edit [i..<i + n] (t, s0))) s'"
  using assms
proof (induction n arbitrary: i y temp1 t s0 s)
  case 0
  then show ?case by simp
next
  case (Suc n)
  obtain temp1' s' where r: "setting_row i y (Some temp1, t, s) = Some (Some temp1', fst (row_edit i (t, s0)), s')"
    "length temp1' < 20" "redrawn (snd (row_edit i (t, s0))) s'"
    using setting_row_effect [of i "Some temp1" s0 s t y] Suc.prems by auto
  have "[i..<i + Suc n] = i # [i + 1..<i + 1 + n]" by (simp add: upt_conv_Cons)
  then show ?case
    using Suc.IH [of "i + 1" temp1' "snd (row_edit i (t, s0))" s' "y + 12" "fst (row_edit i (t, s0))"] Suc.prems r by simp
qed

lemma first_row_effect:
  assumes "i + Suc n \<le> 12"
  shows "if row_named i (gInfo (snd (row_edit i (t, s))))
    then \<exists>temp1' s'. setting_rows (Suc n) i y (None, t, s) = Some (temp1', fst (fold row_edit [i..<i + Suc n] (t, s)), s') \<and>
      redrawn (snd (fold row_edit [i..<i + Suc n] (t, s))) s'
    else setting_rows (Suc n) i y (None, t, s) = None"
proof -
  have "[i..<i + Suc n] = i # [i + 1..<i + 1 + n]" by (simp add: upt_conv_Cons)
  then have f: "fold row_edit [i..<i + Suc n] (t, s) = fold row_edit [i + 1..<i + 1 + n] (row_edit i (t, s))"
    by (simp only: fold_simps)
  note s = setting_row_effect [of i None s s t y]
  show ?thesis
  proof (cases "row_named i (gInfo (snd (row_edit i (t, s))))")
    case True
    then obtain temp1' s' where r: "setting_row i y (None, t, s) = Some (Some temp1', fst (row_edit i (t, s)), s')"
      "length temp1' < 20" "redrawn (snd (row_edit i (t, s))) s'"
      using s assms by auto
    then show ?thesis
      using True setting_rows_effect [of "i + 1" n temp1' "snd (row_edit i (t, s))" s' "y + 12" "fst (row_edit i (t, s))"] assms
      unfolding f by simp
  next
    case False
    then show ?thesis using s assms by simp
  qed
qed

text \<open>Only the row that holds the cursor's cell acts.\<close>

definition cursor_ok :: "'a pages_t_scheme \<Rightarrow> bool" where
  "cursor_ok s \<longleftrightarrow> 1 \<le> cusor (pageSelect s) \<and> cusor (pageSelect s) \<le> 18"

lemma cell_cases:
  assumes "1 \<le> c" "c \<le> (18 :: u8)"
  shows "c \<in> {1, 2, 3, 4, 5, 6, 7, 8, 9, 10, 11, 12, 13, 14, 15, 16, 17, 18}"
proof -
  have "1 \<le> unat c \<and> unat c \<le> 18" using assms by (simp add: word_le_nat_alt)
  then have "unat c \<in> {1, 2, 3, 4, 5, 6, 7, 8, 9, 10, 11, 12, 13, 14, 15, 16, 17, 18}"
    unfolding insert_iff empty_iff by presburger
  then have "of_nat (unat c) \<in> (of_nat :: nat \<Rightarrow> u8) ` {1, 2, 3, 4, 5, 6, 7, 8, 9, 10, 11, 12, 13, 14, 15, 16, 17, 18}"
    by (rule imageI)
  then show ?thesis by (simp only: image_insert image_empty of_nat_1 of_nat_numeral) simp
qed

lemma edit_info_other: "cusor (pageSelect s) \<noteq> c \<Longrightarrow> edit_info c f g s = s"
  by (simp add: edit_info_def on_keys_def)

lemma edit_time_other: "cusor (pageSelect s) \<noteq> c \<Longrightarrow> edit_time c f g put (t, s) = (t, s)"
  by (simp add: edit_time_def)

lemma row_edit_other:
  assumes "cursor_ok s" "i < 12" "unat (show_menu (cusor (pageSelect s))) \<noteq> i + 1"
  shows "row_edit i (t, s) = (t, s)"
proof -
  have c: "cusor (pageSelect s) \<in> {1, 2, 3, 4, 5, 6, 7, 8, 9, 10, 11, 12, 13, 14, 15, 16, 17, 18}"
    using assms(1) cell_cases by (simp add: cursor_ok_def)
  have i: "i \<in> {0, 1, 2, 3, 4, 5, 6, 7, 8, 9, 10, 11}" using assms(2) unfolding insert_iff empty_iff by presburger
  note defs = row_edit_def edit_row_def edit_date_row_def edit_clock_row_def edit_start_row_def edit_end_row_def
  from i c assms(3) show ?thesis
    unfolding defs Let_def
    by (elim insertE) (simp_all add: edit_info_other edit_time_other show_menu_def)
qed

text \<open>Editing keeps the cursor, and does to the settings what the keys ask for.\<close>

definition keys_done :: "type_page_t \<Rightarrow> type_page_t" where
  "keys_done p =
     (if changeValue p = YES then p\<lparr>up := (if up p = YES then NO else up p), down := (if down p = YES then NO else down p)\<rparr>
      else p)"

lemma set_clock_frame:
  "gInfo (snd (set_date y m d s)) = gInfo s" "gInfo (snd (set_time h n c s)) = gInfo s"
  "pageSelect (snd (set_date y m d s')) = pageSelect s'" "pageSelect (snd (set_time h n c s')) = pageSelect s'"
  by (simp_all add: set_date_def set_time_def rtc_set_time_def set_rtc_time_stamp_def Let_def split: option.split)

lemma put_frame [simp]:
  "gInfo (put_date t s) = gInfo s" "gInfo (put_time t s) = gInfo s"
  "pageSelect (put_date t s) = pageSelect s" "pageSelect (put_time t s) = pageSelect s"
  by (simp_all add: put_date_def put_time_def set_clock_frame)

lemma edit_info_active:
  assumes "cusor (pageSelect s) = c" "info_cell c = (f, g)"
  shows "gInfo (edit_info c f g s) = keyed (pageSelect s) (gInfo s) \<and> pageSelect (edit_info c f g s) = keys_done (pageSelect s)"
  using assms by (simp add: edit_info_def on_keys_def keyed_def keys_done_def Let_def)

lemma edit_time_active:
  assumes "cusor (pageSelect s) = c" "\<And>t s. gInfo (put t s) = gInfo s" "\<And>t s. pageSelect (put t s) = pageSelect s"
  shows "gInfo (snd (edit_time c f g put (t, s))) = gInfo s \<and> pageSelect (snd (edit_time c f g put (t, s))) = keys_done (pageSelect s)"
  using assms by (simp add: edit_time_def keys_done_def Let_def)

lemma keys_done_cusor [simp]: "cusor (keys_done p) = cusor p"
  by (simp add: keys_done_def)

lemma edit_info_skip:
  "cusor (pageSelect s) = d \<Longrightarrow> c \<noteq> d \<Longrightarrow> edit_info c f g (edit_info d f' g' s) = edit_info d f' g' s"
  by (rule edit_info_other) (simp add: edit_info_def on_keys_def Let_def)

lemma edit_time_skip:
  assumes "cusor (pageSelect s) = d" "c \<noteq> d"
  shows "edit_time c f g put_date (edit_time d f' g' put_date (t, s)) = edit_time d f' g' put_date (t, s)"
    and "edit_time c f g put_time (edit_time d f' g' put_time (t, s)) = edit_time d f' g' put_time (t, s)"
proof -
  have "cusor (pageSelect (snd (edit_time d f' g' put_date (t, s)))) \<noteq> c" "cusor (pageSelect (snd (edit_time d f' g' put_time (t, s)))) \<noteq> c"
    using assms edit_time_active [of s d put_date f' g' t] edit_time_active [of s d put_time f' g' t] by simp_all
  then show "edit_time c f g put_date (edit_time d f' g' put_date (t, s)) = edit_time d f' g' put_date (t, s)"
    "edit_time c f g put_time (edit_time d f' g' put_time (t, s)) = edit_time d f' g' put_time (t, s)"
    using edit_time_other [of "snd (edit_time d f' g' put_date (t, s))"] edit_time_other [of "snd (edit_time d f' g' put_time (t, s))"]
    by (metis prod.collapse)+
qed

lemma keyed_clock: "cusor p \<in> {9, 10, 11, 12, 13, 14} \<Longrightarrow> keyed p r = r"
  by (elim insertE) (simp_all add: keyed_def info_cell_def)

lemma row_edit_settings:
  assumes "cusor (pageSelect s) \<in> {1, 2, 3, 4, 5, 6, 7, 8}" "unat (show_menu (cusor (pageSelect s))) = i + 1"
  shows "gInfo (snd (row_edit i (t, s))) = keyed (pageSelect s) (gInfo s) \<and>
    pageSelect (snd (row_edit i (t, s))) = keys_done (pageSelect s)"
  using assms unfolding row_edit_def edit_row_def
  by (elim insertE) (simp_all add: edit_info_active info_cell_def show_menu_def)


lemma row_edit_clock:
  assumes "cusor (pageSelect s) \<in> {9, 10, 11, 12, 13, 14}" "unat (show_menu (cusor (pageSelect s))) = i + 1"
  shows "gInfo (snd (row_edit i (t, s))) = keyed (pageSelect s) (gInfo s) \<and>
    pageSelect (snd (row_edit i (t, s))) = keys_done (pageSelect s)"
proof -
  have k: "keyed (pageSelect s) (gInfo s) = gInfo s" by (rule keyed_clock [OF assms(1)])
  show ?thesis
    using assms unfolding row_edit_def edit_date_row_def edit_clock_row_def Let_def k
    by (elim insertE) (simp_all add: edit_time_other edit_time_skip edit_time_active show_menu_def)
qed

lemma row_edit_day:
  assumes "cusor (pageSelect s) \<in> {15, 16, 17, 18}" "unat (show_menu (cusor (pageSelect s))) = i + 1"
  shows "gInfo (snd (row_edit i (t, s))) = keyed (pageSelect s) (gInfo s) \<and>
    pageSelect (snd (row_edit i (t, s))) = keys_done (pageSelect s)"
  using assms unfolding row_edit_def edit_start_row_def edit_end_row_def Let_def
  by (elim insertE) (simp_all add: edit_info_other edit_info_skip edit_info_active info_cell_def show_menu_def)

lemma row_edit_active:
  assumes "cursor_ok s" "unat (show_menu (cusor (pageSelect s))) = i + 1"
  shows "gInfo (snd (row_edit i (t, s))) = keyed (pageSelect s) (gInfo s) \<and>
    pageSelect (snd (row_edit i (t, s))) = keys_done (pageSelect s)"
proof -
  have "cusor (pageSelect s) \<in> {1, 2, 3, 4, 5, 6, 7, 8} \<or> cusor (pageSelect s) \<in> {9, 10, 11, 12, 13, 14} \<or>
      cusor (pageSelect s) \<in> {15, 16, 17, 18}"
    using assms(1) cell_cases [of "cusor (pageSelect s)"] unfolding cursor_ok_def insert_iff empty_iff by blast
  then show ?thesis using row_edit_settings row_edit_clock row_edit_day assms(2) by blast
qed

lemma rows_edit_other:
  assumes "cursor_ok s" "i + n \<le> 12" "\<forall>j \<in> {i..<i + n}. unat (show_menu (cusor (pageSelect s))) \<noteq> j + 1"
  shows "fold row_edit [i..<i + n] (t, s) = (t, s)"
  using assms
proof (induction n arbitrary: i)
  case 0
  show ?case by simp
next
  case (Suc n)
  have "[i..<i + Suc n] = i # [Suc i..<Suc i + n]" by (simp add: upt_conv_Cons)
  moreover have "row_edit i (t, s) = (t, s)" using Suc.prems by (intro row_edit_other) auto
  ultimately show ?case using Suc.IH [of "Suc i"] Suc.prems by simp
qed

lemma rows_edit_cursor:
  assumes c: "cursor_ok s" and m: "unat (show_menu (cusor (pageSelect s))) = m + 1" "i \<le> m" "m < i + n" "i + n \<le> 12"
  shows "fold row_edit [i..<i + n] (t, s) = row_edit m (t, s)"
proof -
  let ?r = "row_edit m (t, s)"
  have split: "[i..<i + n] = [i..<i + (m - i)] @ m # [Suc m..<Suc m + (i + n - Suc m)]"
    using m(2,3) by (metis add_diff_inverse_nat append_Cons le_add_diff_inverse less_imp_le_nat linorder_not_le not_less_eq_eq
        upt_add_eq_append upt_conv_Cons less_eq_Suc_le)
  have p: "pageSelect (snd ?r) = keys_done (pageSelect s)" using row_edit_active [OF c m(1)] by blast
  have "fold row_edit [i..<i + (m - i)] (t, s) = (t, s)"
    using c m by (intro rows_edit_other) auto
  moreover have "fold row_edit [Suc m..<Suc m + (i + n - Suc m)] (fst ?r, snd ?r) = (fst ?r, snd ?r)"
    using c m p by (intro rows_edit_other) (auto simp: cursor_ok_def)
  ultimately show ?thesis unfolding split by simp
qed

section \<open>Sending the buffer changes only the display's pins\<close>

definition sent :: "'a lcd_t_scheme \<Rightarrow> 'a lcd_t_scheme \<Rightarrow> bool" where
  "sent s s' \<longleftrightarrow> (\<exists>P L. s' = s\<lparr>pins := P, lcd_bits := L\<rparr> \<and>
     (\<forall>p. p \<notin> {LCD_SCK, LCD_MOSI, LCD_A0, LCD_CS} \<longrightarrow> P p = pins s p))"

lemma sent_refl [simp, intro]: "sent s s"
  unfolding sent_def by (intro exI [of _ "pins s"] exI [of _ "lcd_bits s"]) simp

lemma sent_trans [trans]: "sent s s' \<Longrightarrow> sent s' s'' \<Longrightarrow> sent s s''"
proof -
  assume "sent s s'" "sent s' s''"
  then obtain P L P' L' where "s' = s\<lparr>pins := P, lcd_bits := L\<rparr>" "s'' = s'\<lparr>pins := P', lcd_bits := L'\<rparr>"
    "\<forall>p. p \<notin> {LCD_SCK, LCD_MOSI, LCD_A0, LCD_CS} \<longrightarrow> P p = pins s p"
    "\<forall>p. p \<notin> {LCD_SCK, LCD_MOSI, LCD_A0, LCD_CS} \<longrightarrow> P' p = pins s' p"
    unfolding sent_def by blast
  then show ?thesis unfolding sent_def by (intro exI [of _ P'] exI [of _ L']) simp
qed

lemma sent_pin: "p \<in> {LCD_SCK, LCD_MOSI, LCD_A0, LCD_CS} \<Longrightarrow> sent s (rt_pin_write p v s)"
proof -
  assume p: "p \<in> {LCD_SCK, LCD_MOSI, LCD_A0, LCD_CS}"
  then have "rt_pin_write p v s = s\<lparr>pins := (pins s)(p := (if v = 0 then 0 else 1)), lcd_bits := lcd_bits s\<rparr>"
    using lcd_pins_less by (auto simp: rt_pin_write_def get_pin_def)
  then show ?thesis using p unfolding sent_def by (metis fun_upd_apply)
qed

lemma sent_bits: "sent s (s\<lparr>lcd_bits := b\<rparr>)"
  unfolding sent_def by (intro exI [of _ "pins s"] exI [of _ b]) simp

lemma sent_sck_high: "sent s (sck_high s)"
proof -
  have "sent s (rt_pin_write LCD_SCK 1 s)" "sent s ((rt_pin_write LCD_SCK 1 s)\<lparr>lcd_bits := b\<rparr>)" for b
    using sent_pin [of LCD_SCK s 1] sent_trans [OF sent_pin sent_bits, of LCD_SCK] by simp_all
  then show ?thesis unfolding sck_high_def Let_def by (rule if_split [THEN iffD2, OF conjI, OF impI impI, rotated])
qed

lemma sent_transmit_loop: "sent s (transmit_loop n d s)"
proof (induction n arbitrary: d s)
  case 0
  show ?case by simp
next
  case (Suc n)
  let ?a = "rt_pin_write LCD_SCK 0 s"
  let ?b = "if d AND 0x80 \<noteq> 0 then rt_pin_write LCD_MOSI 1 ?a else rt_pin_write LCD_MOSI 0 ?a"
  have "sent s ?a" "sent ?a ?b" by (simp_all add: sent_pin)
  then have "sent s (sck_high ?b)" using sent_trans sent_sck_high by blast
  then show ?case using sent_trans Suc.IH by (simp only: transmit_loop.simps Let_def) blast
qed

lemma sent_TransmitByte: "sent s (ST7567_TransmitByte d s)"
  unfolding ST7567_TransmitByte_def Let_def
  by (rule sent_trans [OF sent_trans [OF sent_pin sent_transmit_loop] sent_pin]) simp_all

lemma sent_WriteCommand: "sent s (ST7567_WriteCommand d s)"
  unfolding ST7567_WriteCommand_def
  by (rule sent_trans [OF sent_trans [OF sent_pin sent_TransmitByte] sent_pin]) simp_all

lemma sent_fold:
  assumes "\<And>x s. sent s (f x s)"
  shows "sent s (fold f xs s)"
proof (induction xs arbitrary: s)
  case Nil
  show ?case by simp
next
  case (Cons x xs)
  then show ?case using assms [of s x] sent_trans by (simp, blast)
qed

lemma sent_UpdateScreen: "sent s (ST7567_UpdateScreen s)"
  unfolding ST7567_UpdateScreen_def
proof (rule sent_fold)
  show "sent s (send_page i s)" for i s
    unfolding send_page_def Let_def
    by (rule sent_trans [OF sent_trans [OF sent_trans [OF sent_WriteCommand sent_WriteCommand] sent_WriteCommand]],
        rule sent_fold) (simp add: ST7567_WriteData_def sent_TransmitByte)
qed

lemma sent_relay: "sent s s' \<Longrightarrow> relays s' = relays s \<and> pins s' LCD_BK = pins s LCD_BK"
  unfolding sent_def relays_def by (auto simp: pin_defs)

lemma sent_ctl:
  "sent s s' \<Longrightarrow> gInfo s' = gInfo s \<and> rtc_regs s' = rtc_regs s \<and> timeRun s' = timeRun s \<and>
     ctlStatics s' = ctlStatics s \<and> sensorInfo s' = sensorInfo s \<and> actionInfo s' = actionInfo s"
  by (auto simp: sent_def)

lemma sent_page:
  "sent s s' \<Longrightarrow> pageSelect s' = pageSelect s \<and> pageInfor s' = pageInfor s \<and> set_min s' = set_min s \<and>
     set_max s' = set_max s \<and> set_cnt s' = set_cnt s \<and>
     backlightTime s' = backlightTime s \<and> reflash_flag s' = reflash_flag s"
  by (auto simp: sent_def)

section \<open>What editing leaves alone\<close>

lemma row_edit_frame:
  assumes i: "\<And>v s. P (s\<lparr>gInfo := v\<rparr>) = P s" and q: "\<And>v s. P (s\<lparr>pageSelect := v\<rparr>) = P s"
    and d: "\<And>t s. P (put_date t s) = P s" and h: "\<And>t s. P (put_time t s) = P s"
  shows "P (snd (row_edit i (t, s))) = P s"
proof -
  have e: "P (edit_info c f g s) = P s" for c f g s
    unfolding edit_info_def on_keys_def Let_def by (simp add: i q)
  have td: "P (snd (edit_time c f g put_date ts)) = P (snd ts)" for c f g ts
    by (cases ts) (simp add: edit_time_def Let_def d q)
  have th: "P (snd (edit_time c f g put_time ts)) = P (snd ts)" for c f g ts
    by (cases ts) (simp add: edit_time_def Let_def h q)
  show ?thesis
    unfolding row_edit_def edit_row_def edit_date_row_def edit_clock_row_def edit_start_row_def edit_end_row_def Let_def
    by (simp add: e td th)
qed

lemma put_clock_frame:
  "pins (put_date t s) = pins s" "pins (put_time t s) = pins s"
  "ctlStatics (put_date t s) = ctlStatics s" "ctlStatics (put_time t s) = ctlStatics s"
  "timeRun (put_date t s) = timeRun s" "timeRun (put_time t s) = timeRun s"
  "set_min (put_date t s) = set_min s" "set_min (put_time t s) = set_min s"
  "set_max (put_date t s) = set_max s" "set_max (put_time t s) = set_max s"
  "pageInfor (put_date t s) = pageInfor s" "pageInfor (put_time t s) = pageInfor s"
  by (simp_all add: put_date_def put_time_def set_date_def set_time_def rtc_set_time_def set_rtc_time_stamp_def Let_def
      split: option.split)

lemma row_edit_keeps:
  fixes s :: "'a pages_t_scheme"
  shows "pins (snd (row_edit i (t, s))) = pins s" "ctlStatics (snd (row_edit i (t, s))) = ctlStatics s"
    "timeRun (snd (row_edit i (t, s))) = timeRun s" "set_min (snd (row_edit i (t, s))) = set_min s"
    "set_max (snd (row_edit i (t, s))) = set_max s" "pageInfor (snd (row_edit i (t, s))) = pageInfor s"
  by (rule row_edit_frame [where P = pins] row_edit_frame [where P = ctlStatics] row_edit_frame [where P = timeRun]
      row_edit_frame [where P = set_min] row_edit_frame [where P = set_max] row_edit_frame [where P = pageInfor]; simp add: put_clock_frame)+

section \<open>Editing the clock\<close>

text \<open>What the keys do to the copy of the time in each of the six cells of date and time.\<close>

definition clock_cell :: "u8 \<Rightarrow> (type_sys_time \<Rightarrow> type_sys_time) \<times> (type_sys_time \<Rightarrow> type_sys_time)" where
  "clock_cell c =
     (if c = 9 then (\<lambda>t. t\<lparr>year := AddData_u16 2000 2100 (year t)\<rparr>, \<lambda>t. t\<lparr>year := SubData_u16 2000 2100 (year t)\<rparr>)
      else if c = 10 then (\<lambda>t. t\<lparr>month := AddData_u16 1 12 (month t)\<rparr>, \<lambda>t. t\<lparr>month := SubData_u16 1 12 (month t)\<rparr>)
      else if c = 11 then (\<lambda>t. t\<lparr>day := AddData_u16 1 31 (day t)\<rparr>, \<lambda>t. t\<lparr>day := SubData_u16 1 31 (day t)\<rparr>)
      else if c = 12 then (\<lambda>t. t\<lparr>hour := AddData_u16 0 23 (hour t)\<rparr>, \<lambda>t. t\<lparr>hour := SubData_u16 0 23 (hour t)\<rparr>)
      else if c = 13 then (\<lambda>t. t\<lparr>minute := AddData_u16 0 59 (minute t)\<rparr>, \<lambda>t. t\<lparr>minute := SubData_u16 0 59 (minute t)\<rparr>)
      else (\<lambda>t. t\<lparr>second := AddData_u16 0 59 (second t)\<rparr>, \<lambda>t. t\<lparr>second := SubData_u16 0 59 (second t)\<rparr>))"

abbreviation (input) clock_cells :: "u8 set" where
  "clock_cells \<equiv> {9, 10, 11, 12, 13, 14}"

definition put_clock :: "u8 \<Rightarrow> type_sys_time \<Rightarrow> 'a pages_t_scheme \<Rightarrow> 'a pages_t_scheme" where
  "put_clock c = (if c \<in> {9, 10, 11} then put_date else put_time)"

text \<open>
  The effect of the pending keys on the clock: the changed copy of the date is set as the date, that
  of the time as the time. When both keys are pending the clock is set twice.
\<close>

definition clock_keyed :: "type_page_t \<Rightarrow> type_sys_time \<Rightarrow> 'a pages_t_scheme \<Rightarrow> 'a pages_t_scheme" where
  "clock_keyed p t s =
     (if changeValue p = YES \<and> cusor p \<in> clock_cells then
        (let t1 = (if up p = YES then fst (clock_cell (cusor p)) t else t);
             s1 = (if up p = YES then put_clock (cusor p) t1 s else s)
         in if down p = YES then put_clock (cusor p) (snd (clock_cell (cusor p)) t1) s1 else s1)
      else s)"

lemma rtc_set_time_form: "\<exists>r. snd (rtc_set_time n s) = s\<lparr>rtc_regs := r\<rparr>"
proof -
  have "snd (rtc_set_time n s) = s\<lparr>rtc_regs := rtc_regs (snd (rtc_set_time n s))\<rparr>"
    by (cases "rtc_found s"; cases "tm_year (localtime (time_t (n mod 2 ^ 32))) < 100"; cases "hal_settime_ok s"; cases "hal_setdate_ok s")
      (simp_all add: rtc_set_time_def set_rtc_time_stamp_def Let_def)
  then show ?thesis by blast
qed

lemma put_form: "\<exists>r. put_date t s = s\<lparr>rtc_regs := r\<rparr>" "\<exists>r. put_time t s = s\<lparr>rtc_regs := r\<rparr>"
proof -
  have c: "\<exists>r. snd (case v of None \<Rightarrow> (e, s) | Some n \<Rightarrow> rtc_set_time n s) = s\<lparr>rtc_regs := r\<rparr>" for v and e :: int and s :: "'a pages_t_scheme"
  proof (cases v)
    case None
    have "s = s\<lparr>rtc_regs := rtc_regs s\<rparr>" by simp
    then show ?thesis unfolding None option.case snd_conv by blast
  next
    case (Some n)
    show ?thesis unfolding Some option.case by (rule rtc_set_time_form)
  qed
  show "\<exists>r. put_date t s = s\<lparr>rtc_regs := r\<rparr>" "\<exists>r. put_time t s = s\<lparr>rtc_regs := r\<rparr>"
    unfolding put_date_def put_time_def set_date_def set_time_def Let_def by (rule c)+
qed

lemma put_clock_form: "\<exists>r. put_clock c t s = s\<lparr>rtc_regs := r\<rparr>"
  unfolding put_clock_def using put_form by (cases "c \<in> {9, 10, 11}") simp_all

lemma put_regs_cong:
  fixes s s' :: "'a pages_t_scheme"
  assumes "rtc_regs s' = rtc_regs s" "rtc_found s' = rtc_found s" "hal_settime_ok s' = hal_settime_ok s"
    "hal_setdate_ok s' = hal_setdate_ok s"
  shows "rtc_regs (put_clock c t s') = rtc_regs (put_clock c t s)"
proof -
  have n: "time_now s' = time_now s" using assms by (simp add: time_now_def get_rtc_timestamp_def)
  have r: "rtc_regs (snd (rtc_set_time k s')) = rtc_regs (snd (rtc_set_time k s))" for k
    using assms
    by (cases "rtc_found s"; cases "tm_year (localtime (time_t (k mod 2 ^ 32))) < 100"; cases "hal_settime_ok s"; cases "hal_setdate_ok s")
      (simp_all add: rtc_set_time_def set_rtc_time_stamp_def Let_def)
  have "rtc_regs (snd (case v of None \<Rightarrow> (e, s') | Some k \<Rightarrow> rtc_set_time k s')) =
      rtc_regs (snd (case v of None \<Rightarrow> (e, s) | Some k \<Rightarrow> rtc_set_time k s))" for v and e :: int
    using r assms(1) by (cases v) simp_all
  then show ?thesis
    by (cases "c \<in> {9, 10, 11}") (simp_all only: put_clock_def if_True if_False put_date_def put_time_def set_date_def set_time_def Let_def n)
qed

lemma put_regs_page: "rtc_regs (put_clock c t (s\<lparr>pageSelect := q\<rparr>)) = rtc_regs (put_clock c t s)"
  by (rule put_regs_cong) simp_all

lemma put_regs_twice:
  "rtc_regs (put_clock c t (put_clock c u s\<lparr>pageSelect := q\<rparr>)) = rtc_regs (put_clock c t (put_clock c u s))"
  by (rule put_regs_page)

lemma clock_keyed_cong:
  fixes s s' :: "'a pages_t_scheme"
  assumes "rtc_regs s' = rtc_regs s" "rtc_found s' = rtc_found s" "hal_settime_ok s' = hal_settime_ok s"
    "hal_setdate_ok s' = hal_setdate_ok s"
  shows "rtc_regs (clock_keyed p t s') = rtc_regs (clock_keyed p t s)"
proof -
  have 1: "rtc_regs (put_clock c u s') = rtc_regs (put_clock c u s)" for c u by (rule put_regs_cong [OF assms])
  have 2: "rtc_regs (put_clock c v (put_clock c u s')) = rtc_regs (put_clock c v (put_clock c u s))" for c u v
  proof -
    obtain a where a: "put_clock c u s' = s'\<lparr>rtc_regs := a\<rparr>" using put_clock_form by blast
    obtain b where "put_clock c u s = s\<lparr>rtc_regs := b\<rparr>" using put_clock_form by blast
    note f = a this
    then have "a = b" using 1 [of c u] by simp
    then show ?thesis unfolding f using assms by (intro put_regs_cong) simp_all
  qed
  show ?thesis
    using assms(1) unfolding clock_keyed_def Let_def
    by (cases "changeValue p = YES \<and> cusor p \<in> clock_cells"; cases "up p = YES"; cases "down p = YES")
      (simp_all only: if_True if_False simp_thms 1 2)
qed

lemma put_clock_page [simp]: "pageSelect (put_clock c t s) = pageSelect s"
  using put_clock_form [of c t s] by auto

lemma edit_time_regs:
  assumes "cusor (pageSelect s) = c" "c \<in> clock_cells" "put = put_clock c" "clock_cell c = (f, g)"
  shows "rtc_regs (snd (edit_time c f g put (t, s))) = rtc_regs (clock_keyed (pageSelect s) t s)"
proof (cases "changeValue (pageSelect s) = YES")
  case True
  then show ?thesis
    using assms unfolding edit_time_def clock_keyed_def Let_def
    by (cases "up (pageSelect s) = YES"; cases "down (pageSelect s) = YES") (simp_all add: put_regs_page)
next
  case False
  then show ?thesis by (simp add: edit_time_def clock_keyed_def)
qed

lemma put_clock_cases: "put_clock 9 = put_date" "put_clock 10 = put_date" "put_clock 11 = put_date"
  "put_clock 12 = put_time" "put_clock 13 = put_time" "put_clock 14 = put_time"
  by (simp_all add: put_clock_def)

lemma row_edit_regs:
  assumes "cursor_ok s" "unat (show_menu (cusor (pageSelect s))) = i + 1"
  shows "rtc_regs (snd (row_edit i (t, s))) = rtc_regs (clock_keyed (pageSelect s) t s)"
proof (cases "cusor (pageSelect s) \<in> clock_cells")
  case True
  then show ?thesis
    using assms(2) unfolding row_edit_def edit_date_row_def edit_clock_row_def Let_def
    by (elim insertE)
      (simp_all add: edit_time_other edit_time_skip edit_time_regs clock_cell_def put_clock_cases show_menu_def)
next
  case False
  have "cusor (pageSelect s) \<in> {1, 2, 3, 4, 5, 6, 7, 8, 15, 16, 17, 18}"
    using False assms(1) cell_cases [of "cusor (pageSelect s)"] unfolding cursor_ok_def insert_iff empty_iff by blast
  moreover have e: "rtc_regs (edit_info c f g x) = rtc_regs x" for c f g and x :: "'a pages_t_scheme"
    by (simp add: edit_info_def on_keys_def Let_def)
  moreover have "clock_keyed (pageSelect s) t s = s" using False by (simp add: clock_keyed_def)
  ultimately show ?thesis
    using assms(2) unfolding row_edit_def edit_row_def edit_start_row_def edit_end_row_def Let_def
    by (elim insertE) (simp_all add: show_menu_def)
qed

text \<open>The row with the cursor changes the settings, the page state and the clock, and only these.\<close>

lemma row_edit_state:
  fixes s :: "'a pages_t_scheme"
  assumes "cursor_ok s" "unat (show_menu (cusor (pageSelect s))) = i + 1"
  shows "snd (row_edit i (t, s)) = s\<lparr>gInfo := keyed (pageSelect s) (gInfo s), pageSelect := keys_done (pageSelect s),
    rtc_regs := rtc_regs (clock_keyed (pageSelect s) t s)\<rparr>"
proof -
  let ?r = "snd (row_edit i (t, s))"
  let ?P = "\<lambda>x :: 'a pages_t_scheme. x\<lparr>gInfo := gInfo ?r, pageSelect := pageSelect ?r, rtc_regs := rtc_regs ?r\<rparr>"
  have d: "?P (put_date u x) = ?P x" for u x using put_form(1) [of u x] by auto
  have h: "?P (put_time u x) = ?P x" for u x using put_form(2) [of u x] by auto
  have "?P ?r = ?P s" by (rule row_edit_frame) (simp_all add: d h)
  moreover have "?P ?r = ?r" by simp
  ultimately show ?thesis using row_edit_active [OF assms, of t] row_edit_regs [OF assms, of t] by simp
qed

text \<open>The keys act on the row of the cursor's cell only.\<close>

lemma keyed_other_row:
  assumes "1 \<le> cusor p" "cusor p \<le> 18" "unat (show_menu (cusor p)) \<noteq> i + 1" "i < 8"
  shows "row_data i (keyed p r) = row_data i r"
proof -
  have "row_data i (fst (info_cell (cusor p)) r) = row_data i r \<and> row_data i (snd (info_cell (cusor p)) r) = row_data i r" for r
    using cell_cases [OF assms(1,2)] assms(3,4)
    by (elim insertE) (simp_all add: info_cell_def show_menu_def row_data_def)
  then show ?thesis by (simp add: keyed_def Let_def)
qed

lemma row_named_keyed:
  assumes "cursor_ok s" "i < 12"
  shows "row_named i (gInfo (snd (row_edit i (t, s)))) = row_named i (keyed (pageSelect s) (gInfo s))"
proof (cases "unat (show_menu (cusor (pageSelect s))) = i + 1")
  case True
  then show ?thesis using row_edit_active [OF assms(1) True, of t] by simp
next
  case False
  then show ?thesis
    using row_edit_other [OF assms False, of t] keyed_other_row [of "pageSelect s" i "gInfo s"] assms(1)
    by (cases "i < 8") (auto simp: cursor_ok_def row_named_def)
qed

section \<open>The scroll window\<close>

definition menu_ok :: "'a pages_t_scheme \<Rightarrow> bool" where
  "menu_ok s \<longleftrightarrow> 1 \<le> unat (set_min s) \<and> unat (set_max s) = unat (set_min s) + 4 \<and> unat (set_max s) \<le> 12"

lemma show_menu_range: "1 \<le> c \<Longrightarrow> c \<le> 18 \<Longrightarrow> 1 \<le> unat (show_menu c) \<and> unat (show_menu c) \<le> 12"
proof -
  assume "1 \<le> c" "c \<le> 18"
  from cell_cases [OF this] show ?thesis by (elim insertE) (simp_all add: show_menu_def)
qed

lemma scroll_menu_ok:
  assumes "menu_ok s" "cursor_ok s"
  shows "menu_ok (scroll_menu s) \<and> unat (set_min (scroll_menu s)) \<le> unat (show_menu (cusor (pageSelect s))) \<and>
    unat (show_menu (cusor (pageSelect s))) \<le> unat (set_max (scroll_menu s))"
proof -
  let ?m = "show_menu (cusor (pageSelect s))"
  have m: "1 \<le> unat ?m \<and> unat ?m \<le> 12" using assms(2) show_menu_range by (simp add: cursor_ok_def)
  have a: "unat (?m + 4) = unat ?m + 4" using m by (simp add: unat_word_ariths)
  have b: "unat (?m - 4) = unat ?m - 4" if "4 \<le> unat ?m" using that by (simp add: unat_sub word_le_nat_alt)
  show ?thesis
    using assms(1) m a b unfolding scroll_menu_def Let_def menu_ok_def by (auto simp: word_less_nat_alt)
qed

lemma scroll_menu_keeps [simp]:
  "gInfo (scroll_menu s) = gInfo s" "pageSelect (scroll_menu s) = pageSelect s" "pins (scroll_menu s) = pins s"
  "ctlStatics (scroll_menu s) = ctlStatics s" "timeRun (scroll_menu s) = timeRun s"
  "pageInfor (scroll_menu s) = pageInfor s"
  by (simp_all add: scroll_menu_def Let_def)

section \<open>One pass of the setting page\<close>

text \<open>
  The row a pass draws first shows a name. Where it does not, the pass prints the buffer before
  anything has been written to it.
\<close>

definition first_row_named :: "'a pages_t_scheme \<Rightarrow> bool" where
  "first_row_named s \<longleftrightarrow> row_named (unat (set_min (scroll_menu s)) - 1) (keyed (pageSelect s) (gInfo s))"

text \<open>Drawing the setting page: the frame buffer, the pins of the display and the scroll window.\<close>

definition page_drawn_from :: "'a pages_t_scheme \<Rightarrow> 'a pages_t_scheme \<Rightarrow> bool" where
  "page_drawn_from s s' \<longleftrightarrow> (\<exists>n a b B X Y P L.
     s' = s\<lparr>set_cnt := n, set_min := a, set_max := b, lcd_buf := B, CurrentX := X, CurrentY := Y, pins := P, lcd_bits := L\<rparr> \<and>
     (\<forall>p. p \<notin> {LCD_SCK, LCD_MOSI, LCD_A0, LCD_CS} \<longrightarrow> P p = pins s p))"

text \<open>
  A pass is: scroll, edit the cursor's row, draw, send. The row is given by its number.
\<close>

lemma SettingPage_form:
  fixes s :: "'a pages_t_scheme"
  assumes "menu_ok s" "cursor_ok s"
  defines "s1 \<equiv> scroll_menu (s\<lparr>set_cnt := set_cnt s + 1\<rparr>)"
  shows "if first_row_named s
    then \<exists>m s2 s'. SettingPage s = Some s' \<and> unat (show_menu (cusor (pageSelect s))) = m + 1 \<and>
      redrawn (snd (row_edit m (getTimeForMat s, s1))) s2 \<and> sent s2 s'
    else SettingPage s = None"
proof -
  define t where "t = getTimeForMat (s\<lparr>set_cnt := set_cnt s + 1\<rparr>)"
  have tm: "t = getTimeForMat s" by (simp add: t_def getTimeForMat_def getTimeStamp_def time_now_def get_rtc_timestamp_def)
  have keep: "pageSelect s1 = pageSelect s" "gInfo s1 = gInfo s" "set_min s1 = set_min (scroll_menu s)"
    by (simp_all add: s1_def) (simp add: scroll_menu_def Let_def)
  have c1: "cursor_ok s1" using assms(2) by (simp add: cursor_ok_def keep)
  have m1: "menu_ok s1" "unat (set_min s1) \<le> unat (show_menu (cusor (pageSelect s1)))"
    "unat (show_menu (cusor (pageSelect s1))) \<le> unat (set_max s1)"
    using scroll_menu_ok [of "s\<lparr>set_cnt := set_cnt s + 1\<rparr>"] assms by (simp_all add: s1_def menu_ok_def cursor_ok_def)
  define i n m where "i = unat (set_min s1) - 1" and "n = unat (set_max s1) - unat (set_min s1)"
    and "m = unat (show_menu (cusor (pageSelect s1))) - 1"
  have nums: "i + Suc n \<le> 12" "i \<le> m" "m < i + Suc n" "unat (show_menu (cusor (pageSelect s1))) = m + 1" "i < 12"
    and n: "unat (set_max s1) + 1 - unat (set_min s1) = Suc n"
    using m1 by (auto simp: menu_ok_def i_def n_def m_def)
  have f: "first_row_named s \<longleftrightarrow> row_named i (gInfo (snd (row_edit i (t, s1))))"
    unfolding row_named_keyed [OF c1 nums(5)] by (simp add: first_row_named_def i_def keep)
  have "set_min s1 \<noteq> 0" using m1(1) by (auto simp: menu_ok_def)
  then have p: "SettingPage s = (case setting_rows (Suc n) i 0 (None, t, s1) of None \<Rightarrow> None
      | Some (temp1, u, x) \<Rightarrow> Some (ST7567_UpdateScreen (setting_frame x)))"
    unfolding SettingPage_def Let_def s1_def [symmetric] t_def [symmetric] i_def [symmetric] n
    by (simp del: setting_rows.simps split: option.split)
  show ?thesis
  proof (cases "first_row_named s")
    case True
    then obtain temp1' s2 where r: "setting_rows (Suc n) i 0 (None, t, s1) = Some (temp1', fst (fold row_edit [i..<i + Suc n] (t, s1)), s2)"
      "redrawn (snd (fold row_edit [i..<i + Suc n] (t, s1))) s2"
      using first_row_effect [OF nums(1), of t s1 0] f by auto
    have "redrawn (snd (row_edit m (t, s1))) (setting_frame s2)"
      using r(2) redrawn_trans redrawn_setting_frame unfolding rows_edit_cursor [OF c1 nums(4,2,3,1)] by blast
    moreover have "SettingPage s = Some (ST7567_UpdateScreen (setting_frame s2))" unfolding p r(1) by simp
    ultimately show ?thesis using True nums(4) keep(1) sent_UpdateScreen unfolding tm by auto
  next
    case False
    then show ?thesis using first_row_effect [OF nums(1), of t s1 0] f unfolding p by simp
  qed
qed

text \<open>The whole state after a pass.\<close>

lemma SettingPage_state:
  fixes s :: "'a pages_t_scheme"
  assumes "menu_ok s" "cursor_ok s" "first_row_named s"
  shows "\<exists>s'. SettingPage s = Some s' \<and> menu_ok s' \<and> set_min s' = set_min (scroll_menu s) \<and> set_max s' = set_max (scroll_menu s) \<and>
    page_drawn_from (s\<lparr>gInfo := keyed (pageSelect s) (gInfo s), pageSelect := keys_done (pageSelect s),
      rtc_regs := rtc_regs (clock_keyed (pageSelect s) (getTimeForMat s) s)\<rparr>) s'"
proof -
  define s1 where "s1 = scroll_menu (s\<lparr>set_cnt := set_cnt s + 1\<rparr>)"
  obtain m s2 s' where e: "SettingPage s = Some s'" "unat (show_menu (cusor (pageSelect s))) = m + 1"
    "redrawn (snd (row_edit m (getTimeForMat s, s1))) s2" "sent s2 s'"
    using SettingPage_form [OF assms(1,2)] assms(3) unfolding s1_def by auto
  have s1: "s1 = s\<lparr>set_cnt := set_cnt s + 1, set_min := set_min (scroll_menu s), set_max := set_max (scroll_menu s)\<rparr>"
    unfolding s1_def scroll_menu_def Let_def by simp
  have c1: "cursor_ok s1" "unat (show_menu (cusor (pageSelect s1))) = m + 1" using assms(2) e(2) by (simp_all add: cursor_ok_def s1)
  have m1: "menu_ok s1"
    using scroll_menu_ok [of "s\<lparr>set_cnt := set_cnt s + 1\<rparr>"] assms by (simp add: s1_def menu_ok_def cursor_ok_def)
  have k: "rtc_regs (clock_keyed p t s1) = rtc_regs (clock_keyed p t s)" for p t by (rule clock_keyed_cong) (simp_all add: s1)
  obtain B X Y where s2: "s2 = lcd_upd B X Y (snd (row_edit m (getTimeForMat s, s1)))" using e(3) unfolding redrawn_def by blast
  obtain P L where s': "s' = s2\<lparr>pins := P, lcd_bits := L\<rparr>" "\<forall>p. p \<notin> {LCD_SCK, LCD_MOSI, LCD_A0, LCD_CS} \<longrightarrow> P p = pins s2 p"
    using e(4) unfolding sent_def by blast
  let ?t = "s\<lparr>gInfo := keyed (pageSelect s) (gInfo s), pageSelect := keys_done (pageSelect s),
      rtc_regs := rtc_regs (clock_keyed (pageSelect s) (getTimeForMat s) s)\<rparr>"
  have ps: "pageSelect s1 = pageSelect s" "gInfo s1 = gInfo s" by (simp_all add: s1)
  have "s2 = ?t\<lparr>set_cnt := set_cnt s + 1, set_min := set_min (scroll_menu s), set_max := set_max (scroll_menu s),
      lcd_buf := B, CurrentX := X, CurrentY := Y\<rparr>"
    unfolding s2 row_edit_state [OF c1] ps k by (simp add: s1)
  then have form: "s' = ?t\<lparr>set_cnt := set_cnt s + 1, set_min := set_min (scroll_menu s), set_max := set_max (scroll_menu s),
      lcd_buf := B, CurrentX := X, CurrentY := Y, pins := P, lcd_bits := L\<rparr> \<and>
      (\<forall>p. p \<notin> {LCD_SCK, LCD_MOSI, LCD_A0, LCD_CS} \<longrightarrow> P p = pins ?t p)"
    using s' by simp
  then have "page_drawn_from ?t s'" unfolding page_drawn_from_def by blast
  moreover have "set_min s' = set_min (scroll_menu s)" "set_max s' = set_max (scroll_menu s)" using form by simp_all
  moreover have "menu_ok s'" using m1 form by (simp add: menu_ok_def s1)
  ultimately show ?thesis using e(1) by blast
qed

lemma page_drawn_from_keeps:
  "page_drawn_from s s' \<Longrightarrow> gInfo s' = gInfo s \<and> pageSelect s' = pageSelect s \<and> rtc_regs s' = rtc_regs s \<and> relays s' = relays s \<and>
     ctlStatics s' = ctlStatics s \<and> timeRun s' = timeRun s \<and> pageInfor s' = pageInfor s"
  unfolding page_drawn_from_def relays_def by (auto simp: pin_defs)

lemma SettingPage_frame:
  assumes "menu_ok s" "cursor_ok s" "first_row_named s"
    and "\<And>v s. P (s\<lparr>gInfo := v\<rparr>) = P s" "\<And>v s. P (s\<lparr>pageSelect := v\<rparr>) = P s" "\<And>v s. P (s\<lparr>rtc_regs := v\<rparr>) = P s"
      "\<And>s s'. page_drawn_from s s' \<Longrightarrow> P s' = P s"
  shows "\<exists>s'. SettingPage s = Some s' \<and> P s' = P s"
  using SettingPage_state [OF assms(1-3)] assms(4-7) by metis

lemma SettingPage_effect:
  assumes "menu_ok s" "cursor_ok s" "first_row_named s"
  shows "\<exists>s'. SettingPage s = Some s' \<and> menu_ok s' \<and> gInfo s' = keyed (pageSelect s) (gInfo s) \<and>
    pageSelect s' = keys_done (pageSelect s) \<and> rtc_regs s' = rtc_regs (clock_keyed (pageSelect s) (getTimeForMat s) s) \<and>
    relays s' = relays s \<and> ctlStatics s' = ctlStatics s \<and> timeRun s' = timeRun s \<and> pageInfor s' = pageInfor s"
  using SettingPage_state [OF assms] by (auto simp: relays_def dest!: page_drawn_from_keeps)

section \<open>Values that are stepped\<close>

text \<open>
  The contract of a value the two keys move: both keep its range; most cells also undo each other.
\<close>

locale ranged =
  fixes ok :: "'v \<Rightarrow> bool" and inc :: "'v \<Rightarrow> 'v" and dec :: "'v \<Rightarrow> 'v"
  assumes inc_ok: "ok v \<Longrightarrow> ok (inc v)" and dec_ok: "ok v \<Longrightarrow> ok (dec v)"
begin

definition press :: "bool \<Rightarrow> bool \<Rightarrow> 'v \<Rightarrow> 'v" where
  "press u d v = (let v = (if u then inc v else v) in if d then dec v else v)"

lemma press_ok: "ok v \<Longrightarrow> ok (press u d v)"
  by (simp add: press_def inc_ok dec_ok)

lemma presses_ok: "ok v \<Longrightarrow> ok (fold (\<lambda>(u, d). press u d) ks v)"
  by (induction ks arbitrary: v) (auto simp: press_ok)

end

locale stepper = ranged +
  assumes dec_inc: "ok v \<Longrightarrow> dec (inc v) = v" and inc_dec: "ok v \<Longrightarrow> inc (dec v) = v"
begin

lemma inc_pow_ok: "ok v \<Longrightarrow> ok ((inc ^^ n) v)"
  by (induction n) (auto simp: inc_ok)

lemma undo: "ok v \<Longrightarrow> (dec ^^ n) ((inc ^^ n) v) = v"
proof (induction n arbitrary: v)
  case 0
  then show ?case by simp
next
  case (Suc n)
  have "(dec ^^ Suc n) ((inc ^^ Suc n) v) = (dec ^^ n) (dec (inc ((inc ^^ n) v)))"
    by (simp add: funpow_swap1)
  also have "\<dots> = v" using Suc by (simp add: dec_inc inc_pow_ok)
  finally show ?case .
qed

lemma both_keys: "ok v \<Longrightarrow> press True True v = v"
  by (simp add: press_def dec_inc)

end

lemma AddData_stepper: "lo \<le> hi \<Longrightarrow> stepper (\<lambda>d. lo \<le> d \<and> d \<le> hi) (AddData lo hi) (SubData lo hi)"
  by unfold_locales (auto simp: AddData_def SubData_def split: if_splits, uint_arith+)

lemma AddData_u16_stepper: "lo \<le> hi \<Longrightarrow> stepper (\<lambda>d. lo \<le> d \<and> d \<le> hi) (AddData_u16 lo hi) (SubData_u16 lo hi)"
  by unfold_locales (auto simp: AddData_u16_def SubData_u16_def split: if_splits, uint_arith+)

interpretation switch: stepper "\<lambda>d. 0 \<le> d \<and> d \<le> 1" "AddData 0 1" "SubData 0 1"
  by (rule AddData_stepper) simp

interpretation choice: stepper "\<lambda>d. 1 \<le> d \<and> d \<le> 2" "AddData 1 2" "SubData 1 2"
  by (rule AddData_stepper) simp

interpretation wiring_mode: stepper "\<lambda>d. 1 \<le> d \<and> d \<le> 3" "AddData 1 3" "SubData 1 3"
  by (rule AddData_stepper) simp

interpretation hours: stepper "\<lambda>d. 0 \<le> d \<and> d \<le> 23" "AddData 0 23" "SubData 0 23"
  by (rule AddData_stepper) simp

interpretation minutes: stepper "\<lambda>d. 0 \<le> d \<and> d \<le> 59" "AddData 0 59" "SubData 0 59"
  by (rule AddData_stepper) simp

definition deadband_ok :: "u8 \<Rightarrow> bool" where
  "deadband_ok d \<longleftrightarrow> d \<in> {10, 20, 30, 40, 50}"

interpretation deadband: stepper deadband_ok deadband_up deadband_down
  by unfold_locales (auto simp: deadband_ok_def deadband_up_def deadband_down_def)

definition setpoint_ok :: "s16 \<Rightarrow> bool" where
  "setpoint_ok p \<longleftrightarrow> 0 \<le> sint p \<and> sint p \<le> 500"

lemma sint_add_10: "- 32000 \<le> sint p \<Longrightarrow> sint p \<le> 32000 \<Longrightarrow> sint (p + 10) = sint p + 10" for p :: s16
  by (subst sint_word_ariths(1)) (simp add: signed_take_bit_int_eq_self)

lemma sint_sub_10: "- 32000 \<le> sint p \<Longrightarrow> sint p \<le> 32000 \<Longrightarrow> sint (p - 10) = sint p - 10" for p :: s16
  by (subst sint_word_ariths(2)) (simp add: signed_take_bit_int_eq_self)

interpretation setpoint: ranged setpoint_ok setpoint_up setpoint_down
  by unfold_locales (auto simp: setpoint_ok_def setpoint_up_def setpoint_down_def sint_add_10 sint_sub_10)

text \<open>Settings within the ranges the setting page offers.\<close>

definition settings_ok :: "type_info_t \<Rightarrow> bool" where
  "settings_ok r \<longleftrightarrow> moduleMode r \<le> 1 \<and> mode r \<in> {1, 2, 3} \<and> infoUnit r \<in> {1, 2} \<and> setpoint_ok (daySetPoint r) \<and>
     setpoint_ok (nightSetPoint r) \<and> deadband_ok (deadBand r) \<and> fanRun r \<le> 1 \<and> tempFrom r \<in> {1, 2} \<and>
     hi8 (dayStartTime r) \<le> 23 \<and> lo8 (dayStartTime r) \<le> 59 \<and> hi8 (dayEndTime r) \<le> 23 \<and> lo8 (dayEndTime r) \<le> 59"

lemma small_sets: "m \<in> {1, 2, 3} \<longleftrightarrow> 1 \<le> m \<and> m \<le> 3" "u \<in> {1, 2} \<longleftrightarrow> 1 \<le> u \<and> u \<le> 2" for m u :: u8
  by (auto, uint_arith+)

lemma info_cell_ok:
  assumes "settings_ok r"
  shows "settings_ok (fst (info_cell c) r)" "settings_ok (snd (info_cell c) r)"
  using assms switch.inc_ok switch.dec_ok choice.inc_ok choice.dec_ok wiring_mode.inc_ok wiring_mode.dec_ok hours.inc_ok hours.dec_ok
    minutes.inc_ok minutes.dec_ok deadband.inc_ok deadband.dec_ok setpoint.inc_ok setpoint.dec_ok
  unfolding info_cell_def settings_ok_def small_sets by simp_all

lemma keyed_ok: "settings_ok r \<Longrightarrow> settings_ok (keyed p r)"
  by (simp add: keyed_def info_cell_ok)

lemma info_cell_undo:
  assumes "settings_ok r" "c \<notin> {4, 5}"
  shows "snd (info_cell c) (fst (info_cell c) r) = r"
  using assms switch.dec_inc choice.dec_inc wiring_mode.dec_inc hours.dec_inc minutes.dec_inc deadband.dec_inc
  unfolding info_cell_def settings_ok_def small_sets by simp

lemma settings_named: "settings_ok r \<Longrightarrow> row_named i r"
proof -
  assume s: "settings_ok r"
  have "uint w \<in> {0, 1}" if "w \<le> 1" for w :: u8 using that unfolding insert_iff empty_iff by uint_arith
  then show ?thesis using s by (auto simp: settings_ok_def row_named_def row_data_def)
qed

lemma settings_first_row: "settings_ok (gInfo s) \<Longrightarrow> first_row_named s"
  unfolding first_row_named_def by (rule settings_named [OF keyed_ok])

section \<open>The home page\<close>

text \<open>
  The title holds the time of day and the address. A clock past \<^verbatim>\<open>time_t\<close> is negative,
  its hour, minute and second too, and cast to 16 bits each of them takes five digits.
\<close>

definition title_fits :: "'a pages_t_scheme \<Rightarrow> bool" where
  "title_fits s \<longleftrightarrow> length (home_title s) < 25"

lemma getTimeForMat_range:
  assumes "0 \<le> time_now s"
  shows "uint (hour (getTimeForMat s)) < 24" "uint (minute (getTimeForMat s)) < 60" "uint (second (getTimeForMat s)) < 60"
  using time_of_day [OF assms time_now_range(2)]
  by (simp_all add: getTimeForMat_def getTimeStamp_def Let_def uint_word_of_int)

lemma fmt_0d_2: "0 \<le> i \<Longrightarrow> i < 100 \<Longrightarrow> length (fmt_0d 2 i) = 2"
proof -
  assume "0 \<le> i" "i < 100"
  then have "length (dec_digits (nat i)) \<le> 2" by (intro dec_digits_length) auto
  then show ?thesis using \<open>0 \<le> i\<close> by (simp add: fmt_0d_def)
qed

lemma home_title_fits: "0 \<le> time_now s \<Longrightarrow> title_fits s"
proof -
  assume n: "0 \<le> time_now s"
  have "length (dec_digits (unat (addr (gInfo s)))) \<le> 3"
    by (rule dec_digits_length [OF order_less_le_trans [OF unsigned_less]]) simp_all
  then show ?thesis
    using getTimeForMat_range [OF n] uint_ge_0
    by (simp add: title_fits_def home_title_def Let_def fmt_0d_2 fmt_d_def fmt_int_def GetGlobalInfo_def)
qed

definition showable :: "int \<Rightarrow> bool" where
  "showable t \<longleftrightarrow> t = VALUE_NULL \<or> (- 1000 < t \<and> t < 10000)"

lemma fmt_tenths_fits: "length (fmt_tenths t) < 6 \<longleftrightarrow> - 1000 < t \<and> t < 10000"
proof -
  let ?n = "nat \<bar>t\<bar> div 10"
  have "length (dec_digits ?n) \<le> 3 \<longleftrightarrow> ?n < 10 ^ 3"
    using dec_digits_length [of ?n 3] dec_digits_min [of 3 ?n] by fastforce
  moreover have "length (dec_digits ?n) \<le> 2 \<longleftrightarrow> ?n < 10 ^ 2"
    using dec_digits_length [of ?n 2] dec_digits_min [of 2 ?n] by fastforce
  ultimately show ?thesis by (cases "t < 0") (auto simp: fmt_tenths_def)
qed

lemma ShowTempNum_defined:
  "if showable temp then (\<exists>s'. ShowTempNum x y temp s = Some s' \<and> redrawn s s') else ShowTempNum x y temp s = None"
  using fmt_tenths_fits [of temp] redrawn_puts_at
  by (auto simp: showable_def ShowTempNum_def sprintf_def)

lemma GetNtcValue_lcd: "GetNtcValue (lcd_upd B X Y s) = map_prod id (lcd_upd B X Y) (GetNtcValue s)"
  by (simp add: GetNtcValue_def rt_adc_read_def malloc_outcome_def Let_def split: option.split)

lemma GetTempValue_lcd: "GetTempValue (lcd_upd B X Y s) = map_prod id (lcd_upd B X Y) (GetTempValue s)"
  by (simp add: GetTempValue_def GetTempFrom_def GetGlobalInfo_def GetSensorInfo_def GetNtcValue_lcd split_beta split: option.split)

lemma GetTempValue_redrawn:
  assumes "redrawn s s1" "GetTempValue s = (r, s2)"
  shows "\<exists>s3. GetTempValue s1 = (r, s3) \<and> redrawn s2 s3"
proof -
  obtain B X Y where "s1 = lcd_upd B X Y s" using assms(1) unfolding redrawn_def by blast
  then show ?thesis using assms(2) GetTempValue_lcd [where B = B and X = X and Y = Y and s = s] unfolding redrawn_def by auto
qed

lemma GetSetPoint_lcd: "GetSetPoint (lcd_upd B X Y s) = GetSetPoint s"
  by (simp add: GetSetPoint_def GetActionInfo_def GetGlobalInfo_def IdentifyDaYAndNight_def
      GetDaySetPoint_def GetNightSetPoint_def getTimeForMat_def getTimeStamp_def time_now_lcd Let_def)

lemma GetSetPoint_redrawn: "redrawn s s1 \<Longrightarrow> GetSetPoint s1 = GetSetPoint s"
  unfolding redrawn_def using GetSetPoint_lcd by blast

lemma GetSetPoint_sampled:
  "GetSetPoint (s\<lparr>adc_pos := a, malloc_pos := m, ntc_list := l\<rparr>) = GetSetPoint s"
  by (simp add: GetSetPoint_def GetActionInfo_def GetGlobalInfo_def IdentifyDaYAndNight_def GetDaySetPoint_def
      GetNightSetPoint_def getTimeForMat_def getTimeStamp_def time_now_def get_rtc_timestamp_def Let_def)

lemma mode_text_fits: "sprintf 25 (''Mode'' @ fmt_int (uint (b :: u8))) = Some (''Mode'' @ fmt_int (uint b))"
proof -
  have "length (dec_digits (unat b)) \<le> 3"
    by (rule dec_digits_length [OF order_less_le_trans [OF unsigned_less]]) simp_all
  then show ?thesis by (intro sprintf_fits) (simp add: fmt_int_def)
qed

text \<open>Drawing the icons also moves the fan's counter.\<close>

lemma showFanRun_redrawn: "\<exists>n. redrawn (s\<lparr>fan_cnt := n\<rparr>) (showFanRun x y f s)"
proof (cases "f = YES")
  case True
  show ?thesis
    by (rule exI [of _ "fan_cnt s + 1"]) (simp only: showFanRun_def Let_def True if_True simp_thms redrawn_puts_at)
next
  case False
  then have "redrawn s (showFanRun x y f s)"
    by (simp only: showFanRun_def Let_def if_False redrawn_puts_at)
  then show ?thesis by (intro exI [of _ "fan_cnt s"]) simp
qed

lemma showTemp_redrawn: "redrawn s (showTemp x y f s)"
  unfolding showTemp_def Let_def by (rule redrawn_puts_at)

lemma redrawn_fan: "redrawn s s1 \<Longrightarrow> redrawn (s\<lparr>fan_cnt := n\<rparr>) (s1\<lparr>fan_cnt := n\<rparr>)"
proof -
  assume "redrawn s s1"
  then obtain B X Y where "s1 = lcd_upd B X Y s" unfolding redrawn_def by blast
  then have "s1\<lparr>fan_cnt := n\<rparr> = lcd_upd B X Y (s\<lparr>fan_cnt := n\<rparr>)" by simp
  then show ?thesis unfolding redrawn_def by blast
qed

definition home_tail :: "'a pages_t_scheme \<Rightarrow> 'a pages_t_scheme option" where
  "home_tail s = do {
     let s = ShowTempUnits 60 54 s;
     let s = puts_at 60 40 ''SV'' (Font_6x12 s) 1 s;
     let s = ST7567_DrawLine 80 18 80 57 1 s;
     let s = (if CoolOrHeat (GetGlobalInfo s) = NORUN then showFanRun 88 24 NO s else showFanRun 88 24 YES s);
     let s = showTemp 106 16 (CoolOrHeat (GetGlobalInfo s)) s;
     mode_text \<leftarrow> sprintf 25 (''Mode'' @ fmt_int (uint (mode (GetGlobalInfo s))));
     let s = puts_at 88 48 mode_text (Font_6x12 s) 0 s;
     Some (ST7567_UpdateScreen s)
   }"

lemma home_tail_defined: "\<exists>n s1 s'. home_tail s = Some s' \<and> redrawn (s\<lparr>fan_cnt := n\<rparr>) s1 \<and> sent s1 s'"
proof -
  let ?a = "ST7567_DrawLine 80 18 80 57 1 (puts_at 60 40 ''SV'' (Font_6x12 (ShowTempUnits 60 54 s)) 1 (ShowTempUnits 60 54 s))"
  have a: "redrawn s ?a"
    by (rule redrawn_trans [OF redrawn_trans [OF redrawn_ShowTempUnits redrawn_puts_at] redrawn_DrawLine])
  let ?b = "if CoolOrHeat (GetGlobalInfo ?a) = NORUN then showFanRun 88 24 NO ?a else showFanRun 88 24 YES ?a"
  have "\<exists>n. redrawn (?a\<lparr>fan_cnt := n\<rparr>) ?b" using showFanRun_redrawn by (cases "CoolOrHeat (GetGlobalInfo ?a) = NORUN") simp_all
  then obtain n where "redrawn (?a\<lparr>fan_cnt := n\<rparr>) ?b" by blast
  moreover have "redrawn (s\<lparr>fan_cnt := n\<rparr>) (?a\<lparr>fan_cnt := n\<rparr>)" by (rule redrawn_fan [OF a])
  ultimately have b: "redrawn (s\<lparr>fan_cnt := n\<rparr>) ?b" by (rule redrawn_trans [rotated])
  let ?c = "showTemp 106 16 (CoolOrHeat (GetGlobalInfo ?b)) ?b"
  let ?d = "puts_at 88 48 (''Mode'' @ fmt_int (uint (mode (GetGlobalInfo ?c)))) (Font_6x12 ?c) 0 ?c"
  have "redrawn (s\<lparr>fan_cnt := n\<rparr>) ?d" by (rule redrawn_trans [OF redrawn_trans [OF b showTemp_redrawn] redrawn_puts_at])
  moreover have "home_tail s = Some (ST7567_UpdateScreen ?d)"
    unfolding home_tail_def Let_def mode_text_fits by simp
  ultimately show ?thesis using sent_UpdateScreen by blast
qed

lemma HomePage_tail:
  "title_fits s \<Longrightarrow> HomePage s =
     (let s1 = puts_at 0 0 (home_title s) (Font_6x12 s) 0 s
      in case GetTempValue s1 of (r, s2) \<Rightarrow> do {
           t \<leftarrow> r;
           s3 \<leftarrow> ShowTempNum 0 14 t s2;
           let s4 = ShowTempUnits 60 28 s3;
           let s5 = puts_at 60 14 ''CV'' (Font_6x12 s4) 1 s4;
           s6 \<leftarrow> ShowTempNum 0 40 (sint (GetSetPoint s5)) s5;
           home_tail s6
         })"
  unfolding HomePage_def title_fits_def sprintf_fits home_tail_def Let_def by (simp add: sprintf_fits)

lemma HomePage_untitled: "\<not> title_fits s \<Longrightarrow> HomePage s = None"
  unfolding HomePage_def title_fits_def by (simp add: sprintf_def)

lemma HomePage_effect:
  assumes g: "GetTempValue s = (r, s2)"
  shows "if title_fits s \<and> (\<exists>t. r = Some t \<and> showable t) \<and> showable (sint (GetSetPoint s))
    then \<exists>n s4 s'. HomePage s = Some s' \<and> redrawn (s2\<lparr>fan_cnt := n\<rparr>) s4 \<and> sent s4 s'
    else HomePage s = None"
proof (cases "title_fits s")
  case False
  then show ?thesis by (simp add: HomePage_untitled)
next
  case title: True
  let ?s1 = "puts_at 0 0 (home_title s) (Font_6x12 s) 0 s"
  obtain s3 where s3: "GetTempValue ?s1 = (r, s3)" "redrawn s2 s3"
    using GetTempValue_redrawn [OF redrawn_puts_at g] by blast
  have sp: "GetSetPoint s3 = GetSetPoint s"
    using GetTempValue_frame [OF g] GetSetPoint_redrawn [OF s3(2)] GetSetPoint_sampled by metis
  have h: "HomePage s = do {
       t \<leftarrow> r;
       s4 \<leftarrow> ShowTempNum 0 14 t s3;
       let s5 = puts_at 60 14 ''CV'' (Font_6x12 (ShowTempUnits 60 28 s4)) 1 (ShowTempUnits 60 28 s4);
       s6 \<leftarrow> ShowTempNum 0 40 (sint (GetSetPoint s5)) s5;
       home_tail s6
     }"
    unfolding HomePage_tail [OF title] Let_def s3(1) by simp
  show ?thesis
  proof (cases "\<exists>t. r = Some t \<and> showable t")
    case False
    then show ?thesis unfolding h using ShowTempNum_defined [of _ 0 14 s3] by (cases r) auto
  next
    case True
    then obtain t where r: "r = Some t" "showable t" by blast
    then obtain s4 where t: "r = Some t" "showable t" "ShowTempNum 0 14 t s3 = Some s4" "redrawn s3 s4"
      using ShowTempNum_defined [of t 0 14 s3] by auto
    define s5 where "s5 = puts_at 60 14 ''CV'' (Font_6x12 (ShowTempUnits 60 28 s4)) 1 (ShowTempUnits 60 28 s4)"
    have s5: "redrawn s3 s5"
      unfolding s5_def by (rule redrawn_trans [OF redrawn_trans [OF t(4) redrawn_ShowTempUnits] redrawn_puts_at])
    then have p: "GetSetPoint s5 = GetSetPoint s" using GetSetPoint_redrawn sp by metis
    have h5: "HomePage s = do { s6 \<leftarrow> ShowTempNum 0 40 (sint (GetSetPoint s)) s5; home_tail s6 }"
      unfolding h t Let_def by (simp add: t(3) s5_def [symmetric] p)
    show ?thesis
    proof (cases "showable (sint (GetSetPoint s))")
      case False
      then show ?thesis using ShowTempNum_defined [of "sint (GetSetPoint s)" 0 40 s5] unfolding h5 by simp
    next
      case sp_ok: True
      then obtain s6 where s6: "ShowTempNum 0 40 (sint (GetSetPoint s)) s5 = Some s6" "redrawn s5 s6"
        using ShowTempNum_defined [of "sint (GetSetPoint s)" 0 40 s5] by auto
      obtain n s7 s' where e: "home_tail s6 = Some s'" "redrawn (s6\<lparr>fan_cnt := n\<rparr>) s7" "sent s7 s'"
        using home_tail_defined by blast
      have "redrawn s2 s6" by (rule redrawn_trans [OF redrawn_trans [OF s3(2) s5] s6(2)])
      then have "redrawn (s2\<lparr>fan_cnt := n\<rparr>) s7" using redrawn_fan redrawn_trans e(2) by blast
      then show ?thesis using True sp_ok title e unfolding h5 s6 by auto
    qed
  qed
qed

section \<open>Properties\<close>

definition pages_demo :: pages_t where
  "pages_demo = lcd_t.extend lcd_demo
     \<lparr>pageSelect = \<lparr>cusor_show = 1, cusor_home = 1, cusor_max = 18, cusor = 17, showMore = 0, select = 0, lastCusor = 0,
        changeValue = 1, up = 1, down = 0\<rparr>,
      pageInfor = 1, reflash_flag = 1, backlightTime = 0, fan_cnt = 0, set_max = 5, set_min = 1, set_cnt = 0, tsp_cnt = 0,
      tsp_num = 0, font_rom = (\<lambda>_ _. 0)\<rparr>"

lemmas demo_simps = pages_demo_def lcd_t.defs lcd_demo_def flash_t.defs flash_demo_def uart_t.defs uart_demo_def comm_t.defs
  comm_demo_def ctl_t.defs ctl_demo_def ntc_t.defs ntc_demo_def

lemma pages_demo_ok:
  "menu_ok pages_demo" "cursor_ok pages_demo" "settings_ok (gInfo pages_demo)"
  by (simp_all add: menu_ok_def cursor_ok_def settings_ok_def setpoint_ok_def deadband_ok_def hi8_def lo8_def demo_simps)

text \<open>
  C31. The setting page edits the setting under the cursor and nothing else. With the cursor on one
  of its eighteen cells, a pass is well defined exactly when the first row it draws has a name to
  show, as every row has for settings in their ranges; otherwise it prints a local buffer nothing
  has been written to. A defined pass brings the cursor's row onto the screen and keeps the scroll window
  within the twelve rows; the pending keys are applied once, to the one setting the cell shows, and
  cleared: a cell of the settings changes that setting and leaves the clock, a cell of the date or the
  time sets the clock to the shown time with that one field stepped and leaves the settings.
  Settings in their ranges stay in their ranges. Apart from that only the frame buffer, the pins and the samples of
  the display and the scroll window change. Sending the picture reads 132 bytes of the memory
  behind the frame buffer (C37), which the model holds and does not count as undefined.
\<close>

theorem SettingPage_edits:
  assumes "menu_ok s" and "cursor_ok s"
  shows "(settings_ok (gInfo s) \<longrightarrow> first_row_named s) \<and>
    (if first_row_named s
     then \<exists>s'. SettingPage s = Some s' \<and>
       page_drawn_from (s\<lparr>gInfo := keyed (pageSelect s) (gInfo s), pageSelect := keys_done (pageSelect s),
         rtc_regs := rtc_regs (clock_keyed (pageSelect s) (getTimeForMat s) s)\<rparr>) s' \<and>
       menu_ok s' \<and> unat (set_min s') \<le> unat (show_menu (cusor (pageSelect s))) \<and>
       unat (show_menu (cusor (pageSelect s))) \<le> unat (set_max s') \<and>
       (cusor (pageSelect s) \<in> clock_cells \<longrightarrow> gInfo s' = gInfo s) \<and>
       (cusor (pageSelect s) \<notin> clock_cells \<longrightarrow> rtc_regs s' = rtc_regs s) \<and>
       (settings_ok (gInfo s) \<longrightarrow> settings_ok (gInfo s'))
     else SettingPage s = None)"
proof (cases "first_row_named s")
  case True
  obtain s' where s': "SettingPage s = Some s'" "menu_ok s'" "set_min s' = set_min (scroll_menu s)" "set_max s' = set_max (scroll_menu s)"
    "page_drawn_from (s\<lparr>gInfo := keyed (pageSelect s) (gInfo s), pageSelect := keys_done (pageSelect s),
      rtc_regs := rtc_regs (clock_keyed (pageSelect s) (getTimeForMat s) s)\<rparr>) s'"
    using SettingPage_state [OF assms True] by blast
  note k = page_drawn_from_keeps [OF s'(5)]
  have "clock_keyed (pageSelect s) t s = s" if "cusor (pageSelect s) \<notin> clock_cells" for t using that by (simp add: clock_keyed_def)
  then show ?thesis
    using True s' k scroll_menu_ok [OF assms] keyed_clock [of "pageSelect s" "gInfo s"] by (simp add: keyed_ok)
next
  case False
  then show ?thesis using SettingPage_form [OF assms] settings_first_row [of s] by auto
qed

theorem SettingPage_edits_witness:
  "(\<exists>s'. SettingPage pages_demo = Some s' \<and> dayEndTime (gInfo s') = 0x1300) \<and>
   SettingPage (pages_demo\<lparr>set_min := 2, set_max := 6, gInfo := (gInfo pages_demo)\<lparr>mode := 9\<rparr>,
     pageSelect := (pageSelect pages_demo)\<lparr>cusor := 3\<rparr>\<rparr>) = None"
proof -
  let ?s = "pages_demo\<lparr>set_min := 2, set_max := 6, gInfo := (gInfo pages_demo)\<lparr>mode := 9\<rparr>,
     pageSelect := (pageSelect pages_demo)\<lparr>cusor := 3\<rparr>\<rparr>"
  have "menu_ok ?s" "cursor_ok ?s" "\<not> first_row_named ?s"
    by (simp_all add: menu_ok_def cursor_ok_def first_row_named_def scroll_menu_def show_menu_def row_named_def row_data_def
        keyed_def info_cell_def demo_simps)
  then have "SettingPage ?s = None" using SettingPage_edits [of ?s] by simp
  moreover have "\<exists>s'. SettingPage pages_demo = Some s' \<and> dayEndTime (gInfo s') = 0x1300"
    using SettingPage_edits [OF pages_demo_ok(1,2)] settings_first_row [OF pages_demo_ok(3)]
    by (auto dest!: page_drawn_from_keeps simp: keyed_def info_cell_def AddData_def mk16_def hi8_def lo8_def demo_simps)
  ultimately show ?thesis by blast
qed



text \<open>
  C33. When the home page is well defined. The page is drawn exactly when the temperature read and
  the set point are either absent or between -99.9 and 999.9 degrees, outside of which the text
  overruns its six-byte buffer, and the title fits its 25 bytes. The title fits as long as the clock is
  before 2038-01-19 03:14:08, where the stamp becomes negative. When it is drawn, the settings, the control state and the relays are
  as before; only the sensor is sampled.
\<close>

theorem HomePage_defined:
  assumes "GetTempValue s = (r, s2)"
  shows "(0 \<le> time_now s \<longrightarrow> title_fits s) \<and>
    (if title_fits s \<and> (\<exists>t. r = Some t \<and> showable t) \<and> showable (sint (GetSetPoint s))
    then \<exists>s'. HomePage s = Some s' \<and> gInfo s' = gInfo s \<and> relays s' = relays s \<and> ctlStatics s' = ctlStatics s \<and>
      ntc_list s' = ntc_list s2
    else HomePage s = None)"
proof (cases "title_fits s \<and> (\<exists>t. r = Some t \<and> showable t) \<and> showable (sint (GetSetPoint s))")
  case True
  then obtain n s4 s' where h: "HomePage s = Some s'" "redrawn (s2\<lparr>fan_cnt := n\<rparr>) s4" "sent s4 s'"
    using HomePage_effect [OF assms] by auto
  have "gInfo s2 = gInfo s \<and> pins s2 = pins s \<and> ctlStatics s2 = ctlStatics s"
    using GetTempValue_frame [OF assms] by auto
  moreover have "ntc_list s' = ntc_list s2" using h(2,3) unfolding redrawn_def sent_def by auto
  ultimately show ?thesis
    using True h redrawn_ctl [OF h(2)] redrawn_gpio [OF h(2)] sent_ctl [OF h(3)] sent_relay [OF h(3)] by (auto simp: relays_def)
next
  case False
  then show ?thesis using HomePage_effect [OF assms] home_title_fits [of s] by auto
qed

theorem HomePage_defined_witness:
  "(\<exists>s'. HomePage pages_demo = Some s') \<and>
   HomePage (pages_demo\<lparr>sensorInfo := (sensorInfo pages_demo)\<lparr>sensorTemp := 10000\<rparr>\<rparr>) = None"
proof -
  have "GetSetPoint pages_demo = 250" "GetTempValue pages_demo = (Some 310, pages_demo)"
    "GetTempValue (pages_demo\<lparr>sensorInfo := (sensorInfo pages_demo)\<lparr>sensorTemp := 10000\<rparr>\<rparr>) =
       (Some 10000, pages_demo\<lparr>sensorInfo := (sensorInfo pages_demo)\<lparr>sensorTemp := 10000\<rparr>\<rparr>)"
    by (simp_all add: GetTempValue_def GetTempFrom_def GetGlobalInfo_def GetSensorInfo_def GetSetPoint_def GetActionInfo_def demo_simps)
  moreover have "time_now pages_demo = 1672531200"
  proof -
    have "mktime \<lparr>tm_sec = 0, tm_min = 0, tm_hour = 0, tm_mday = 1, tm_mon = 0, tm_year = 123, tm_wday = 0, tm_yday = 0\<rparr> =
        Some 1672531200" by code_simp
    then show ?thesis by (simp add: time_now_def get_rtc_timestamp_def demo_simps time_t_id)
  qed
  moreover have "time_now (pages_demo\<lparr>sensorInfo := x\<rparr>) = time_now pages_demo" for x
    by (simp_all add: time_now_def get_rtc_timestamp_def demo_simps)
  ultimately show ?thesis
    using HomePage_defined [of pages_demo "Some 310" pages_demo]
      HomePage_defined [of "pages_demo\<lparr>sensorInfo := (sensorInfo pages_demo)\<lparr>sensorTemp := 10000\<rparr>\<rparr>" "Some 10000"]
    by (auto simp: showable_def)
qed

section \<open>Cursor, page stack and back light\<close>

text \<open>The keys move the cursor as a stepped value of the page's range.\<close>

definition cursor_in_page :: "'a pages_t_scheme \<Rightarrow> bool" where
  "cursor_in_page s \<longleftrightarrow> cusor_home (pageSelect s) \<le> cusor (pageSelect s) \<and> cusor (pageSelect s) \<le> cusor_max (pageSelect s)"

lemma UpBtn_cursor:
  "changeValue (pageSelect s) = NO \<Longrightarrow> cusor (pageSelect (UpBtnCallBack SHORT_PRESS s)) =
     SubData (cusor_home (pageSelect s)) (cusor_max (pageSelect s)) (cusor (pageSelect s))"
  by (simp add: UpBtnCallBack_def GetPageSelect_def wakeUpOledBackLight_def SetReflashFlag_def SubData_def rt_pin_write_def Let_def)

lemma DowmBtn_cursor:
  "changeValue (pageSelect s) = NO \<Longrightarrow> 0 < cusor_max (pageSelect s) \<Longrightarrow> cusor (pageSelect (DowmBtnCallBack SHORT_PRESS s)) =
     AddData (cusor_home (pageSelect s)) (cusor_max (pageSelect s)) (cusor (pageSelect s))"
  by (simp add: DowmBtnCallBack_def GetPageSelect_def wakeUpOledBackLight_def SetReflashFlag_def AddData_def rt_pin_write_def Let_def)

lemma callback_page:
  "cusor_home (pageSelect (UpBtnCallBack k s)) = cusor_home (pageSelect s)"
  "cusor_max (pageSelect (UpBtnCallBack k s)) = cusor_max (pageSelect s)"
  "changeValue (pageSelect (UpBtnCallBack k s)) = changeValue (pageSelect s)"
  "cusor_home (pageSelect (DowmBtnCallBack k s)) = cusor_home (pageSelect s)"
  "cusor_max (pageSelect (DowmBtnCallBack k s)) = cusor_max (pageSelect s)"
  "changeValue (pageSelect (DowmBtnCallBack k s)) = changeValue (pageSelect s)"
  by (simp_all add: UpBtnCallBack_def DowmBtnCallBack_def GetPageSelect_def wakeUpOledBackLight_def SetReflashFlag_def
      rt_pin_write_def Let_def)

text \<open>The cursor keys. On a page with at least one cell, with no value being changed, the down key
  and then the up key return the cursor to where it was, and so do up and then down, wrapping at
  both ends; the cursor never leaves the cells of the page.
\<close>

theorem cursor_keys:
  assumes "cursor_in_page s" and "changeValue (pageSelect s) = NO" and "0 < cusor_max (pageSelect s)"
  shows "cusor (pageSelect (UpBtnCallBack SHORT_PRESS (DowmBtnCallBack SHORT_PRESS s))) = cusor (pageSelect s) \<and>
    cusor (pageSelect (DowmBtnCallBack SHORT_PRESS (UpBtnCallBack SHORT_PRESS s))) = cusor (pageSelect s) \<and>
    cursor_in_page (UpBtnCallBack SHORT_PRESS s) \<and> cursor_in_page (DowmBtnCallBack SHORT_PRESS s)"
proof -
  let ?lo = "cusor_home (pageSelect s)" and ?hi = "cusor_max (pageSelect s)"
  have st: "stepper (\<lambda>d. ?lo \<le> d \<and> d \<le> ?hi) (AddData ?lo ?hi) (SubData ?lo ?hi)"
    using assms(1) by (intro AddData_stepper) (auto simp: cursor_in_page_def intro: order_trans)
  have c: "?lo \<le> cusor (pageSelect s) \<and> cusor (pageSelect s) \<le> ?hi" using assms(1) by (simp add: cursor_in_page_def)
  show ?thesis
    using assms(2,3) stepper.dec_inc [OF st c] stepper.inc_dec [OF st c]
      ranged.inc_ok [OF stepper.axioms(1) [OF st] c] ranged.dec_ok [OF stepper.axioms(1) [OF st] c]
    by (simp add: UpBtn_cursor DowmBtn_cursor callback_page cursor_in_page_def)
qed

theorem cursor_keys_witness:
  "cusor (pageSelect (UpBtnCallBack SHORT_PRESS (DowmBtnCallBack SHORT_PRESS
     (pages_demo\<lparr>pageSelect := (pageSelect pages_demo)\<lparr>cusor := 18, changeValue := NO\<rparr>\<rparr>)))) = 18"
  using cursor_keys [of "pages_demo\<lparr>pageSelect := (pageSelect pages_demo)\<lparr>cusor := 18, changeValue := NO\<rparr>\<rparr>"]
  by (simp add: cursor_in_page_def demo_simps)

end
