(* ===== verification/Hvac_Button.thy ===== *)
theory Hvac_Button
  imports Hvac_Settings
begin

text \<open>
  The button task \<^verbatim>\<open>applications/Button/ButtonTask.c\<close>. The level of a key is what
  \<^verbatim>\<open>rt_pin_read\<close> gives for its pin. The three callbacks are those of
  \<^verbatim>\<open>Pages.c\<close>; a button that has none yet is a null function pointer, and calling it is
  undefined (\<open>None\<close>).
\<close>

section \<open>State\<close>

datatype Call_Back = EnterBtn | UpBtn | DowmBtn

record type_button_t =
  on_set :: u8
  btn_type :: u8
  press_state :: u8
  have_read :: u8
  continue_time :: u16
  btn_pin :: nat
  call_back :: "Call_Back option"

record btn_t = pages_t +
  buttonList :: "type_button_t list"
  btn_cooling :: "u8 list"
  on_set_pre :: "u8 list"
  btn_index :: u8

abbreviation (input) BUTTON_MAX :: nat where "BUTTON_MAX \<equiv> 3"
abbreviation (input) KEY_ON :: u8 where "KEY_ON \<equiv> 0"
abbreviation (input) BTN_COOL_TIME :: u8 where "BTN_COOL_TIME \<equiv> 2"
abbreviation (input) BAND_TIME :: u16 where "BAND_TIME \<equiv> 40"
abbreviation (input) SHORT_TIME :: u16 where "SHORT_TIME \<equiv> 60"
abbreviation (input) LONG_TIME :: u16 where "LONG_TIME \<equiv> 600"

definition run_call_back :: "Call_Back \<Rightarrow> u8 \<Rightarrow> 'a pages_t_scheme \<Rightarrow> 'a pages_t_scheme" where
  "run_call_back cb k s =
     (case cb of EnterBtn \<Rightarrow> EnterBtnCallBack k s | UpBtn \<Rightarrow> UpBtnCallBack k s | DowmBtn \<Rightarrow> DowmBtnCallBack k s)"

section \<open>Scanning\<close>

text \<open>One button in one pass: the level, its debouncing counter, the press type.\<close>

definition button_level :: "bool \<Rightarrow> u8 \<Rightarrow> type_button_t \<times> u8 \<Rightarrow> type_button_t \<times> u8" where
  "button_level pressed period bc =
     (case bc of (b, cooling) \<Rightarrow>
       if pressed then
         (if cooling \<ge> BTN_COOL_TIME
          then b\<lparr>continue_time := continue_time b + ucast period, press_state := YES\<rparr> else b, cooling)
       else (b\<lparr>press_state := NO\<rparr>, if cooling < BTN_COOL_TIME then cooling + 1 else cooling))"

definition button_type :: "type_button_t \<Rightarrow> type_button_t" where
  "button_type b =
     (if press_state b = YES then
        (if continue_time b \<ge> LONG_TIME
         then b\<lparr>btn_type := (if have_read b = NO then LONG_PRESS else NULL_PRESS), have_read := YES\<rparr>
         else b)
      else
        b\<lparr>btn_type := (if continue_time b \<ge> SHORT_TIME \<and> continue_time b < LONG_TIME - BAND_TIME
                         then SHORT_PRESS else NULL_PRESS),
          have_read := NO, continue_time := 0\<rparr>)"

definition button_scan :: "bool \<Rightarrow> u8 \<Rightarrow> type_button_t \<times> u8 \<Rightarrow> type_button_t \<times> u8" where
  "button_scan pressed period bc = map_prod button_type id (button_level pressed period bc)"

definition button_pass :: "u8 \<Rightarrow> nat \<Rightarrow> 'a btn_t_scheme \<Rightarrow> 'a btn_t_scheme option" where
  "button_pass period i s =
     (let b = buttonList s ! i;
          (b, c) = button_scan (rt_pin_read s (btn_pin b) = on_set b) period (b, btn_cooling s ! i);
          s = s\<lparr>buttonList := (buttonList s)[i := b], btn_cooling := (btn_cooling s)[i := c]\<rparr>
      in map_option (\<lambda>cb. run_call_back cb (btn_type b) s) (call_back b))"

text \<open>The check before the loop looks at the first button only, whose index it still has.\<close>

definition button_first :: "'a btn_t_scheme \<Rightarrow> 'a btn_t_scheme" where
  "button_first s =
     (let b = buttonList s ! 0
      in if on_set_pre s ! 0 \<noteq> on_set b then
           (let s = s\<lparr>on_set_pre := (on_set_pre s)[0 := on_set b]\<rparr>
            in if rt_pin_read s (btn_pin b) \<noteq> on_set b then s\<lparr>btn_cooling := (btn_cooling s)[0 := 0]\<rparr> else s)
         else s)"

definition Buttonprogram :: "u8 \<Rightarrow> 'a btn_t_scheme \<Rightarrow> 'a btn_t_scheme option" where
  "Buttonprogram period s = do {
     s \<leftarrow> button_pass period 0 (button_first s);
     s \<leftarrow> button_pass period 1 s;
     button_pass period 2 s
   }"

definition ButtonAdd :: "nat \<Rightarrow> u8 \<Rightarrow> Call_Back \<Rightarrow> 'a btn_t_scheme \<Rightarrow> 'a btn_t_scheme" where
  "ButtonAdd p level cb s =
     (let i = unat (btn_index s)
      in if i < BUTTON_MAX then
           s\<lparr>buttonList := (buttonList s)[i := (buttonList s ! i)\<lparr>btn_pin := p, on_set := level, call_back := Some cb,
               press_state := NO, have_read := NO\<rparr>],
             btn_index := btn_index s + 1\<rparr>
         else s)"

definition ButtonRegister :: "'a btn_t_scheme \<Rightarrow> 'a btn_t_scheme" where
  "ButtonRegister s =
     (let s = ButtonAdd KEY_ENTER KEY_ON EnterBtn s;
          s = ButtonAdd KEY_UP KEY_ON UpBtn s
      in ButtonAdd KEY_DOWN KEY_ON DowmBtn s)"

definition button_task_pass :: "'a btn_t_scheme \<Rightarrow> 'a btn_t_scheme option" where
  "button_task_pass s = Buttonprogram 20 s"

section \<open>Press types\<close>

text \<open>The types a button reports while its key goes through a sequence of levels.\<close>

fun scans :: "bool list \<Rightarrow> type_button_t \<times> u8 \<Rightarrow> u8 list \<times> (type_button_t \<times> u8)" where
  "scans [] bc = ([], bc)"
| "scans (p # ps) bc =
     (let bc' = button_scan p 20 bc;
          (ts, r) = scans ps bc'
      in (btn_type (fst bc') # ts, r))"

definition held_type :: "u8 \<Rightarrow> nat \<Rightarrow> u8" where
  "held_type t0 k = (if k < 30 then t0 else if k = 30 then LONG_PRESS else NULL_PRESS)"

lemma scans_append:
  "scans (ps @ qs) bc = (let (ts, r) = scans ps bc; (us, r') = scans qs r in (ts @ us, r'))"
  by (induction ps arbitrary: bc) (auto simp: Let_def split: prod.splits)

lemma u16_time: "k \<le> 3276 \<Longrightarrow> unat (of_nat (20 * k) :: u16) = 20 * k"
  by (simp add: unat_of_nat del: of_nat_mult)

lemma u16_bounds: "600 \<le> w \<longleftrightarrow> 600 \<le> unat w" "60 \<le> w \<longleftrightarrow> 60 \<le> unat w" "w < 560 \<longleftrightarrow> unat w < 560" for w :: u16
  by (simp_all add: word_le_nat_alt word_less_nat_alt)

lemma held_scan:
  assumes "c \<ge> 2" "continue_time b = of_nat (20 * k)" "k < 3276" "have_read b = (if k < 30 then NO else YES)"
    "btn_type b = held_type t0 k"
  shows "\<exists>b'. button_scan True 20 (b, c) = (b', c) \<and> continue_time b' = of_nat (20 * Suc k) \<and>
    have_read b' = (if Suc k < 30 then NO else YES) \<and> btn_type b' = held_type t0 (Suc k)"
proof -
  define X where "X = (of_nat (20 * Suc k) :: u16)"
  have t: "continue_time b + 20 = X" using assms(2) by (simp add: X_def)
  have "X \<ge> 600 \<longleftrightarrow> 30 \<le> Suc k"
    unfolding X_def u16_bounds u16_time [of "Suc k", OF Suc_leI [OF assms(3)]] by arith
  then show ?thesis
    using assms(1,3-5) unfolding X_def [symmetric] button_scan_def button_level_def button_type_def held_type_def
    by (cases "k < 29"; cases "k = 29") (simp_all add: t)
qed

lemma held_scans:
  assumes "c \<ge> 2" "continue_time b = of_nat (20 * k)" "k + n \<le> 3276" "have_read b = (if k < 30 then NO else YES)"
    "btn_type b = held_type t0 k"
  shows "\<exists>b'. scans (replicate n True) (b, c) = (map (held_type t0) [Suc k..<Suc (k + n)], (b', c)) \<and>
    continue_time b' = of_nat (20 * (k + n))"
  using assms
proof (induction n arbitrary: b k)
  case 0
  then show ?case by simp
next
  case (Suc n)
  obtain b1 where b1: "button_scan True 20 (b, c) = (b1, c)" "continue_time b1 = of_nat (20 * Suc k)"
    "have_read b1 = (if Suc k < 30 then NO else YES)" "btn_type b1 = held_type t0 (Suc k)"
    using held_scan [OF Suc.prems(1,2) _ Suc.prems(4,5)] Suc.prems(3) by auto
  obtain b' where "scans (replicate n True) (b1, c) = (map (held_type t0) [Suc (Suc k)..<Suc (Suc k + n)], (b', c))"
    "continue_time b' = of_nat (20 * (Suc k + n))"
    using Suc.IH [OF Suc.prems(1) b1(2) _ b1(3,4)] Suc.prems(3) by auto
  moreover have "[Suc k..<Suc (k + Suc n)] = Suc k # [Suc (Suc k)..<Suc (Suc k + n)]" by (simp add: upt_conv_Cons)
  ultimately show ?case using b1 by (auto simp: Let_def simp del: upt_Suc of_nat_mult of_nat_Suc)
qed

definition btn_idle :: "type_button_t \<Rightarrow> u8 \<Rightarrow> bool" where
  "btn_idle b c \<longleftrightarrow> c \<ge> BTN_COOL_TIME \<and> continue_time b = 0 \<and> have_read b = NO"

text \<open>
  C32. How presses are told apart. A button at rest whose key is held for \<open>n\<close> passes of 20 ms and
  then released reports a short press on release exactly when it was held from 3 to 27 passes (60 to
  540 ms), and a long press exactly once, in the thirtieth pass (600 ms), when it is held that long;
  a hold of 28 or 29 passes reports nothing. Until the thirtieth pass the button repeats the type it
  had before the press. The bound on \<open>n\<close>, 65 seconds, is where the 16-bit hold time wraps.
\<close>

theorem press_classification:
  assumes "btn_idle b c" and "n \<le> 3276"
  shows "\<exists>b'. scans (replicate n True @ [False]) (b, c) =
    (map (held_type (btn_type b)) [1..<Suc n] @ [if 3 \<le> n \<and> n < 28 then SHORT_PRESS else NULL_PRESS], (b', c)) \<and>
    btn_idle b' c"
proof -
  obtain b' where b': "scans (replicate n True) (b, c) = (map (held_type (btn_type b)) [Suc 0..<Suc (0 + n)], (b', c))"
    "continue_time b' = of_nat (20 * (0 + n))"
    using held_scans [of c b 0 n "btn_type b"] assms by (auto simp: btn_idle_def held_type_def)
  have "continue_time b' \<ge> 60 \<longleftrightarrow> 3 \<le> n" "continue_time b' < 560 \<longleftrightarrow> n < 28"
    unfolding b'(2) add_0 u16_bounds u16_time [OF assms(2)] by linarith+
  moreover have "\<not> c < 2" using assms(1) by (simp add: btn_idle_def not_less)
  ultimately show ?thesis
    using b'(1) assms(1) by (simp add: scans_append button_scan_def button_level_def button_type_def btn_idle_def del: upt_Suc)
qed

definition button_demo :: type_button_t where
  "button_demo = \<lparr>on_set = 0, btn_type = 0, press_state = 0, have_read = 0, continue_time = 0, btn_pin = 0, call_back = None\<rparr>"

theorem press_classification_witness:
  "fst (scans [True, True, True, False] (button_demo, 2)) = [0, 0, 0, SHORT_PRESS]"
  using press_classification [of button_demo 2 3] by (auto simp: btn_idle_def button_demo_def held_type_def numeral_eq_Suc)

end
