(* ===== verification/Hvac_Oled.thy ===== *)
theory Hvac_Oled
  imports Hvac_Button
begin

text \<open>
  The display task \<^verbatim>\<open>applications/Oled/Oled.c\<close>: the page on top of the stack
  \<^verbatim>\<open>pageInfor\<close> is drawn when it changes, when a key asked for it and once a second; the
  back light is watched once a second. The start of the task and one pass of its endless loop are
  functions on the state; delays are not modelled.
\<close>

section \<open>State\<close>

record oled_t = btn_t +
  pagePre :: u8
  cusonPre :: u8
  time_for :: type_sys_time
  time_for_pre :: type_sys_time
  nowPagePre :: u8
  oled_time1S :: u16
  oled_Timer1sTouch :: u8

section \<open>Pages\<close>

definition clear_screen :: "'a lcd_t_scheme \<Rightarrow> 'a lcd_t_scheme" where
  "clear_screen s = ST7567_Fill 0 s"

definition st7567Init :: "'a lcd_t_scheme \<Rightarrow> 'a lcd_t_scheme" where
  "st7567Init s = clear_screen (ST7567_Init s)"

definition pageSelectSet :: "u8 \<Rightarrow> u8 \<Rightarrow> u8 \<Rightarrow> 'a pages_t_scheme \<Rightarrow> 'a pages_t_scheme" where
  "pageSelectSet show' home max' s =
     upd_page (\<lambda>p. p\<lparr>cusor_show := show', cusor_home := home, cusor := home, cusor_max := max'\<rparr>) s"

definition pageSetting :: "u8 \<Rightarrow> 'a pages_t_scheme \<Rightarrow> 'a pages_t_scheme" where
  "pageSetting page s =
     (if page = HOME_PAGE then pageSelectSet YES 1 1 s
      else if page = SETTING_PAGE then pageSelectSet YES 1 18 s
      else if page = TIME_SELECT_PAGE then pageSelectSet YES 1 4 s
      else s)"

text \<open>The first half of \<^verbatim>\<open>pageProgram\<close>: what a change of page or cursor triggers.\<close>

definition page_changed :: "u8 \<Rightarrow> 'a oled_t_scheme \<Rightarrow> 'a oled_t_scheme" where
  "page_changed page s =
     (if pagePre s \<noteq> page then
        (let s = (if pagePre s = HOME_PAGE \<and> page = SETTING_PAGE then
                    s\<lparr>time_for := getTimeForMat s, time_for_pre := getTimeForMat s\<rparr>
                  else if pagePre s = TIME_SELECT_PAGE \<and> page = SETTING_PAGE \<and> time_for_pre s \<noteq> time_for s then
                    put_time (time_for s) (put_date (time_for s) s)
                  else s)
         in clear_screen (s\<lparr>pagePre := page\<rparr>))
      else s)"

definition cursor_changed :: "'a oled_t_scheme \<Rightarrow> 'a oled_t_scheme" where
  "cursor_changed s =
     (if cusonPre s \<noteq> cusor (pageSelect s) then clear_screen (s\<lparr>cusonPre := cusor (pageSelect s)\<rparr>) else s)"

definition home_select :: "'a pages_t_scheme \<Rightarrow> 'a pages_t_scheme" where
  "home_select s =
     (if select (pageSelect s) = YES then
        (let s = (if cusor (pageSelect s) = 1
                  then upd_page (\<lambda>p. p\<lparr>changeValue := NO\<rparr>) (push_page SETTING_PAGE s) else s)
         in upd_page (\<lambda>p. p\<lparr>select := NO\<rparr>) s)
      else s)"

definition setting_select :: "'a pages_t_scheme \<Rightarrow> 'a pages_t_scheme" where
  "setting_select s =
     (if select (pageSelect s) = YES then
        upd_page (\<lambda>p. (if changeValue p = NO then p\<lparr>changeValue := YES, up := NO, down := NO\<rparr>
                       else p\<lparr>changeValue := NO\<rparr>)\<lparr>select := NO\<rparr>) s
      else s)"

definition pageProgram :: "u8 \<Rightarrow> 'a oled_t_scheme \<Rightarrow> 'a oled_t_scheme option" where
  "pageProgram page s = do {
     let s = cursor_changed (page_changed page s);
     s \<leftarrow> (if page = HOME_PAGE then map_option home_select (HomePage s)
           else if page = SETTING_PAGE then SettingPage (setting_select s)
           else Some s);
     Some (SetReflashFlag NO (upd_page (\<lambda>p. p\<lparr>select := NO\<rparr>) s))
   }"

section \<open>The task\<close>

definition oled_task_start :: "'a oled_t_scheme \<Rightarrow> 'a oled_t_scheme" where
  "oled_task_start s =
     (let s = st7567Init s;
          s = ST7567_BackLight_On s;
          s = clear_screen s;
          s = push_page HOME_PAGE s
      in wakeUpOledBackLight s)"

definition top_page :: "'a pages_t_scheme \<Rightarrow> u8" where
  "top_page s = ucast (pageInfor s AND 0xFF)"

definition page_drawn :: "u8 \<Rightarrow> 'a oled_t_scheme \<Rightarrow> 'a oled_t_scheme option" where
  "page_drawn nowPage s =
     (if nowPagePre s \<noteq> nowPage then
        map_option (\<lambda>s. s\<lparr>nowPagePre := nowPage\<rparr>) (pageProgram nowPage (pageSetting nowPage s))
      else if GetReflashFlag s = YES then pageProgram nowPage s
      else Some s)"

definition second_passed :: "u8 \<Rightarrow> 'a oled_t_scheme \<Rightarrow> 'a oled_t_scheme" where
  "second_passed nowPage s =
     (if oled_Timer1sTouch s = YES then
        (let s = monitorBackLight s
         in if nowPage = HOME_PAGE \<or> nowPage = SETTING_PAGE \<or> nowPage = TIME_SELECT_PAGE then SetReflashFlag YES s else s)
      else s)"

definition OledEntry_pass :: "'a oled_t_scheme \<Rightarrow> 'a oled_t_scheme option" where
  "OledEntry_pass s =
     (let (t, f) = TimerTask (oled_time1S s) 10;
          s = s\<lparr>oled_time1S := t, oled_Timer1sTouch := f\<rparr>;
          nowPage = top_page s
      in map_option (second_passed nowPage) (page_drawn nowPage s))"

section \<open>The home page keeps the page state\<close>

lemma HomePage_form:
  assumes "HomePage s = Some s'"
  shows "\<exists>a m l n B X Y P L. s' = s\<lparr>adc_pos := a, malloc_pos := m, ntc_list := l, fan_cnt := n, lcd_buf := B, CurrentX := X,
      CurrentY := Y, pins := P, lcd_bits := L\<rparr> \<and> (\<forall>p. p \<notin> {LCD_SCK, LCD_MOSI, LCD_A0, LCD_CS} \<longrightarrow> P p = pins s p)"
proof -
  obtain r s2 where g: "GetTempValue s = (r, s2)" by fastforce
  then obtain n s4 where h: "redrawn (s2\<lparr>fan_cnt := n\<rparr>) s4" "sent s4 s'"
    using HomePage_effect [OF g] assms by (metis option.distinct(1) option.inject)
  obtain a m l where s2: "s2 = s\<lparr>adc_pos := a, malloc_pos := m, ntc_list := l\<rparr>" using GetTempValue_frame [OF g] by blast
  obtain B X Y where s4: "s4 = lcd_upd B X Y (s2\<lparr>fan_cnt := n\<rparr>)" using h(1) unfolding redrawn_def by blast
  obtain P L where s': "s' = s4\<lparr>pins := P, lcd_bits := L\<rparr>" "\<forall>p. p \<notin> {LCD_SCK, LCD_MOSI, LCD_A0, LCD_CS} \<longrightarrow> P p = pins s4 p"
    using h(2) unfolding sent_def by blast
  have p: "pins s4 = pins s" by (simp add: s4 s2)
  have "s' = s\<lparr>adc_pos := a, malloc_pos := m, ntc_list := l, fan_cnt := n, lcd_buf := B, CurrentX := X,
      CurrentY := Y, pins := P, lcd_bits := L\<rparr>" by (simp add: s'(1) s4 s2)
  then show ?thesis using s'(2) unfolding p by blast
qed

text \<open>
  What the display task leaves alone, whatever it draws: the relays, the control state, the
  clock of the program and the time of the last key.
\<close>

definition undisturbed :: "'a oled_t_scheme \<Rightarrow> 'a oled_t_scheme \<Rightarrow> bool" where
  "undisturbed s s' \<longleftrightarrow> relays s' = relays s \<and> ctlStatics s' = ctlStatics s \<and> timeRun s' = timeRun s \<and>
     backlightTime s' = backlightTime s \<and> pins s' LCD_BK = pins s LCD_BK \<and> oled_time1S s' = oled_time1S s \<and>
     oled_Timer1sTouch s' = oled_Timer1sTouch s \<and> nowPagePre s' = nowPagePre s \<and>
     buttonList s' = buttonList s \<and> btn_cooling s' = btn_cooling s \<and> on_set_pre s' = on_set_pre s"

lemma undisturbed_refl [simp]: "undisturbed s s"
  by (simp add: undisturbed_def)

lemma undisturbed_trans: "undisturbed s s' \<Longrightarrow> undisturbed s' s'' \<Longrightarrow> undisturbed s s''"
  by (simp add: undisturbed_def)

lemma HomePage_undisturbed:
  assumes "HomePage s = Some s'"
  shows "undisturbed s s' \<and> pageSelect s' = pageSelect s \<and> pageInfor s' = pageInfor s \<and> gInfo s' = gInfo s \<and>
    set_min s' = set_min s \<and> set_max s' = set_max s"
  using HomePage_form [OF assms] by (auto simp: undisturbed_def relays_def pin_defs)

lemma SettingPage_undisturbed:
  assumes "menu_ok s" "cursor_ok s" "first_row_named s"
  shows "\<exists>s'. SettingPage s = Some s' \<and> undisturbed s s' \<and> menu_ok s' \<and> gInfo s' = keyed (pageSelect s) (gInfo s) \<and>
    pageSelect s' = keys_done (pageSelect s) \<and> pageInfor s' = pageInfor s"
proof -
  have "\<exists>s'. SettingPage s = Some s' \<and> (\<lambda>s. (backlightTime s, pins s LCD_BK, oled_time1S s, oled_Timer1sTouch s, nowPagePre s,
        buttonList s, btn_cooling s, on_set_pre s)) s' =
      (\<lambda>s. (backlightTime s, pins s LCD_BK, oled_time1S s, oled_Timer1sTouch s, nowPagePre s,
        buttonList s, btn_cooling s, on_set_pre s)) s"
    by (rule SettingPage_frame [OF assms]) (auto simp: page_drawn_from_def pin_defs)
  then show ?thesis using SettingPage_effect [OF assms] by (auto simp: undisturbed_def)
qed

section \<open>The invariant of the user interface\<close>

definition ui_inv :: "'a oled_t_scheme \<Rightarrow> bool" where
  "ui_inv s \<longleftrightarrow> menu_ok s \<and> cursor_in_page s \<and>
     (nowPagePre s = SETTING_PAGE \<longrightarrow> cusor_home (pageSelect s) = 1 \<and> cusor_max (pageSelect s) = 18)"

text \<open>The home page can be drawn.\<close>

definition home_ok :: "'a oled_t_scheme \<Rightarrow> bool" where
  "home_ok s \<longleftrightarrow> title_fits s \<and> (\<exists>t s2. GetTempValue s = (Some t, s2) \<and> showable t) \<and> showable (sint (GetSetPoint s))"

lemma home_ok_HomePage: "home_ok s \<longleftrightarrow> (\<exists>s'. HomePage s = Some s')"
proof -
  obtain r s2 where g: "GetTempValue s = (r, s2)" by fastforce
  show ?thesis
  proof (cases "title_fits s \<and> (\<exists>t. r = Some t \<and> showable t) \<and> showable (sint (GetSetPoint s))")
    case True
    then show ?thesis using HomePage_effect [OF g] g by (auto simp: home_ok_def)
  next
    case False
    then show ?thesis using HomePage_effect [OF g] g by (auto simp: home_ok_def)
  qed
qed

text \<open>The setting page can be drawn: the first of its rows shows a name.\<close>

definition setting_ok :: "'a oled_t_scheme \<Rightarrow> bool" where
  "setting_ok s \<longleftrightarrow> first_row_named (setting_select (if nowPagePre s \<noteq> SETTING_PAGE then pageSetting SETTING_PAGE s else s))"

lemma first_row_named_cong:
  "pageSelect s' = pageSelect s \<Longrightarrow> gInfo s' = gInfo s \<Longrightarrow> set_min s' = set_min s \<Longrightarrow> set_max s' = set_max s \<Longrightarrow>
   first_row_named s' = first_row_named s"
  by (simp add: first_row_named_def scroll_menu_def Let_def)

lemma setting_select_cong:
  "pageSelect s' = pageSelect s \<Longrightarrow> gInfo s' = gInfo s \<Longrightarrow> set_min s' = set_min s \<Longrightarrow> set_max s' = set_max s \<Longrightarrow>
   first_row_named (setting_select s') = first_row_named (setting_select s)"
  by (rule first_row_named_cong) (simp_all add: setting_select_def)

lemma settings_setting_ok: "settings_ok (gInfo s) \<Longrightarrow> setting_ok s"
  unfolding setting_ok_def by (rule settings_first_row) (simp add: setting_select_def pageSetting_def pageSelectSet_def)

lemma page_changed_keeps:
  "undisturbed s (page_changed page s) \<and> pageSelect (page_changed page s) = pageSelect s \<and>
   pageInfor (page_changed page s) = pageInfor s \<and> gInfo (page_changed page s) = gInfo s \<and>
   set_min (page_changed page s) = set_min s \<and> set_max (page_changed page s) = set_max s"
proof -
  obtain r where r: "put_date (time_for s) s = s\<lparr>rtc_regs := r\<rparr>" using put_form(1) by blast
  obtain r' where "put_time (time_for s) (s\<lparr>rtc_regs := r\<rparr>) = s\<lparr>rtc_regs := r, rtc_regs := r'\<rparr>" using put_form(2) by blast
  then show ?thesis
    by (simp add: page_changed_def clear_screen_def ST7567_Fill_def undisturbed_def relays_def Let_def r)
qed

lemma cursor_changed_keeps:
  "undisturbed s (cursor_changed s) \<and> pageSelect (cursor_changed s) = pageSelect s \<and>
   pageInfor (cursor_changed s) = pageInfor s \<and> gInfo (cursor_changed s) = gInfo s \<and>
   set_min (cursor_changed s) = set_min s \<and> set_max (cursor_changed s) = set_max s"
  by (simp add: cursor_changed_def clear_screen_def ST7567_Fill_def undisturbed_def relays_def)

text \<open>One run of \<^verbatim>\<open>pageProgram\<close> with the cursor in the page's range.\<close>

lemma pageProgram_effect:
  assumes "menu_ok s" "page = SETTING_PAGE \<longrightarrow> cursor_ok s \<and> first_row_named (setting_select s)"
    and "page = HOME_PAGE \<longrightarrow> home_ok (cursor_changed (page_changed page s))"
  shows "\<exists>s'. pageProgram page s = Some s' \<and> undisturbed s s' \<and> menu_ok s' \<and>
    cusor (pageSelect s') = cusor (pageSelect s) \<and> cusor_home (pageSelect s') = cusor_home (pageSelect s) \<and>
    cusor_max (pageSelect s') = cusor_max (pageSelect s) \<and> (settings_ok (gInfo s) \<longrightarrow> settings_ok (gInfo s'))"
proof -
  define s1 where "s1 = cursor_changed (page_changed page s)"
  have u: "undisturbed s s1" "pageSelect s1 = pageSelect s" "gInfo s1 = gInfo s" "menu_ok s1" "set_min s1 = set_min s" "set_max s1 = set_max s"
    using page_changed_keeps [of s page] cursor_changed_keeps [of "page_changed page s"] assms(1)
    by (auto simp: s1_def undisturbed_def menu_ok_def)
  have fin: "undisturbed x (SetReflashFlag NO (upd_page (\<lambda>p. p\<lparr>select := NO\<rparr>) x))" for x :: "'a oled_t_scheme"
    by (simp add: undisturbed_def SetReflashFlag_def relays_def)
  consider "page = HOME_PAGE" | "page = SETTING_PAGE" | "page \<noteq> HOME_PAGE \<and> page \<noteq> SETTING_PAGE" by blast
  then show ?thesis
  proof cases
    case 1
    obtain s2 where s2: "HomePage s1 = Some s2" using assms(3) 1 home_ok_HomePage s1_def by blast
    note k = HomePage_undisturbed [OF s2]
    have h: "undisturbed s2 (home_select s2)" "cusor (pageSelect (home_select s2)) = cusor (pageSelect s2)"
      "cusor_home (pageSelect (home_select s2)) = cusor_home (pageSelect s2)"
      "cusor_max (pageSelect (home_select s2)) = cusor_max (pageSelect s2)" "gInfo (home_select s2) = gInfo s2"
      "set_min (home_select s2) = set_min s2" "set_max (home_select s2) = set_max s2"
      by (simp_all add: undisturbed_def home_select_def push_page_def relays_def Let_def)
    have "undisturbed s (SetReflashFlag NO (upd_page (\<lambda>p. p\<lparr>select := NO\<rparr>) (home_select s2)))"
      using undisturbed_trans [OF undisturbed_trans [OF undisturbed_trans [OF u(1) conjunct1 [OF k]] h(1)] fin] .
    then show ?thesis
      using 1 u k s2 h unfolding pageProgram_def s1_def [symmetric] Let_def by (simp add: SetReflashFlag_def menu_ok_def)
  next
    case 2
    let ?s = "setting_select s1"
    have n: "first_row_named ?s" using assms(2) 2 setting_select_cong [OF u(2,3,5,6)] by simp
    have sel: "menu_ok ?s" "cursor_ok ?s" "undisturbed s1 ?s" "gInfo ?s = gInfo s1"
      "cusor (pageSelect ?s) = cusor (pageSelect s1)" "cusor_home (pageSelect ?s) = cusor_home (pageSelect s1)"
      "cusor_max (pageSelect ?s) = cusor_max (pageSelect s1)"
      using 2 u assms(2) by (auto simp: setting_select_def menu_ok_def cursor_ok_def undisturbed_def relays_def)
    obtain s2 where s2: "SettingPage ?s = Some s2" "undisturbed ?s s2" "menu_ok s2" "gInfo s2 = keyed (pageSelect ?s) (gInfo ?s)"
      "pageSelect s2 = keys_done (pageSelect ?s)"
      using SettingPage_undisturbed [OF sel(1,2) n] by blast
    have "undisturbed s (SetReflashFlag NO (upd_page (\<lambda>p. p\<lparr>select := NO\<rparr>) s2))"
      using undisturbed_trans [OF undisturbed_trans [OF undisturbed_trans [OF u(1) sel(3)] s2(2)] fin] .
    moreover have "cusor_home (keys_done q) = cusor_home q" "cusor_max (keys_done q) = cusor_max q" for q
      by (simp_all add: keys_done_def)
    ultimately show ?thesis
      using 2 u s2 sel unfolding pageProgram_def s1_def [symmetric] Let_def
      by (simp add: SetReflashFlag_def menu_ok_def keyed_ok)
  next
    case 3
    then show ?thesis
      using u fin [of s1] undisturbed_trans [OF u(1) fin] unfolding pageProgram_def s1_def [symmetric] Let_def
      by (simp add: SetReflashFlag_def menu_ok_def)
  qed
qed

section \<open>One pass of the task\<close>

text \<open>Whether the home page can be drawn does not depend on what the display task itself keeps.\<close>

lemma home_ok_fst:
  "home_ok s \<longleftrightarrow> title_fits s \<and> (\<exists>t. fst (GetTempValue s) = Some t \<and> showable t) \<and> showable (sint (GetSetPoint s))"
  by (cases "GetTempValue s") (simp add: home_ok_def)

lemma home_ok_cong:
  assumes "ntc_view s = ntc_view s'" "gInfo s = gInfo s'" "sensorInfo s = sensorInfo s'" "actionInfo s = actionInfo s'"
    "rtc_regs s = rtc_regs s'" "rtc_found s = rtc_found s'"
  shows "home_ok s = home_ok s'"
proof -
  have "title_fits s = title_fits s'"
    using assms(2,5,6)
    by (simp add: title_fits_def home_title_def getTimeForMat_def getTimeStamp_def time_now_def get_rtc_timestamp_def GetGlobalInfo_def Let_def)
  then show ?thesis
    unfolding home_ok_fst GetTempValue_cong [OF assms(1-3)] GetSetPoint_cong [OF assms(2,4-6)] by simp
qed

lemma home_ok_ui:
  "home_ok (s\<lparr>pageSelect := x0\<rparr>) = home_ok s"
  "home_ok (s\<lparr>oled_time1S := x1\<rparr>) = home_ok s"
  "home_ok (s\<lparr>oled_Timer1sTouch := x2\<rparr>) = home_ok s"
  "home_ok (s\<lparr>pagePre := x3\<rparr>) = home_ok s"
  "home_ok (s\<lparr>cusonPre := x4\<rparr>) = home_ok s"
  "home_ok (s\<lparr>lcd_buf := x5\<rparr>) = home_ok s"
  by (intro home_ok_cong; simp add: ntc_view_def)+

lemma home_changed_ok: "home_ok (cursor_changed (page_changed HOME_PAGE s)) = home_ok s"
proof -
  have "home_ok (page_changed HOME_PAGE s) = home_ok s"
    unfolding page_changed_def clear_screen_def ST7567_Fill_def Let_def by (simp add: home_ok_ui)
  moreover have "home_ok (cursor_changed s) = home_ok s" for s :: "'a oled_t_scheme"
    unfolding cursor_changed_def clear_screen_def ST7567_Fill_def by (simp add: home_ok_ui)
  ultimately show ?thesis by simp
qed

text \<open>A pass draws the page on top of the stack when it is new or a redraw was asked for.\<close>

definition draws :: "u8 \<Rightarrow> 'a oled_t_scheme \<Rightarrow> bool" where
  "draws page s \<longleftrightarrow> top_page s = page \<and> (nowPagePre s \<noteq> page \<or> reflash_flag s = YES)"

lemma page_drawn_effect:
  assumes "ui_inv s" "page = HOME_PAGE \<and> (nowPagePre s \<noteq> page \<or> reflash_flag s = YES) \<longrightarrow> home_ok s"
    and "page = SETTING_PAGE \<and> (nowPagePre s \<noteq> page \<or> reflash_flag s = YES) \<longrightarrow> setting_ok s"
  shows "\<exists>s'. page_drawn page s = Some s' \<and> ui_inv s' \<and> nowPagePre s' = page \<and> undisturbed (s\<lparr>nowPagePre := page\<rparr>) s' \<and>
    (settings_ok (gInfo s) \<longrightarrow> settings_ok (gInfo s'))"
proof -
  have "pageSetting page s = s\<lparr>pageSelect := pageSelect (pageSetting page s)\<rparr>"
    by (simp add: pageSetting_def pageSelectSet_def)
  then obtain q where q: "pageSetting page s = s\<lparr>pageSelect := q\<rparr>" by blast
  consider (new) "nowPagePre s \<noteq> page" | (old) "nowPagePre s = page" "GetReflashFlag s = YES"
    | (idle) "nowPagePre s = page" "GetReflashFlag s \<noteq> YES" by blast
  then show ?thesis
  proof cases
    case new
    let ?s = "pageSetting page s"
    have a: "menu_ok ?s" "gInfo ?s = gInfo s" "undisturbed s ?s"
      using assms(1) unfolding q by (simp_all add: ui_inv_def menu_ok_def undisturbed_def relays_def)
    have b: "cursor_in_page ?s"
      using assms(1) by (simp add: ui_inv_def cursor_in_page_def pageSetting_def pageSelectSet_def)
    have c: "page = SETTING_PAGE \<longrightarrow> cusor_home (pageSelect ?s) = 1 \<and> cusor_max (pageSelect ?s) = 18"
      by (simp add: pageSetting_def pageSelectSet_def)
    have d: "page = HOME_PAGE \<longrightarrow> home_ok (cursor_changed (page_changed page ?s))"
      using assms(2) new unfolding q by (simp add: home_changed_ok home_ok_ui)
    have "page = SETTING_PAGE \<longrightarrow> cursor_ok ?s \<and> first_row_named (setting_select ?s)"
      using b c assms(3) new by (auto simp: cursor_in_page_def cursor_ok_def setting_ok_def)
    from pageProgram_effect [OF a(1) this d] obtain s' where e: "pageProgram page ?s = Some s'" "undisturbed ?s s'" "menu_ok s'"
      "cusor (pageSelect s') = cusor (pageSelect ?s)" "cusor_home (pageSelect s') = cusor_home (pageSelect ?s)"
      "cusor_max (pageSelect s') = cusor_max (pageSelect ?s)" "settings_ok (gInfo ?s) \<longrightarrow> settings_ok (gInfo s')" by blast
    have "page_drawn page s = Some (s'\<lparr>nowPagePre := page\<rparr>)" using new e(1) by (simp add: page_drawn_def)
    moreover have "ui_inv (s'\<lparr>nowPagePre := page\<rparr>)"
      using b c e by (simp add: ui_inv_def cursor_in_page_def menu_ok_def undisturbed_def)
    moreover have "undisturbed (s\<lparr>nowPagePre := page\<rparr>) (s'\<lparr>nowPagePre := page\<rparr>)"
      using undisturbed_trans [OF a(3) e(2)] by (simp add: undisturbed_def relays_def)
    ultimately show ?thesis using a(2) e(7) by (intro exI [of _ "s'\<lparr>nowPagePre := page\<rparr>"]) simp
  next
    case old
    have d: "page = HOME_PAGE \<longrightarrow> home_ok (cursor_changed (page_changed page s))"
      using assms(2) old(2) by (simp add: home_changed_ok GetReflashFlag_def)
    have i: "menu_ok s" "page = SETTING_PAGE \<longrightarrow> cursor_ok s \<and> first_row_named (setting_select s)"
      using assms(1,3) old by (auto simp: ui_inv_def cursor_in_page_def cursor_ok_def setting_ok_def GetReflashFlag_def)
    from pageProgram_effect [OF i d] obtain s' where e: "pageProgram page s = Some s'" "undisturbed s s'" "menu_ok s'"
      "cusor (pageSelect s') = cusor (pageSelect s)" "cusor_home (pageSelect s') = cusor_home (pageSelect s)"
      "cusor_max (pageSelect s') = cusor_max (pageSelect s)" "settings_ok (gInfo s) \<longrightarrow> settings_ok (gInfo s')" by blast
    have "page_drawn page s = Some s'" using old e(1) by (simp add: page_drawn_def)
    moreover have "ui_inv s'" using e assms(1) by (simp add: ui_inv_def cursor_in_page_def undisturbed_def)
    moreover have "undisturbed (s\<lparr>nowPagePre := page\<rparr>) s'" using e(2) old by (simp add: undisturbed_def relays_def)
    moreover have "nowPagePre s' = page" using e(2) old by (simp add: undisturbed_def)
    ultimately show ?thesis using e(7) by blast
  next
    case idle
    then have "undisturbed (s\<lparr>nowPagePre := page\<rparr>) s" by (simp add: undisturbed_def relays_def)
    then show ?thesis using assms(1) idle by (intro exI [of _ s]) (simp add: page_drawn_def)
  qed
qed

lemma second_passed_keeps:
  "relays (second_passed page s) = relays s" "ctlStatics (second_passed page s) = ctlStatics s"
  "timeRun (second_passed page s) = timeRun s" "gInfo (second_passed page s) = gInfo s"
  "backlightTime (second_passed page s) = backlightTime s" "oled_time1S (second_passed page s) = oled_time1S s"
  "ui_inv (second_passed page s) = ui_inv s" "buttonList (second_passed page s) = buttonList s"
  "btn_cooling (second_passed page s) = btn_cooling s" "on_set_pre (second_passed page s) = on_set_pre s"
  by (simp_all add: second_passed_def monitorBackLight_def BackPage_def SetReflashFlag_def rt_pin_write_def relays_def
      ui_inv_def menu_ok_def cursor_in_page_def pin_defs get_pin_def Let_def)

lemma second_passed_light:
  "pins (second_passed page s) LCD_BK =
     (if oled_Timer1sTouch s = YES \<and> backlightTime s + 60 < timeRun s then 0 else pins s LCD_BK)"
  by (simp add: second_passed_def monitorBackLight_def BackPage_def SetReflashFlag_def GetBackLightTime_def GetTimeRun_def Let_def)

definition page_ok :: "'a oled_t_scheme \<Rightarrow> bool" where
  "page_ok s \<longleftrightarrow> (draws HOME_PAGE s \<longrightarrow> home_ok s) \<and> (draws SETTING_PAGE s \<longrightarrow> setting_ok s)"

lemma setting_ok_timers: "setting_ok (s\<lparr>oled_time1S := t, oled_Timer1sTouch := f\<rparr>) = setting_ok s"
  unfolding setting_ok_def by (cases "nowPagePre s = SETTING_PAGE")
    (simp_all, (rule setting_select_cong; simp add: pageSetting_def pageSelectSet_def)+)

lemma oled_pass_effect:
  assumes "ui_inv s" "page_ok s"
  shows "\<exists>s'. OledEntry_pass s = Some s' \<and> ui_inv s' \<and> relays s' = relays s \<and> ctlStatics s' = ctlStatics s \<and> timeRun s' = timeRun s \<and>
    (settings_ok (gInfo s) \<longrightarrow> settings_ok (gInfo s')) \<and> backlightTime s' = backlightTime s \<and>
    oled_time1S s' = (if oled_time1S s < 10 then oled_time1S s + 1 else 0) \<and>
    buttonList s' = buttonList s \<and> btn_cooling s' = btn_cooling s \<and> on_set_pre s' = on_set_pre s \<and>
    pins s' LCD_BK = (if \<not> oled_time1S s < 10 \<and> backlightTime s + 60 < timeRun s then 0 else pins s LCD_BK)"
proof -
  obtain t f where tf: "TimerTask (oled_time1S s) 10 = (t, f)" by fastforce
  have tv: "t = (if oled_time1S s < 10 then oled_time1S s + 1 else 0)" "f = (if oled_time1S s < 10 then NO else YES)"
    using tf by (auto simp: TimerTask_def Let_def split: if_splits)
  let ?s = "s\<lparr>oled_time1S := t, oled_Timer1sTouch := f\<rparr>"
  have top: "top_page ?s = top_page s" by (simp add: top_page_def)
  have "ui_inv ?s" using assms(1) by (simp add: ui_inv_def menu_ok_def cursor_in_page_def)
  moreover have "top_page s = HOME_PAGE \<and> (nowPagePre ?s \<noteq> top_page s \<or> reflash_flag ?s = YES) \<longrightarrow> home_ok ?s"
    using assms(2) by (auto simp: home_ok_ui draws_def page_ok_def)
  moreover have "top_page s = SETTING_PAGE \<and> (nowPagePre ?s \<noteq> top_page s \<or> reflash_flag ?s = YES) \<longrightarrow> setting_ok ?s"
    using assms(2) by (auto simp: setting_ok_timers draws_def page_ok_def)
  ultimately obtain x where x: "page_drawn (top_page s) ?s = Some x" "ui_inv x" "undisturbed (?s\<lparr>nowPagePre := top_page s\<rparr>) x"
    "settings_ok (gInfo ?s) \<longrightarrow> settings_ok (gInfo x)" using page_drawn_effect by blast
  have k: "relays x = relays s" "ctlStatics x = ctlStatics s" "timeRun x = timeRun s" "backlightTime x = backlightTime s"
    "oled_time1S x = t" "oled_Timer1sTouch x = f" "pins x LCD_BK = pins s LCD_BK"
    "buttonList x = buttonList s" "btn_cooling x = btn_cooling s" "on_set_pre x = on_set_pre s"
    using x(3) by (simp_all add: undisturbed_def relays_def)
  have "OledEntry_pass s = Some (second_passed (top_page s) x)"
    unfolding OledEntry_pass_def tf Let_def prod.case top x(1) by simp
  then show ?thesis using x(2,4) k tv by (simp add: second_passed_keeps second_passed_light)
qed

text \<open>Conversely, a pass that draws a page and comes through could show what is on it.\<close>

lemma oled_pass_home_ok:
  assumes "OledEntry_pass s = Some s'" "draws HOME_PAGE s"
  shows "home_ok s"
proof -
  obtain t f where tf: "TimerTask (oled_time1S s) 10 = (t, f)" by fastforce
  let ?s = "s\<lparr>oled_time1S := t, oled_Timer1sTouch := f\<rparr>"
  have top: "top_page ?s = HOME_PAGE" using assms(2) by (simp add: top_page_def draws_def)
  have "page_drawn HOME_PAGE ?s \<noteq> None"
    using assms(1) unfolding OledEntry_pass_def tf Let_def prod.case top by auto
  moreover have "pageProgram HOME_PAGE x = None" if "\<not> home_ok x" for x :: "'a oled_t_scheme"
    using that home_changed_ok [of x] home_ok_HomePage [of "cursor_changed (page_changed HOME_PAGE x)"]
    unfolding pageProgram_def Let_def by simp
  moreover have "home_ok (pageSetting HOME_PAGE ?s) = home_ok s" "home_ok ?s = home_ok s"
    by (simp_all add: pageSetting_def pageSelectSet_def home_ok_ui)
  ultimately show ?thesis
    using assms(2) by (fastforce simp: page_drawn_def draws_def GetReflashFlag_def split: if_splits)
qed

lemma pageProgram_unnamed:
  assumes "menu_ok s" "cursor_ok s" "\<not> first_row_named (setting_select s)"
  shows "pageProgram SETTING_PAGE s = None"
proof -
  define x where "x = cursor_changed (page_changed SETTING_PAGE s)"
  have x: "pageSelect x = pageSelect s" "gInfo x = gInfo s" "set_min x = set_min s" "set_max x = set_max s"
    using page_changed_keeps [of s SETTING_PAGE] cursor_changed_keeps [of "page_changed SETTING_PAGE s"] by (auto simp: x_def)
  have "menu_ok (setting_select x)" "cursor_ok (setting_select x)"
    using assms(1,2) x by (simp_all add: setting_select_def menu_ok_def cursor_ok_def)
  then have "SettingPage (setting_select x) = None"
    using SettingPage_form [of "setting_select x"] assms(3) setting_select_cong [OF x] by simp
  then show ?thesis unfolding pageProgram_def x_def [symmetric] Let_def by simp
qed

lemma oled_pass_setting_ok:
  assumes "ui_inv s" "OledEntry_pass s = Some s'" "draws SETTING_PAGE s"
  shows "setting_ok s"
proof (rule ccontr)
  assume no: "\<not> setting_ok s"
  obtain t f where tf: "TimerTask (oled_time1S s) 10 = (t, f)" by fastforce
  let ?s = "s\<lparr>oled_time1S := t, oled_Timer1sTouch := f\<rparr>"
  have top: "top_page ?s = SETTING_PAGE" using assms(3) by (simp add: top_page_def draws_def)
  have d: "page_drawn SETTING_PAGE ?s \<noteq> None"
    using assms(2) unfolding OledEntry_pass_def tf Let_def prod.case top by auto
  have n: "\<not> first_row_named (setting_select (if nowPagePre s \<noteq> SETTING_PAGE then pageSetting SETTING_PAGE ?s else ?s))"
    using no setting_ok_timers [where s = s and t = t and f = f] by (simp add: setting_ok_def)
  show False
  proof (cases "nowPagePre s = SETTING_PAGE")
    case True
    then have "menu_ok ?s" "cursor_ok ?s" using assms(1) by (auto simp: ui_inv_def menu_ok_def cursor_in_page_def cursor_ok_def)
    then show False
      using d n True assms(3) pageProgram_unnamed [of ?s] by (simp add: page_drawn_def draws_def GetReflashFlag_def)
  next
    case False
    have "menu_ok (pageSetting SETTING_PAGE ?s)" "cursor_ok (pageSetting SETTING_PAGE ?s)"
      using assms(1) by (simp_all add: ui_inv_def menu_ok_def cursor_ok_def pageSetting_def pageSelectSet_def)
    then show False using d n False pageProgram_unnamed [of "pageSetting SETTING_PAGE ?s"] by (simp add: page_drawn_def)
  qed
qed

lemma oled_pass_defined: "ui_inv s \<Longrightarrow> OledEntry_pass s \<noteq> None \<longleftrightarrow> page_ok s"
  using oled_pass_effect [of s] oled_pass_home_ok [of s] oled_pass_setting_ok [of s]
  by (cases "OledEntry_pass s") (auto simp: page_ok_def)

section \<open>The page stack\<close>

text \<open>
  A stack of fixed depth: a push drops the entry at the bottom, a pop fills the bottom with a
  default entry.
\<close>

primrec pop_n :: "('s \<Rightarrow> 'p \<times> 's) \<Rightarrow> nat \<Rightarrow> 's \<Rightarrow> 'p list \<times> 's" where
  "pop_n pop 0 s = ([], s)"
| "pop_n pop (Suc n) s = (let (p, s1) = pop s; (ps, s2) = pop_n pop n s1 in (p # ps, s2))"

locale bounded_stack =
  fixes entries :: "'s \<Rightarrow> 'p list" and push :: "'p \<Rightarrow> 's \<Rightarrow> 's" and pop :: "'s \<Rightarrow> 'p \<times> 's" and depth :: nat and bottom :: 'p
  assumes length_entries: "length (entries s) = depth"
    and entries_push: "entries (push p s) = p # butlast (entries s)"
    and top_pop: "fst (pop s) = hd (entries s)"
    and entries_pop: "entries (snd (pop s)) = tl (entries s) @ [bottom]"
begin

lemma entries_pushes: "length ps \<le> depth \<Longrightarrow> entries (fold push ps s) = rev ps @ take (depth - length ps) (entries s)"
proof (induction ps rule: rev_induct)
  case (snoc p ps)
  then have "entries (fold push ps s) = rev ps @ take (depth - length ps) (entries s)" by simp
  moreover have "take (depth - length ps) (entries s) \<noteq> []" using snoc.prems length_entries [of s] by auto
  ultimately show ?case using snoc.prems length_entries [of s]
    by (auto simp: entries_push butlast_append butlast_take)
qed (simp add: length_entries)

lemma pops_entries: "n \<le> depth \<Longrightarrow> fst (pop_n pop n s) = take n (entries s) \<and> entries (snd (pop_n pop n s)) = drop n (entries s) @ replicate n bottom"
proof (induction n arbitrary: s)
  case (Suc n)
  obtain x xs where e: "entries s = x # xs" using Suc.prems length_entries [of s] by (cases "entries s") auto
  then have l: "n \<le> length xs" using Suc.prems length_entries [of s] by simp
  have "take n (entries (snd (pop s))) = take n xs" "drop n (entries (snd (pop s))) = drop n xs @ [bottom]"
    using l by (simp_all add: entries_pop e)
  moreover have "bottom # replicate n bottom = replicate n bottom @ [bottom]" by (simp add: replicate_append_same)
  ultimately show ?case using Suc.IH [of "snd (pop s)"] Suc.prems top_pop [of s] e
    by (auto simp: Let_def split_beta replicate_append_same)
qed simp

lemma push_pops:
  "length ps \<le> depth \<Longrightarrow> fst (pop_n pop (length ps) (fold push ps s)) = rev ps \<and>
   entries (snd (pop_n pop (length ps) (fold push ps s))) = take (depth - length ps) (entries s) @ replicate (length ps) bottom"
  using pops_entries [of "length ps" "fold push ps s"] entries_pushes [of ps s] by simp

lemma pops_all: "entries (snd (pop_n pop depth s)) = replicate depth bottom"
  using pops_entries [of depth s] length_entries [of s] by simp

end

definition page_stack :: "'a pages_t_scheme \<Rightarrow> u8 list" where
  "page_stack s = map (\<lambda>i. ucast (drop_bit (8 * i) (pageInfor s))) [0..<8]"

lemma page_stack_unfold:
  "page_stack s = [ucast (pageInfor s), ucast (drop_bit 8 (pageInfor s)), ucast (drop_bit 16 (pageInfor s)),
     ucast (drop_bit 24 (pageInfor s)), ucast (drop_bit 32 (pageInfor s)), ucast (drop_bit 40 (pageInfor s)),
     ucast (drop_bit 48 (pageInfor s)), ucast (drop_bit 56 (pageInfor s))]"
  by (simp add: page_stack_def upt_conv_Cons)

lemma low_byte: "ucast (w AND 0xFF) = (ucast w :: u8)" for w :: u64
proof -
  have "w AND 0xFF = take_bit 8 w" by (simp add: take_bit_eq_mask mask_eq_exp_minus_1)
  then show ?thesis by (auto intro!: bit_word_eqI simp: bit_simps)
qed

lemma page_of_push: "ucast (push_bit 8 w OR ucast p) = p" for w :: u64 and p :: u8
  by (rule bit_word_eqI) (auto simp: bit_simps)

lemma pages_below_push:
  fixes w :: u64 and p :: u8
  assumes "n \<le> 48"
  shows "ucast (drop_bit (8 + n) (push_bit 8 w OR ucast p)) = (ucast (drop_bit n w) :: u8)"
proof (rule bit_word_eqI)
  fix k assume "k < LENGTH(8)"
  moreover have "\<not> bit p (8 + n + k)" using bit_imp_le_length [of p "8 + n + k"] by auto
  ultimately show "bit (ucast (drop_bit (8 + n) (push_bit 8 w OR ucast p)) :: u8) k = bit (ucast (drop_bit n w) :: u8) k"
    using assms by (simp add: bit_simps)
qed

interpretation page: bounded_stack page_stack push_page BackPage 8 HOME_PAGE
proof
  fix s :: "'a pages_t_scheme" and p :: u8
  show "length (page_stack s) = 8" by (simp add: page_stack_def)
  show "page_stack (push_page p s) = p # butlast (page_stack s)"
    using pages_below_push [of 0] pages_below_push [of 8] pages_below_push [of 16] pages_below_push [of 24]
      pages_below_push [of 32] pages_below_push [of 40] pages_below_push [of 48]
    by (simp add: page_stack_unfold push_page_def page_of_push del: drop_bit_or)
  show "fst (BackPage s) = hd (page_stack s)"
    by (simp add: page_stack_unfold BackPage_def Let_def low_byte)
  have "drop_bit 64 (pageInfor s) = 0" by (simp add: drop_bit_exp_eq bit_eq_iff bit_simps)
  then show "page_stack (snd (BackPage s)) = tl (page_stack s) @ [HOME_PAGE]"
    by (simp add: page_stack_unfold BackPage_def Let_def)
qed

text \<open>
  The page stack. The 64-bit word of page numbers is a stack of eight entries: after pushing up
  to eight pages, going back as many times shows them in reverse order and then the pages that were
  there before, except that as many of the oldest ones as were pushed have become the home page.
\<close>

theorem page_stack_round_trip:
  assumes "length ps \<le> 8"
  shows "fst (pop_n BackPage (length ps) (fold push_page ps s)) = rev ps \<and>
    page_stack (snd (pop_n BackPage (length ps) (fold push_page ps s))) =
      take (8 - length ps) (page_stack s) @ replicate (length ps) HOME_PAGE"
  using assms by (rule page.push_pops)

theorem page_stack_round_trip_witness:
  "fst (pop_n BackPage 2 (fold push_page [SETTING_PAGE, TIME_SELECT_PAGE] pages_demo)) = [TIME_SELECT_PAGE, SETTING_PAGE]"
  using page_stack_round_trip [of "[SETTING_PAGE, TIME_SELECT_PAGE]" pages_demo] by (simp add: numeral_2_eq_2)


section \<open>The back light\<close>

primrec oled_run :: "nat \<Rightarrow> 'a oled_t_scheme \<Rightarrow> 'a oled_t_scheme option" where
  "oled_run 0 s = Some s"
| "oled_run (Suc n) s = Option.bind (oled_run n s) OledEntry_pass"

definition drawable :: "nat \<Rightarrow> 'a oled_t_scheme \<Rightarrow> bool" where
  "drawable n s \<longleftrightarrow> list_all (\<lambda>k. case oled_run k s of None \<Rightarrow> True | Some x \<Rightarrow> page_ok x) [0..<n]"

lemma oled_run_effect:
  assumes "ui_inv s" "drawable n s" "oled_time1S s \<le> 10"
  shows "\<exists>x. oled_run n s = Some x \<and> ui_inv x \<and> relays x = relays s \<and> timeRun x = timeRun s \<and> backlightTime x = backlightTime s \<and>
    unat (oled_time1S x) = (unat (oled_time1S s) + n) mod 11 \<and>
    (backlightTime s + 60 < timeRun s \<longrightarrow> 11 \<le> unat (oled_time1S s) + n \<longrightarrow> pins x LCD_BK = 0)"
  using assms(2)
proof (induction n)
  case 0
  have "unat (oled_time1S s) \<le> 10" using assms(3) by (simp add: word_le_nat_alt)
  then show ?case using assms(1) by simp
next
  case (Suc n)
  then obtain x where x: "oled_run n s = Some x" "ui_inv x" "relays x = relays s" "timeRun x = timeRun s" "backlightTime x = backlightTime s"
    "unat (oled_time1S x) = (unat (oled_time1S s) + n) mod 11"
    "backlightTime s + 60 < timeRun s \<longrightarrow> 11 \<le> unat (oled_time1S s) + n \<longrightarrow> pins x LCD_BK = 0"
    by (auto simp: drawable_def)
  have "page_ok x" using Suc.prems x(1) by (simp add: drawable_def)
  from oled_pass_effect [OF x(2) this] obtain y where y: "OledEntry_pass x = Some y" "ui_inv y" "relays y = relays x"
    "timeRun y = timeRun x" "backlightTime y = backlightTime x" "oled_time1S y = (if oled_time1S x < 10 then oled_time1S x + 1 else 0)"
    "pins y LCD_BK = (if \<not> oled_time1S x < 10 \<and> backlightTime x + 60 < timeRun x then 0 else pins x LCD_BK)" by blast
  have lt: "oled_time1S x < 10 \<longleftrightarrow> unat (oled_time1S x) < 10" by (simp add: word_less_nat_alt)
  have "unat (oled_time1S y) = (if unat (oled_time1S x) < 10 then Suc (unat (oled_time1S x)) else 0)"
    using y(6) lt by (auto simp: unat_word_ariths)
  then have t: "unat (oled_time1S y) = (unat (oled_time1S s) + Suc n) mod 11" using x(6) by (auto simp: mod_Suc)
  have "11 \<le> unat (oled_time1S s) + Suc n \<longrightarrow> 11 \<le> unat (oled_time1S s) + n \<or> \<not> oled_time1S x < 10"
    using x(6) lt by auto
  then have "backlightTime s + 60 < timeRun s \<longrightarrow> 11 \<le> unat (oled_time1S s) + Suc n \<longrightarrow> pins y LCD_BK = 0"
    using x(4,5,7) y(7) by auto
  then show ?case using x y t by simp
qed

text \<open>
  C35. The screen goes dark. When no key was pressed for more than 60 seconds, the display task
  switches the back light off within eleven passes of its loop, counted from the position of its
  timer, and keeps it off in the passes after that, without touching a relay; the run is defined as
  long as what the pages show can be drawn.
\<close>

theorem backlight_goes_off:
  assumes "ui_inv s" "drawable n s" "oled_time1S s \<le> 10" "backlightTime s + 60 < timeRun s" "11 \<le> unat (oled_time1S s) + n"
  shows "\<exists>x. oled_run n s = Some x \<and> pins x LCD_BK = 0 \<and> relays x = relays s"
  using oled_run_effect [OF assms(1-3)] assms(4,5) by blast

definition oled_demo :: oled_t where
  "oled_demo = btn_t.extend (pages_t.extend (pages_demo\<lparr>timeRun := 100\<rparr>)
     \<lparr>buttonList = [button_demo, button_demo, button_demo], btn_cooling = [0, 0, 0], on_set_pre = [0, 0, 0], btn_index = 0\<rparr>)
     \<lparr>pagePre = 1, cusonPre = 17, time_for = getTimeForMat pages_demo, time_for_pre = getTimeForMat pages_demo, nowPagePre = 1,
      oled_time1S = 10, oled_Timer1sTouch = 0\<rparr>"

lemmas oled_demo_simps = oled_demo_def pages_t.defs btn_t.defs demo_simps

theorem backlight_goes_off_witness: "\<exists>x. oled_run 1 oled_demo = Some x \<and> pins x LCD_BK = 0"
proof -
  have "gInfo oled_demo = gInfo pages_demo" by (simp add: oled_demo_simps)
  then have "setting_ok oled_demo" using settings_setting_ok pages_demo_ok(3) by metis
  moreover have "\<not> draws HOME_PAGE oled_demo" by (simp add: draws_def top_page_def oled_demo_simps)
  ultimately have "drawable 1 oled_demo" by (simp add: drawable_def page_ok_def)
  moreover have "ui_inv oled_demo" by (simp add: ui_inv_def menu_ok_def cursor_in_page_def oled_demo_simps)
  ultimately show ?thesis using backlight_goes_off [of oled_demo 1] by (fastforce simp: oled_demo_simps)
qed

end
