(* ===== verification/Hvac_Main.thy ===== *)
theory Hvac_Main
  imports Hvac_Oled
begin

text \<open>
  The main task \<^verbatim>\<open>applications/main.c\<close>: the status light, the second counter, the control
  program and the connection monitor. The start of \<^verbatim>\<open>main\<close> and one pass of its endless loop
  are functions on the state of the whole program; the threads that \<^verbatim>\<open>main\<close> creates are the
  tasks of the other theories.
\<close>

section \<open>State\<close>

text \<open>The static variables of \<^verbatim>\<open>LedProgram\<close> and of \<^verbatim>\<open>main\<close>.\<close>

record main_t = oled_t +
  led_cnt :: u16
  led_flag :: u8
  led_locationFlag :: u8
  led_lastTime :: int
  led_mode :: u8
  main_time1S :: u16
  main_Timer1sTouch :: u8
  main_time10S :: u16
  main_Timer10sTouch :: u8

abbreviation (input) LED_NORMAL :: u8 where "LED_NORMAL \<equiv> 0"
abbreviation (input) LED_FAST :: u8 where "LED_FAST \<equiv> 1"

section \<open>The status light\<close>

definition led_location :: "'a main_t_scheme \<Rightarrow> 'a main_t_scheme" where
  "led_location s =
     (if led_locationFlag s \<noteq> GetLoacationFlag s then
        (let s = s\<lparr>led_locationFlag := GetLoacationFlag s\<rparr>
         in if led_locationFlag s = YES then s\<lparr>led_lastTime := GetTimeRun s\<rparr> else s)
      else s)"

definition led_choose :: "'a main_t_scheme \<Rightarrow> 'a main_t_scheme" where
  "led_choose s =
     (if led_locationFlag s = YES then
        (if GetTimeRun s > led_lastTime s + 60 then (CloseModuleLocation s)\<lparr>led_mode := LED_NORMAL\<rparr>
         else s\<lparr>led_mode := LED_FAST\<rparr>)
      else s)"

definition led_count :: "nat \<Rightarrow> 'a main_t_scheme \<Rightarrow> 'a main_t_scheme" where
  "led_count limit s =
     (if unat (led_cnt s) < limit then s\<lparr>led_cnt := led_cnt s + 1\<rparr>
      else s\<lparr>led_flag := (if led_flag s = 0 then 1 else if led_flag s = 1 then 0 else led_flag s), led_cnt := 0\<rparr>)"

definition LedProgram :: "u8 \<Rightarrow> 'a main_t_scheme \<Rightarrow> 'a main_t_scheme" where
  "LedProgram period s =
     (let s = led_choose (led_location s);
          s = (if led_mode s = LED_NORMAL then led_count (1000 div unat period) s
               else if led_mode s = LED_FAST then led_count (100 div unat period) s
               else s)
      in rt_pin_write POWER_LED (led_flag s) s)"

section \<open>The task\<close>

definition main_start :: "'a main_t_scheme \<Rightarrow> 'a main_t_scheme" where
  "main_start s = InitTimeRun (GpioInit s)"

text \<open>
  The result of \<^verbatim>\<open>IdentifyDaYAndNight\<close>, which \<^verbatim>\<open>main\<close> calls every ten
  seconds, is not used.
\<close>

definition main_pass :: "'a main_t_scheme \<Rightarrow> 'a main_t_scheme option" where
  "main_pass s =
     (let (t1, f1) = TimerTask (main_time1S s) (1000 div 20);
          (t10, f10) = TimerTask (main_time10S s) (10000 div 20);
          s = s\<lparr>main_time1S := t1, main_Timer1sTouch := f1, main_time10S := t10, main_Timer10sTouch := f10\<rparr>;
          s = LedProgram 20 s
      in if main_Timer1sTouch s = YES
         then map_option MonitorConnectedState (ControlProgram (TimeRunning s))
         else Some s)"

section \<open>Blinking\<close>

text \<open>Whether the light blinks fast in the next call, and after how many calls it changes.\<close>

definition led_fast :: "'a main_t_scheme \<Rightarrow> bool" where
  "led_fast s \<longleftrightarrow> locationFlag s = YES \<and> (led_locationFlag s = YES \<longrightarrow> timeRun s \<le> led_lastTime s + 60)"

definition led_steady :: "bool \<Rightarrow> 'a main_t_scheme \<Rightarrow> bool" where
  "led_steady fast s \<longleftrightarrow> led_flag s \<in> {0, 1} \<and>
     (if fast then led_fast s else locationFlag s = NO \<and> led_mode s = LED_NORMAL)"

lemma led_lemmas:
  "locationFlag (led_count n s) = locationFlag s" "led_locationFlag (led_count n s) = led_locationFlag s"
  "led_lastTime (led_count n s) = led_lastTime s" "led_mode (led_count n s) = led_mode s" "timeRun (led_count n s) = timeRun s"
  by (simp_all add: led_count_def)

lemma LedProgram_steady:
  assumes "led_steady fast s" "unat (led_cnt s) \<le> n" "n = (if fast then 5 else 50)"
  shows "led_steady fast (LedProgram 20 s) \<and>
    unat (led_cnt (LedProgram 20 s)) = (if unat (led_cnt s) < n then unat (led_cnt s) + 1 else 0) \<and>
    led_flag (LedProgram 20 s) = (if unat (led_cnt s) < n then led_flag s else 1 - led_flag s) \<and>
    pins (LedProgram 20 s) POWER_LED = led_flag (LedProgram 20 s)"
proof -
  define x where "x = led_choose (led_location s)"
  have x: "led_steady fast x" "led_mode x = (if fast then LED_FAST else LED_NORMAL)" "led_cnt x = led_cnt s" "led_flag x = led_flag s"
    using assms(1)
    by - (cases fast; auto simp: x_def led_steady_def led_fast_def led_choose_def led_location_def GetLoacationFlag_def
        GetTimeRun_def CloseModuleLocation_def Let_def)+
  have eq: "LedProgram 20 s = rt_pin_write POWER_LED (led_flag (led_count n x)) (led_count n x)"
    unfolding LedProgram_def x_def [symmetric] Let_def using x(2) assms(3) by simp
  have u: "unat (led_cnt s + 1) = unat (led_cnt s) + 1" if "unat (led_cnt s) < n"
    using that assms(3) by (auto simp: unat_word_ariths split: if_splits)
  have c: "unat (led_cnt (led_count n x)) = (if unat (led_cnt s) < n then unat (led_cnt s) + 1 else 0)"
    "led_flag (led_count n x) = (if unat (led_cnt s) < n then led_flag s else 1 - led_flag s)"
    using x u by (auto simp: led_count_def led_steady_def)
  have "led_steady fast (led_count n x)"
    using x(1) c(2) x(4) by (auto simp: led_steady_def led_fast_def led_lemmas)
  then have "led_steady fast (LedProgram 20 s)" unfolding eq by (cases fast) (simp_all add: rt_pin_write_def led_steady_def led_fast_def)
  moreover have "led_flag s \<in> {0, 1}" using assms(1) by (simp add: led_steady_def)
  ultimately show ?thesis
    unfolding eq using c by (auto simp: rt_pin_write_def)
qed

lemma LedProgram_steps:
  assumes "led_steady fast s" "led_cnt s = 0" "P = (if fast then 6 else 51)"
  shows "led_steady fast ((LedProgram 20 ^^ n) s) \<and> unat (led_cnt ((LedProgram 20 ^^ n) s)) = n mod P \<and>
    led_flag ((LedProgram 20 ^^ n) s) = (if even (n div P) then led_flag s else 1 - led_flag s) \<and>
    (0 < n \<longrightarrow> pins ((LedProgram 20 ^^ n) s) POWER_LED = led_flag ((LedProgram 20 ^^ n) s))"
proof (induction n)
  case 0
  then show ?case using assms by simp
next
  case (Suc n)
  define x where "x = (LedProgram 20 ^^ n) s"
  note IH = Suc.IH [folded x_def]
  have P: "0 < P" "unat (led_cnt x) < P" using assms(3) IH by auto
  then have "unat (led_cnt x) \<le> P - 1" by linarith
  moreover have "P - 1 = (if fast then 5 else 50)" using assms(3) by simp
  ultimately have st: "led_steady fast (LedProgram 20 x)"
    "unat (led_cnt (LedProgram 20 x)) = (if unat (led_cnt x) < P - 1 then unat (led_cnt x) + 1 else 0)"
    "led_flag (LedProgram 20 x) = (if unat (led_cnt x) < P - 1 then led_flag x else 1 - led_flag x)"
    "pins (LedProgram 20 x) POWER_LED = led_flag (LedProgram 20 x)"
    using LedProgram_steady [of fast x "P - 1"] IH by auto
  have m: "unat (led_cnt x) < P - 1 \<longleftrightarrow> Suc (n mod P) \<noteq> P" using IH P by auto
  have d: "Suc n div P = (if Suc (n mod P) = P then Suc (n div P) else n div P)" by (simp add: div_Suc mod_Suc)
  have "(LedProgram 20 ^^ Suc n) s = LedProgram 20 x" by (simp add: x_def)
  then show ?case using st m d IH by (auto simp: mod_Suc)
qed

text \<open>The status light. Called every 20 ms, \<^verbatim>\<open>LedProgram\<close> changes the light every 51 calls,
  and every 6 calls while the module is being located; a call ends the location exactly when more
  than 60 seconds have passed since the first call that saw the request.
\<close>

theorem led_blinks:
  assumes "led_steady fast s" and "led_cnt s = 0" and "0 < n"
  shows "pins ((LedProgram 20 ^^ n) s) POWER_LED =
      (if even (n div (if fast then 6 else 51)) then led_flag s else 1 - led_flag s) \<and>
    (locationFlag x = YES \<longrightarrow>
       locationFlag (LedProgram 20 x) = (if led_locationFlag x = YES \<and> timeRun x > led_lastTime x + 60 then NO else YES))"
proof
  show "pins ((LedProgram 20 ^^ n) s) POWER_LED = (if even (n div (if fast then 6 else 51)) then led_flag s else 1 - led_flag s)"
    using LedProgram_steps [OF assms(1,2) refl, of n] assms(3) by simp
  show "locationFlag x = YES \<longrightarrow>
      locationFlag (LedProgram 20 x) = (if led_locationFlag x = YES \<and> timeRun x > led_lastTime x + 60 then NO else YES)"
    by (auto simp: LedProgram_def led_choose_def led_location_def GetLoacationFlag_def GetTimeRun_def CloseModuleLocation_def
        led_lemmas frame_simps Let_def)
qed

definition main_demo :: main_t where
  "main_demo = oled_t.extend oled_demo
     \<lparr>led_cnt = 0, led_flag = 0, led_locationFlag = 0, led_lastTime = 0, led_mode = 0, main_time1S = 0, main_Timer1sTouch = 0,
      main_time10S = 0, main_Timer10sTouch = 0\<rparr>"

lemmas main_demo_simps = main_demo_def oled_t.defs oled_demo_simps

theorem led_blinks_witness:
  "pins ((LedProgram 20 ^^ 60) main_demo) POWER_LED = 1 \<and>
   pins ((LedProgram 20 ^^ 60) (ModuleLocation main_demo)) POWER_LED = 0"
proof -
  have "led_steady False main_demo" "led_steady True (ModuleLocation main_demo)" "led_cnt main_demo = 0"
    "led_cnt (ModuleLocation main_demo) = 0" "led_flag main_demo = 0" "led_flag (ModuleLocation main_demo) = 0"
    by (simp_all add: led_steady_def led_fast_def ModuleLocation_def main_demo_simps)
  then show ?thesis
    using led_blinks [of False main_demo 60 main_demo] led_blinks [of True "ModuleLocation main_demo" 60 main_demo]
    by simp
qed

end
