(* ===== verification/Hvac_System.thy ===== *)
theory Hvac_System
  imports Hvac_Main
begin

text \<open>
  The tasks together. Each task touches a known part of the shared state; the locales
  \<open>bus_observer\<close> and \<open>main_observer\<close> say which updates an observation has to
  ignore so that a pass of the communication task or of the main task cannot change it. The step
  relation \<open>hvac_step\<close> interleaves the passes of the four tasks with what the hardware does:
  frames arriving, keys moving, the clock advancing. The passes are atomic.
\<close>

section \<open>What the communication task cannot change\<close>

locale bus_observer =
  fixes view :: "'a flash_t_scheme \<Rightarrow> 'o"
  assumes bus_view [simp]:
    "view (s\<lparr>pins := (pins s)(UART1_EN := v)\<rparr>) = view s"
    "view (s\<lparr>locationFlag := x1\<rparr>) = view s"
    "view (s\<lparr>rtc_regs := x2\<rparr>) = view s"
    "view (s\<lparr>malloc_pos := x3\<rparr>) = view s"
    "view (s\<lparr>gInfo := x4\<rparr>) = view s"
    "view (s\<lparr>sensorInfo := x5\<rparr>) = view s"
    "view (s\<lparr>actionInfo := x6\<rparr>) = view s"
    "view (s\<lparr>lastConnectTime := x7\<rparr>) = view s"
    "view (s\<lparr>sendMsgList := x8\<rparr>) = view s"
    "view (s\<lparr>recvMsgList := x9\<rparr>) = view s"
    "view (s\<lparr>uart1_tx := x10\<rparr>) = view s"
    "view (s\<lparr>uart1_open := x11\<rparr>) = view s"
    "view (s\<lparr>uart1_msg := x12\<rparr>) = view s"
    "view (s\<lparr>timeCorrect := x13\<rparr>) = view s"
    "view (s\<lparr>flash := x14\<rparr>) = view s"
    "view (s\<lparr>program_pos := x15\<rparr>) = view s"
    "view (s\<lparr>last_crc := x16\<rparr>) = view s"
    "view (s\<lparr>uart_time1S := x17\<rparr>) = view s"
    "view (s\<lparr>uart_time10S := x18\<rparr>) = view s"
    "view (s\<lparr>uart_Timer10sTouch := x19\<rparr>) = view s"
begin

lemma UART1_EN_view [simp]: "view (rt_pin_write UART1_EN v s) = view s"
  by (simp add: rt_pin_write_def)

lemma correct_time_view [simp]: "view (correct_time s) = view s"
  using correct_time_regs [of s] by auto

lemma ModbusCommand_view [simp]: "view (snd (ModbusCommand rw reg data s)) = view s"
proof -
  have "view (snd r) = view s" if "ModbusCommand_ctrl rw reg data s = Some r" for r
    using that
    by (auto simp: ModbusCommand_ctrl_def ModuleLocation_def write_ctrl_def SetActionInfo_def Let_def split: if_splits)
  moreover have "view (snd r) = view s" if "ModbusCommand_set rw reg data s = Some r" for r
    using that by (auto simp: ModbusCommand_set_def Let_def split: if_splits)
  moreover have "view (snd (ModbusCommand_sensor rw reg data s)) = view s"
    by (simp add: ModbusCommand_sensor_def Let_def)
  ultimately show ?thesis by (auto simp: ModbusCommand_def split: option.split)
qed

lemma read_loop_view [simp]: "view (snd (read_loop n reg test s)) = view s"
proof (induction n arbitrary: reg test s)
  case (Suc n)
  then show ?case using ModbusCommand_view [of READ_CMD reg test s] by (simp add: split_beta Let_def)
qed simp

lemma write_loop_view [simp]: "view (write_loop n i reg data s) = view s"
  by (induction n arbitrary: i s) (simp_all add: Let_def)

lemma malloc_outcome_view [simp]: "view (snd (malloc_outcome s)) = view s"
  by (simp add: malloc_outcome_def)

lemma AddToSendMsgList_view [simp]: "view (snd (AddToSendMsgList data len s)) = view s"
  by (simp add: AddToSendMsgList_def malloc_outcome_def Let_def)

lemma SendMsgHandle_view [simp]: "view (SendMsgHandle s) = view s"
  by (simp add: SendMsgHandle_def SendToMaster_def RemoveFromSendMsgList_def Let_def split: list.split option.split)

lemma Uart1Analysis_view: "Uart1Analysis data len s = Some s' \<Longrightarrow> view s' = view s"
proof -
  have "view x = view s" if "ModbusCommandAnalysis data s = Some x" for x
    using that
    by (auto simp: ModbusCommandAnalysis_def cmd_read_muti_def cmd_write_single_def cmd_write_muti_def split_beta Let_def
        split: if_splits)
  then show "Uart1Analysis data len s = Some s' \<Longrightarrow> view s' = view s"
    by (auto simp: Uart1Analysis_def SetLastConnectTime_def Let_def split: if_splits)
qed

lemma flash_write_loop_view: "view (snd (flash_write_loop n a data r s)) = view s"
  by (induction n arbitrary: a data r s) (auto simp: HAL_FLASH_Program_def Let_def)

lemma SaveGlobalInfo_view [simp]: "view (SaveGlobalInfo s) = view s"
  by (simp add: SaveGlobalInfo_def flash_write_def HAL_FLASHEx_Erase_def flash_write_loop_view split_beta Let_def)

theorem UartEntry_pass_view: "UartEntry_pass s = Some s' \<Longrightarrow> view s' = view s"
  by (auto simp: UartEntry_pass_def Uart1CleanRecvFlag_def split_beta Let_def split: option.splits if_splits dest!: Uart1Analysis_view)

lemma uart_task_start_view: "view (uart_task_start s) = view s"
  by (simp add: uart_task_start_def InitUart1_def TakeGlobalInfo_def InitGlobalInformation_def InitSensorInfomation_def
      InitActionInfomation_def InitLastConnectTime_def InitRecvMsgList_def InitSendMsgList_def Let_def split: option.split)

lemma Uart1_input_view: "Uart1_input bytes s = Some (r, s') \<Longrightarrow> view s' = view s"
  by (auto simp: Uart1_input_def Let_def split: if_splits)

end

section \<open>What the main task cannot change\<close>

text \<open>The part of a pass that runs every 20 ms, and the pass in terms of it.\<close>

definition main_tick :: "'a main_t_scheme \<Rightarrow> 'a main_t_scheme" where
  "main_tick s = LedProgram 20 (s\<lparr>main_time1S := fst (TimerTask (main_time1S s) (1000 div 20)),
     main_Timer1sTouch := snd (TimerTask (main_time1S s) (1000 div 20)),
     main_time10S := fst (TimerTask (main_time10S s) (10000 div 20)),
     main_Timer10sTouch := snd (TimerTask (main_time10S s) (10000 div 20))\<rparr>)"

lemma main_pass_tick:
  "main_pass s =
     (if main_Timer1sTouch (main_tick s) = YES
      then map_option MonitorConnectedState (ControlProgram (TimeRunning (main_tick s))) else Some (main_tick s))"
  unfolding main_pass_def main_tick_def by (simp only: split_beta Let_def)

locale led_observer =
  fixes view :: "'a main_t_scheme \<Rightarrow> 'o"
  assumes led_view [simp]:
    "view (s\<lparr>pins := (pins s)(POWER_LED := v)\<rparr>) = view s"
    "view (s\<lparr>locationFlag := x1\<rparr>) = view s"
    "view (s\<lparr>led_cnt := x2\<rparr>) = view s"
    "view (s\<lparr>led_flag := x3\<rparr>) = view s"
    "view (s\<lparr>led_locationFlag := x4\<rparr>) = view s"
    "view (s\<lparr>led_lastTime := x5\<rparr>) = view s"
    "view (s\<lparr>led_mode := x6\<rparr>) = view s"
begin

lemma LedProgram_view [simp]: "view (LedProgram period s) = view s"
proof -
  have "view (led_location s) = view s" for s by (simp add: led_location_def Let_def)
  moreover have "view (led_choose s) = view s" for s by (simp add: led_choose_def CloseModuleLocation_def)
  moreover have "view (led_count n s) = view s" for n s by (simp add: led_count_def)
  moreover have "view (rt_pin_write POWER_LED v s) = view s" for v s by (simp add: rt_pin_write_def)
  ultimately show ?thesis by (simp add: LedProgram_def Let_def)
qed

end

locale tick_observer = led_observer view for view :: "'a main_t_scheme \<Rightarrow> 'o" +
  assumes tick_view [simp]:
    "view (s\<lparr>main_time1S := y1\<rparr>) = view s"
    "view (s\<lparr>main_Timer1sTouch := y2\<rparr>) = view s"
    "view (s\<lparr>main_time10S := y3\<rparr>) = view s"
    "view (s\<lparr>main_Timer10sTouch := y4\<rparr>) = view s"
begin

lemma main_tick_view [simp]: "view (main_tick s) = view s"
  by (simp add: main_tick_def)

end

locale main_observer = tick_observer view for view :: "'a main_t_scheme \<Rightarrow> 'o" +
  assumes main_view [simp]:
    "view (s\<lparr>pins := z1\<rparr>) = view s"
    "view (s\<lparr>adc_pos := z2\<rparr>) = view s"
    "view (s\<lparr>malloc_pos := z3\<rparr>) = view s"
    "view (s\<lparr>ntc_list := z4\<rparr>) = view s"
    "view (s\<lparr>gInfo := z5\<rparr>) = view s"
    "view (s\<lparr>timeRun := z6\<rparr>) = view s"
    "view (s\<lparr>ctlStatics := z7\<rparr>) = view s"
begin

lemma CtrlRelay_view [simp]: "view (CtrlRelay d st en s) = view s"
  using CtrlRelay_form [of d st en s] by auto

lemma GetTempValue_view: "GetTempValue s = (r, s') \<Longrightarrow> view s' = view s"
  using GetTempValue_frame [of s r s'] by auto

lemma ControlProgram_stage_view [simp]: "view (ControlProgram_stage t n s) = view s"
  by (simp add: ControlProgram_stage_def Let_def)

lemma ControlProgram_view:
  assumes "ControlProgram s = Some s'"
  shows "view s' = view s"
proof -
  obtain t s1 where T: "GetTempValue s = (Some t, s1)"
    using assms by (auto simp: ControlProgram_def split: prod.splits option.splits)
  show ?thesis
    using assms unfolding ControlProgram_def T prod.case option.case Let_def GetTempValue_view [OF T, symmetric]
    by (auto split: if_splits)
qed

lemma MonitorConnectedState_view [simp]: "view (MonitorConnectedState s) = view s"
  by (simp add: MonitorConnectedState_def)

theorem main_pass_view:
  assumes "main_pass s = Some s'"
  shows "view s' = view s"
proof -
  have "view (TimeRunning (main_tick s)) = view s" by (simp add: TimeRunning_def)
  then show ?thesis
    using assms ControlProgram_view [of "TimeRunning (main_tick s)"] by (auto simp: main_pass_tick split: if_splits)
qed

end

section \<open>Observations\<close>

text \<open>The state of the user interface, and the part of the state the control program owns.\<close>

definition ui_view :: "'a oled_t_scheme \<Rightarrow> type_page_t \<times> u8 \<times> u8 \<times> u8 \<times> type_button_t list \<times> u8 list \<times> u8 list" where
  "ui_view s = (pageSelect s, set_min s, set_max s, nowPagePre s, buttonList s, btn_cooling s, on_set_pre s)"

definition control_view :: "'a ctl_t_scheme \<Rightarrow> (u8 \<times> u8 \<times> u8 \<times> u8 \<times> u8) \<times> control_statics \<times> int" where
  "control_view s = (relays s, ctlStatics s, timeRun s)"

interpretation ui_main: main_observer ui_view
  by unfold_locales (simp_all add: ui_view_def)

interpretation control_led: tick_observer control_view
  by unfold_locales (simp_all add: control_view_def relays_def pin_defs)

interpretation timers_led: led_observer "\<lambda>s. (main_time1S s, main_Timer1sTouch s)"
  by unfold_locales simp_all

interpretation ui_bus: bus_observer ui_view
  by unfold_locales (simp_all add: ui_view_def)

interpretation control_bus: bus_observer control_view
  by unfold_locales (simp_all add: control_view_def relays_def pin_defs)

section \<open>The buttons\<close>

definition buttons_ok :: "'a btn_t_scheme \<Rightarrow> bool" where
  "buttons_ok s \<longleftrightarrow> length (buttonList s) = 3 \<and> length (btn_cooling s) = 3 \<and> length (on_set_pre s) = 3 \<and>
     list_all (\<lambda>b. call_back b \<noteq> None) (buttonList s)"

lemma ui_view_inv:
  assumes "ui_view s' = ui_view s"
  shows "ui_inv s' = ui_inv s" and "buttons_ok s' = buttons_ok s"
  using assms by (simp_all add: ui_view_def ui_inv_def menu_ok_def cursor_in_page_def buttons_ok_def)

lemma control_view_inv:
  assumes "control_view s' = control_view s"
  shows "relays s' = relays s" and "thermo_inv s' = thermo_inv s"
  using assms by (simp_all add: control_view_def thermo_inv_def)

lemma wakeUp_control [simp]: "control_view (wakeUpOledBackLight s) = control_view s"
  by (simp add: control_view_def wakeUpOledBackLight_def relays_def rt_pin_write_def pin_defs get_pin_def)

lemma run_call_back_control: "control_view (run_call_back cb k s) = control_view s"
proof -
  have "control_view (upd_page f s) = control_view s" "control_view (SetReflashFlag v s) = control_view s"
    "control_view (snd (BackPage s)) = control_view s" for f v and s :: "'a pages_t_scheme"
    by (simp_all add: control_view_def relays_def SetReflashFlag_def BackPage_def Let_def)
  then show ?thesis
    by (cases cb) (simp_all add: run_call_back_def EnterBtnCallBack_def UpBtnCallBack_def DowmBtnCallBack_def Let_def)
qed

lemma run_call_back_ui:
  fixes s :: "'a oled_t_scheme"
  assumes "ui_inv s"
  shows "ui_inv (run_call_back cb k s) \<and> buttonList (run_call_back cb k s) = buttonList s \<and>
    btn_cooling (run_call_back cb k s) = btn_cooling s \<and> on_set_pre (run_call_back cb k s) = on_set_pre s"
proof -
  have c: "lo \<le> (if c > lo then c - 1 else hi)" "(if c > lo then c - 1 else hi) \<le> hi"
    "lo \<le> (if c < hi then c + 1 else lo)" "(if c < hi then c + 1 else lo) \<le> hi" if "lo \<le> c" "c \<le> hi" for lo c hi :: u8
    using that by uint_arith+
  show ?thesis
    using assms
    by (cases cb) (auto simp: run_call_back_def EnterBtnCallBack_def UpBtnCallBack_def DowmBtnCallBack_def wakeUpOledBackLight_def
        SetReflashFlag_def BackPage_def GetPageSelect_def rt_pin_write_def ui_inv_def menu_ok_def cursor_in_page_def c Let_def)
qed

lemma button_pass_ok:
  fixes s :: "'a oled_t_scheme"
  assumes "ui_inv s" "buttons_ok s" "i < 3"
  shows "\<exists>s'. button_pass period i s = Some s' \<and> ui_inv s' \<and> buttons_ok s' \<and> control_view s' = control_view s"
proof -
  define r where "r = button_scan (rt_pin_read s (btn_pin (buttonList s ! i)) = on_set (buttonList s ! i)) period
    (buttonList s ! i, btn_cooling s ! i)"
  define x where "x = s\<lparr>buttonList := (buttonList s)[i := fst r], btn_cooling := (btn_cooling s)[i := snd r]\<rparr>"
  have "call_back (fst r) = call_back (buttonList s ! i)"
    by (simp add: r_def button_scan_def button_level_def button_type_def)
  moreover obtain cb where "call_back (buttonList s ! i) = Some cb"
    using assms(2,3) by (auto simp: buttons_ok_def list_all_length)
  ultimately have cb: "call_back (fst r) = Some cb" by simp
  have "button_pass period i s = Some (run_call_back cb (btn_type (fst r)) x)"
    unfolding button_pass_def Let_def r_def [symmetric] split_beta x_def by (simp add: cb)
  moreover have "ui_inv x" using assms(1) by (simp add: x_def ui_inv_def menu_ok_def cursor_in_page_def)
  moreover have "buttons_ok x" using assms(2) cb by (auto simp: x_def buttons_ok_def list_all_iff dest!: set_update_subset_insert [THEN subsetD])
  moreover have "control_view x = control_view s" by (simp add: x_def control_view_def relays_def)
  ultimately show ?thesis using run_call_back_ui [of x cb "btn_type (fst r)"] run_call_back_control [of cb "btn_type (fst r)" x]
    by (simp add: buttons_ok_def)
qed

lemma button_task_pass_ok:
  fixes s :: "'a oled_t_scheme"
  assumes "ui_inv s" "buttons_ok s"
  shows "\<exists>s'. button_task_pass s = Some s' \<and> ui_inv s' \<and> buttons_ok s' \<and> control_view s' = control_view s"
proof -
  have f: "ui_inv (button_first s)" "buttons_ok (button_first s)" "control_view (button_first s) = control_view s"
    using assms by (simp_all add: button_first_def ui_inv_def menu_ok_def cursor_in_page_def buttons_ok_def control_view_def relays_def Let_def)
  obtain s0 where s0: "button_pass 20 0 (button_first s) = Some s0" "ui_inv s0" "buttons_ok s0" "control_view s0 = control_view s"
    using button_pass_ok [OF f(1,2), of 0 20] f(3) by auto
  obtain s1 where s1: "button_pass 20 1 s0 = Some s1" "ui_inv s1" "buttons_ok s1" "control_view s1 = control_view s"
    using button_pass_ok [OF s0(2,3), of 1 20] s0(4) by auto
  obtain s2 where "button_pass 20 2 s1 = Some s2" "ui_inv s2" "buttons_ok s2" "control_view s2 = control_view s"
    using button_pass_ok [OF s1(2,3), of 2 20] s1(4) by auto
  then show ?thesis using s0 s1 by (simp add: button_task_pass_def Buttonprogram_def)
qed

section \<open>The whole program\<close>

text \<open>
  Memory before the first instruction of \<^verbatim>\<open>main\<close>: what the initialisers of the static
  variables say, the relay outputs low.
\<close>

definition btn_zero :: type_button_t where
  "btn_zero = \<lparr>on_set = 0, btn_type = 0, press_state = 0, have_read = 0, continue_time = 0, btn_pin = 0, call_back = None\<rparr>"

definition booted :: "main_t \<Rightarrow> bool" where
  "booted s \<longleftrightarrow> relays s = (0, 0, 0, 0, 0) \<and>
     ctlStatics s = \<lparr>lastTime = 0, lastTemp = 0, stage = 1, lastCoolOrHeat = NORUN\<rparr> \<and>
     pageSelect s = \<lparr>cusor_show = 0, cusor_home = 0, cusor_max = 0, cusor = 0, showMore = 0, select = 0, lastCusor = 0,
       changeValue = 0, up = 0, down = 0\<rparr> \<and>
     pageInfor s = 0 \<and> set_min s = 1 \<and> set_max s = 5 \<and> nowPagePre s = 0xFF \<and>
     buttonList s = [btn_zero, btn_zero, btn_zero] \<and> btn_cooling s = [0, 0, 0] \<and> on_set_pre s = [0, 0, 0] \<and> btn_index s = 0"

text \<open>\<^verbatim>\<open>main\<close> starts the threads in this order; each runs up to its loop.\<close>

definition sys_start :: "main_t \<Rightarrow> main_t" where
  "sys_start s = uart_task_start (oled_task_start (ButtonRegister (main_start s)))"

inductive hvac_step :: "main_t \<Rightarrow> main_t \<Rightarrow> bool" where
  main_task: "main_pass s = Some s' \<Longrightarrow> hvac_step s s'"
| uart_task: "UartEntry_pass s = Some s' \<Longrightarrow> hvac_step s s'"
| oled_task: "OledEntry_pass s = Some s' \<Longrightarrow> hvac_step s s'"
| button_task: "button_task_pass s = Some s' \<Longrightarrow> hvac_step s s'"
| receive: "Uart1_input bytes s = Some (r, s') \<Longrightarrow> hvac_step s s'"
| key: "p \<in> {KEY_ENTER, KEY_UP, KEY_DOWN} \<Longrightarrow> hvac_step s (s\<lparr>pins := (pins s)(p := v)\<rparr>)"
| clock: "hvac_step s (s\<lparr>rtc_regs := r\<rparr>)"

inductive reachable :: "main_t \<Rightarrow> bool" where
  start: "booted s \<Longrightarrow> reachable (sys_start s)"
| step: "reachable s \<Longrightarrow> hvac_step s s' \<Longrightarrow> reachable s'"

definition sys_inv :: "main_t \<Rightarrow> bool" where
  "sys_inv s \<longleftrightarrow> relay_safe (relays s) \<and> thermo_inv s \<and> ui_inv s \<and> buttons_ok s"

lemma oled_pass_inv:
  fixes s :: "'a oled_t_scheme"
  assumes "ui_inv s" "buttons_ok s" "OledEntry_pass s = Some s'"
  shows "ui_inv s' \<and> buttons_ok s' \<and> control_view s' = control_view s"
proof -
  have "page_ok s" using oled_pass_defined [OF assms(1)] assms(3) by simp
  from oled_pass_effect [OF assms(1) this] show ?thesis
    using assms(2,3) by (auto simp: buttons_ok_def control_view_def)
qed

lemma main_tick_control: "relays (main_tick s) = relays s" "ctlStatics (main_tick s) = ctlStatics s"
  using control_led.main_tick_view [of s] by (simp_all add: control_view_def)

lemma TimeRunning_relays: "relays (TimeRunning s) = relays s"
  by (simp add: TimeRunning_def relays_def)

lemma main_pass_inv:
  assumes "relay_safe (relays s)" "thermo_inv s" "main_pass s = Some s'"
  shows "relay_safe (relays s') \<and> thermo_inv s'"
proof -
  let ?x = "TimeRunning (main_tick s)"
  have x: "relay_safe (relays (main_tick s))" "thermo_inv (main_tick s)" "relay_safe (relays ?x)" "thermo_inv ?x"
    using assms(1,2) TimeRunning_relays [of "main_tick s"] by (simp_all add: main_tick_control thermo_inv_def TimeRunning_def)
  have m: "relays (MonitorConnectedState y) = relays y" "thermo_inv (MonitorConnectedState y) = thermo_inv y" for y :: "'a main_t_scheme"
    by (simp_all add: MonitorConnectedState_def relays_def thermo_inv_def)
  show ?thesis
    using assms(3) x ControlProgram_inv [OF x(3,4)] m by (auto simp: main_pass_tick split: if_splits)
qed

lemma oled_task_start_views:
  fixes s :: "'a oled_t_scheme"
  shows "ui_view (oled_task_start s) = ui_view s" and "control_view (oled_task_start s) = control_view s"
proof -
  let ?b = "ST7567_BackLight_Off (ST7567_Reset s)"
  have "sent ?b (ST7567_Init s)" unfolding ST7567_Init_def by (rule sent_fold) (rule sent_WriteCommand)
  then obtain P L where i: "ST7567_Init s = ?b\<lparr>pins := P, lcd_bits := L\<rparr>" "\<forall>p. p \<notin> {LCD_SCK, LCD_MOSI, LCD_A0, LCD_CS} \<longrightarrow> P p = pins ?b p"
    unfolding sent_def by blast
  have r: "relays (?b\<lparr>pins := P, lcd_bits := L\<rparr>) = relays s"
    using i(2) by (simp add: relays_def ST7567_BackLight_Off_def ST7567_Reset_def pin_defs)
  have b: "ui_view (?b\<lparr>pins := P, lcd_bits := L\<rparr>) = ui_view s" "control_view (?b\<lparr>pins := P, lcd_bits := L\<rparr>) = control_view s"
    using r by (simp_all add: ui_view_def control_view_def ST7567_BackLight_Off_def ST7567_Reset_def rt_pin_write_def pin_defs get_pin_def)
  have f: "ui_view (ST7567_Fill c x) = ui_view x" "control_view (ST7567_Fill c x) = control_view x"
    "ui_view (ST7567_BackLight_On x) = ui_view x" "control_view (ST7567_BackLight_On x) = control_view x"
    "ui_view (push_page p x) = ui_view x" "control_view (push_page p x) = control_view x"
    "ui_view (wakeUpOledBackLight x) = ui_view x" for c p and x :: "'a oled_t_scheme"
    by (simp_all add: ui_view_def control_view_def relays_def ST7567_Fill_def ST7567_BackLight_On_def push_page_def
        wakeUpOledBackLight_def rt_pin_write_def pin_defs get_pin_def)
  show "ui_view (oled_task_start s) = ui_view s" "control_view (oled_task_start s) = control_view s"
    unfolding oled_task_start_def st7567Init_def clear_screen_def Let_def i(1) by (simp_all add: f b)
qed

lemma sys_start_inv:
  assumes "booted s"
  shows "sys_inv (sys_start s)"
proof -
  define x where "x = main_start s"
  have x: "relays x = relays s" "ctlStatics x = ctlStatics s" "pageSelect x = pageSelect s" "set_min x = set_min s"
    "set_max x = set_max s" "nowPagePre x = nowPagePre s" "buttonList x = buttonList s"
    "btn_cooling x = btn_cooling s" "on_set_pre x = on_set_pre s" "btn_index x = btn_index s"
    by (simp_all add: x_def main_start_def InitTimeRun_def GpioInit_def rt_pin_mode_def rt_pin_write_def relays_def pin_defs get_pin_def Let_def)
  have "buttons_ok (ButtonRegister x)" "control_view (ButtonRegister x) = control_view x" "ui_inv (ButtonRegister x)"
    using assms x by (simp_all add: booted_def ButtonRegister_def ButtonAdd_def buttons_ok_def control_view_def relays_def
        ui_inv_def menu_ok_def cursor_in_page_def Let_def)
  moreover have "ui_view (sys_start s) = ui_view (ButtonRegister x)" "control_view (sys_start s) = control_view (ButtonRegister x)"
    by (simp_all add: sys_start_def x_def ui_bus.uart_task_start_view control_bus.uart_task_start_view oled_task_start_views)
  moreover have "relay_safe (relays x)" "thermo_inv x"
    using assms x by (simp_all add: booted_def relay_safe_off thermo_inv_def)
  ultimately show ?thesis
    using ui_view_inv [of "sys_start s" "ButtonRegister x"] control_view_inv [of "sys_start s" x] by (simp add: sys_inv_def)
qed

lemma hvac_step_inv:
  assumes "hvac_step s s'" "sys_inv s"
  shows "sys_inv s' \<and> (main_pass s = Some s' \<or> relays s' = relays s \<and> ctlStatics s' = ctlStatics s)"
  using assms
proof (induction rule: hvac_step.induct)
  case (main_task s s')
  then show ?case
    using main_pass_inv [of s s'] ui_view_inv [OF ui_main.main_pass_view [OF main_task.hyps]] by (simp add: sys_inv_def)
next
  case (uart_task s s')
  then show ?case
    using ui_view_inv [OF ui_bus.UartEntry_pass_view [OF uart_task.hyps]]
      control_bus.UartEntry_pass_view [OF uart_task.hyps] control_view_inv [of s' s]
    by (simp add: sys_inv_def control_view_def)
next
  case (oled_task s s')
  then show ?case
    using oled_pass_inv [of s s'] control_view_inv [of s' s] by (simp add: sys_inv_def control_view_def)
next
  case (button_task s s')
  then show ?case
    using button_task_pass_ok [of s] control_view_inv [of s' s] by (auto simp: sys_inv_def control_view_def)
next
  case (receive bytes s r s')
  then show ?case
    using ui_view_inv [OF ui_bus.Uart1_input_view [OF receive.hyps]]
      control_bus.Uart1_input_view [OF receive.hyps] control_view_inv [of s' s]
    by (simp add: sys_inv_def control_view_def)
next
  case (key p s v)
  have r: "relays (s\<lparr>pins := (pins s)(p := v)\<rparr>) = relays s" using key.hyps by (auto simp: relays_def pin_defs)
  then show ?case
    using key.prems by (simp add: sys_inv_def thermo_inv_def ui_inv_def menu_ok_def cursor_in_page_def buttons_ok_def)
next
  case (clock s r)
  then show ?case
    by (simp add: sys_inv_def thermo_inv_def ui_inv_def menu_ok_def cursor_in_page_def buttons_ok_def relays_def)
qed

lemma reachable_inv: "reachable s \<Longrightarrow> sys_inv s"
proof (induction rule: reachable.induct)
  case (start s)
  then show ?case by (rule sys_start_inv)
next
  case (step s s')
  then show ?case using hvac_step_inv by blast
qed

section \<open>A second of the main task\<close>

text \<open>What the decisions of the control program depend on, when the temperature comes from the bus.\<close>

definition decision_view :: "'a ctl_t_scheme \<Rightarrow> type_info_t \<times> type_sensor_t \<times> type_action_t \<times> rtc_regs \<times> bool \<times> int \<times> control_statics" where
  "decision_view s = (gInfo s, sensorInfo s, actionInfo s, rtc_regs s, rtc_found s, timeRun s, ctlStatics s)"

interpretation decision_led: tick_observer decision_view
  by unfold_locales (simp_all add: decision_view_def)

lemma main_tick_timer:
  "main_time1S (main_tick s) = (if main_time1S s < 50 then main_time1S s + 1 else 0)"
  "main_Timer1sTouch (main_tick s) = (if main_time1S s < 50 then NO else YES)"
proof -
  have "main_time1S (LedProgram 20 x) = main_time1S x" "main_Timer1sTouch (LedProgram 20 x) = main_Timer1sTouch x" for x :: "'a main_t_scheme"
    using timers_led.LedProgram_view [of 20 x] by (simp_all only: prod.inject)
  then show "main_time1S (main_tick s) = (if main_time1S s < 50 then main_time1S s + 1 else 0)"
    "main_Timer1sTouch (main_tick s) = (if main_time1S s < 50 then NO else YES)"
    by (simp_all add: main_tick_def TimerTask_def)
qed

primrec main_run :: "nat \<Rightarrow> 'a main_t_scheme \<Rightarrow> 'a main_t_scheme option" where
  "main_run 0 s = Some s"
| "main_run (Suc n) s = Option.bind (main_run n s) main_pass"

lemma main_run_ticks:
  "unat (main_time1S s) + n \<le> 50 \<Longrightarrow>
   \<exists>x. main_run n s = Some x \<and> decision_view x = decision_view s \<and> unat (main_time1S x) = unat (main_time1S s) + n"
proof (induction n)
  case (Suc n)
  then obtain x where x: "main_run n s = Some x" "decision_view x = decision_view s" "unat (main_time1S x) = unat (main_time1S s) + n"
    by auto
  have lt: "main_time1S x < 50" using x(3) Suc.prems by (simp add: word_less_nat_alt)
  then have "main_pass x = Some (main_tick x)" by (simp add: main_pass_tick main_tick_timer)
  moreover have "unat (main_time1S x + 1) = unat (main_time1S x) + 1"
    using x(3) Suc.prems by (simp add: unat_word_ariths)
  ultimately show ?case using x lt by (simp add: decision_led.main_tick_view main_tick_timer)
qed simp

text \<open>The pass in which the second is over makes one step of the abstract thermostat.\<close>

lemma main_run_second:
  assumes "unat (main_time1S s) \<le> 50" "tempFrom (gInfo s) = TEMP_FROM_REMOTE" "sensorTemp (sensorInfo s) = t"
    "t \<noteq> VALUE_NULL" "sint (GetSetPoint s) \<noteq> VALUE_NULL" "wiring_of (mode (gInfo s)) = Some w" "thermo_inv s"
  shows "\<exists>s'. main_run (51 - unat (main_time1S s)) s = Some s' \<and> timeRun s' = timeRun s + 1 \<and>
    thermo_abs s' = thermo_step (timeRun s + 1) t (sint (GetSetPoint s)) (uint (deadBand (gInfo s))) (thermo_abs s) \<and>
    relays s' = relay_spec w (tcall (thermo_abs s')) (high (thermo_abs s'))"
proof -
  let ?n = "50 - unat (main_time1S s)"
  obtain x where x: "main_run ?n s = Some x" "decision_view x = decision_view s" "unat (main_time1S x) = 50"
    using main_run_ticks [of s ?n] assms(1) by auto
  define y where "y = TimeRunning (main_tick x)"
  have y: "gInfo y = gInfo s" "sensorInfo y = sensorInfo s" "actionInfo y = actionInfo s" "rtc_regs y = rtc_regs s"
    "rtc_found y = rtc_found s" "timeRun y = timeRun s + 1" "ctlStatics y = ctlStatics s"
    using decision_led.main_tick_view [of x] x(2) by (simp_all add: decision_view_def y_def TimeRunning_def)
  have sp: "GetSetPoint y = GetSetPoint s" using y by (intro GetSetPoint_cong) auto
  have inv: "thermo_inv y" "thermo_abs y = thermo_abs s" using assms(7) y(7) by (simp_all add: thermo_inv_def thermo_abs_def)
  have "GetTempValue y = (Some t, y)" using GetTempValue_remote [of y] y assms(2,3) by simp
  from ControlProgram_thermo [OF this assms(4) _ _ inv(1)] obtain z where z: "ControlProgram y = Some z" "timeRun z = timeRun y"
    "thermo_abs z = thermo_step (timeRun y) t (sint (GetSetPoint y)) (uint (deadBand (gInfo y))) (thermo_abs y)"
    "relays z = relay_spec w (tcall (thermo_abs z)) (high (thermo_abs z))"
    using assms(5,6) y(1) sp by auto
  have "\<not> main_time1S x < 50" using x(3) by (simp add: word_less_nat_alt)
  then have "main_pass x = Some (MonitorConnectedState z)" using z(1) by (simp add: main_pass_tick main_tick_timer y_def)
  moreover have "51 - unat (main_time1S s) = Suc ?n" using assms(1) by simp
  ultimately have "main_run (51 - unat (main_time1S s)) s = Some (MonitorConnectedState z)" using x(1) by simp
  moreover have "relays (MonitorConnectedState z) = relays z" "thermo_abs (MonitorConnectedState z) = thermo_abs z"
    "timeRun (MonitorConnectedState z) = timeRun z"
    by (simp_all add: MonitorConnectedState_def relays_def thermo_abs_def)
  ultimately show ?thesis using z(2-4) y(1,6) sp inv(2) by simp
qed

section \<open>A temperature frame\<close>

interpretation timer_bus: bus_observer main_time1S
  by unfold_locales simp_all

interpretation thermo_bus: bus_observer ctlStatics
  by unfold_locales simp_all

lemma temperature_frame:
  fixes s :: "'a main_t_scheme"
  assumes "registerState (gInfo s) = YES" "a = addr (gInfo s) \<or> a = 0" "a \<noteq> 0xFA"
  shows "\<exists>u. Uart1Analysis (with_crc [a, WRITE_SINGLE, 0xF0, 0x02, hi8 v, lo8 v] @ rest) 8 s = Some u \<and>
    sensorTemp (sensorInfo u) = uint v \<and> gInfo u = gInfo s \<and> actionInfo u = actionInfo s \<and> rtc_regs u = rtc_regs s \<and>
    rtc_found u = rtc_found s \<and> timeRun u = timeRun s \<and> ctlStatics u = ctlStatics s \<and> main_time1S u = main_time1S s"
proof -
  define f where "f = with_crc [a, WRITE_SINGLE, 0xF0, 0x02, hi8 v, lo8 v]"
  have f: "length f = 8" "(f @ rest) ! 0 = a" "(f @ rest) ! 1 = WRITE_SINGLE" "(f @ rest) ! 2 = 0xF0" "(f @ rest) ! 3 = 0x02"
    "(f @ rest) ! 4 = hi8 v" "(f @ rest) ! 5 = lo8 v"
    by (simp_all add: f_def with_crc_def)
  have crc: "mk16 ((f @ rest) ! 7) ((f @ rest) ! 6) = usModbusRTU_CRC (take 6 (f @ rest))"
    using frame_check_buffer [of f rest] f(1) with_crc_residue by (simp add: f_def)
  have reg: "mk16 0xF0 0x02 = REG_NOW_TEMP" by (simp add: mk16_def)
  have m: "ModbusCommand WRITE_CMD REG_NOW_TEMP v s = (v, upd_sensor (\<lambda>i. i\<lparr>sensorTemp := uint v\<rparr>) s)"
    by (simp add: ModbusCommand_def ModbusCommand_ctrl_def ModbusCommand_set_def ModbusCommand_sensor_def Let_def)
  define u where "u = SetLastConnectTime (GetTimeRun (cmd_write_single (f @ rest) s)) (cmd_write_single (f @ rest) s)"
  have U: "Uart1Analysis (f @ rest) 8 s = Some u"
    using assms f crc by (auto simp: Uart1Analysis_def ModbusCommandAnalysis_def GetGlobalInfo_def u_def Let_def)
  have c: "cmd_write_single (f @ rest) s =
      (if a \<noteq> 0 then snd (AddToSendMsgList (f @ rest) 8 (upd_sensor (\<lambda>i. i\<lparr>sensorTemp := uint v\<rparr>) s))
       else upd_sensor (\<lambda>i. i\<lparr>sensorTemp := uint v\<rparr>) s)"
    unfolding cmd_write_single_def f Let_def by (simp add: reg m)
  have "sensorTemp (sensorInfo u) = uint v" "gInfo u = gInfo s" "actionInfo u = actionInfo s" "rtc_regs u = rtc_regs s"
    "rtc_found u = rtc_found s" "timeRun u = timeRun s"
    by (simp_all add: u_def c SetLastConnectTime_def AddToSendMsgList_def malloc_outcome_def Let_def)
  moreover have "ctlStatics u = ctlStatics s" "main_time1S u = main_time1S s"
    using thermo_bus.Uart1Analysis_view [OF U] timer_bus.Uart1Analysis_view [OF U] by simp_all
  ultimately show ?thesis using U unfolding f_def by blast
qed

section \<open>When a pass of the communication task is undefined\<close>

lemma UartEntry_pass_undefined:
  assumes "UartEntry_pass s = None"
  shows "messageFlag (uart1_msg s) = YES \<and> rx_data (uart1_msg s) ! 1 = READ_MUTI \<and> 126 \<le> unat (rx_data (uart1_msg s) ! 5)"
proof -
  define d where "d = rx_data (uart1_msg s)"
  have wrap: "126 \<le> unat sz" if "unat (sz * 2 + 5) < unat sz * 2 + 5" for sz :: u8
  proof (rule ccontr)
    assume "\<not> 126 \<le> unat sz"
    then have "unat (sz * 2 + 5) = unat sz * 2 + 5" by (simp add: unat_word_ariths)
    then show False using that by simp
  qed
  have "cmd_read_muti d x = None \<Longrightarrow> 126 \<le> unat (d ! 5)" for x :: "'a flash_t_scheme"
    by (auto simp: cmd_read_muti_def split_beta Let_def intro: wrap split: if_splits)
  then have "ModbusCommandAnalysis d x = None \<Longrightarrow> d ! 1 = READ_MUTI \<and> 126 \<le> unat (d ! 5)" for x :: "'a flash_t_scheme"
    by (auto simp: ModbusCommandAnalysis_def Let_def split: if_splits)
  then have "Uart1Analysis d n x = None \<Longrightarrow> d ! 1 = READ_MUTI \<and> 126 \<le> unat (d ! 5)" for n and x :: "'a flash_t_scheme"
    by (auto simp: Uart1Analysis_def Let_def split: if_splits)
  then show ?thesis
    using assms unfolding d_def
    by (auto simp: UartEntry_pass_def Uart1HasRecv_def Uart1CleanRecvFlag_def GetUart1Message_def split_beta Let_def
        split: if_splits option.splits)
qed

lemma ControlProgram_undefined: "ControlProgram s = None \<longleftrightarrow> fst (GetTempValue s) = None"
  by (auto simp: ControlProgram_def Let_def split: prod.split option.split)

interpretation sensor_led: tick_observer ntc_view
  by unfold_locales (simp_all add: ntc_view_def)

lemma main_pass_undefined: "main_pass s = None \<longleftrightarrow> \<not> main_time1S s < 50 \<and> fst (GetTempValue s) = None"
proof -
  let ?x = "main_tick s"
  have "gInfo ?x = gInfo s" "sensorInfo ?x = sensorInfo s"
    using decision_led.main_tick_view [of s] by (simp_all add: decision_view_def)
  moreover have "ntc_view (TimeRunning ?x) = ntc_view ?x" by (simp add: ntc_view_def TimeRunning_def)
  ultimately have "fst (GetTempValue (TimeRunning ?x)) = fst (GetTempValue s)"
    by (intro GetTempValue_cong) (simp_all add: TimeRunning_def)
  then show ?thesis by (simp add: main_pass_tick main_tick_timer ControlProgram_undefined)
qed

end
