(* ===== verification/Spec2Isabelle.thy ===== *)
theory Spec2Isabelle
  imports Hvac_Boot Hvac_Alloc Hvac_System
begin

text \<open>
  A verification library for the firmware of an HVAC thermostat module: an STM32G070 board running
  RT-Thread, with five relays, a local NTC temperature sensor, a Modbus link to a master, a
  128x64 display and three keys. The sources are under
  \<^verbatim>\<open>src/Hvac/Hvac/applications\<close>, with the parts of RT-Thread
  (\<^verbatim>\<open>src/Hvac/Hvac/rt-thread\<close>) and of the board drivers they rest on.

  \<^bold>\<open>The program.\<close> Four threads share one global state. The main thread
  (\<^verbatim>\<open>main.c\<close>) blinks the status light every 20 ms and once a second counts the time,
  runs \<^verbatim>\<open>ControlProgram\<close> and watches the link. The communication thread
  (\<^verbatim>\<open>Uart/\<close>) takes frames from the receive callback, answers register reads and writes
  through a send list, registers the module with the master and saves the settings in flash. The
  display thread (\<^verbatim>\<open>Oled/\<close>) draws the page on top of a page stack and edits the
  settings. The button thread (\<^verbatim>\<open>Button/\<close>) debounces the keys and calls the callbacks of
  \<^verbatim>\<open>Pages.c\<close>. The control program reads the settings, the remote or local temperature and
  the clock, and drives the relays.

  \<^bold>\<open>How the state is modelled.\<close> One chain of records, each theory extending the one it
  builds on: \<open>gpio_t\<close> (pins, location flag, unique id), \<open>rtc_t\<close> (clock
  registers), \<open>ntc_t\<close> (converter samples, averaging list), \<open>ctl_t\<close> (settings,
  sensor and action data, statics of the control program), \<open>comm_t\<close> (message lists, sent
  frames), \<open>uart_t\<close> (receive buffer), \<open>flash_t\<close>, \<open>lcd_t\<close> (frame buffer,
  bits on the display lines), \<open>pages_t\<close>, \<open>btn_t\<close>, \<open>oled_t\<close> and
  \<open>main_t\<close>. C integers are words of their width; \<^verbatim>\<open>int\<close> is
  \<open>int\<close>, and so is \<^verbatim>\<open>time_t\<close>, with the wrap of the target's 32-bit signed type
  written out (\<open>time_t\<close> in \<open>Hvac_Time\<close>). Operations are functions on these records with the
  names of the C functions; where C has undefined behaviour (division by zero, a buffer overrun, a
  null callback) the result is \<open>None\<close>. Endless task loops are a start function and a
  function for one pass. Hardware answers are fields of the state: converter samples, allocation
  outcomes, HAL results, flash contents, fonts, memory behind a buffer.

  \<^bold>\<open>The theories.\<close>
  \<^item> \<open>Hvac_Prelude\<close>: integer types, byte accessors, named collections, shared lemmas.
  \<^item> \<open>Hvac_Crc\<close>: \<^verbatim>\<open>usModbusRTU_CRC\<close> of \<^verbatim>\<open>Gpio.c\<close> and
    \<^verbatim>\<open>crc_32.c\<close>. The CRC-32 table routine equals the bitwise division; the CRC-16 of a frame
    with its checksum is 0 and every single-byte change is seen.
  \<^item> \<open>Hvac_Gpio\<close>: \<^verbatim>\<open>Gpio.c\<close> and the pin driver; \<^verbatim>\<open>TimerTask\<close>.
  \<^item> \<open>Hvac_Time\<close>: \<^verbatim>\<open>time.c\<close>, \<^verbatim>\<open>rtc.c\<close>,
    \<^verbatim>\<open>drv_rtc.c\<close> and the calendar functions of \<^verbatim>\<open>main.c\<close>: round trips between
    time stamps, calendar and clock registers, up to the last second of a 32-bit \<^verbatim>\<open>time_t\<close>
    and after it.
  \<^item> \<open>Hvac_Ntc\<close>: \<^verbatim>\<open>Adc/Ntc.c\<close>: the table search is linear interpolation,
    antitone in the resistance; the value is a moving average.
  \<^item> \<open>Hvac_Control\<close>: \<^verbatim>\<open>Control/Control.c\<close>: refinement of an abstract
    thermostat (\<open>thermo_step\<close>; \<open>required_call\<close> is the requirements document's) and of the wiring contract (\<open>relay_spec\<close>), relay
    interlock, staging of a call over time, day and night, link time-out.
  \<^item> \<open>Hvac_List\<close>: the intrusive lists of \<^verbatim>\<open>rtservice.h\<close> at pointer level,
    refining lists.
  \<^item> \<open>Hvac_Rings\<close>: many such rings in one store, with what inserting, removing and
    moving a node does to each of them.
  \<^item> \<open>Hvac_Kernel\<close>: the part of the RT-Thread kernel that runs the tasks, as definitions:
    \<^verbatim>\<open>scheduler.c\<close>, the thread operations of \<^verbatim>\<open>thread.c\<close>, the timer list
    of \<^verbatim>\<open>timer.c\<close>, \<^verbatim>\<open>clock.c\<close>, \<^verbatim>\<open>irq.c\<close>,
    \<^verbatim>\<open>SysTick_Handler\<close> and \<^verbatim>\<open>rtthread_startup\<close>. The record
    \<open>kernel_t\<close> holds the thread and timer objects, the list nodes, the bitmap of the ready
    queues and the counters.
  \<^item> \<open>Hvac_Sched\<close>: the ready queues (\<open>lists_ok\<close>, \<open>threads_ok\<close>) and
    \<^verbatim>\<open>rt_schedule\<close> against \<open>schedule_spec\<close>, a function on queues.
  \<^item> \<open>Hvac_Tick\<close>: the timer list is sorted by the time left to each time-out
    (\<open>timers_ok\<close>); starting a timer, a time-out, the check of the tick interrupt.
  \<^item> \<open>Hvac_Threads\<close>: the invariant \<open>kernel_inv\<close> of the whole kernel, kept by
    the tick and by every interrupt-locked section of the calls (\<open>kevent\<close>,
    \<open>kernel_step\<close>) in any order, where its demands are met (\<open>legal\<close>);
    \<open>top_runs\<close>, the most important thread runs, unless \<^verbatim>\<open>rt_schedule\<close> is due
    (\<open>decision_due\<close>).
  \<^item> \<open>Hvac_Boot\<close>: start-up reaches the invariant; the properties of the kernel.
  \<^item> \<open>Hvac_Kservice\<close>: the memory and string routines of
    \<^verbatim>\<open>rt-thread/src/kservice.c\<close> on a byte memory: the word loops of
    \<^verbatim>\<open>rt_memset\<close> and \<^verbatim>\<open>rt_memcpy\<close> equal byte loops, the string functions end on
    terminated strings and answer what they promise.
  \<^item> \<open>Hvac_Mem\<close>: the heap of \<^verbatim>\<open>rt-thread/src/mem.c\<close>, its headers in the
    same byte memory: the header chain (\<open>seg\<close>, \<open>chain\<close>), what splitting, marking and
    joining blocks do to it, \<^verbatim>\<open>rt_malloc\<close> as first fit and \<^verbatim>\<open>rt_free\<close> as
    coalescing on block lists.
  \<^item> \<open>Hvac_Alloc\<close>: the contract of an allocator of disjoint regions as the locale
    \<open>region_allocator\<close>, the heap as its instance, and on it \<^verbatim>\<open>rt_calloc\<close>,
    \<^verbatim>\<open>rt_realloc\<close> and \<^verbatim>\<open>rt_strdup\<close>; arbitrary sequences of calls and stores
    of a client.
  \<^item> \<open>Hvac_Comm\<close>: \<^verbatim>\<open>Uart/Communicate.c\<close>: capacity, duplicate check, draining.
  \<^item> \<open>Hvac_Modbus\<close>: \<^verbatim>\<open>Uart/UartDataLayer.c\<close>: frame check, registration, the
    register file, answers.
  \<^item> \<open>Hvac_Uart\<close>: \<^verbatim>\<open>Uart/Uart.c\<close>: the settings block in flash and the task.
  \<^item> \<open>Hvac_Lcd\<close>: \<^verbatim>\<open>Oled/st7567/ST7567.c\<close>: pixels, lines, the byte stream on
    the display lines.
  \<^item> \<open>Hvac_Pages\<close>: \<^verbatim>\<open>Oled/Pages.c\<close> and the page stack; \<open>Hvac_Settings\<close>:
    its lemmas. A pass of the setting page edits the one setting or clock field under the cursor;
    stepped cells are instances of the locales \<open>ranged\<close> and \<open>stepper\<close>.
  \<^item> \<open>Hvac_Button\<close>: \<^verbatim>\<open>Button/ButtonTask.c\<close>: classification of presses.
  \<^item> \<open>Hvac_Oled\<close>: \<^verbatim>\<open>Oled/Oled.c\<close>: the page stack as a bounded stack, the
    invariant of the user interface, the back light.
  \<^item> \<open>Hvac_Main\<close>: \<^verbatim>\<open>main.c\<close>: status light, start-up, one pass of the loop.
  \<^item> \<open>Hvac_System\<close>: the tasks together. The observer locales say which updates a pass
    makes; \<open>hvac_step\<close> interleaves the passes and the hardware; \<open>reachable\<close> and
    the invariant \<open>sys_inv\<close>.
  \<^item> This theory: the properties of the whole program.

  \<^bold>\<open>Bounds and fuel.\<close> Loops with a counter are structural recursions on the number of
  rounds. The line and edge loops of the display driver recurse on the number of points, which the
  source computes before the loop; the circle loop on its own measure. List traversals at pointer
  level are partial functions, \<open>None\<close> when they do not return; the refinement theorem shows
  that they return on every well-formed ring. The search loops of the heap and the loops to a string
  terminator are partial functions as well; they are proved to return on well-formed heaps and
  terminated strings, and not to return on a heap too small for one block. The same holds for the
  search of the timer list and the loop over the due timers (\<open>timer_slot\<close>,
  \<open>timer_check_loop\<close>), which return in every state of \<open>kernel_inv\<close>. \<open>walk\<close>, which
  lists the blocks of a heap, takes the size of the heap as fuel; a block has at least sixteen
  bytes. Sizes of the heap are natural numbers with the wrap at \<open>2 ^ 32\<close> written out
  (\<open>usz\<close>, \<open>usub\<close>).
  \<open>press_classification\<close> is stated for holds of up to 65 seconds, where the 16-bit hold time
  wraps.

  \<^bold>\<open>Atomicity.\<close> A pass of a task is one step. RT-Thread can preempt a pass between any two
  instructions; races inside a pass, for example a settings change while the control program runs,
  are not covered. The heap operations run under their semaphore and are modelled for a caller that
  does not have to wait; the application theories see of the heap only whether an allocation
  succeeds (\<open>malloc_outcome\<close>). In the kernel the steps are smaller: a section of a call
  between \<^verbatim>\<open>rt_hw_interrupt_disable\<close> and \<^verbatim>\<open>rt_hw_interrupt_enable\<close> is one event, and
  other events may come between the sections of one call. The tick handler is one event: no other
  interrupt handler of the firmware calls the kernel. \<open>Create\<close> takes
  \<^verbatim>\<open>rt_thread_init\<close> and the assignments of \<^verbatim>\<open>rt_thread_startup\<close> together, on a thread no
  other code knows yet; a thread that is created and never started is not a state of the model. A
  thread's state is tested in the section that relies on it; that
  \<^verbatim>\<open>rt_thread_resume\<close> and \<^verbatim>\<open>rt_thread_suspend\<close> test it before they disable
  interrupts is a defect the events leave out. The application
  theories and the kernel theories are not connected: which task runs when is left open in
  \<open>hvac_step\<close>. The tasks start in the order in which \<^verbatim>\<open>main\<close> creates them.

  \<^bold>\<open>Not modelled.\<close> Thread creation (\<^verbatim>\<open>ButtonTaskInit\<close>,
  \<^verbatim>\<open>OledInit\<close>, \<^verbatim>\<open>UartInit\<close>), delays and console output; the glyph bitmaps, which
  are data; of the RT-Thread kernel the saving of registers in a context switch (a thread's stack pointer stays
  at its first frame, so the stack check of \<^verbatim>\<open>rt_schedule\<close> is evaluated on that value only), the end of a thread,
  software timers, object names, the communication between threads (waiting on semaphores, mail
  boxes, queues) and formatted output; the HAL and CMSIS, whose documented behaviour appears as
  fields of the state; the RT-Thread components the application does not call (file systems, shell, network).
\<close>

section \<open>Properties of the whole program\<close>

text \<open>
  C1. The system invariant. In every state that the four tasks and the hardware can reach from
  start-up, by any interleaving of task passes, received frames, key movements and clock changes,
  the relays are in a safe combination, the statics of the control program are in range, the menu,
  cursor and page state of the user interface is consistent, and every button has its callback.
\<close>

theorem system_invariant:
  assumes "reachable s"
  shows "relay_safe (relays s) \<and> thermo_inv s \<and> ui_inv s \<and> buttons_ok s"
  using reachable_inv [OF assms] by (simp add: sys_inv_def)

definition boot_demo :: main_t where
  "boot_demo = main_demo\<lparr>pageSelect := \<lparr>cusor_show = 0, cusor_home = 0, cusor_max = 0, cusor = 0, showMore = 0, select = 0,
       lastCusor = 0, changeValue = 0, up = 0, down = 0\<rparr>, pageInfor := 0, set_min := 1, set_max := 5,
     nowPagePre := 0xFF, buttonList := [btn_zero, btn_zero, btn_zero], btn_cooling := [0, 0, 0], on_set_pre := [0, 0, 0],
     btn_index := 0, pins := (\<lambda>_. 0)\<rparr>"

lemma boot_demo_booted: "booted boot_demo"
  by (simp add: booted_def boot_demo_def relays_def main_demo_simps)

theorem system_invariant_witness: "relay_safe (relays (sys_start boot_demo)) \<and> buttons_ok (sys_start boot_demo)"
  using system_invariant [OF reachable.start [OF boot_demo_booted]] by simp

text \<open>
  C2. Who moves the relays. From a reachable state, a step that is not a pass of the main task
  leaves the five relays and the statics of the control program exactly as they were: neither the
  bus, nor the display, nor the keys switch anything themselves.
\<close>

theorem only_main_moves_relays:
  assumes "reachable s" and "hvac_step s s'"
  shows "main_pass s = Some s' \<or> relays s' = relays s \<and> ctlStatics s' = ctlStatics s"
  using hvac_step_inv [OF assms(2) reachable_inv [OF assms(1)]] by blast

theorem only_main_moves_relays_witness:
  "let s = sys_start boot_demo; s' = s\<lparr>pins := (pins s)(KEY_UP := 1)\<rparr>
   in main_pass s = Some s' \<or> relays s' = relays s \<and> ctlStatics s' = ctlStatics s"
  unfolding Let_def
  by (rule only_main_moves_relays [OF reachable.start [OF boot_demo_booted] hvac_step.key]) simp



text \<open>
  C3. The thermostat reacts at the end of the current second of the main loop. With the temperature coming from
  the bus, a set point and a known wiring, the main task comes through every pass up to the one that ends
  its second. These are 51 passes at most, each after a delay of 20 ms: up to 1.02 s and the time the
  passes take. The last one advances the second counter by one, makes one
  step of the abstract thermostat with the present temperature, set point and dead band, and the
  relays are then those of the wiring contract for the resulting call and stage. The abstract thermostat
  is the one of the source; where it departs from the requirements document is stated with
  \<open>ControlProgram_refines\<close> and \<open>second_stage_iff\<close> in \<open>Hvac_Control\<close>.
\<close>

theorem thermostat_reacts:
  assumes "unat (main_time1S s) \<le> 50" and "tempFrom (gInfo s) = TEMP_FROM_REMOTE" and "sensorTemp (sensorInfo s) \<noteq> VALUE_NULL"
    and "sint (GetSetPoint s) \<noteq> VALUE_NULL" and "wiring_of (mode (gInfo s)) = Some w" and "thermo_inv s"
  shows "\<exists>s'. main_run (51 - unat (main_time1S s)) s = Some s' \<and> timeRun s' = timeRun s + 1 \<and>
    thermo_abs s' = thermo_step (timeRun s + 1) (sensorTemp (sensorInfo s)) (sint (GetSetPoint s)) (uint (deadBand (gInfo s)))
      (thermo_abs s) \<and>
    relays s' = relay_spec w (tcall (thermo_abs s')) (high (thermo_abs s'))"
  using main_run_second [OF assms(1,2) refl assms(3-6)] by blast

lemma main_demo_control:
  "GetSetPoint main_demo = 250" "thermo_abs main_demo = \<lparr>tcall = Idle, since = 0, ref_temp = 0, high = False\<rparr>"
  "thermo_inv main_demo" "tempFrom (gInfo main_demo) = TEMP_FROM_REMOTE" "sensorTemp (sensorInfo main_demo) = 310"
  "wiring_of (mode (gInfo main_demo)) = Some Conventional" "deadBand (gInfo main_demo) = 50" "timeRun main_demo = 100"
  "main_time1S main_demo = 0" "addr (gInfo main_demo) = 1"
  by (simp_all add: main_demo_simps GetSetPoint_def GetActionInfo_def GetGlobalInfo_def thermo_abs_def thermo_inv_def call_of_def wiring_of_def)

theorem thermostat_reacts_witness: "\<exists>s'. main_run 51 main_demo = Some s' \<and> relays s' = (0, 1, 1, 0, 0)"
  using thermostat_reacts [of main_demo Conventional] main_demo_control
  by (auto simp: thermo_step_def call_for_def relay_spec_def flag_def Let_def)



end
